(* ===== verification/Prelude.thy ===== *)
theory Prelude
  imports Main "HOL-Library.Char_ord" "HOL-Library.List_Lexorder" "HOL-Library.Product_Lexorder"
begin

text \<open>
  Shared vocabulary of the development: Python dictionaries as association lists in
  insertion order, SQL tables as lists of rows in scan order with the four statement
  shapes the query layer uses (select, insert, update, delete), stable ascending and
  descending \<open>ORDER BY\<close>, and the generic lemmas about them.
\<close>

named_theorems py_simps \<open>characteristic equations of the Python helpers\<close>
named_theorems sql_simps \<open>membership and frame facts of the table operations\<close>

type_synonym ident = string
type_synonym timestamp = int

section \<open>Python dictionaries\<close>

type_synonym ('k, 'v) dict = "('k \<times> 'v) list"

abbreviation keys :: "('k, 'v) dict \<Rightarrow> 'k list" where
  "keys d \<equiv> map fst d"

abbreviation dict_get :: "('k, 'v) dict \<Rightarrow> 'k \<Rightarrow> 'v option" where
  "dict_get d k \<equiv> map_of d k"

fun dict_set :: "'k \<Rightarrow> 'v \<Rightarrow> ('k, 'v) dict \<Rightarrow> ('k, 'v) dict" where
  "dict_set k v [] = [(k, v)]"
| "dict_set k v ((k', v') # d) = (if k' = k then (k, v) # d else (k', v') # dict_set k v d)"

definition dict_setdefault :: "'k \<Rightarrow> 'v \<Rightarrow> ('k, 'v) dict \<Rightarrow> ('k, 'v) dict" where
  "dict_setdefault k v d = (if k \<in> set (keys d) then d else d @ [(k, v)])"

text \<open>\<open>d.setdefault(k, []).append(x)\<close>\<close>

definition dict_append :: "'k \<Rightarrow> 'a \<Rightarrow> ('k, 'a list) dict \<Rightarrow> ('k, 'a list) dict" where
  "dict_append k x d =
     (case map_of d k of None \<Rightarrow> d @ [(k, [x])] | Some xs \<Rightarrow> dict_set k (xs @ [x]) d)"

text \<open>\<open>del d[k]\<close> of a present key, \<open>d.pop(k, None)\<close> of any.\<close>

definition dict_del :: "'k \<Rightarrow> ('k, 'v) dict \<Rightarrow> ('k, 'v) dict" where
  "dict_del k d = filter (\<lambda>p. fst p \<noteq> k) d"

lemma map_of_dict_del [simp, py_simps]: "map_of (dict_del k d) = (map_of d)(k := None)"
  by (induction d) (auto simp: dict_del_def fun_eq_iff)

lemma keys_dict_del [py_simps]: "set (keys (dict_del k d)) = set (keys d) - {k}"
  by (auto simp: dict_del_def)

lemma map_of_dict_set [simp, py_simps]: "map_of (dict_set k v d) = (map_of d)(k \<mapsto> v)"
  by (induction d) (auto simp: fun_eq_iff)

lemma dict_set_twice [simp]: "dict_set k v (dict_set k w d) = dict_set k v d"
  by (induction d) auto

lemma keys_dict_set [py_simps]: "set (keys (dict_set k v d)) = insert k (set (keys d))"
  using dom_map_of_conv_image_fst[of "dict_set k v d"] dom_map_of_conv_image_fst[of d] by simp

lemma map_of_snoc: "map_of (d @ [(k, v)]) = (\<lambda>x. if map_of d x = None \<and> x = k then Some v else map_of d x)"
  by (auto simp: fun_eq_iff map_add_def split: option.splits)

lemma map_of_None_keys: "map_of d k = None \<longleftrightarrow> k \<notin> set (keys d)"
  by (simp add: map_of_eq_None_iff)

lemma dict_setdefault_alt:
  "dict_setdefault k v d = (if map_of d k = None then d @ [(k, v)] else d)"
  by (simp add: dict_setdefault_def map_of_eq_None_iff)

lemma map_of_dict_setdefault [py_simps]:
  "map_of (dict_setdefault k v d) =
     (\<lambda>x. if map_of d x = None \<and> x = k then Some v else map_of d x)"
  unfolding dict_setdefault_alt
  by (cases "map_of d k") (auto simp: map_of_snoc fun_eq_iff simp del: map_of_append)

lemma keys_dict_setdefault [py_simps]:
  "set (keys (dict_setdefault k v d)) = insert k (set (keys d))"
  by (auto simp: dict_setdefault_def)

lemma distinct_dict_set: "distinct (keys d) \<Longrightarrow> distinct (keys (dict_set k v d))"
proof (induction d)
  case (Cons p d)
  obtain k' v' where p: "p = (k', v')" by force
  with Cons have IH: "distinct (keys (dict_set k v d))" and nin: "k' \<notin> set (keys d)" by auto
  show ?case
  proof (cases "k' = k")
    case False
    with nin have "k' \<notin> set (keys (dict_set k v d))" by (simp only: keys_dict_set) simp
    with False IH p show ?thesis by simp
  qed (use Cons.prems p in auto)
qed simp

lemma map_of_dict_append [py_simps]:
  "map_of (dict_append k x d) =
     (map_of d)(k \<mapsto> (case map_of d k of None \<Rightarrow> [x] | Some xs \<Rightarrow> xs @ [x]))"
  by (cases "map_of d k") (simp_all add: dict_append_def map_of_snoc fun_eq_iff del: map_of_append)

lemma map_of_keyed: "map_of (map (\<lambda>k. (k, f k)) ks) x = (if x \<in> set ks then Some (f x) else None)"
  by (induction ks) auto

text \<open>Grouping rows by key, as the readers do with \<open>setdefault(...).append(...)\<close>.\<close>

fun group_rows :: "('a \<Rightarrow> 'k) \<Rightarrow> ('a \<Rightarrow> 'v) \<Rightarrow> 'a list \<Rightarrow> ('k, 'v list) dict \<Rightarrow> ('k, 'v list) dict"
  where
  "group_rows k f [] d = d"
| "group_rows k f (r # rs) d = group_rows k f rs (dict_append (k r) (f r) d)"

lemma map_of_group_rows_aux:
  "map_of (group_rows k f rs d) x =
     (if filter (\<lambda>r. k r = x) rs = [] then map_of d x
      else Some ((case map_of d x of None \<Rightarrow> [] | Some xs \<Rightarrow> xs)
                 @ map f (filter (\<lambda>r. k r = x) rs)))"
  by (induction rs arbitrary: d) (auto simp: map_of_dict_append split: option.splits)

text \<open>\<open>grouped.get(x, [])\<close> after grouping: exactly the rows with that key, in row order.\<close>

lemma group_rows_get [py_simps]:
  "(case map_of (group_rows k f rs []) x of None \<Rightarrow> [] | Some xs \<Rightarrow> xs)
     = map f (filter (\<lambda>r. k r = x) rs)"
  by (simp add: map_of_group_rows_aux)

section \<open>SQL statements over tables\<close>

text \<open>
  A table is the list of its rows in scan order. \<open>UPDATE ... SET ... WHERE\<close> rewrites the
  matching rows in place, \<open>DELETE ... WHERE\<close> keeps the others; an \<open>INSERT\<close> appends.
  \<open>fetchone\<close> of a select is its first row, if any.
\<close>

definition sql_update :: "('r \<Rightarrow> bool) \<Rightarrow> ('r \<Rightarrow> 'r) \<Rightarrow> 'r list \<Rightarrow> 'r list" where
  "sql_update P f rows = map (\<lambda>r. if P r then f r else r) rows"

definition sql_delete :: "('r \<Rightarrow> bool) \<Rightarrow> 'r list \<Rightarrow> 'r list" where
  "sql_delete P rows = filter (\<lambda>r. \<not> P r) rows"

definition fetchone :: "'r list \<Rightarrow> 'r option" where
  "fetchone rows = (case rows of [] \<Rightarrow> None | r # _ \<Rightarrow> Some r)"

definition order_by :: "('r \<Rightarrow> 'k::linorder) \<Rightarrow> 'r list \<Rightarrow> 'r list" where
  "order_by k rows = sort_key k rows"

definition order_by_desc :: "('r \<Rightarrow> 'k::linorder) \<Rightarrow> 'r list \<Rightarrow> 'r list" where
  "order_by_desc k rows = rev (sort_key k (rev rows))"

lemma fetchone_None [sql_simps]: "fetchone rows = None \<longleftrightarrow> rows = []"
  by (simp add: fetchone_def split: list.splits)

lemma fetchone_Some_in: "fetchone rows = Some r \<Longrightarrow> r \<in> set rows"
  by (auto simp: fetchone_def split: list.splits)

lemma fetchone_simps [simp]: "fetchone [] = None" "fetchone (r # rs) = Some r"
  by (simp_all add: fetchone_def)

lemma set_order_by [simp, sql_simps]: "set (order_by k rows) = set rows"
  by (simp add: order_by_def)

lemma set_order_by_desc [simp, sql_simps]: "set (order_by_desc k rows) = set rows"
  by (simp add: order_by_desc_def)

lemma length_order_by [simp]: "length (order_by k rows) = length rows"
  by (simp add: order_by_def)

lemma length_order_by_desc [simp]: "length (order_by_desc k rows) = length rows"
  by (simp add: order_by_desc_def)

lemma sort_key_map:
  assumes "\<And>x. f (g x) = f x"
  shows "sort_key f (map g xs) = map g (sort_key f xs)"
proof (induction xs)
  case (Cons x xs)
  have "insort_key f (g x) (map g ys) = map g (insort_key f x ys)" for ys
    using assms by (induction ys) simp_all
  with Cons show ?case by simp
qed simp

lemma order_by_desc_map: "(\<And>x. f (g x) = f x) \<Longrightarrow> order_by_desc f (map g xs) = map g (order_by_desc f xs)"
  by (simp add: order_by_desc_def rev_map sort_key_map)

lemma order_by_desc_sorted: "sorted_wrt (\<lambda>a b. k a \<ge> k b) (order_by_desc k rows)"
proof -
  have "sorted (map k (sort_key k (rev rows)))" by simp
  then have "sorted_wrt (\<lambda>a b. k a \<le> k b) (sort_key k (rev rows))"
    by (simp add: sorted_map)
  then show ?thesis by (simp add: order_by_desc_def sorted_wrt_rev)
qed

lemma order_by_desc_first:
  assumes "order_by_desc k rows = r # rest" and "x \<in> set rows"
  shows "k x \<le> k r"
proof -
  have "x \<in> set (r # rest)" using assms set_order_by_desc[of k rows] by simp
  moreover have "sorted_wrt (\<lambda>a b. k a \<ge> k b) (r # rest)"
    using order_by_desc_sorted[of k rows] assms(1) by simp
  ultimately show ?thesis by auto
qed

lemma order_by_desc_Nil [simp]: "order_by_desc k rows = [] \<longleftrightarrow> rows = []"
  by (metis length_0_conv length_order_by_desc)

lemma order_by_Nil [simp]: "order_by k rows = [] \<longleftrightarrow> rows = []"
  by (metis length_0_conv length_order_by)

lemma length_sql_update [simp, sql_simps]: "length (sql_update P f rows) = length rows"
  by (simp add: sql_update_def)

lemma map_sql_update: "(\<And>r. g (f r) = g r) \<Longrightarrow> map g (sql_update P f rows) = map g rows"
  by (simp add: sql_update_def)

lemma sql_update_id: "(\<And>r. r \<in> set rows \<Longrightarrow> \<not> P r) \<Longrightarrow> sql_update P f rows = rows"
  by (induction rows) (auto simp: sql_update_def)

lemma filter_sql_update:
  "(\<And>r. Q (if P r then f r else r) = Q r) \<Longrightarrow>
     filter Q (sql_update P f rows) = sql_update P f (filter Q rows)"
  by (induction rows) (auto simp: sql_update_def)

lemma in_sql_update: "r \<in> set (sql_update P f rows) \<longleftrightarrow> (\<exists>q\<in>set rows. r = (if P q then f q else q))"
  by (auto simp: sql_update_def)

lemma ball_sql_update: "(\<forall>r\<in>set (sql_update P f rows). Q r) \<longleftrightarrow> (\<forall>r\<in>set rows. Q (if P r then f r else r))"
  by (induction rows) (simp_all add: sql_update_def)

lemma in_sql_delete: "r \<in> set (sql_delete P rows) \<longleftrightarrow> r \<in> set rows \<and> \<not> P r"
  by (auto simp: sql_delete_def)

section \<open>Lists\<close>

lemma distinct_key_unique: "distinct (map f xs) \<Longrightarrow> x \<in> set xs \<Longrightarrow> y \<in> set xs \<Longrightarrow> f x = f y \<Longrightarrow> x = y"
  by (auto simp: distinct_map inj_on_def)

lemma filter_key_single:
  "distinct (map f xs) \<Longrightarrow> x \<in> set xs \<Longrightarrow> filter (\<lambda>y. f y = f x) xs = [x]"
proof (induction xs)
  case (Cons a xs)
  show ?case
  proof (cases "a = x")
    case True
    with Cons.prems have "filter (\<lambda>y. f y = f x) xs = []"
      by (auto simp: filter_empty_conv image_iff)
    with True show ?thesis by simp
  next
    case False
    with Cons.prems have "f a \<noteq> f x" by auto
    with Cons False show ?thesis by simp
  qed
qed simp

section \<open>Transition systems\<close>

text \<open>
  Two interfaces shared by the components with a step relation: a system with an inductive
  invariant, and one whose steps moreover move along a preorder.
\<close>

locale invariant_system =
  fixes step :: "'s \<Rightarrow> 's \<Rightarrow> bool" and inv :: "'s \<Rightarrow> bool"
  assumes preserved: "inv s \<Longrightarrow> step s s' \<Longrightarrow> inv s'"
begin

lemma invariant: "step\<^sup>*\<^sup>* s s' \<Longrightarrow> inv s \<Longrightarrow> inv s'"
  by (induction rule: rtranclp_induct) (auto intro: preserved)

end

locale growing_system = invariant_system +
  fixes grows :: "'a \<Rightarrow> 'a \<Rightarrow> bool"
  assumes grows_refl: "grows s s"
    and grows_trans: "grows s t \<Longrightarrow> grows t u \<Longrightarrow> grows s u"
    and step_grows: "inv s \<Longrightarrow> step s s' \<Longrightarrow> grows s s'"
begin

lemma run_grows: "step\<^sup>*\<^sup>* s s' \<Longrightarrow> inv s \<Longrightarrow> grows s s'"
proof (induction rule: rtranclp_induct)
  case (step t u)
  from invariant[OF step.hyps(1) step.prems] step_grows[OF _ step.hyps(2)] step.IH[OF step.prems]
  show ?case by (blast intro: grows_trans)
qed (rule grows_refl)

end

text \<open>A system that refines another one: each of its steps is matched by at most one step of the other.\<close>

locale simulation = invariant_system +
  fixes abs :: "'a \<Rightarrow> 'b" and contract :: "'b \<Rightarrow> 'b \<Rightarrow> bool"
  assumes simulates: "inv s \<Longrightarrow> step s s' \<Longrightarrow> abs s' = abs s \<or> contract (abs s) (abs s')"
begin

lemma run_simulates: "step\<^sup>*\<^sup>* s s' \<Longrightarrow> inv s \<Longrightarrow> contract\<^sup>*\<^sup>* (abs s) (abs s')"
proof (induction rule: rtranclp_induct)
  case (step t u)
  from simulates[OF invariant[OF step.hyps(1) step.prems] step.hyps(2)] step.IH[OF step.prems]
  show ?case by (auto intro: rtranclp.rtrancl_into_rtrancl)
qed simp

end

end
