(* ===== verification/Py_Text.thy ===== *)
theory Py_Text
  imports Prelude
begin

text \<open>
  The part of Python's \<open>str\<close>, \<open>int\<close> and \<open>datetime\<close> the code uses, on strings whose code
  points are the 256 values of \<open>char\<close>: white space, \<open>strip\<close>, \<open>lower\<close>, \<open>split\<close>,
  \<open>rsplit\<close>, \<open>startswith\<close>, \<open>join\<close>, the \<open>int(...)\<close> constructor (blanks around the
  numeral, a sign, single underscores between digits; \<open>None\<close> is the \<open>ValueError\<close>),
  \<open>str(n)\<close>, and \<open>datetime.isoformat\<close>. The interpreter's optional limit on the number
  of digits of a conversion is not modelled.
\<close>

section \<open>Characters, strip, lower\<close>

definition code :: "char \<Rightarrow> nat" where
  "code c = of_char c"

definition is_space :: "char \<Rightarrow> bool" where
  "is_space c = (code c \<in> {9, 10, 11, 12, 13, 28, 29, 30, 31, 32, 133, 160})"

definition lstrip :: "string \<Rightarrow> string" where
  "lstrip s = dropWhile is_space s"

definition strip :: "string \<Rightarrow> string" where
  "strip s = rev (lstrip (rev (lstrip s)))"

definition lower_char :: "char \<Rightarrow> char" where
  "lower_char c =
     (if (65 \<le> code c \<and> code c \<le> 90) \<or> (192 \<le> code c \<and> code c \<le> 222 \<and> code c \<noteq> 215)
      then char_of (code c + 32) else c)"

definition lower :: "string \<Rightarrow> string" where
  "lower s = map lower_char s"

section \<open>Splitting and joining\<close>

fun split_on :: "char \<Rightarrow> string \<Rightarrow> string list" where
  "split_on sep [] = [[]]"
| "split_on sep (c # cs) =
     (if c = sep then [] # split_on sep cs
      else (case split_on sep cs of [] \<Rightarrow> [[c]] | w # ws \<Rightarrow> (c # w) # ws))"

text \<open>\<open>s.split(sep, 1)[0]\<close>: everything before the first separator.\<close>

definition before_first :: "char \<Rightarrow> string \<Rightarrow> string" where
  "before_first sep s = takeWhile (\<lambda>c. c \<noteq> sep) s"

text \<open>\<open>s.rsplit(sep, 1)[-1]\<close>: everything after the last separator.\<close>

definition after_last :: "char \<Rightarrow> string \<Rightarrow> string" where
  "after_last sep s = rev (takeWhile (\<lambda>c. c \<noteq> sep) (rev s))"

fun startswith :: "string \<Rightarrow> string \<Rightarrow> bool" where
  "startswith s [] = True"
| "startswith [] (p # ps) = False"
| "startswith (c # cs) (p # ps) = (c = p \<and> startswith cs ps)"

fun join :: "string \<Rightarrow> string list \<Rightarrow> string" where
  "join sep [] = []"
| "join sep [w] = w"
| "join sep (w # v # ws) = w @ sep @ join sep (v # ws)"

lemma split_on_no_sep [simp]: "sep \<notin> set s \<Longrightarrow> split_on sep s = [s]"
  by (induction s) auto

lemma split_on_not_Nil [simp]: "split_on sep s \<noteq> []"
  by (cases s) (auto split: list.splits)

lemma split_on_append [simp]: "sep \<notin> set a \<Longrightarrow> split_on sep (a @ sep # b) = a # split_on sep b"
  by (induction a) auto

lemma split_on_no_sep_in: "w \<in> set (split_on sep s) \<Longrightarrow> sep \<notin> set w"
  by (induction s arbitrary: w) (auto split: if_splits list.splits)

lemma split_on_set: "w \<in> set (split_on sep s) \<Longrightarrow> set w \<subseteq> set s"
proof (induction s arbitrary: w)
  case (Cons c cs)
  then show ?case by (cases "split_on sep cs") (fastforce split: if_splits)+
qed simp

lemma before_first_no_sep: "sep \<notin> set s \<Longrightarrow> before_first sep s = s"
  by (auto simp: before_first_def takeWhile_eq_all_conv)

lemma before_first_append [simp]: "sep \<notin> set a \<Longrightarrow> before_first sep (a @ sep # b) = a"
  unfolding before_first_def by (subst takeWhile_append2) auto

lemma sep_not_in_before_first [simp]: "sep \<notin> set (before_first sep s)"
  by (auto simp: before_first_def dest: set_takeWhileD)

section \<open>Integers\<close>

definition is_digit :: "char \<Rightarrow> bool" where
  "is_digit c = (48 \<le> code c \<and> code c \<le> 57)"

definition digit_val :: "char \<Rightarrow> nat" where
  "digit_val c = code c - 48"

definition digit_char :: "nat \<Rightarrow> char" where
  "digit_char d = ''0123456789'' ! d"

fun digits_from :: "nat \<Rightarrow> string \<Rightarrow> nat option" where
  "digits_from acc [] = Some acc"
| "digits_from acc [c] = (if is_digit c then Some (10 * acc + digit_val c) else None)"
| "digits_from acc (c # d # cs) =
     (if is_digit c then digits_from (10 * acc + digit_val c) (d # cs)
      else if c = CHR ''_'' \<and> is_digit d then digits_from (10 * acc + digit_val d) cs
      else None)"

definition parse_nat :: "string \<Rightarrow> nat option" where
  "parse_nat s =
     (case s of [] \<Rightarrow> None
      | c # cs \<Rightarrow> if is_digit c then digits_from (digit_val c) cs else None)"

definition py_int :: "string \<Rightarrow> int option" where
  "py_int s =
     (case strip s of
        [] \<Rightarrow> None
      | c # cs \<Rightarrow>
          if c = CHR ''-'' then map_option (\<lambda>n. - int n) (parse_nat cs)
          else if c = CHR ''+'' then map_option int (parse_nat cs)
          else map_option int (parse_nat (c # cs)))"

fun str_nat :: "nat \<Rightarrow> string" where
  "str_nat n = (if n < 10 then [digit_char n] else str_nat (n div 10) @ [digit_char (n mod 10)])"

declare str_nat.simps [simp del]

definition str_int :: "int \<Rightarrow> string" where
  "str_int i = (if i < 0 then CHR ''-'' # str_nat (nat (- i)) else str_nat (nat i))"

lemma code_digit_char [simp]: "d < 10 \<Longrightarrow> code (digit_char d) = 48 + d"
  unfolding code_def digit_char_def by (simp add: less_Suc_eq numeral_eq_Suc) auto

lemma is_digit_char [simp]: "d < 10 \<Longrightarrow> is_digit (digit_char d)"
  by (simp add: is_digit_def)

lemma digit_val_char [simp]: "d < 10 \<Longrightarrow> digit_val (digit_char d) = d"
  by (simp add: digit_val_def)

lemma digits_not_special:
  assumes "is_digit c"
  shows "c \<noteq> CHR ''_''" "c \<noteq> CHR ''-''" "c \<noteq> CHR ''+''" "c \<noteq> CHR ''.''" "\<not> is_space c"
  using assms by (auto simp: is_digit_def is_space_def code_def)

lemma str_nat_digits: "\<forall>c\<in>set (str_nat n). is_digit c"
proof (induction n rule: str_nat.induct)
  case (1 n)
  then show ?case by (cases "n < 10") (auto simp: str_nat.simps[of n])
qed

lemma str_nat_not_Nil [simp]: "str_nat n \<noteq> []"
  by (subst str_nat.simps) simp

lemma digits_from_append:
  "\<forall>c\<in>set ds. is_digit c \<Longrightarrow> is_digit d \<Longrightarrow>
     digits_from acc (ds @ [d]) = map_option (\<lambda>n. 10 * n + digit_val d) (digits_from acc ds)"
  by (induction acc ds rule: digits_from.induct) auto

lemma parse_nat_append:
  assumes "ds \<noteq> []" "\<forall>c\<in>set ds. is_digit c" "is_digit d"
  shows "parse_nat (ds @ [d]) = map_option (\<lambda>n. 10 * n + digit_val d) (parse_nat ds)"
  using assms by (cases ds) (auto simp: parse_nat_def digits_from_append)

lemma parse_str_nat [simp]: "parse_nat (str_nat n) = Some n"
proof (induction n rule: str_nat.induct)
  case (1 n)
  show ?case
  proof (cases "n < 10")
    case True
    then show ?thesis by (simp add: str_nat.simps[of n] parse_nat_def)
  next
    case False
    then have "str_nat n = str_nat (n div 10) @ [digit_char (n mod 10)]"
      by (simp add: str_nat.simps[of n])
    with 1 False show ?thesis
      by (simp add: parse_nat_append str_nat_digits)
  qed
qed

lemma strip_no_space: "\<forall>c\<in>set s. \<not> is_space c \<Longrightarrow> strip s = s"
proof -
  assume a: "\<forall>c\<in>set s. \<not> is_space c"
  have d: "dropWhile is_space t = t" if "set t \<subseteq> set s" for t
    using that a by (cases t) auto
  show ?thesis by (simp add: strip_def lstrip_def d)
qed

lemma strip_str_nat [simp]: "strip (str_nat n) = str_nat n"
  using str_nat_digits digits_not_special(5) by (auto intro!: strip_no_space)

lemma str_nat_no_char: "\<not> is_digit c \<Longrightarrow> c \<notin> set (str_nat n)"
  using str_nat_digits by blast

lemma py_int_str_nat [simp]: "py_int (str_nat n) = Some (int n)"
proof -
  obtain c cs where s: "str_nat n = c # cs" by (metis neq_Nil_conv str_nat_not_Nil)
  then have "is_digit c" using str_nat_digits[of n] by simp
  then show ?thesis
    using digits_not_special[of c] parse_str_nat[of n]
    by (simp add: py_int_def s strip_str_nat[of n, unfolded s])
qed

lemma py_int_str_int: "py_int (str_int i) = Some i"
proof (cases "i < 0")
  case True
  have "strip (CHR ''-'' # str_nat (nat (- i))) = CHR ''-'' # str_nat (nat (- i))"
    using str_nat_digits[of "nat (- i)"] digits_not_special(5)
    by (intro strip_no_space) (auto simp: is_space_def code_def)
  with True show ?thesis by (simp add: py_int_def str_int_def)
next
  case False
  then show ?thesis by (simp add: str_int_def)
qed

lemma strip_set: "set (strip s) \<subseteq> set s"
  by (auto simp: strip_def lstrip_def dest!: set_dropWhileD)

text \<open>Without a minus sign in the text the value is not negative.\<close>

lemma py_int_nonneg:
  assumes "CHR ''-'' \<notin> set s" and "py_int s = Some i"
  shows "0 \<le> i"
proof -
  from assms strip_set[of s] have "CHR ''-'' \<notin> set (strip s)" by blast
  with assms(2) show ?thesis
    by (auto simp: py_int_def split: list.splits if_splits)
qed

text \<open>A text of digits alone is read as a number.\<close>

lemma digits_from_total: "\<forall>c\<in>set ds. is_digit c \<Longrightarrow> \<exists>n. digits_from acc ds = Some n"
  by (induction acc ds rule: digits_from.induct) auto

lemma py_int_digits:
  assumes "s \<noteq> []" "\<forall>c\<in>set s. is_digit c"
  shows "\<exists>n. py_int s = Some (int n)"
proof -
  from assms obtain c cs where s: "s = c # cs" by (cases s) auto
  with assms have d: "is_digit c" "\<forall>d\<in>set cs. is_digit d" by auto
  have "strip s = s" using assms digits_not_special(5) by (intro strip_no_space) blast
  moreover obtain n where "parse_nat s = Some n"
    using digits_from_total[OF d(2)] d(1) s by (auto simp: parse_nat_def)
  ultimately show ?thesis
    using digits_not_special[OF d(1)] s by (auto simp: py_int_def)
qed

section \<open>Timestamps\<close>

text \<open>
  A naive UTC \<open>datetime\<close> is the number of microseconds since 0001-01-01T00:00:00;
  \<open>isoformat\<close> follows CPython's \<open>_ord2ymd\<close>.
\<close>

definition days_before_month :: "int \<Rightarrow> int" where
  "days_before_month m = [0, 0, 31, 59, 90, 120, 151, 181, 212, 243, 273, 304, 334] ! nat m"

definition days_in_month :: "int \<Rightarrow> int" where
  "days_in_month m = [0, 31, 28, 31, 30, 31, 30, 31, 31, 30, 31, 30, 31] ! nat m"

definition ord2ymd :: "int \<Rightarrow> int \<times> int \<times> int" where
  "ord2ymd n0 =
     (let n400 = n0 div 146097; n = n0 mod 146097;
          n100 = n div 36524; n = n mod 36524;
          n4 = n div 1461; n = n mod 1461;
          n1 = n div 365; n = n mod 365;
          year = n400 * 400 + 1 + n100 * 100 + n4 * 4 + n1
      in if n1 = 4 \<or> n100 = 4 then (year - 1, 12, 31)
         else let leap = (n1 = 3 \<and> (n4 \<noteq> 24 \<or> n100 = 3));
                  month = (n + 50) div 32;
                  preceding = days_before_month month + (if month > 2 \<and> leap then 1 else 0)
              in if preceding > n
                 then let month = month - 1;
                          preceding = preceding - (days_in_month month + (if month = 2 \<and> leap then 1 else 0))
                      in (year, month, n - preceding + 1)
                 else (year, month, n - preceding + 1))"

definition zfill :: "nat \<Rightarrow> int \<Rightarrow> string" where
  "zfill w n = (let s = str_int n in replicate (w - length s) (CHR ''0'') @ s)"

definition isoformat :: "timestamp \<Rightarrow> string" where
  "isoformat t =
     (let us = t mod 1000000; secs = t div 1000000;
          (y, m, d) = ord2ymd (secs div 86400); sod = secs mod 86400
      in zfill 4 y @ ''-'' @ zfill 2 m @ ''-'' @ zfill 2 d @ ''T''
         @ zfill 2 (sod div 3600) @ '':'' @ zfill 2 (sod div 60 mod 60) @ '':'' @ zfill 2 (sod mod 60)
         @ (if us = 0 then [] else ''.'' @ zfill 6 us))"

end
