(* ===== verification/Json.thy ===== *)
theory Json
  imports Py_Text
begin

text \<open>
  JSON values and \<open>json.dumps\<close> as the code calls it: with the default separators and
  \<open>sort_keys=True\<close> for the release rationale, with the compact separators for the SSE
  payload. Strings are escaped with \<open>ensure_ascii\<close>, so the text is printable ASCII
  whatever the value holds.
\<close>

datatype json =
    JNull
  | JBool bool
  | JInt int
  | JStr string
  | JArr "json list"
  | JObj "(string \<times> json) list"

definition hex_digit :: "nat \<Rightarrow> char" where
  "hex_digit n = ''0123456789abcdef'' ! n"

definition escape_char :: "char \<Rightarrow> string" where
  "escape_char c =
     (if c = CHR 0x22 then [CHR 0x5C, CHR 0x22]
      else if c = CHR 0x5C then [CHR 0x5C, CHR 0x5C]
      else if c = CHR 0x0A then [CHR 0x5C, CHR ''n'']
      else if c = CHR 0x0D then [CHR 0x5C, CHR ''r'']
      else if c = CHR 0x09 then [CHR 0x5C, CHR ''t'']
      else if c = CHR 0x0C then [CHR 0x5C, CHR ''f'']
      else if c = CHR 0x08 then [CHR 0x5C, CHR ''b'']
      else if 32 \<le> code c \<and> code c \<le> 126 then [c]
      else [CHR 0x5C, CHR ''u'', CHR ''0'', CHR ''0'',
            hex_digit (code c div 16), hex_digit (code c mod 16)])"

definition quote :: "string \<Rightarrow> string" where
  "quote s = [CHR 0x22] @ concat (map escape_char s) @ [CHR 0x22]"

fun dumps :: "string \<Rightarrow> string \<Rightarrow> json \<Rightarrow> string" where
  "dumps isep ksep JNull = ''null''"
| "dumps isep ksep (JBool b) = (if b then ''true'' else ''false'')"
| "dumps isep ksep (JInt i) = str_int i"
| "dumps isep ksep (JStr s) = quote s"
| "dumps isep ksep (JArr xs) = ''['' @ join isep (map (dumps isep ksep) xs) @ '']''"
| "dumps isep ksep (JObj kvs) =
     ''{'' @ join isep (map (\<lambda>p. quote (fst p) @ ksep @ dumps isep ksep (snd p)) kvs) @ ''}''"

fun sort_json :: "json \<Rightarrow> json" where
  "sort_json (JArr xs) = JArr (map sort_json xs)"
| "sort_json (JObj kvs) = JObj (sort_key fst (map (\<lambda>p. (fst p, sort_json (snd p))) kvs))"
| "sort_json j = j"

definition dumps_sorted :: "json \<Rightarrow> string" where
  "dumps_sorted j = dumps '', '' '': '' (sort_json j)"

definition dumps_compact :: "json \<Rightarrow> string" where
  "dumps_compact j = dumps '','' '':'' j"

definition json_opt :: "('a \<Rightarrow> json) \<Rightarrow> 'a option \<Rightarrow> json" where
  "json_opt f v = (case v of None \<Rightarrow> JNull | Some x \<Rightarrow> f x)"

section \<open>The text is printable ASCII\<close>

definition printable :: "char \<Rightarrow> bool" where
  "printable c = (32 \<le> code c \<and> code c \<le> 126)"

lemma printable_lits [simp]:
  "printable (CHR 0x22)" "printable (CHR 0x5C)" "printable (CHR '','')" "printable (CHR '':'')"
  "printable (CHR ''['')" "printable (CHR '']'')" "printable (CHR ''{'')" "printable (CHR ''}'')"
  "printable (CHR '' '')" "printable (CHR ''-'')" "printable (CHR ''0'')" "printable (CHR ''n'')"
  "printable (CHR ''u'')" "printable (CHR ''l'')" "printable (CHR ''t'')" "printable (CHR ''r'')"
  "printable (CHR ''e'')" "printable (CHR ''f'')" "printable (CHR ''a'')" "printable (CHR ''s'')"
  "printable (CHR ''b'')"
  by (simp_all add: printable_def code_def)

lemma code_bound: "code c < 256"
  by (simp add: code_def)

lemma printable_hex_digit: "n < 16 \<Longrightarrow> printable (hex_digit n)"
  unfolding printable_def hex_digit_def code_def
  by (simp add: less_Suc_eq numeral_eq_Suc) auto

lemma printable_escape: "d \<in> set (escape_char c) \<Longrightarrow> printable d"
proof -
  assume d: "d \<in> set (escape_char c)"
  have "code c div 16 < 16" using code_bound[of c] by simp
  then have "printable (hex_digit (code c div 16))" "printable (hex_digit (code c mod 16))"
    by (auto intro: printable_hex_digit)
  with d show ?thesis by (auto simp: escape_char_def split: if_splits) (simp_all add: printable_def)
qed

lemma printable_quote: "d \<in> set (quote s) \<Longrightarrow> printable d"
  using printable_escape by (auto simp: quote_def)

lemma printable_digit: "is_digit c \<Longrightarrow> printable c"
  by (simp add: is_digit_def printable_def)

lemma printable_str_int: "d \<in> set (str_int i) \<Longrightarrow> printable d"
  using str_nat_digits printable_digit
  by (auto simp: str_int_def split: if_splits)

lemma set_join: "set (join sep ws) \<subseteq> set sep \<union> \<Union> (set ` set ws)"
  by (induction sep ws rule: join.induct) auto

lemma printable_join:
  assumes "\<forall>c\<in>set sep. printable c" "\<forall>w\<in>set ws. \<forall>c\<in>set w. printable c"
    and "d \<in> set (join sep ws)"
  shows "printable d"
  using set_join[of sep ws] assms by blast

lemma printable_dumps:
  assumes "\<forall>c\<in>set isep. printable c" and "\<forall>c\<in>set ksep. printable c"
  shows "d \<in> set (dumps isep ksep j) \<Longrightarrow> printable d"
  using assms
proof (induction isep ksep j arbitrary: d rule: dumps.induct)
  case (5 isep ksep xs)
  have "\<forall>w\<in>set (map (dumps isep ksep) xs). \<forall>c\<in>set w. printable c"
    using "5.IH" "5.prems"(2,3) by auto
  from printable_join[OF "5.prems"(2) this] "5.prems"(1) show ?case by auto
next
  case (6 isep ksep kvs)
  let ?f = "\<lambda>p. quote (fst p) @ ksep @ dumps isep ksep (snd p)"
  have "printable c" if "p \<in> set kvs" "c \<in> set (?f p)" for p c
    using that "6.IH"[OF that(1)] "6.prems" printable_quote by auto
  then have "\<forall>w\<in>set (map ?f kvs). \<forall>c\<in>set w. printable c" by auto
  from printable_join[OF "6.prems"(2) this] "6.prems"(1) show ?case by auto
qed (auto dest: printable_str_int printable_quote split: if_splits)

lemma printable_dumps_compact: "d \<in> set (dumps_compact j) \<Longrightarrow> printable d"
  unfolding dumps_compact_def by (erule printable_dumps[rotated 2]) simp_all

end
