(* ===== verification/Errors.thy ===== *)
theory Errors
  imports Json
begin

text \<open>
  The typed domain errors of \<open>app/errors\<close> with their HTTP status and stable code, the
  other exceptions the modelled code can end with, and the handlers that render every
  failure as the uniform envelope.
\<close>

datatype error_code =
    NOT_FOUND | CONFLICT | VALIDATION_ERROR | UNAUTHORIZED | FORBIDDEN
  | DOMAIN_NOT_ALLOWED | RATE_LIMITED | HTTP_ERROR | INTERNAL_ERROR

fun error_code_value :: "error_code \<Rightarrow> string" where
  "error_code_value NOT_FOUND = ''not_found''"
| "error_code_value CONFLICT = ''conflict''"
| "error_code_value VALIDATION_ERROR = ''validation_error''"
| "error_code_value UNAUTHORIZED = ''unauthorized''"
| "error_code_value FORBIDDEN = ''forbidden''"
| "error_code_value DOMAIN_NOT_ALLOWED = ''domain_not_allowed''"
| "error_code_value RATE_LIMITED = ''rate_limited''"
| "error_code_value HTTP_ERROR = ''http_error''"
| "error_code_value INTERNAL_ERROR = ''internal_error''"

text \<open>The exception classes, the base class first.\<close>

datatype error_class =
    DomainErrorBase | NotFoundClass | ConflictClass | UnauthorizedClass | ForbiddenClass
  | DomainNotAllowedClass | RateLimitedClass

fun http_status :: "error_class \<Rightarrow> nat" where
  "http_status DomainErrorBase = 500"
| "http_status NotFoundClass = 404"
| "http_status ConflictClass = 409"
| "http_status UnauthorizedClass = 401"
| "http_status ForbiddenClass = 403"
| "http_status DomainNotAllowedClass = 403"
| "http_status RateLimitedClass = 429"

fun class_code :: "error_class \<Rightarrow> error_code" where
  "class_code DomainErrorBase = INTERNAL_ERROR"
| "class_code NotFoundClass = NOT_FOUND"
| "class_code ConflictClass = CONFLICT"
| "class_code UnauthorizedClass = UNAUTHORIZED"
| "class_code ForbiddenClass = FORBIDDEN"
| "class_code DomainNotAllowedClass = DOMAIN_NOT_ALLOWED"
| "class_code RateLimitedClass = RATE_LIMITED"

record domain_error =
  err_class :: error_class
  err_message :: string
  err_details :: "(string \<times> json) list"

text \<open>
  What a call of the modelled code can raise: a domain error, \<open>ValueError\<close>,
  \<open>KeyError\<close>, \<open>IndexError\<close>, \<open>TypeError\<close>, the database's refusal of a row (key, foreign key or uniqueness), its
  refusal of a number outside the column's \<open>INTEGER\<close> range, or a failed \<open>assert\<close>.
\<close>

datatype error =
    DomainErr domain_error
  | ValueError
  | KeyError
  | IndexError
  | TypeError
  | ConstraintViolation
  | OutOfRange
  | AssertionFailed

type_synonym 'a outcome = "error + 'a"

definition NotFoundError :: "string \<Rightarrow> (string \<times> json) list \<Rightarrow> error" where
  "NotFoundError msg details =
     DomainErr \<lparr>err_class = NotFoundClass, err_message = msg, err_details = details\<rparr>"

definition ConflictError :: "string \<Rightarrow> (string \<times> json) list \<Rightarrow> error" where
  "ConflictError msg details =
     DomainErr \<lparr>err_class = ConflictClass, err_message = msg, err_details = details\<rparr>"

definition UnauthorizedError :: "string \<Rightarrow> (string \<times> json) list \<Rightarrow> error" where
  "UnauthorizedError msg details =
     DomainErr \<lparr>err_class = UnauthorizedClass, err_message = msg, err_details = details\<rparr>"

definition DomainNotAllowedError :: "string \<Rightarrow> (string \<times> json) list \<Rightarrow> error" where
  "DomainNotAllowedError msg details =
     DomainErr \<lparr>err_class = DomainNotAllowedClass, err_message = msg, err_details = details\<rparr>"

definition RateLimitedError :: "string \<Rightarrow> (string \<times> json) list \<Rightarrow> domain_error" where
  "RateLimitedError msg details =
     \<lparr>err_class = RateLimitedClass, err_message = msg, err_details = details\<rparr>"

lemmas error_defs = NotFoundError_def ConflictError_def UnauthorizedError_def
  DomainNotAllowedError_def RateLimitedError_def

section \<open>Envelope and handlers\<close>

record http_response =
  resp_status :: nat
  resp_headers :: "(string \<times> string) list"
  resp_body :: json

definition error_detail_json :: "error_code \<Rightarrow> string \<Rightarrow> (string \<times> json) list \<Rightarrow> json" where
  "error_detail_json c msg details =
     JObj [(''code'', JStr (error_code_value c)), (''message'', JStr msg), (''details'', JObj details)]"

definition error_envelope_json :: "json \<Rightarrow> json" where
  "error_envelope_json detail = JObj [(''error'', detail)]"

definition envelope_response ::
  "nat \<Rightarrow> error_code \<Rightarrow> string \<Rightarrow> (string \<times> json) list \<Rightarrow> http_response" where
  "envelope_response st c msg details =
     \<lparr>resp_status = st, resp_headers = [],
      resp_body = error_envelope_json (error_detail_json c msg details)\<rparr>"

definition handle_domain_error :: "domain_error \<Rightarrow> http_response" where
  "handle_domain_error e =
     envelope_response (http_status (err_class e)) (class_code (err_class e))
       (err_message e) (err_details e)"

definition handle_validation_error :: "json list \<Rightarrow> http_response" where
  "handle_validation_error errors =
     envelope_response 422 VALIDATION_ERROR ''Request validation failed.''
       [(''errors'', JArr errors)]"

definition http_status_to_code :: "(nat, error_code) dict" where
  "http_status_to_code =
     [(401, UNAUTHORIZED), (403, FORBIDDEN), (404, NOT_FOUND), (409, CONFLICT), (429, RATE_LIMITED)]"

definition handle_http_exception :: "nat \<Rightarrow> string option \<Rightarrow> http_response" where
  "handle_http_exception st detail =
     (let c = (case dict_get http_status_to_code st of None \<Rightarrow> HTTP_ERROR | Some c \<Rightarrow> c);
          msg = (case detail of None \<Rightarrow> ''HTTP error.'' | Some d \<Rightarrow> d)
      in envelope_response st c msg [])"

lemma error_code_value_inj: "error_code_value a = error_code_value b \<Longrightarrow> a = b"
  by (cases a; cases b) simp_all

text \<open>
  A framework exception and a typed error with the same status carry the same code, but
  for the two classes that share a status with a more general one.
\<close>

lemma status_code_agreement:
  assumes "c \<noteq> DomainErrorBase" and "c \<noteq> DomainNotAllowedClass"
  shows "dict_get http_status_to_code (http_status c) = Some (class_code c)"
  using assms by (cases c) (simp_all add: http_status_to_code_def)

end
