(* ===== verification/Enums.thy ===== *)
theory Enums
  imports Errors
begin

text \<open>
  The enumerations of \<open>app/models/enums\<close>: each as a datatype with the string value it is
  stored under and the constructor-from-value lookup (\<open>None\<close> is the \<open>ValueError\<close> of the
  enum class). Bump levels are ordered by their semantic ordinal.
\<close>

datatype bump_level = BL_NONE | BL_PATCH | BL_MINOR | BL_MAJOR

fun bump_level_value :: "bump_level \<Rightarrow> string" where
  "bump_level_value BL_NONE = ''none''"
| "bump_level_value BL_PATCH = ''patch''"
| "bump_level_value BL_MINOR = ''minor''"
| "bump_level_value BL_MAJOR = ''major''"

datatype bump_policy = POLICY_LEGACY | POLICY_DEFAULT

fun bump_policy_value :: "bump_policy \<Rightarrow> string" where
  "bump_policy_value POLICY_LEGACY = ''legacy''"
| "bump_policy_value POLICY_DEFAULT = ''default''"

datatype component_kind = LIBRARY | SERVICE | UI | CLI

fun component_kind_value :: "component_kind \<Rightarrow> string" where
  "component_kind_value LIBRARY = ''library''"
| "component_kind_value SERVICE = ''service''"
| "component_kind_value UI = ''ui''"
| "component_kind_value CLI = ''cli''"

datatype version_status = ACTIVE | SUPERSEDED | ROLLED_BACK

fun version_status_value :: "version_status \<Rightarrow> string" where
  "version_status_value ACTIVE = ''active''"
| "version_status_value SUPERSEDED = ''superseded''"
| "version_status_value ROLLED_BACK = ''rolled_back''"

section \<open>The ordinal of a bump level\<close>

fun bump_ordinal :: "bump_level \<Rightarrow> nat" where
  "bump_ordinal BL_NONE = 0"
| "bump_ordinal BL_PATCH = 1"
| "bump_ordinal BL_MINOR = 2"
| "bump_ordinal BL_MAJOR = 3"

lemma bump_ordinal_inj: "bump_ordinal a = bump_ordinal b \<Longrightarrow> a = b"
  by (cases a; cases b) simp_all

instantiation bump_level :: linorder
begin

definition less_eq_bump_level :: "bump_level \<Rightarrow> bump_level \<Rightarrow> bool" where
  "less_eq_bump_level a b = (bump_ordinal a \<le> bump_ordinal b)"

definition less_bump_level :: "bump_level \<Rightarrow> bump_level \<Rightarrow> bool" where
  "less_bump_level a b = (bump_ordinal a < bump_ordinal b)"

instance
  by standard (auto simp: less_eq_bump_level_def less_bump_level_def intro: bump_ordinal_inj)

end

lemmas bump_order = less_eq_bump_level_def less_bump_level_def

lemma bump_level_bounds [simp]: "BL_NONE \<le> l" "l \<le> BL_MAJOR"
  by (cases l; simp add: bump_order)+

lemma bump_ordinal_max: "bump_ordinal (max a b) = max (bump_ordinal a) (bump_ordinal b)"
  by (auto simp: max_def bump_order)

end
