(* ===== verification/Semver.thy ===== *)
theory Semver
  imports Enums
begin

text \<open>
  Version arithmetic: the product-version derivation (\<open>app/domain/product_version.py\<close>),
  the per-component change classifier (\<open>app/domain/change_classifier.py\<close>), the two
  renderers of a pinned version, and the validation and parsing of the version string of a
  create-version request (\<open>app/models/requests/create_version_model.py\<close>).
\<close>

section \<open>Product versions\<close>

type_synonym core_version = "int \<times> int \<times> int"

definition fmt_core :: "int \<Rightarrow> int \<Rightarrow> int \<Rightarrow> string" where
  "fmt_core major minor patch = str_int major @ ''.'' @ str_int minor @ ''.'' @ str_int patch"

definition parse_core :: "string \<Rightarrow> core_version outcome" where
  "parse_core version =
     (let core = before_first (CHR ''-'') version;
          parts = split_on (CHR ''.'') core
      in case parts of
           [a, b, c] \<Rightarrow>
             (case (py_int a, py_int b, py_int c) of
                (Some major, Some minor, Some patch) \<Rightarrow>
                  if major < 0 \<or> minor < 0 \<or> patch < 0 then Inl ValueError
                  else Inr (major, minor, patch)
              | _ \<Rightarrow> Inl ValueError)
         | _ \<Rightarrow> Inl ValueError)"

definition bump_minor :: "string \<Rightarrow> string outcome" where
  "bump_minor version =
     (case parse_core version of Inl e \<Rightarrow> Inl e
      | Inr (major, minor, _) \<Rightarrow> Inr (fmt_core major (minor + 1) 0))"

definition bump_major :: "string \<Rightarrow> string outcome" where
  "bump_major version =
     (case parse_core version of Inl e \<Rightarrow> Inl e
      | Inr (major, _, _) \<Rightarrow> Inr (fmt_core (major + 1) 0 0))"

definition bump_patch :: "string \<Rightarrow> string outcome" where
  "bump_patch version =
     (case parse_core version of Inl e \<Rightarrow> Inl e
      | Inr (major, minor, patch) \<Rightarrow> Inr (fmt_core major minor (patch + 1)))"

definition apply_bump :: "string \<Rightarrow> bump_level \<Rightarrow> string outcome" where
  "apply_bump current level =
     (if level = BL_MAJOR then bump_major current
      else if level = BL_MINOR then bump_minor current
      else if level = BL_PATCH then bump_patch current
      else Inr current)"

definition next_product_version :: "string option \<Rightarrow> string \<Rightarrow> string outcome" where
  "next_product_version latest base =
     (let current = (case latest of None \<Rightarrow> base | Some v \<Rightarrow> v) in bump_minor current)"

text \<open>Text of a non-negative number: digits only, so it splits and parses back.\<close>

lemma str_int_nonneg_chars:
  assumes "0 \<le> i"
  shows "CHR ''.'' \<notin> set (str_int i)" "CHR ''-'' \<notin> set (str_int i)"
  using assms str_nat_no_char by (auto simp: str_int_def is_digit_def code_def)

lemma dash_not_in_fmt_core:
  "0 \<le> a \<Longrightarrow> 0 \<le> b \<Longrightarrow> 0 \<le> c \<Longrightarrow> CHR ''-'' \<notin> set (fmt_core a b c)"
  by (simp add: fmt_core_def str_int_nonneg_chars)

lemma before_first_fmt_core [simp]:
  assumes "0 \<le> a" "0 \<le> b" "0 \<le> c"
  shows "before_first (CHR ''-'') (fmt_core a b c) = fmt_core a b c"
    and "before_first (CHR ''-'') (fmt_core a b c @ CHR ''-'' # rest) = fmt_core a b c"
  using dash_not_in_fmt_core[OF assms] by (simp_all add: before_first_no_sep)

lemma split_fmt_core [simp]:
  assumes "0 \<le> a" "0 \<le> b" "0 \<le> c"
  shows "split_on (CHR ''.'') (fmt_core a b c) = [str_int a, str_int b, str_int c]"
  using assms by (simp add: fmt_core_def str_int_nonneg_chars)

lemma parse_fmt_core:
  assumes "0 \<le> a" "0 \<le> b" "0 \<le> c"
  shows "parse_core (fmt_core a b c) = Inr (a, b, c)"
    and "parse_core (fmt_core a b c @ CHR ''-'' # rest) = Inr (a, b, c)"
  using assms by (simp_all add: parse_core_def py_int_str_int)

lemma parse_core_InrD:
  assumes "parse_core v = Inr (a, b, c)"
  shows "0 \<le> a" "0 \<le> b" "0 \<le> c"
    and "\<exists>x y z. split_on (CHR ''.'') (before_first (CHR ''-'') v) = [x, y, z] \<and>
           py_int x = Some a \<and> py_int y = Some b \<and> py_int z = Some c"
  using assms
  by (auto simp: parse_core_def Let_def split: list.splits option.splits if_splits)

lemma parse_core_nonneg: "parse_core v = Inr t \<Longrightarrow> t = (a, b, c) \<Longrightarrow> 0 \<le> a \<and> 0 \<le> b \<and> 0 \<le> c"
  using parse_core_InrD by blast

text \<open>
  The source tests the parts for negative values after parsing them. The core has no minus
  sign, so a part that is a number is never negative: the only failures are the number of
  parts and a part that is not a number.
\<close>

lemma parse_core_parts_nonneg:
  assumes "w \<in> set (split_on (CHR ''.'') (before_first (CHR ''-'') v))" and "py_int w = Some i"
  shows "0 \<le> i"
proof -
  have "CHR ''-'' \<notin> set w"
    using split_on_set[OF assms(1)] sep_not_in_before_first[of "CHR ''-''" v] by blast
  then show ?thesis using assms(2) by (rule py_int_nonneg)
qed

lemma apply_bump_parse:
  assumes "parse_core v = Inr (a, b, c)"
  shows "apply_bump v BL_MAJOR = Inr (fmt_core (a + 1) 0 0)"
    and "apply_bump v BL_MINOR = Inr (fmt_core a (b + 1) 0)"
    and "apply_bump v BL_PATCH = Inr (fmt_core a b (c + 1))"
    and "apply_bump v BL_NONE = Inr v"
  using assms by (simp_all add: apply_bump_def bump_major_def bump_minor_def bump_patch_def)

lemmas bump_defs = apply_bump_def bump_major_def bump_minor_def bump_patch_def

section \<open>Change classification\<close>

type_synonym version_tuple = "int \<times> int \<times> int \<times> string option"

text \<open>\<open>x or None\<close>: the empty string counts as no prerelease.\<close>

definition or_None :: "string option \<Rightarrow> string option" where
  "or_None p = (case p of None \<Rightarrow> None | Some s \<Rightarrow> if s = [] then None else Some s)"

fun classify_change :: "version_tuple option \<Rightarrow> version_tuple \<Rightarrow> bump_level" where
  "classify_change None current = BL_MINOR"
| "classify_change (Some (pmaj, pmin, ppat, ppre)) (cmaj, cmin, cpat, cpre) =
     (if pmaj \<noteq> cmaj then BL_MAJOR
      else if pmin \<noteq> cmin then BL_MINOR
      else if ppat \<noteq> cpat then BL_PATCH
      else if or_None ppre \<noteq> or_None cpre then BL_PATCH
      else BL_NONE)"

lemma classify_NONE_iff:
  "classify_change (Some (a, b, c, p)) (a', b', c', p') = BL_NONE \<longleftrightarrow>
     a = a' \<and> b = b' \<and> c = c' \<and> or_None p = or_None p'"
  by auto

lemma classify_same [simp]: "classify_change (Some t) t = BL_NONE"
  by (cases t) auto

text \<open>The comparison is by position, not direction.\<close>

lemma classify_symmetric: "classify_change (Some t) u = classify_change (Some u) t"
  by (cases t; cases u) auto

text \<open>Two changes compose to at most the larger of the two.\<close>

lemma classify_triangle:
  "classify_change (Some t) v \<le> max (classify_change (Some t) u) (classify_change (Some u) v)"
  by (cases t; cases u; cases v) (auto simp: bump_order max_def)

section \<open>Rendering pinned versions\<close>

text \<open>\<open>format_version\<close> of the cut path: an empty prerelease adds no suffix.\<close>

definition format_version :: "int \<Rightarrow> int \<Rightarrow> int \<Rightarrow> string option \<Rightarrow> string" where
  "format_version major minor patch prerelease =
     (let core = fmt_core major minor patch in
      case prerelease of
        None \<Rightarrow> core
      | Some p \<Rightarrow> if p \<noteq> [] then core @ ''-'' @ p else core)"

text \<open>\<open>_version_string\<close> of the read path: only an absent prerelease adds no suffix.\<close>

definition version_string :: "int \<Rightarrow> int \<Rightarrow> int \<Rightarrow> string option \<Rightarrow> string" where
  "version_string major minor patch prerelease =
     (let core = fmt_core major minor patch in
      case prerelease of None \<Rightarrow> core | Some p \<Rightarrow> core @ ''-'' @ p)"

lemma renderers_agree_iff:
  "format_version a b c p = version_string a b c p \<longleftrightarrow> p \<noteq> Some []"
  by (cases p) (auto simp: format_version_def version_string_def Let_def)

section \<open>The version string of a create-version request\<close>

text \<open>One \<open>\d+\.\<close> of the pattern: the text after the dot.\<close>

definition eat_number_dot :: "string \<Rightarrow> string option" where
  "eat_number_dot s =
     (case dropWhile is_digit s of
        [] \<Rightarrow> None
      | c # r \<Rightarrow> if takeWhile is_digit s \<noteq> [] \<and> c = CHR ''.'' then Some r else None)"

definition is_prerelease_char :: "char \<Rightarrow> bool" where
  "is_prerelease_char c =
     (is_digit c \<or> (65 \<le> code c \<and> code c \<le> 90) \<or> (97 \<le> code c \<and> code c \<le> 122)
      \<or> c = CHR ''.'' \<or> c = CHR ''-'')"

definition number_and_suffix :: "string \<Rightarrow> bool" where
  "number_and_suffix s =
     (takeWhile is_digit s \<noteq> [] \<and>
      (case dropWhile is_digit s of
         [] \<Rightarrow> True
       | c # r \<Rightarrow> c = CHR ''-'' \<and> r \<noteq> [] \<and> list_all is_prerelease_char r))"

definition semver_full :: "string \<Rightarrow> bool" where
  "semver_full s =
     (case eat_number_dot s of None \<Rightarrow> False
      | Some r \<Rightarrow> (case eat_number_dot r of None \<Rightarrow> False | Some q \<Rightarrow> number_and_suffix q))"

text \<open>\<open>$\<close> also matches before a final line feed.\<close>

definition semver_match :: "string \<Rightarrow> bool" where
  "semver_match s =
     (semver_full s \<or> (s \<noteq> [] \<and> last s = CHR 0x0A \<and> semver_full (butlast s)))"

record create_version_model =
  cv_component_id :: ident
  cv_version :: string
  cv_prerelease :: "string option"

text \<open>
  Validation of the body; \<open>None\<close> is the 422. \<open>valid_ulid\<close> is the third-party check of
  an identifier.
\<close>

definition validate_create_version ::
  "(string \<Rightarrow> bool) \<Rightarrow> ident \<Rightarrow> string \<Rightarrow> string option \<Rightarrow> create_version_model option" where
  "validate_create_version valid_ulid cid version prerelease =
     (if valid_ulid cid \<and> semver_match version \<and> length version \<le> 256
         \<and> (case prerelease of None \<Rightarrow> True | Some p \<Rightarrow> length p \<le> 256)
      then Some \<lparr>cv_component_id = cid, cv_version = version, cv_prerelease = prerelease\<rparr>
      else None)"

definition nth_part :: "string list \<Rightarrow> nat \<Rightarrow> string option" where
  "nth_part ws i = (if i < length ws then Some (ws ! i) else None)"

definition cv_major :: "create_version_model \<Rightarrow> int option" where
  "cv_major m = Option.bind (nth_part (split_on (CHR ''.'') (cv_version m)) 0) py_int"

definition cv_minor :: "create_version_model \<Rightarrow> int option" where
  "cv_minor m = Option.bind (nth_part (split_on (CHR ''.'') (cv_version m)) 1) py_int"

definition cv_patch :: "create_version_model \<Rightarrow> int option" where
  "cv_patch m =
     Option.bind (nth_part (split_on (CHR ''.'') (cv_version m)) 2)
       (\<lambda>seg. py_int (before_first (CHR ''-'') seg))"

section \<open>An accepted version string parses\<close>

abbreviation digits :: "string \<Rightarrow> bool" where
  "digits s \<equiv> s \<noteq> [] \<and> (\<forall>c\<in>set s. is_digit c)"

lemma digits_takeWhile: "takeWhile is_digit s \<noteq> [] \<Longrightarrow> digits (takeWhile is_digit s)"
  by (auto dest: set_takeWhileD)

lemma eat_number_dot_Some:
  assumes "eat_number_dot s = Some r"
  shows "\<exists>d. digits d \<and> s = d @ CHR ''.'' # r"
proof -
  from assms have "dropWhile is_digit s = CHR ''.'' # r" and t: "takeWhile is_digit s \<noteq> []"
    by (auto simp: eat_number_dot_def split: list.splits if_splits)
  then have "s = takeWhile is_digit s @ CHR ''.'' # r"
    by (metis takeWhile_dropWhile_id)
  with digits_takeWhile[OF t] show ?thesis by blast
qed

lemma number_and_suffix_shape:
  assumes "number_and_suffix s"
  shows "\<exists>d suf. digits d \<and> s = d @ suf \<and> (suf = [] \<or> (\<exists>r. suf = CHR ''-'' # r))"
proof (intro exI conjI)
  show "s = takeWhile is_digit s @ dropWhile is_digit s" by simp
  show "takeWhile is_digit s \<noteq> []" "\<forall>c\<in>set (takeWhile is_digit s). is_digit c"
    using assms by (auto simp: number_and_suffix_def dest: set_takeWhileD)
  show "dropWhile is_digit s = [] \<or> (\<exists>r. dropWhile is_digit s = CHR ''-'' # r)"
    using assms by (auto simp: number_and_suffix_def split: list.splits)
qed

lemma semver_match_shape:
  assumes "semver_match s"
  obtains d1 d2 d3 suf nl where "digits d1" "digits d2" "digits d3"
    "s = d1 @ CHR ''.'' # d2 @ CHR ''.'' # d3 @ suf @ nl"
    "suf = [] \<or> (\<exists>r. suf = CHR ''-'' # r)" "nl = [] \<or> nl = [CHR 0x0A]"
proof -
  have full: "\<exists>d1 d2 d3 suf. digits d1 \<and> digits d2 \<and> digits d3 \<and>
       t = d1 @ CHR ''.'' # d2 @ CHR ''.'' # d3 @ suf \<and> (suf = [] \<or> (\<exists>r. suf = CHR ''-'' # r))"
    if t: "semver_full t" for t
  proof -
    from t obtain r q where r: "eat_number_dot t = Some r" and q: "eat_number_dot r = Some q"
      and n: "number_and_suffix q" by (auto simp: semver_full_def split: option.splits)
    from eat_number_dot_Some[OF r] eat_number_dot_Some[OF q] number_and_suffix_shape[OF n]
    show ?thesis by blast
  qed
  show ?thesis
  proof (cases "semver_full s")
    case True
    from full[OF this] that[where nl = "[]"] show ?thesis by auto
  next
    case False
    with assms have ne: "s \<noteq> []" "last s = CHR 0x0A" and sf: "semver_full (butlast s)"
      by (auto simp: semver_match_def)
    have s: "s = butlast s @ [CHR 0x0A]" using append_butlast_last_id[OF ne(1)] ne(2) by simp
    from full[OF sf] obtain d1 d2 d3 suf where d: "digits d1" "digits d2" "digits d3"
      and b: "butlast s = d1 @ CHR ''.'' # d2 @ CHR ''.'' # d3 @ suf"
      and suf: "suf = [] \<or> (\<exists>r. suf = CHR ''-'' # r)"
      by blast
    have "butlast s @ [CHR 0x0A] = d1 @ CHR ''.'' # d2 @ CHR ''.'' # d3 @ suf @ [CHR 0x0A]"
      by (simp add: b)
    with s have "s = d1 @ CHR ''.'' # d2 @ CHR ''.'' # d3 @ suf @ [CHR 0x0A]" by (rule trans)
    from that[OF d this suf] show ?thesis by simp
  qed
qed

lemma hd_split_on: "hd (split_on sep s) = before_first sep s"
  by (induction s) (auto simp: before_first_def split: list.splits)

lemma digits_no: "digits d \<Longrightarrow> CHR ''.'' \<notin> set d" "digits d \<Longrightarrow> CHR ''-'' \<notin> set d"
  by (auto dest: digits_not_special)

lemma before_first_append_no: "sep \<notin> set a \<Longrightarrow> before_first sep (a @ b) = a @ before_first sep b"
  by (induction a) (auto simp: before_first_def)

lemma before_first_commute:
  "before_first a (before_first b s) = before_first b (before_first a s)"
  by (induction s) (auto simp: before_first_def)

lemma py_int_digits_nl:
  assumes "digits d" "nl = [] \<or> nl = [CHR 0x0A]"
  shows "py_int (d @ nl) = py_int d"
proof -
  from assms have ns: "\<forall>c\<in>set d. \<not> is_space c" using digits_not_special(5) by blast
  have l: "lstrip (d @ x) = d @ x" for x using assms(1) ns by (cases d) (auto simp: lstrip_def)
  have "strip (d @ nl) = d"
  proof (cases "nl = []")
    case True
    then show ?thesis using ns by (simp add: strip_no_space)
  next
    case False
    with assms(2) have nl: "nl = [CHR 0x0A]" by simp
    have "is_space (CHR 0x0A)" by (simp add: is_space_def code_def)
    moreover have "dropWhile is_space (rev d) = rev d" using ns assms(1) by (cases "rev d") auto
    ultimately show ?thesis by (simp add: strip_def l nl) (simp add: lstrip_def)
  qed
  with strip_no_space[OF ns] show ?thesis by (simp add: py_int_def)
qed

text \<open>
  The request model splits on dots first and cuts the prerelease off the third part; the
  product-version parser cuts the prerelease first. On every accepted string both succeed,
  with the same three non-negative numbers.
\<close>

lemma create_version_parts:
  assumes "semver_match (cv_version m)"
  obtains a b c :: nat where
    "cv_major m = Some (int a)" "cv_minor m = Some (int b)" "cv_patch m = Some (int c)"
    "parse_core (cv_version m) = Inr (int a, int b, int c)"
proof -
  obtain d1 d2 d3 suf nl where
    d: "digits d1" "digits d2" "digits d3"
    and v: "cv_version m = d1 @ CHR ''.'' # d2 @ CHR ''.'' # d3 @ suf @ nl"
    and suf: "suf = [] \<or> (\<exists>r. suf = CHR ''-'' # r)" and nl: "nl = [] \<or> nl = [CHR 0x0A]"
    by (rule semver_match_shape[OF assms])
  define nl' where "nl' = (if suf = [] then nl else [])"
  from nl have nl': "nl' = [] \<or> nl' = [CHR 0x0A]" by (auto simp: nl'_def)
  have cut: "before_first (CHR ''-'') (suf @ nl) = nl'"
    using suf nl by (auto simp: nl'_def before_first_def)
  have dash: "before_first (CHR ''-'') (cv_version m) = d1 @ CHR ''.'' # d2 @ CHR ''.'' # d3 @ nl'"
    using before_first_append_no[of "CHR ''-''" "d1 @ CHR ''.'' # d2 @ CHR ''.'' # d3" "suf @ nl"]
      digits_no(2)[OF d(1)] digits_no(2)[OF d(2)] digits_no(2)[OF d(3)]
    by (simp add: v cut)
  have dot: "CHR ''.'' \<notin> set (d3 @ nl')" using digits_no(1)[OF d(3)] nl' by auto
  from py_int_digits d obtain a b c where
    n: "py_int d1 = Some (int a)" "py_int d2 = Some (int b)" "py_int (d3 @ nl') = Some (int c)"
    by (metis py_int_digits_nl[OF d(3) nl'])
  have P: "parse_core (cv_version m) = Inr (int a, int b, int c)"
    using digits_no(1)[OF d(1)] digits_no(1)[OF d(2)] dot n by (simp add: parse_core_def dash)
  have split: "split_on (CHR ''.'') (cv_version m) =
      d1 # d2 # split_on (CHR ''.'') (d3 @ suf @ nl)"
    using digits_no(1)[OF d(1)] digits_no(1)[OF d(2)] by (simp add: v)
  have third: "split_on (CHR ''.'') (d3 @ suf @ nl) \<noteq> []" by simp
  then have hd3: "split_on (CHR ''.'') (d3 @ suf @ nl) ! 0 = before_first (CHR ''.'') (d3 @ suf @ nl)"
    by (simp add: hd_split_on flip: hd_conv_nth)
  have seg: "before_first (CHR ''-'') (before_first (CHR ''.'') (d3 @ suf @ nl)) = d3 @ nl'"
    using before_first_append_no[OF digits_no(2)[OF d(3)], of "suf @ nl"] before_first_no_sep[OF dot]
    by (simp add: before_first_commute[of "CHR ''-''"] cut)
  show ?thesis
  proof (rule that[of a b c])
    show "cv_major m = Some (int a)" "cv_minor m = Some (int b)"
      by (simp_all add: cv_major_def cv_minor_def nth_part_def split n)
    show "cv_patch m = Some (int c)"
      using third hd3 seg n by (simp add: cv_patch_def nth_part_def split)
  qed (rule P)
qed

section \<open>Properties\<close>

text \<open>Bumping a product version is a round trip: the text written for a core version parses
  back to it whatever prerelease suffix follows; each bump of it parses to the core it means
  (the lower parts reset, the suffix dropped), and that core is strictly greater.\<close>

theorem apply_bump_roundtrip:
  assumes "0 \<le> a" "0 \<le> b" "0 \<le> c" and "v = fmt_core a b c \<or> v = fmt_core a b c @ CHR ''-'' # pre"
  shows "parse_core v = Inr (a, b, c) \<and>
    Option.bind (case apply_bump v BL_MAJOR of Inr w \<Rightarrow> Some w | Inl _ \<Rightarrow> None) (\<lambda>w. Some (parse_core w))
      = Some (Inr (a + 1, 0, 0)) \<and>
    Option.bind (case apply_bump v BL_MINOR of Inr w \<Rightarrow> Some w | Inl _ \<Rightarrow> None) (\<lambda>w. Some (parse_core w))
      = Some (Inr (a, b + 1, 0)) \<and>
    Option.bind (case apply_bump v BL_PATCH of Inr w \<Rightarrow> Some w | Inl _ \<Rightarrow> None) (\<lambda>w. Some (parse_core w))
      = Some (Inr (a, b, c + 1)) \<and>
    apply_bump v BL_NONE = Inr v \<and>
    (a, b, c) < (a, b, c + 1) \<and> (a, b, c) < (a, b + 1, 0) \<and> (a, b, c) < (a + 1, 0, 0)"
proof -
  have p: "parse_core v = Inr (a, b, c)" using assms parse_fmt_core by auto
  show ?thesis using assms(1-3) by (simp add: p apply_bump_parse[OF p] parse_fmt_core(1))
qed

theorem apply_bump_roundtrip_witness:
  "parse_core (fmt_core 1 2 3 @ CHR ''-'' # ''rc'') = Inr (1, 2, 3)"
  using apply_bump_roundtrip[of 1 2 3 "fmt_core 1 2 3 @ CHR ''-'' # ''rc''" "''rc''"] by simp

text \<open>A bump fails only on a malformed current version, and always with the value error: a
  version is malformed exactly when its core (the text before the first dash) does not have
  three dot-separated parts that are all numbers. No bump level other than none accepts it,
  and none hands any text back unchanged.\<close>

theorem apply_bump_error_exact:
  "(apply_bump v l = Inl e \<longleftrightarrow> l \<noteq> BL_NONE \<and> parse_core v = Inl e) \<and>
   (parse_core v = Inl e \<longleftrightarrow> e = ValueError \<and>
      \<not> (\<exists>x y z. split_on (CHR ''.'') (before_first (CHR ''-'') v) = [x, y, z] \<and>
            py_int x \<noteq> None \<and> py_int y \<noteq> None \<and> py_int z \<noteq> None))"
proof (rule conjI)
  show "apply_bump v l = Inl e \<longleftrightarrow> l \<noteq> BL_NONE \<and> parse_core v = Inl e"
    by (cases l) (auto simp: bump_defs split: sum.splits prod.splits)
  let ?ws = "split_on (CHR ''.'') (before_first (CHR ''-'') v)"
  show "parse_core v = Inl e \<longleftrightarrow> e = ValueError \<and>
      \<not> (\<exists>x y z. ?ws = [x, y, z] \<and> py_int x \<noteq> None \<and> py_int y \<noteq> None \<and> py_int z \<noteq> None)"
  proof (cases "\<exists>x y z. ?ws = [x, y, z] \<and> py_int x \<noteq> None \<and> py_int y \<noteq> None \<and> py_int z \<noteq> None")
    case True
    then obtain x y z i j k where w: "?ws = [x, y, z]" "py_int x = Some i" "py_int y = Some j" "py_int z = Some k"
      by blast
    have "0 \<le> i" "0 \<le> j" "0 \<le> k"
      using parse_core_parts_nonneg[of x v] parse_core_parts_nonneg[of y v] parse_core_parts_nonneg[of z v] w by auto
    then have "parse_core v = Inr (i, j, k)" by (simp add: parse_core_def w)
    with True show ?thesis by simp
  next
    case False
    then have "parse_core v = Inl ValueError"
      by (auto simp: parse_core_def Let_def split: list.splits option.splits)
    with False show ?thesis by auto
  qed
qed

text \<open>C40: The version grammar guards the query: every version text the create-version model
  accepts has three numeric parts, so the model's major, minor and patch never raise, and they
  are exactly the core that the product-version parser reads from the same text. A prerelease
  written inside the version text plays no part in what is stored: only the separate field does.\<close>

theorem accepted_version_parses:
  assumes "validate_create_version valid_ulid cid version pre = Some m"
  shows "\<exists>a b c :: nat. cv_major m = Some (int a) \<and> cv_minor m = Some (int b) \<and> cv_patch m = Some (int c) \<and>
    parse_core version = Inr (int a, int b, int c) \<and> cv_prerelease m = pre"
proof -
  have m: "m = \<lparr>cv_component_id = cid, cv_version = version, cv_prerelease = pre\<rparr>" "semver_match version"
    using assms by (auto simp: validate_create_version_def split: if_splits)
  then have "semver_match (cv_version m)" by simp
  then show ?thesis by (rule create_version_parts) (auto simp: m)
qed

theorem accepted_version_parses_witness:
  "\<exists>m. validate_create_version (\<lambda>_. True) ''c1'' ''1.2.3-rc.1'' None = Some m \<and> cv_prerelease m = None"
proof -
  have "validate_create_version (\<lambda>_. True) ''c1'' ''1.2.3-rc.1'' None
      = Some \<lparr>cv_component_id = ''c1'', cv_version = ''1.2.3-rc.1'', cv_prerelease = None\<rparr>"
    by (simp add: validate_create_version_def semver_match_def semver_full_def eat_number_dot_def
        number_and_suffix_def is_prerelease_char_def is_digit_def code_def)
  from accepted_version_parses[OF this] this show ?thesis by blast
qed

text \<open>Classifying a change behaves like a distance between pinned versions: it is symmetric,
  it is none exactly when the core and the prerelease (an empty one counting as absent) agree,
  a change in two steps is never larger than the larger step, and a component with no previous
  pin counts as a minor addition.\<close>

theorem classify_change_distance:
  "classify_change (Some t) u = classify_change (Some u) t \<and>
   (classify_change (Some (a, b, c, p)) (a', b', c', p') = BL_NONE \<longleftrightarrow>
      a = a' \<and> b = b' \<and> c = c' \<and> or_None p = or_None p') \<and>
   classify_change (Some t) v \<le> max (classify_change (Some t) u) (classify_change (Some u) v) \<and>
   classify_change None t = BL_MINOR"
  by (intro conjI classify_symmetric classify_NONE_iff classify_triangle classify_change.simps)

end
