(* ===== verification/Database.thy ===== *)
theory Database
  imports Semver
begin

text \<open>
  The relational store of \<open>app/database/duckdb/ddl.sql\<close>: one record per table row, the
  database as the record of its tables, and the \<open>INSERT\<close> of every table with the
  constraints its \<open>CREATE TABLE\<close> declares (primary key, foreign keys, \<open>UNIQUE\<close>,
  the 32-bit range of \<open>INTEGER\<close>). Columns restricted by a \<open>CHECK (... IN ...)\<close> carry the
  enumeration itself. \<open>schema_ok\<close> states the constraints of the whole store and every
  insert is shown to keep it; a refused insert changes nothing.
\<close>

section \<open>Rows\<close>

record product_row =
  p_id :: ident
  p_name :: string
  p_description :: "string option"
  p_base_version :: string
  p_bump_policy :: string
  p_created_at :: timestamp

record component_row =
  c_id :: ident
  c_product_id :: ident
  c_name :: string
  c_kind :: component_kind

record version_row =
  v_id :: ident
  v_component_id :: ident
  v_major :: int
  v_minor :: int
  v_patch :: int
  v_prerelease :: "string option"
  v_status :: version_status
  v_created_at :: timestamp

record release_row =
  r_id :: ident
  r_product_id :: ident
  r_product_version :: string
  r_label :: "string option"
  r_notes :: "string option"
  r_idempotency_key :: "string option"
  r_bump_level :: "string option"
  r_bump_rationale :: "string option"
  r_created_at :: timestamp

record release_component_row =
  rc_release_id :: ident
  rc_component_id :: ident
  rc_version_id :: ident
  rc_change_level :: "string option"

record dependency_row =
  d_id :: ident
  d_product_id :: ident
  d_from :: ident
  d_to :: ident
  d_created_at :: timestamp

datatype user_status = PENDING | USER_ACTIVE | DISABLED

record user_row =
  u_id :: ident
  u_email :: string
  u_password_hash :: string
  u_status :: user_status
  u_edition :: "string option"
  u_created_at :: timestamp

record session_row =
  s_id :: ident
  s_user_id :: ident
  s_token_hash :: string
  s_created_at :: timestamp
  s_expires_at :: timestamp

record token_row =
  t_token_hash :: string
  t_user_id :: ident
  t_expires_at :: timestamp
  t_consumed_at :: "timestamp option"

record database =
  products :: "product_row list"
  components :: "component_row list"
  versions :: "version_row list"
  releases :: "release_row list"
  release_components :: "release_component_row list"
  dependencies :: "dependency_row list"
  users :: "user_row list"
  sessions :: "session_row list"
  tokens :: "token_row list"

definition empty_database :: database where
  "empty_database = \<lparr>products = [], components = [], versions = [], releases = [],
     release_components = [], dependencies = [], users = [], sessions = [], tokens = []\<rparr>"

section \<open>Inserts under the declared constraints\<close>

definition in_integer_range :: "int \<Rightarrow> bool" where
  "in_integer_range i \<longleftrightarrow> - (2 ^ 31) \<le> i \<and> i < 2 ^ 31"

definition insert_product :: "product_row \<Rightarrow> database \<Rightarrow> database outcome" where
  "insert_product r db =
     (if p_id r \<in> p_id ` set (products db) then Inl ConstraintViolation
      else Inr (db\<lparr>products := products db @ [r]\<rparr>))"

definition insert_component :: "component_row \<Rightarrow> database \<Rightarrow> database outcome" where
  "insert_component r db =
     (if c_id r \<in> c_id ` set (components db) \<or> c_product_id r \<notin> p_id ` set (products db)
      then Inl ConstraintViolation
      else Inr (db\<lparr>components := components db @ [r]\<rparr>))"

definition insert_version :: "version_row \<Rightarrow> database \<Rightarrow> database outcome" where
  "insert_version r db =
     (if \<not> (in_integer_range (v_major r) \<and> in_integer_range (v_minor r) \<and> in_integer_range (v_patch r))
      then Inl OutOfRange
      else if v_id r \<in> v_id ` set (versions db) \<or> v_component_id r \<notin> c_id ` set (components db)
      then Inl ConstraintViolation
      else Inr (db\<lparr>versions := versions db @ [r]\<rparr>))"

definition insert_release :: "release_row \<Rightarrow> database \<Rightarrow> database outcome" where
  "insert_release r db =
     (if r_id r \<in> r_id ` set (releases db) \<or> r_product_id r \<notin> p_id ` set (products db)
      then Inl ConstraintViolation
      else Inr (db\<lparr>releases := releases db @ [r]\<rparr>))"

definition rc_key :: "release_component_row \<Rightarrow> ident \<times> ident" where
  "rc_key r = (rc_release_id r, rc_component_id r)"

definition insert_release_component :: "release_component_row \<Rightarrow> database \<Rightarrow> database outcome" where
  "insert_release_component r db =
     (if rc_key r \<in> rc_key ` set (release_components db) \<or> rc_release_id r \<notin> r_id ` set (releases db)
      then Inl ConstraintViolation
      else Inr (db\<lparr>release_components := release_components db @ [r]\<rparr>))"

definition d_key :: "dependency_row \<Rightarrow> ident \<times> ident \<times> ident" where
  "d_key r = (d_product_id r, d_from r, d_to r)"

definition insert_dependency :: "dependency_row \<Rightarrow> database \<Rightarrow> database outcome" where
  "insert_dependency r db =
     (if d_id r \<in> d_id ` set (dependencies db) \<or> d_product_id r \<notin> p_id ` set (products db)
         \<or> d_from r \<notin> c_id ` set (components db) \<or> d_to r \<notin> c_id ` set (components db)
         \<or> d_key r \<in> d_key ` set (dependencies db)
      then Inl ConstraintViolation
      else Inr (db\<lparr>dependencies := dependencies db @ [r]\<rparr>))"

definition insert_user :: "user_row \<Rightarrow> database \<Rightarrow> database outcome" where
  "insert_user r db =
     (if u_id r \<in> u_id ` set (users db) \<or> u_email r \<in> u_email ` set (users db)
      then Inl ConstraintViolation
      else Inr (db\<lparr>users := users db @ [r]\<rparr>))"

definition insert_session :: "session_row \<Rightarrow> database \<Rightarrow> database outcome" where
  "insert_session r db =
     (if s_id r \<in> s_id ` set (sessions db) \<or> s_user_id r \<notin> u_id ` set (users db)
      then Inl ConstraintViolation
      else Inr (db\<lparr>sessions := sessions db @ [r]\<rparr>))"

definition insert_token :: "token_row \<Rightarrow> database \<Rightarrow> database outcome" where
  "insert_token r db =
     (if t_token_hash r \<in> t_token_hash ` set (tokens db) \<or> t_user_id r \<notin> u_id ` set (users db)
      then Inl ConstraintViolation
      else Inr (db\<lparr>tokens := tokens db @ [r]\<rparr>))"

section \<open>The constraints of the store\<close>

definition pk :: "('r \<Rightarrow> 'k) \<Rightarrow> 'r list \<Rightarrow> bool" where
  "pk k rows \<longleftrightarrow> distinct (map k rows)"

definition fk :: "('r \<Rightarrow> 'k) \<Rightarrow> 'r list \<Rightarrow> ('q \<Rightarrow> 'k) \<Rightarrow> 'q list \<Rightarrow> bool" where
  "fk f rows k parents \<longleftrightarrow> f ` set rows \<subseteq> k ` set parents"

lemma pk_snoc [simp]: "pk k (rows @ [r]) \<longleftrightarrow> pk k rows \<and> k r \<notin> k ` set rows"
  by (auto simp: pk_def)

lemma fk_snoc [simp]: "fk f (rows @ [r]) k parents \<longleftrightarrow> fk f rows k parents \<and> f r \<in> k ` set parents"
  by (auto simp: fk_def)

lemma fk_parent_snoc: "fk f rows k parents \<Longrightarrow> fk f rows k (parents @ [q])"
  by (auto simp: fk_def)

lemma pk_fk_Nil [simp]: "pk k []" "fk f [] k parents"
  by (simp_all add: pk_def fk_def)

lemma fkD: "fk f rows k parents \<Longrightarrow> r \<in> set rows \<Longrightarrow> \<exists>q\<in>set parents. k q = f r"
  by (force simp: fk_def)

lemma pkD: "pk k rows \<Longrightarrow> r \<in> set rows \<Longrightarrow> r' \<in> set rows \<Longrightarrow> k r = k r' \<Longrightarrow> r = r'"
  unfolding pk_def by (rule distinct_key_unique)

text \<open>An update that leaves a key column alone keeps what is stated over it.\<close>

lemma pk_update [simp]: "(\<And>r. k (g r) = k r) \<Longrightarrow> pk k (sql_update P g rows) = pk k rows"
  by (simp add: pk_def map_sql_update)

lemma image_sql_update: "(\<And>r. k (g r) = k r) \<Longrightarrow> k ` set (sql_update P g rows) = k ` set rows"
  using map_sql_update[of k g P rows] by (metis list.set_map)

lemma fk_update [simp]: "(\<And>r. f (g r) = f r) \<Longrightarrow> fk f (sql_update P g rows) k parents = fk f rows k parents"
  by (simp add: fk_def image_sql_update)

lemma fk_parent_update [simp]:
  "(\<And>r. k (g r) = k r) \<Longrightarrow> fk f rows k (sql_update P g parents) = fk f rows k parents"
  by (simp add: fk_def image_sql_update)

lemma pk_delete: "pk k rows \<Longrightarrow> pk k (sql_delete P rows)"
  by (simp add: pk_def sql_delete_def distinct_map_filter)

lemma fk_delete: "fk f rows k parents \<Longrightarrow> fk f (sql_delete P rows) k parents"
  by (auto simp: fk_def sql_delete_def)

definition version_ranges :: "version_row list \<Rightarrow> bool" where
  "version_ranges vs \<longleftrightarrow> (\<forall>v\<in>set vs. in_integer_range (v_major v) \<and> in_integer_range (v_minor v)
     \<and> in_integer_range (v_patch v))"

definition schema_ok :: "database \<Rightarrow> bool" where
  "schema_ok db \<longleftrightarrow>
     pk p_id (products db) \<and>
     pk c_id (components db) \<and> fk c_product_id (components db) p_id (products db) \<and>
     pk v_id (versions db) \<and> fk v_component_id (versions db) c_id (components db) \<and>
     version_ranges (versions db) \<and>
     pk r_id (releases db) \<and> fk r_product_id (releases db) p_id (products db) \<and>
     pk rc_key (release_components db) \<and> fk rc_release_id (release_components db) r_id (releases db) \<and>
     pk d_id (dependencies db) \<and> pk d_key (dependencies db) \<and>
     fk d_product_id (dependencies db) p_id (products db) \<and>
     fk d_from (dependencies db) c_id (components db) \<and> fk d_to (dependencies db) c_id (components db) \<and>
     pk u_id (users db) \<and> pk u_email (users db) \<and>
     pk s_id (sessions db) \<and> fk s_user_id (sessions db) u_id (users db) \<and>
     pk t_token_hash (tokens db) \<and> fk t_user_id (tokens db) u_id (users db)"

lemma version_ranges_snoc [simp]:
  "version_ranges (vs @ [v]) \<longleftrightarrow> version_ranges vs \<and> in_integer_range (v_major v)
     \<and> in_integer_range (v_minor v) \<and> in_integer_range (v_patch v)"
  by (auto simp: version_ranges_def)

lemma version_ranges_Nil [simp]: "version_ranges []"
  by (simp add: version_ranges_def)

lemma version_ranges_update [simp]:
  assumes "\<And>r. v_major (g r) = v_major r" "\<And>r. v_minor (g r) = v_minor r" "\<And>r. v_patch (g r) = v_patch r"
  shows "version_ranges (sql_update P g vs) = version_ranges vs"
  using assms by (simp add: version_ranges_def ball_sql_update)

lemma schema_ok_empty: "schema_ok empty_database"
  by (simp add: schema_ok_def empty_database_def)

lemmas insert_defs = insert_product_def insert_component_def insert_version_def insert_release_def
  insert_release_component_def insert_dependency_def insert_user_def insert_session_def insert_token_def

lemma schema_ok_keys:
  assumes "schema_ok db"
  shows "distinct (map p_id (products db))" "distinct (map c_id (components db))"
    "distinct (map v_id (versions db))" "distinct (map r_id (releases db))"
    "distinct (map rc_key (release_components db))" "distinct (map d_id (dependencies db))"
    "distinct (map d_key (dependencies db))" "distinct (map u_id (users db))"
    "distinct (map u_email (users db))" "distinct (map s_id (sessions db))"
    "distinct (map t_token_hash (tokens db))"
  using assms by (simp_all add: schema_ok_def pk_def)

lemma schema_ok_insert:
  assumes "schema_ok db"
  shows "insert_product p db = Inr db' \<Longrightarrow> schema_ok db'"
    and "insert_component c db = Inr db' \<Longrightarrow> schema_ok db'"
    and "insert_version v db = Inr db' \<Longrightarrow> schema_ok db'"
    and "insert_release r db = Inr db' \<Longrightarrow> schema_ok db'"
    and "insert_release_component rc db = Inr db' \<Longrightarrow> schema_ok db'"
    and "insert_dependency d db = Inr db' \<Longrightarrow> schema_ok db'"
    and "insert_user u db = Inr db' \<Longrightarrow> schema_ok db'"
    and "insert_session s db = Inr db' \<Longrightarrow> schema_ok db'"
    and "insert_token t db = Inr db' \<Longrightarrow> schema_ok db'"
  using assms unfolding insert_defs schema_ok_def
  by (simp_all split: if_splits)
     (drule sym, simp add: fk_parent_snoc)+

text \<open>The frame of a successful insert: the row is appended and nothing else moves.\<close>

lemma insert_frame:
  "insert_product p db = Inr db' \<Longrightarrow> db' = db\<lparr>products := products db @ [p]\<rparr>"
  "insert_component c db = Inr db' \<Longrightarrow> db' = db\<lparr>components := components db @ [c]\<rparr>"
  "insert_version v db = Inr db' \<Longrightarrow> db' = db\<lparr>versions := versions db @ [v]\<rparr>"
  "insert_release r db = Inr db' \<Longrightarrow> db' = db\<lparr>releases := releases db @ [r]\<rparr>"
  "insert_release_component rc db = Inr db' \<Longrightarrow>
     db' = db\<lparr>release_components := release_components db @ [rc]\<rparr>"
  "insert_dependency d db = Inr db' \<Longrightarrow> db' = db\<lparr>dependencies := dependencies db @ [d]\<rparr>"
  "insert_user u db = Inr db' \<Longrightarrow> db' = db\<lparr>users := users db @ [u]\<rparr>"
  "insert_session s db = Inr db' \<Longrightarrow> db' = db\<lparr>sessions := sessions db @ [s]\<rparr>"
  "insert_token t db = Inr db' \<Longrightarrow> db' = db\<lparr>tokens := tokens db @ [t]\<rparr>"
  unfolding insert_defs by (auto split: if_splits)

section \<open>A small store\<close>

text \<open>
  One product with two components: \<open>a\<close> at 1.1.0 after 1.0.0, \<open>b\<close> at 2.0.0, and the edge from
  \<open>a\<close> to \<open>b\<close>. The witnesses run the operations on it.
\<close>

definition sample_version :: "ident \<Rightarrow> ident \<Rightarrow> int \<Rightarrow> int \<Rightarrow> version_status \<Rightarrow> version_row" where
  "sample_version i c major minor st = \<lparr>v_id = i, v_component_id = c, v_major = major, v_minor = minor,
     v_patch = 0, v_prerelease = None, v_status = st, v_created_at = 0\<rparr>"

definition sample_database :: database where
  "sample_database = empty_database\<lparr>
     products := [\<lparr>p_id = ''p'', p_name = ''Product'', p_description = None, p_base_version = ''0.0.0'',
                   p_bump_policy = ''default'', p_created_at = 0\<rparr>],
     components := [\<lparr>c_id = ''a'', c_product_id = ''p'', c_name = ''A'', c_kind = LIBRARY\<rparr>,
                    \<lparr>c_id = ''b'', c_product_id = ''p'', c_name = ''B'', c_kind = SERVICE\<rparr>],
     versions := [sample_version ''a1'' ''a'' 1 0 SUPERSEDED, sample_version ''a2'' ''a'' 1 1 ACTIVE,
                  sample_version ''b1'' ''b'' 2 0 ACTIVE],
     dependencies := [\<lparr>d_id = ''d1'', d_product_id = ''p'', d_from = ''a'', d_to = ''b'', d_created_at = 0\<rparr>]\<rparr>"

lemmas sample_defs = sample_database_def sample_version_def empty_database_def

lemma schema_ok_sample: "schema_ok sample_database"
  by (simp add: schema_ok_def sample_defs pk_def fk_def version_ranges_def in_integer_range_def d_key_def)

end
