(* ===== verification/Responses.thy ===== *)
theory Responses
  imports Database
begin

text \<open>
  The response bodies of \<open>app/models/responses\<close> as records, their JSON form
  (\<open>model_dump\<close>), and the row mappers shared by several queries. A model with bounded
  fields refuses a row outside the bounds with pydantic's \<open>ValidationError\<close>, a
  \<open>ValueError\<close>.
\<close>

record product_response =
  pr_id :: ident
  pr_name :: string
  pr_description :: "string option"
  pr_base_version :: string
  pr_created_at :: string

record component_response =
  cr_id :: ident
  cr_product_id :: ident
  cr_name :: string
  cr_kind :: component_kind

record version_response =
  vr_id :: ident
  vr_component_id :: ident
  vr_major :: int
  vr_minor :: int
  vr_patch :: int
  vr_prerelease :: "string option"
  vr_status :: version_status
  vr_created_at :: string

record component_with_versions_response =
  cw_id :: ident
  cw_product_id :: ident
  cw_name :: string
  cw_kind :: component_kind
  cw_versions :: "version_response list"

record timeline_response =
  tl_product :: product_response
  tl_components :: "component_with_versions_response list"

record dependency_response =
  dr_id :: ident
  dr_product_id :: ident
  dr_from_component_id :: ident
  dr_to_component_id :: ident
  dr_created_at :: string

record graph_response =
  gr_product_id :: ident
  gr_nodes :: "component_response list"
  gr_edges :: "dependency_response list"

record impacted_component =
  ic_component_id :: ident
  ic_projected_change_level :: string

record impact_response =
  ir_component_id :: ident
  ir_impacted :: "impacted_component list"

record release_component_response =
  rcr_component_id :: ident
  rcr_name :: string
  rcr_version_id :: ident
  rcr_version :: string
  rcr_change_level :: "string option"

record release_response =
  rr_id :: ident
  rr_product_id :: ident
  rr_product_version :: string
  rr_label :: "string option"
  rr_notes :: "string option"
  rr_created_at :: string
  rr_bump_level :: "string option"
  rr_bump_rationale :: "string option"
  rr_components :: "release_component_response list"

section \<open>Validation and row mappers\<close>

definition validate_version_response :: "version_response \<Rightarrow> version_response outcome" where
  "validate_version_response v =
     (if 0 \<le> vr_major v \<and> 0 \<le> vr_minor v \<and> 0 \<le> vr_patch v then Inr v else Inl ValueError)"

definition to_product_model :: "product_row \<Rightarrow> product_response" where
  "to_product_model r =
     \<lparr>pr_id = p_id r, pr_name = p_name r, pr_description = p_description r,
      pr_base_version = p_base_version r, pr_created_at = isoformat (p_created_at r)\<rparr>"

definition to_component_model :: "component_row \<Rightarrow> component_response" where
  "to_component_model r =
     \<lparr>cr_id = c_id r, cr_product_id = c_product_id r, cr_name = c_name r, cr_kind = c_kind r\<rparr>"

definition version_fields :: "version_row \<Rightarrow> version_response" where
  "version_fields r =
     \<lparr>vr_id = v_id r, vr_component_id = v_component_id r, vr_major = v_major r, vr_minor = v_minor r,
      vr_patch = v_patch r, vr_prerelease = v_prerelease r, vr_status = v_status r,
      vr_created_at = isoformat (v_created_at r)\<rparr>"

definition to_version_response :: "version_row \<Rightarrow> version_response outcome" where
  "to_version_response r = validate_version_response (version_fields r)"

definition to_dependency_model :: "dependency_row \<Rightarrow> dependency_response" where
  "to_dependency_model r =
     \<lparr>dr_id = d_id r, dr_product_id = d_product_id r, dr_from_component_id = d_from r,
      dr_to_component_id = d_to r, dr_created_at = isoformat (d_created_at r)\<rparr>"

text \<open>A comprehension over a mapper that may raise stops at the first failure.\<close>

fun map_outcome :: "('a \<Rightarrow> 'b outcome) \<Rightarrow> 'a list \<Rightarrow> 'b list outcome" where
  "map_outcome f [] = Inr []"
| "map_outcome f (x # xs) =
     (case f x of Inl e \<Rightarrow> Inl e
      | Inr y \<Rightarrow> (case map_outcome f xs of Inl e \<Rightarrow> Inl e | Inr ys \<Rightarrow> Inr (y # ys)))"

lemma map_outcome_Inr: "(\<And>x. x \<in> set xs \<Longrightarrow> f x = Inr (g x)) \<Longrightarrow> map_outcome f xs = Inr (map g xs)"
  by (induction xs) auto

definition parts_nonneg :: "version_row \<Rightarrow> bool" where
  "parts_nonneg r \<longleftrightarrow> 0 \<le> v_major r \<and> 0 \<le> v_minor r \<and> 0 \<le> v_patch r"

lemma to_version_response_ok: "parts_nonneg r \<Longrightarrow> to_version_response r = Inr (version_fields r)"
  by (simp add: to_version_response_def validate_version_response_def version_fields_def parts_nonneg_def)

lemma to_version_response_Inr:
  "to_version_response r = Inr v \<Longrightarrow> v = version_fields r \<and> parts_nonneg r"
  by (auto simp: to_version_response_def validate_version_response_def version_fields_def
      parts_nonneg_def split: if_splits)

section \<open>JSON forms\<close>

definition product_json :: "product_response \<Rightarrow> json" where
  "product_json p = JObj
     [(''id'', JStr (pr_id p)), (''name'', JStr (pr_name p)), (''description'', json_opt JStr (pr_description p)),
      (''base_version'', JStr (pr_base_version p)), (''created_at'', JStr (pr_created_at p))]"

definition component_json :: "component_response \<Rightarrow> json" where
  "component_json c = JObj
     [(''id'', JStr (cr_id c)), (''product_id'', JStr (cr_product_id c)), (''name'', JStr (cr_name c)),
      (''kind'', JStr (component_kind_value (cr_kind c)))]"

definition version_json :: "version_response \<Rightarrow> json" where
  "version_json v = JObj
     [(''id'', JStr (vr_id v)), (''component_id'', JStr (vr_component_id v)), (''major'', JInt (vr_major v)),
      (''minor'', JInt (vr_minor v)), (''patch'', JInt (vr_patch v)),
      (''prerelease'', json_opt JStr (vr_prerelease v)),
      (''status'', JStr (version_status_value (vr_status v))), (''created_at'', JStr (vr_created_at v))]"

definition dependency_json :: "dependency_response \<Rightarrow> json" where
  "dependency_json d = JObj
     [(''id'', JStr (dr_id d)), (''product_id'', JStr (dr_product_id d)),
      (''from_component_id'', JStr (dr_from_component_id d)),
      (''to_component_id'', JStr (dr_to_component_id d)), (''created_at'', JStr (dr_created_at d))]"

definition release_component_json :: "release_component_response \<Rightarrow> json" where
  "release_component_json c = JObj
     [(''component_id'', JStr (rcr_component_id c)), (''name'', JStr (rcr_name c)),
      (''version_id'', JStr (rcr_version_id c)), (''version'', JStr (rcr_version c)),
      (''change_level'', json_opt JStr (rcr_change_level c))]"

definition release_json :: "release_response \<Rightarrow> json" where
  "release_json r = JObj
     [(''id'', JStr (rr_id r)), (''product_id'', JStr (rr_product_id r)),
      (''product_version'', JStr (rr_product_version r)), (''label'', json_opt JStr (rr_label r)),
      (''notes'', json_opt JStr (rr_notes r)), (''created_at'', JStr (rr_created_at r)),
      (''bump_level'', json_opt JStr (rr_bump_level r)),
      (''bump_rationale'', json_opt JStr (rr_bump_rationale r)),
      (''components'', JArr (map release_component_json (rr_components r)))]"

end
