(* ===== verification/Catalog.thy ===== *)
theory Catalog
  imports Responses "HOL-Library.Multiset"
begin

text \<open>
  \<open>app/queries/products\<close> and \<open>app/queries/components\<close>: creating and reading products,
  components and a component's version history. Each query is a function of its request, of
  what it reads from outside (the fresh identifier, the clock) and of the database, and
  returns its outcome with the database it leaves, whether or not it raised.
\<close>

definition squoted :: "string \<Rightarrow> string" where
  "squoted s = [CHR 0x27] @ s @ [CHR 0x27]"

section \<open>Statements\<close>

definition select_products_by_name :: "string \<Rightarrow> database \<Rightarrow> product_row list" where
  "select_products_by_name name db = filter (\<lambda>p. p_name p = name) (products db)"

definition select_products_by_id :: "ident \<Rightarrow> database \<Rightarrow> product_row list" where
  "select_products_by_id i db = filter (\<lambda>p. p_id p = i) (products db)"

definition select_all_products :: "database \<Rightarrow> product_row list" where
  "select_all_products db = order_by (\<lambda>p. (p_created_at p, p_id p)) (products db)"

definition select_components_by_id :: "ident \<Rightarrow> database \<Rightarrow> component_row list" where
  "select_components_by_id i db = filter (\<lambda>c. c_id c = i) (components db)"

definition select_components_of_product :: "ident \<Rightarrow> database \<Rightarrow> component_row list" where
  "select_components_of_product pid db =
     order_by (\<lambda>c. (c_name c, c_id c)) (filter (\<lambda>c. c_product_id c = pid) (components db))"

definition select_versions_of_component :: "ident \<Rightarrow> database \<Rightarrow> version_row list" where
  "select_versions_of_component cid db =
     order_by_desc (\<lambda>v. (v_major v, v_minor v, v_patch v))
       (filter (\<lambda>v. v_component_id v = cid) (versions db))"

section \<open>Products\<close>

record create_product_model =
  cp_name :: string
  cp_description :: "string option"

definition validate_create_product :: "string \<Rightarrow> string option \<Rightarrow> create_product_model option" where
  "validate_create_product name description =
     (if 1 \<le> length name \<and> length name \<le> 256
         \<and> (case description of None \<Rightarrow> True | Some d \<Rightarrow> length d \<le> 4096)
      then Some \<lparr>cp_name = name, cp_description = description\<rparr> else None)"

definition new_product_row :: "ident \<Rightarrow> timestamp \<Rightarrow> create_product_model \<Rightarrow> product_row" where
  "new_product_row product_id now data =
     \<lparr>p_id = product_id, p_name = cp_name data, p_description = cp_description data,
      p_base_version = ''0.0.0'', p_bump_policy = bump_policy_value POLICY_DEFAULT, p_created_at = now\<rparr>"

definition create_product_query ::
  "ident \<Rightarrow> timestamp \<Rightarrow> create_product_model \<Rightarrow> database \<Rightarrow> product_response outcome \<times> database" where
  "create_product_query product_id now data db =
     (case fetchone (select_products_by_name (cp_name data) db) of
        Some _ \<Rightarrow>
          (Inl (ConflictError (''A product named '' @ squoted (cp_name data) @ '' already exists.'')
             [(''name'', JStr (cp_name data))]), db)
      | None \<Rightarrow>
          (case insert_product (new_product_row product_id now data) db of
             Inl e \<Rightarrow> (Inl e, db)
           | Inr db1 \<Rightarrow>
               (case fetchone (select_products_by_id product_id db1) of
                  None \<Rightarrow>
                    (Inl (ConflictError ''The product could not be read back after insertion.''
                       [(''id'', JStr product_id)]), db1)
                | Some row \<Rightarrow> (Inr (to_product_model row), db1))))"

definition get_product_by_id_query :: "ident \<Rightarrow> database \<Rightarrow> product_response outcome" where
  "get_product_by_id_query product_id db =
     (case fetchone (select_products_by_id product_id db) of
        None \<Rightarrow> Inl (NotFoundError (''No product exists with id '' @ squoted product_id @ ''.'')
                      [(''id'', JStr product_id)])
      | Some row \<Rightarrow> Inr (to_product_model row))"

definition list_products_query :: "database \<Rightarrow> product_response list" where
  "list_products_query db = map to_product_model (select_all_products db)"

definition list_components_by_product_query :: "ident \<Rightarrow> database \<Rightarrow> component_response list" where
  "list_components_by_product_query product_id db =
     map to_component_model (select_components_of_product product_id db)"

text \<open>\<open>GET /products/{id}/components\<close>: the product first, then its components.\<close>

definition list_product_components :: "ident \<Rightarrow> database \<Rightarrow> component_response list outcome" where
  "list_product_components product_id db =
     (case get_product_by_id_query product_id db of
        Inl e \<Rightarrow> Inl e
      | Inr _ \<Rightarrow> Inr (list_components_by_product_query product_id db))"

section \<open>Components\<close>

record create_component_model =
  cc_product_id :: ident
  cc_name :: string
  cc_kind :: component_kind

definition validate_create_component ::
  "(string \<Rightarrow> bool) \<Rightarrow> ident \<Rightarrow> string \<Rightarrow> component_kind \<Rightarrow> create_component_model option" where
  "validate_create_component valid_ulid product_id name kind =
     (if valid_ulid product_id \<and> 1 \<le> length name \<and> length name \<le> 256
      then Some \<lparr>cc_product_id = product_id, cc_name = name, cc_kind = kind\<rparr> else None)"

definition create_component_query ::
  "ident \<Rightarrow> create_component_model \<Rightarrow> database \<Rightarrow> component_response outcome \<times> database" where
  "create_component_query component_id data db =
     (case fetchone (select_products_by_id (cc_product_id data) db) of
        None \<Rightarrow>
          (Inl (NotFoundError (''Product '' @ squoted (cc_product_id data) @ '' does not exist.'')
             [(''product_id'', JStr (cc_product_id data))]), db)
      | Some _ \<Rightarrow>
          (case insert_component \<lparr>c_id = component_id, c_product_id = cc_product_id data,
                                  c_name = cc_name data, c_kind = cc_kind data\<rparr> db of
             Inl e \<Rightarrow> (Inl e, db)
           | Inr db1 \<Rightarrow>
               (Inr \<lparr>cr_id = component_id, cr_product_id = cc_product_id data,
                     cr_name = cc_name data, cr_kind = cc_kind data\<rparr>, db1)))"

definition list_component_versions_query :: "ident \<Rightarrow> database \<Rightarrow> version_response list outcome" where
  "list_component_versions_query component_id db =
     (case fetchone (select_components_by_id component_id db) of
        None \<Rightarrow> Inl (NotFoundError (''Component '' @ squoted component_id @ '' does not exist.'')
                      [(''component_id'', JStr component_id)])
      | Some _ \<Rightarrow> map_outcome to_version_response (select_versions_of_component component_id db))"

section \<open>Selection by key\<close>

lemma fetchone_by_key:
  "pk k rows \<Longrightarrow> r \<in> set rows \<Longrightarrow> k r = x \<Longrightarrow> filter (\<lambda>y. k y = x) rows = [r]"
  using filter_key_single[of k rows r] by (simp add: pk_def)

lemma fetchone_filter_None: "fetchone (filter P rows) = None \<longleftrightarrow> (\<forall>r\<in>set rows. \<not> P r)"
  by (simp add: fetchone_None filter_empty_conv)

lemma fetchone_filter_Some: "fetchone (filter P rows) = Some r \<Longrightarrow> r \<in> set rows \<and> P r"
  using fetchone_Some_in[of "filter P rows" r] by simp

lemma select_component_Some:
  "fetchone (select_components_by_id i db) = Some c \<Longrightarrow> c \<in> set (components db) \<and> c_id c = i"
  unfolding select_components_by_id_def by (rule fetchone_filter_Some)

lemma select_component_None:
  "fetchone (select_components_by_id i db) = None \<longleftrightarrow> i \<notin> c_id ` set (components db)"
  by (auto simp: select_components_by_id_def fetchone_filter_None)

lemma select_product_Some:
  "fetchone (select_products_by_id i db) = Some p \<Longrightarrow> p \<in> set (products db) \<and> p_id p = i"
  unfolding select_products_by_id_def by (rule fetchone_filter_Some)

lemma select_product_None:
  "fetchone (select_products_by_id i db) = None \<longleftrightarrow> i \<notin> p_id ` set (products db)"
  by (auto simp: select_products_by_id_def fetchone_filter_None)

section \<open>What the queries do to the database\<close>

text \<open>A query that raises before its insert, or whose insert is refused, changes nothing.\<close>

lemma create_product_cases:
  assumes "create_product_query i now data db = (res, db')"
  obtains (refused) e where "res = Inl e" "db' = db"
  | (created) "cp_name data \<notin> p_name ` set (products db)" "i \<notin> p_id ` set (products db)"
      "db' = db\<lparr>products := products db @ [new_product_row i now data]\<rparr>"
      "res = Inr (to_product_model (new_product_row i now data))"
proof (cases "fetchone (select_products_by_name (cp_name data) db)")
  case None
  show ?thesis
  proof (cases "insert_product (new_product_row i now data) db")
    case (Inl e)
    with None assms show ?thesis by (intro refused) (auto simp: create_product_query_def)
  next
    case (Inr db1)
    have i: "i \<notin> p_id ` set (products db)"
      using Inr by (auto simp: insert_product_def new_product_row_def split: if_splits)
    note db1 = insert_frame(1)[OF Inr]
    have "filter (\<lambda>p. p_id p = i) (products db) = []" using i by (auto simp: filter_empty_conv)
    then have "select_products_by_id i db1 = [new_product_row i now data]"
      by (simp add: select_products_by_id_def db1 new_product_row_def)
    with None Inr assms i show ?thesis
      by (intro created) (auto simp: create_product_query_def select_products_by_name_def
          fetchone_filter_None db1)
  qed
next
  case (Some p)
  with assms show ?thesis by (intro refused) (auto simp: create_product_query_def)
qed

lemma create_component_cases:
  assumes "create_component_query i data db = (res, db')"
  obtains (refused) e where "res = Inl e" "db' = db"
  | (created) c where "c = \<lparr>c_id = i, c_product_id = cc_product_id data, c_name = cc_name data,
        c_kind = cc_kind data\<rparr>" "cc_product_id data \<in> p_id ` set (products db)"
      "i \<notin> c_id ` set (components db)"
      "insert_component c db = Inr db'" "db' = db\<lparr>components := components db @ [c]\<rparr>"
      "res = Inr (to_component_model c)"
proof -
  let ?c = "\<lparr>c_id = i, c_product_id = cc_product_id data, c_name = cc_name data, c_kind = cc_kind data\<rparr>"
  show ?thesis
  proof (cases "fetchone (select_products_by_id (cc_product_id data) db)")
    case None
    with assms show ?thesis by (intro refused) (auto simp: create_component_query_def)
  next
    case (Some p)
    note p = Some
    show ?thesis
    proof (cases "insert_component ?c db")
      case (Inl e)
      with p assms show ?thesis by (intro refused) (auto simp: create_component_query_def)
    next
      case (Inr db1)
      then have "cc_product_id data \<in> p_id ` set (products db)" "i \<notin> c_id ` set (components db)"
        by (auto simp: insert_component_def split: if_splits)
      with p Inr assms insert_frame(2)[OF Inr] show ?thesis
        by (intro created[of ?c]) (auto simp: create_component_query_def to_component_model_def)
    qed
  qed
qed

definition names_unique :: "product_row list \<Rightarrow> bool" where
  "names_unique ps \<longleftrightarrow> pk p_name ps"

lemma create_product_keeps:
  assumes "create_product_query i now data db = (res, db')" "schema_ok db" "names_unique (products db)"
  shows "schema_ok db' \<and> names_unique (products db')"
  using assms(1)
proof (cases rule: create_product_cases)
  case created
  then have "insert_product (new_product_row i now data) db = Inr db'"
    by (simp add: insert_product_def new_product_row_def)
  from schema_ok_insert(1)[OF assms(2) this] created assms(3) show ?thesis
    by (simp add: names_unique_def new_product_row_def)
qed (use assms in simp)

text \<open>A version history read is a permutation of the component's rows, newest first.\<close>

lemma list_versions_sorted:
  assumes "list_component_versions_query cid db = Inr vs"
  shows "vs = map version_fields (select_versions_of_component cid db)"
proof -
  have "map_outcome to_version_response rows = Inr ys \<Longrightarrow> ys = map version_fields rows" for rows ys
    by (induction rows arbitrary: ys) (auto split: sum.splits dest: to_version_response_Inr)
  with assms show ?thesis by (auto simp: list_component_versions_query_def split: option.splits)
qed

section \<open>Properties\<close>

definition product_model :: create_product_model where
  "product_model = \<lparr>cp_name = ''New'', cp_description = None\<rparr>"

lemma sample_names_unique: "names_unique (products sample_database)"
  by (simp add: names_unique_def sample_defs pk_def)

text \<open>Product names stay unique: creating a product is refused, with the store unchanged,
  exactly when the name or the identifier is taken (a taken name gives the conflict error);
  otherwise one row is appended, it is read back by its identifier exactly as the create call
  answered it, and every other product still reads as before.\<close>

theorem create_product_correct:
  assumes "create_product_query i now data db = (res, db')"
    and "schema_ok db" "names_unique (products db)"
  shows "(isl res \<longleftrightarrow> cp_name data \<in> p_name ` set (products db) \<or> i \<in> p_id ` set (products db)) \<and>
    (isl res \<longrightarrow> db' = db) \<and>
    (cp_name data \<in> p_name ` set (products db) \<longrightarrow> (\<exists>msg details. res = Inl (ConflictError msg details))) \<and>
    (\<not> isl res \<longrightarrow> get_product_by_id_query i db' = res) \<and>
    (\<forall>j. j \<noteq> i \<longrightarrow> get_product_by_id_query j db' = get_product_by_id_query j db) \<and>
    schema_ok db' \<and> names_unique (products db')"
proof (cases "cp_name data \<in> p_name ` set (products db)")
  case True
  then have "fetchone (select_products_by_name (cp_name data) db) \<noteq> None"
    by (auto simp: select_products_by_name_def fetchone_filter_None)
  then have "db' = db" and res: "res = Inl (ConflictError (''A product named '' @ squoted (cp_name data) @ '' already exists.'')
             [(''name'', JStr (cp_name data))])"
    using assms(1) by (auto simp: create_product_query_def)
  moreover from res have "\<exists>msg details. res = Inl (ConflictError msg details)" by blast
  ultimately show ?thesis using True assms(2,3) by simp
next
  case False
  then have none: "fetchone (select_products_by_name (cp_name data) db) = None"
    by (auto simp: select_products_by_name_def fetchone_filter_None image_iff)
  note keeps = create_product_keeps[OF assms]
  from assms(1) show ?thesis
  proof (cases rule: create_product_cases)
    case (refused e)
    have "i \<in> p_id ` set (products db)"
    proof (rule ccontr)
      assume "i \<notin> p_id ` set (products db)"
      with none assms(1) refused show False
        by (auto simp: create_product_query_def insert_product_def new_product_row_def select_products_by_id_def fetchone_None
            split: option.splits)
    qed
    with False refused keeps show ?thesis by auto
  next
    case created
    have "filter (\<lambda>p. p_id p = i) (products db) = []" using created(2) by (auto simp: filter_empty_conv)
    then have "get_product_by_id_query i db' = res"
      by (simp add: get_product_by_id_query_def select_products_by_id_def created(3,4) new_product_row_def)
    moreover have "get_product_by_id_query j db' = get_product_by_id_query j db" if "j \<noteq> i" for j
      using that by (simp add: get_product_by_id_query_def select_products_by_id_def created(3) new_product_row_def)
    ultimately show ?thesis using False created keeps by auto
  qed
qed

theorem create_product_correct_witness:
  "\<exists>r db'. create_product_query ''q'' 7 product_model sample_database = (Inr r, db') \<and>
     get_product_by_id_query ''q'' db' = Inr r"
proof -
  obtain res db' where run: "create_product_query ''q'' 7 product_model sample_database = (res, db')"
    by (cases "create_product_query ''q'' 7 product_model sample_database")
  note facts = create_product_correct[OF run schema_ok_sample sample_names_unique]
  have "\<not> isl res" using facts by (simp add: product_model_def sample_defs)
  with facts run show ?thesis by (cases res) auto
qed

text \<open>A component's version listing is complete and ordered: for an existing component with
  stored versions in range it returns every one of its versions exactly once, newest core
  first, and an unknown component is a not-found error rather than an empty list.\<close>

theorem list_component_versions_correct:
  assumes "\<forall>v\<in>set (versions db). parts_nonneg v"
  shows "(if cid \<in> c_id ` set (components db)
     then \<exists>rows. list_component_versions_query cid db = Inr (map version_fields rows) \<and>
       mset rows = mset (filter (\<lambda>v. v_component_id v = cid) (versions db)) \<and>
       sorted_wrt (\<lambda>v w. (v_major v, v_minor v, v_patch v) \<ge> (v_major w, v_minor w, v_patch w)) rows
     else \<exists>msg details. list_component_versions_query cid db = Inl (NotFoundError msg details))"
proof (cases "fetchone (select_components_by_id cid db)")
  case None
  then show ?thesis using select_component_None[of cid db] by (auto simp: list_component_versions_query_def)
next
  case (Some c)
  let ?rows = "select_versions_of_component cid db"
  have "\<forall>v\<in>set ?rows. parts_nonneg v" using assms by (simp add: select_versions_of_component_def)
  then have "map_outcome to_version_response rows = Inr (map version_fields rows)" if "set rows \<subseteq> set ?rows" for rows
    using that by (induction rows) (auto simp: to_version_response_ok)
  then have "list_component_versions_query cid db = Inr (map version_fields ?rows)"
    by (simp add: list_component_versions_query_def Some)
  moreover have "mset ?rows = mset (filter (\<lambda>v. v_component_id v = cid) (versions db))"
    by (simp add: select_versions_of_component_def order_by_desc_def)
  moreover have "sorted_wrt (\<lambda>v w. (v_major v, v_minor v, v_patch v) \<ge> (v_major w, v_minor w, v_patch w)) ?rows"
    unfolding select_versions_of_component_def by (rule order_by_desc_sorted)
  moreover have "cid \<in> c_id ` set (components db)"
    using Some select_component_None[of cid db] by auto
  ultimately show ?thesis by auto
qed

theorem list_component_versions_correct_witness:
  "\<exists>rows. list_component_versions_query ''a'' sample_database = Inr (map version_fields rows) \<and> length rows = 2"
proof -
  have nonneg: "\<forall>v\<in>set (versions sample_database). parts_nonneg v" by (simp add: sample_defs parts_nonneg_def)
  have "''a'' \<in> c_id ` set (components sample_database)" by (simp add: sample_defs)
  with list_component_versions_correct[OF nonneg, of "''a''"] obtain rows where
    "list_component_versions_query ''a'' sample_database = Inr (map version_fields rows)"
    "mset rows = mset (filter (\<lambda>v. v_component_id v = ''a'') (versions sample_database))" by auto
  moreover from this(2) have "length rows = length (filter (\<lambda>v. v_component_id v = ''a'') (versions sample_database))"
    by (metis size_mset)
  ultimately show ?thesis by (auto simp: sample_defs)
qed

end
