(* ===== verification/Ring.thy ===== *)
theory Ring
  imports Prelude "HOL-Library.Sublist"
begin

text \<open>
  The drop-oldest contract two components of the program share: the subscriber queues of
  the event bus and the mailbox of the capture mailer. A buffer of capacity \<open>cap\<close> holds, after any
  sequence of puts, the last \<open>cap\<close> of everything it was given; the laws are proved once
  here and each component interprets the locale on its own operations.
\<close>

definition last_n :: "nat \<Rightarrow> 'a list \<Rightarrow> 'a list" where
  "last_n n xs = drop (length xs - n) xs"

lemma length_last_n [simp]: "length (last_n n xs) = min (length xs) n"
  by (simp add: last_n_def)

lemma last_n_all: "length xs \<le> n \<Longrightarrow> last_n n xs = xs"
  by (simp add: last_n_def)

lemma last_n_snoc_full: "length xs = n \<Longrightarrow> 0 < n \<Longrightarrow> last_n n (xs @ [x]) = tl xs @ [x]"
  by (simp add: last_n_def drop_Suc)

lemma last_n_append: "last_n n (last_n n xs @ ys) = last_n n (xs @ ys)"
proof (cases "length xs \<le> n")
  case False
  then have "length ys + length xs - n = length ys + (length xs - n)"
    and "length xs + length ys - n = length ys + (length xs - n)" by simp_all
  with False show ?thesis by (simp add: last_n_def)
qed (simp add: last_n_all)

lemma last_n_suffix: "suffix (last_n n xs) xs"
  by (simp add: last_n_def suffix_drop)

lemma last_n_last: "0 < n \<Longrightarrow> xs \<noteq> [] \<Longrightarrow> last_n n xs \<noteq> [] \<and> last (last_n n xs) = last xs"
  by (cases xs) (simp_all add: last_n_def last_drop)

locale bounded_buffer =
  fixes put :: "'e \<Rightarrow> 'q \<Rightarrow> 'q" and contents :: "'q \<Rightarrow> 'e list" and cap :: nat
  assumes cap_pos: "0 < cap"
    and put_contents: "length (contents q) \<le> cap \<Longrightarrow> contents (put e q) = last_n cap (contents q @ [e])"
begin

lemma put_bounded: "length (contents q) \<le> cap \<Longrightarrow> length (contents (put e q)) \<le> cap"
  by (simp add: put_contents)

lemma put_keeps_newest:
  "length (contents q) \<le> cap \<Longrightarrow> contents (put e q) \<noteq> [] \<and> last (contents (put e q)) = e"
  using last_n_last[OF cap_pos, of "contents q @ [e]"] by (simp add: put_contents)

lemma put_room: "length (contents q) < cap \<Longrightarrow> contents (put e q) = contents q @ [e]"
  by (simp add: put_contents last_n_all)

lemma put_full: "length (contents q) = cap \<Longrightarrow> contents (put e q) = tl (contents q) @ [e]"
  by (simp add: put_contents last_n_snoc_full cap_pos)

lemma put_all:
  "length (contents q) \<le> cap \<Longrightarrow> contents (fold put es q) = last_n cap (contents q @ es)"
proof (induction es arbitrary: q)
  case (Cons e es)
  from Cons.IH[OF put_bounded[OF Cons.prems]] show ?case
    using last_n_append[of cap "contents q @ [e]" es] by (simp add: put_contents[OF Cons.prems])
qed (simp add: last_n_all)

lemma put_all_from_empty:
  assumes "contents q = []"
  shows "contents (fold put es q) = last_n cap es"
  using put_all[of q es] assms by simp

end

end
