(* ===== verification/Event_Bus.thy ===== *)
theory Event_Bus
  imports Ring Errors
begin

text \<open>
  \<open>app/events\<close>: the in-process bus that fans domain events out to the queues subscribed to a
  product. Queue objects live in an explicit store (\<open>queues\<close>, addressed by allocation number)
  because the registry and the consumer share them; \<open>subscribers\<close> is the registry proper, a
  dictionary of sets of queue references (kept as duplicate-free lists).
\<close>

datatype event_type =
    VERSION_CREATED | VERSION_ROLLED_BACK | RELEASE_CUT | DEPENDENCY_ADDED | DEPENDENCY_REMOVED

fun event_type_value :: "event_type \<Rightarrow> string" where
  "event_type_value VERSION_CREATED = ''version.created''"
| "event_type_value VERSION_ROLLED_BACK = ''version.rolled_back''"
| "event_type_value RELEASE_CUT = ''release.cut''"
| "event_type_value DEPENDENCY_ADDED = ''dependency.added''"
| "event_type_value DEPENDENCY_REMOVED = ''dependency.removed''"

record domain_event =
  event_type :: event_type
  event_product_id :: ident
  event_data :: "(string \<times> json) list"

type_synonym queue_ref = nat

record event_bus =
  subscribers :: "(ident, queue_ref list) dict"
  queues :: "(queue_ref, domain_event list) dict"
  next_ref :: queue_ref

definition QUEUE_MAXSIZE :: nat where
  "QUEUE_MAXSIZE = 256"

definition new_event_bus :: event_bus where
  "new_event_bus = \<lparr>subscribers = [], queues = [], next_ref = 0\<rparr>"

section \<open>Queues\<close>

text \<open>\<open>put_nowait\<close> and \<open>get_nowait\<close>: \<open>None\<close> is \<open>QueueFull\<close>, respectively \<open>QueueEmpty\<close>.\<close>

definition put_nowait :: "domain_event \<Rightarrow> domain_event list \<Rightarrow> domain_event list option" where
  "put_nowait ev q = (if QUEUE_MAXSIZE \<le> length q then None else Some (q @ [ev]))"

fun get_nowait :: "domain_event list \<Rightarrow> (domain_event \<times> domain_event list) option" where
  "get_nowait [] = None"
| "get_nowait (e # q) = Some (e, q)"

definition evict_oldest_and_put :: "domain_event \<Rightarrow> domain_event list \<Rightarrow> domain_event list" where
  "evict_oldest_and_put ev q =
     (let q' = (case get_nowait q of None \<Rightarrow> q | Some (_, rest) \<Rightarrow> rest)
      in case put_nowait ev q' of None \<Rightarrow> q' | Some q'' \<Rightarrow> q'')"

definition offer :: "domain_event \<Rightarrow> domain_event list \<Rightarrow> domain_event list" where
  "offer ev q = (case put_nowait ev q of Some q' \<Rightarrow> q' | None \<Rightarrow> evict_oldest_and_put ev q)"

lemma offer_last_n:
  assumes "length q \<le> QUEUE_MAXSIZE"
  shows "offer ev q = last_n QUEUE_MAXSIZE (q @ [ev])"
proof (cases "length q = QUEUE_MAXSIZE")
  case True
  then obtain e q' where "q = e # q'" by (cases q) (simp_all add: QUEUE_MAXSIZE_def)
  with True show ?thesis
    by (simp add: offer_def put_nowait_def evict_oldest_and_put_def last_n_def QUEUE_MAXSIZE_def)
next
  case False
  with assms show ?thesis by (simp add: offer_def put_nowait_def last_n_all)
qed

interpretation ring256: bounded_buffer offer "\<lambda>q. q" QUEUE_MAXSIZE
  by unfold_locales (simp_all add: offer_last_n QUEUE_MAXSIZE_def)

section \<open>The bus\<close>

definition queue_of :: "event_bus \<Rightarrow> queue_ref \<Rightarrow> domain_event list" where
  "queue_of bus q = (case dict_get (queues bus) q of None \<Rightarrow> [] | Some es \<Rightarrow> es)"

definition subscribers_of :: "event_bus \<Rightarrow> ident \<Rightarrow> queue_ref list" where
  "subscribers_of bus pid = (case dict_get (subscribers bus) pid of None \<Rightarrow> [] | Some qs \<Rightarrow> qs)"

definition set_queue :: "queue_ref \<Rightarrow> domain_event list \<Rightarrow> event_bus \<Rightarrow> event_bus" where
  "set_queue q es bus = bus\<lparr>queues := dict_set q es (queues bus)\<rparr>"

fun publish_to :: "domain_event \<Rightarrow> queue_ref list \<Rightarrow> event_bus \<Rightarrow> event_bus" where
  "publish_to ev [] bus = bus"
| "publish_to ev (q # qs) bus = publish_to ev qs (set_queue q (offer ev (queue_of bus q)) bus)"

definition publish :: "domain_event \<Rightarrow> event_bus \<Rightarrow> event_bus" where
  "publish ev bus = publish_to ev (subscribers_of bus (event_product_id ev)) bus"

definition subscribe :: "ident \<Rightarrow> event_bus \<Rightarrow> queue_ref \<times> event_bus" where
  "subscribe pid bus =
     (let q = next_ref bus
      in (q, bus\<lparr>subscribers := dict_append pid q (subscribers bus),
                 queues := dict_set q [] (queues bus), next_ref := Suc q\<rparr>))"

definition unsubscribe :: "ident \<Rightarrow> queue_ref \<Rightarrow> event_bus \<Rightarrow> event_bus" where
  "unsubscribe pid q bus =
     (case dict_get (subscribers bus) pid of
        None \<Rightarrow> bus
      | Some qs \<Rightarrow>
          let remaining = filter (\<lambda>r. r \<noteq> q) qs
          in if remaining = [] then bus\<lparr>subscribers := dict_del pid (subscribers bus)\<rparr>
             else bus\<lparr>subscribers := dict_set pid remaining (subscribers bus)\<rparr>)"

definition subscriber_count :: "ident \<Rightarrow> event_bus \<Rightarrow> nat" where
  "subscriber_count pid bus = length (subscribers_of bus pid)"

text \<open>The consumer's side: taking the next event off its queue.\<close>

definition take_event :: "queue_ref \<Rightarrow> event_bus \<Rightarrow> (domain_event \<times> event_bus) option" where
  "take_event q bus = map_option (\<lambda>(e, rest). (e, set_queue q rest bus)) (get_nowait (queue_of bus q))"

text \<open>A query built without a bus publishes nothing.\<close>

definition emit :: "domain_event \<Rightarrow> event_bus option \<Rightarrow> event_bus option" where
  "emit ev bus = map_option (publish ev) bus"

section \<open>The registry invariant\<close>

definition bus_ok :: "event_bus \<Rightarrow> bool" where
  "bus_ok bus \<longleftrightarrow>
     (\<forall>pid qs. dict_get (subscribers bus) pid = Some qs \<longrightarrow>
        qs \<noteq> [] \<and> distinct qs \<and> (\<forall>q\<in>set qs. q < next_ref bus)) \<and>
     (\<forall>pid pid' q. q \<in> set (subscribers_of bus pid) \<longrightarrow> q \<in> set (subscribers_of bus pid') \<longrightarrow> pid = pid') \<and>
     (\<forall>q. length (queue_of bus q) \<le> QUEUE_MAXSIZE)"

lemma bus_ok_distinct: "bus_ok bus \<Longrightarrow> distinct (subscribers_of bus pid)"
  by (auto simp: bus_ok_def subscribers_of_def split: option.splits)

lemma bus_ok_bound: "bus_ok bus \<Longrightarrow> length (queue_of bus q) \<le> QUEUE_MAXSIZE"
  by (simp add: bus_ok_def)

lemma bus_ok_disjoint:
  "bus_ok bus \<Longrightarrow> q \<in> set (subscribers_of bus pid) \<Longrightarrow> q \<in> set (subscribers_of bus pid') \<Longrightarrow> pid = pid'"
  unfolding bus_ok_def by blast

lemma bus_ok_fresh: "bus_ok bus \<Longrightarrow> q \<in> set (subscribers_of bus pid) \<Longrightarrow> q < next_ref bus"
  by (cases "dict_get (subscribers bus) pid") (auto simp: bus_ok_def subscribers_of_def)

lemma bus_ok_new: "bus_ok new_event_bus"
  by (simp add: bus_ok_def new_event_bus_def queue_of_def subscribers_of_def)

lemma queue_of_set_queue [simp]: "queue_of (set_queue q es bus) r = (if r = q then es else queue_of bus r)"
  by (simp add: queue_of_def set_queue_def)

lemma set_queue_registry [simp]:
  "subscribers (set_queue q es bus) = subscribers bus" "next_ref (set_queue q es bus) = next_ref bus"
  "subscribers_of (set_queue q es bus) pid = subscribers_of bus pid"
  by (simp_all add: set_queue_def subscribers_of_def)

lemma publish_to_registry [simp]:
  "subscribers (publish_to ev qs bus) = subscribers bus"
  "next_ref (publish_to ev qs bus) = next_ref bus"
  "subscribers_of (publish_to ev qs bus) pid = subscribers_of bus pid"
  by (induction ev qs bus rule: publish_to.induct) simp_all

lemma publish_registry [simp]:
  "subscribers (publish ev bus) = subscribers bus" "next_ref (publish ev bus) = next_ref bus"
  "subscribers_of (publish ev bus) pid = subscribers_of bus pid"
  by (simp_all add: publish_def)

lemma queue_of_publish_to:
  "distinct qs \<Longrightarrow> queue_of (publish_to ev qs bus) q =
     (if q \<in> set qs then offer ev (queue_of bus q) else queue_of bus q)"
  by (induction ev qs bus rule: publish_to.induct) auto

lemma queue_of_publish:
  "bus_ok bus \<Longrightarrow> queue_of (publish ev bus) q =
     (if q \<in> set (subscribers_of bus (event_product_id ev)) then offer ev (queue_of bus q)
      else queue_of bus q)"
  by (simp add: publish_def queue_of_publish_to bus_ok_distinct)

lemma bus_ok_set_queue:
  "bus_ok bus \<Longrightarrow> length es \<le> QUEUE_MAXSIZE \<Longrightarrow> bus_ok (set_queue q es bus)"
  by (simp add: bus_ok_def)

lemma bus_ok_publish_to: "bus_ok bus \<Longrightarrow> bus_ok (publish_to ev qs bus)"
proof (induction ev qs bus rule: publish_to.induct)
  case (2 ev q qs bus)
  have "length (offer ev (queue_of bus q)) \<le> QUEUE_MAXSIZE"
    by (rule ring256.put_bounded) (rule bus_ok_bound[OF "2.prems"])
  with "2.IH" bus_ok_set_queue[OF "2.prems"] show ?case by simp
qed simp

lemma bus_ok_publish: "bus_ok bus \<Longrightarrow> bus_ok (publish ev bus)"
  by (simp add: publish_def bus_ok_publish_to)

lemma bus_ok_emit: "(\<forall>b. bus = Some b \<longrightarrow> bus_ok b) \<Longrightarrow> emit ev bus = Some b' \<Longrightarrow> bus_ok b'"
  by (auto simp: emit_def bus_ok_publish)

lemma bus_ok_take: "bus_ok bus \<Longrightarrow> take_event q bus = Some (e, bus') \<Longrightarrow> bus_ok bus'"
  using bus_ok_bound[of bus q]
  by (cases "queue_of bus q") (auto simp: take_event_def intro!: bus_ok_set_queue)

lemma subscribers_of_subscribe:
  "subscribers_of (snd (subscribe pid bus)) p =
     (if p = pid then subscribers_of bus pid @ [next_ref bus] else subscribers_of bus p)"
  by (auto simp: subscribe_def subscribers_of_def Let_def map_of_dict_append split: option.split)

lemma queue_of_subscribe:
  "queue_of (snd (subscribe pid bus)) q = (if q = next_ref bus then [] else queue_of bus q)"
  by (simp add: subscribe_def queue_of_def Let_def)

lemma subscribers_get: "dict_get (subscribers bus) pid = Some qs \<Longrightarrow> subscribers_of bus pid = qs"
  by (simp add: subscribers_of_def)

lemma bus_ok_subscribe:
  assumes "bus_ok bus"
  shows "bus_ok (snd (subscribe pid bus))"
proof -
  let ?b = "snd (subscribe pid bus)"
  note fresh = bus_ok_fresh[OF assms]
  have unused: "next_ref bus \<notin> set (subscribers_of bus p)" for p using fresh by blast
  have "qs \<noteq> [] \<and> distinct qs \<and> (\<forall>q\<in>set qs. q < next_ref ?b)"
    if "dict_get (subscribers ?b) p = Some qs" for p qs
  proof (cases "p = pid")
    case True
    with subscribers_get[OF that] have "qs = subscribers_of bus pid @ [next_ref bus]"
      by (simp add: subscribers_of_subscribe)
    with bus_ok_distinct[OF assms] fresh show ?thesis
      by (auto simp: subscribe_def Let_def dest: less_SucI)
  next
    case False
    with that have "dict_get (subscribers bus) p = Some qs"
      by (simp add: subscribe_def Let_def map_of_dict_append)
    with assms show ?thesis by (auto simp: bus_ok_def subscribe_def Let_def intro: less_SucI)
  qed
  moreover have "p = p'" if "q \<in> set (subscribers_of ?b p)" "q \<in> set (subscribers_of ?b p')" for p p' q
    using that bus_ok_disjoint[OF assms] unused
    by (auto simp: subscribers_of_subscribe split: if_splits)
  ultimately show ?thesis
    using bus_ok_bound[OF assms] by (simp add: bus_ok_def[of ?b] queue_of_subscribe)
qed

lemma subscribers_of_unsubscribe:
  "subscribers_of (unsubscribe pid q bus) p =
     (if p = pid then filter (\<lambda>r. r \<noteq> q) (subscribers_of bus pid) else subscribers_of bus p)"
  by (auto simp: unsubscribe_def subscribers_of_def Let_def split: option.split)

lemma unsubscribe_store [simp]:
  "queue_of (unsubscribe pid q bus) r = queue_of bus r" "next_ref (unsubscribe pid q bus) = next_ref bus"
  by (auto simp: unsubscribe_def queue_of_def Let_def split: option.split)

lemma unsubscribe_get:
  "dict_get (subscribers (unsubscribe pid q bus)) p =
     (if p = pid then (case dict_get (subscribers bus) pid of None \<Rightarrow> None
                       | Some qs \<Rightarrow> let r = filter (\<lambda>r. r \<noteq> q) qs in if r = [] then None else Some r)
      else dict_get (subscribers bus) p)"
  by (auto simp: unsubscribe_def Let_def split: option.split)

lemma bus_ok_unsubscribe:
  assumes "bus_ok bus"
  shows "bus_ok (unsubscribe pid q bus)"
proof -
  let ?b = "unsubscribe pid q bus"
  have "qs \<noteq> [] \<and> distinct qs \<and> (\<forall>q\<in>set qs. q < next_ref ?b)"
    if "dict_get (subscribers ?b) p = Some qs" for p qs
    using that assms
    by (auto simp: unsubscribe_get bus_ok_def Let_def split: if_splits option.splits)
  moreover have "p = p'" if "r \<in> set (subscribers_of ?b p)" "r \<in> set (subscribers_of ?b p')" for p p' r
    using that bus_ok_disjoint[OF assms] by (auto simp: subscribers_of_unsubscribe split: if_splits)
  ultimately show ?thesis using bus_ok_bound[OF assms] by (simp add: bus_ok_def[of ?b])
qed

lemma unsubscribe_idempotent: "unsubscribe pid q (unsubscribe pid q bus) = unsubscribe pid q bus"
  by (cases "dict_get (subscribers bus) pid") (auto simp: unsubscribe_def Let_def filter_empty_conv)

section \<open>Properties\<close>

text \<open>Publishing never blocks and never fails a producer: on a well-formed bus the event is
  appended to the queue of every subscriber of its product, each queue keeping its newest 256
  events, so a full queue loses its oldest event and nothing else; every other queue and the
  registry are untouched.\<close>

theorem publish_delivers:
  assumes "bus_ok bus"
  shows "bus_ok (publish ev bus) \<and>
    queue_of (publish ev bus) q =
      (if q \<in> set (subscribers_of bus (event_product_id ev)) then last_n 256 (queue_of bus q @ [ev]) else queue_of bus q) \<and>
    length (queue_of (publish ev bus) q) \<le> 256 \<and>
    subscribers_of (publish ev bus) pid = subscribers_of bus pid"
  using bus_ok_publish[OF assms, of ev] queue_of_publish[OF assms, of ev q]
    bus_ok_bound[OF bus_ok_publish[OF assms, of ev], of q] offer_last_n[OF bus_ok_bound[OF assms, of q], of ev]
  by (simp add: QUEUE_MAXSIZE_def)

definition sample_event :: domain_event where
  "sample_event = \<lparr>event_type = RELEASE_CUT, event_product_id = ''p'', event_data = []\<rparr>"

theorem publish_delivers_witness:
  "queue_of (publish sample_event (snd (subscribe ''p'' new_event_bus))) 0 = last_n 256 [sample_event]"
proof -
  let ?b = "snd (subscribe ''p'' new_event_bus)"
  have "queue_of ?b 0 = []" "0 \<in> set (subscribers_of ?b ''p'')"
    by (simp_all add: queue_of_subscribe subscribers_of_subscribe) (simp_all add: new_event_bus_def)
  with publish_delivers[OF bus_ok_subscribe[OF bus_ok_new, of "''p''"], of sample_event 0 "''p''"]
  show ?thesis by (simp add: sample_event_def)
qed

text \<open>Subscribing and unsubscribing are isolated per subscriber: a new subscription gets a
  fresh empty queue registered for its product only, and removing it (once or twice) restores
  every other subscription of every product; the bus stays well formed throughout.\<close>

theorem subscription_isolated:
  assumes "bus_ok bus" and "subscribe pid bus = (q, bus')"
  shows "bus_ok bus' \<and> queue_of bus' q = [] \<and> subscribers_of bus' pid = subscribers_of bus pid @ [q] \<and>
    q \<notin> set (subscribers_of bus pid) \<and>
    (\<forall>p. subscribers_of (unsubscribe pid q bus') p = subscribers_of bus p) \<and>
    unsubscribe pid q (unsubscribe pid q bus') = unsubscribe pid q bus' \<and> bus_ok (unsubscribe pid q bus')"
proof -
  have b: "bus' = snd (subscribe pid bus)" and q: "q = next_ref bus"
    using assms(2) by (auto simp: subscribe_def Let_def)
  have fresh: "q \<notin> set (subscribers_of bus p)" for p
    using bus_ok_fresh[OF assms(1), of q p] q by auto
  then have "filter (\<lambda>r. r \<noteq> q) (subscribers_of bus p) = subscribers_of bus p" for p
    by (metis (mono_tags, lifting) filter_True)
  with fresh show ?thesis
    using bus_ok_subscribe[OF assms(1), of pid]
    by (simp add: b queue_of_subscribe subscribers_of_subscribe subscribers_of_unsubscribe q bus_ok_unsubscribe
        unsubscribe_idempotent)
qed

theorem subscription_isolated_witness:
  "subscribers_of (unsubscribe ''p'' 0 (snd (subscribe ''p'' new_event_bus))) ''p'' = subscribers_of new_event_bus ''p''"
proof -
  have "subscribe ''p'' new_event_bus = (0, snd (subscribe ''p'' new_event_bus))"
    by (simp add: subscribe_def new_event_bus_def)
  from subscription_isolated[OF bus_ok_new this] show ?thesis by blast
qed

end
