(* ===== verification/Versions.thy ===== *)
theory Versions
  imports Catalog Event_Bus
begin

text \<open>
  \<open>app/queries/versions\<close>: appending an immutable version and rolling one back. Both run
  several statements on an autocommitting connection, so the model returns the database each
  exit leaves: an exception after the first \<open>UPDATE\<close> keeps that update.
\<close>

section \<open>Statements\<close>

definition select_versions_by_id :: "ident \<Rightarrow> database \<Rightarrow> version_row list" where
  "select_versions_by_id i db = filter (\<lambda>v. v_id v = i) (versions db)"

definition active_of :: "ident \<Rightarrow> version_row \<Rightarrow> bool" where
  "active_of cid v \<longleftrightarrow> v_component_id v = cid \<and> v_status v = ACTIVE"

definition set_status :: "version_status \<Rightarrow> version_row \<Rightarrow> version_row" where
  "set_status st v = v\<lparr>v_status := st\<rparr>"

definition supersede_active :: "ident \<Rightarrow> database \<Rightarrow> database" where
  "supersede_active cid db =
     db\<lparr>versions := sql_update (active_of cid) (set_status SUPERSEDED) (versions db)\<rparr>"

definition mark_status :: "version_status \<Rightarrow> ident \<Rightarrow> database \<Rightarrow> database" where
  "mark_status st i db = db\<lparr>versions := sql_update (\<lambda>v. v_id v = i) (set_status st) (versions db)\<rparr>"

definition core_of :: "version_row \<Rightarrow> int \<times> int \<times> int" where
  "core_of v = (v_major v, v_minor v, v_patch v)"

definition select_previous :: "ident \<Rightarrow> ident \<Rightarrow> int \<Rightarrow> int \<Rightarrow> int \<Rightarrow> database \<Rightarrow> version_row list" where
  "select_previous cid target major minor patch db =
     take 1 (order_by_desc core_of
       (filter (\<lambda>v. v_component_id v = cid \<and> v_id v \<noteq> target \<and> v_status v \<noteq> ROLLED_BACK
                 \<and> (v_major v < major
                    \<or> (v_major v = major \<and> v_minor v < minor)
                    \<or> (v_major v = major \<and> v_minor v = minor \<and> v_patch v < patch)))
          (versions db)))"

section \<open>Appending a version\<close>

definition version_created_event :: "ident \<Rightarrow> version_response \<Rightarrow> domain_event" where
  "version_created_event product_id version =
     \<lparr>event_type = VERSION_CREATED, event_product_id = product_id,
      event_data = [(''component_id'', JStr (vr_component_id version)), (''version'', version_json version)]\<rparr>"

definition create_version_query ::
  "ident \<Rightarrow> timestamp \<Rightarrow> create_version_model \<Rightarrow> database \<Rightarrow> event_bus option \<Rightarrow>
     version_response outcome \<times> database \<times> event_bus option" where
  "create_version_query version_id now data db bus =
     (case select_components_by_id (cv_component_id data) db of
        [] \<Rightarrow>
          (Inl (NotFoundError (''Component '' @ squoted (cv_component_id data) @ '' does not exist.'')
             [(''component_id'', JStr (cv_component_id data))]), db, bus)
      | component # _ \<Rightarrow>
          let db1 = supersede_active (cv_component_id data) db
          in (case (cv_major data, cv_minor data, cv_patch data) of
                (Some major, Some minor, Some patch) \<Rightarrow>
                  (case insert_version
                          \<lparr>v_id = version_id, v_component_id = cv_component_id data, v_major = major,
                           v_minor = minor, v_patch = patch, v_prerelease = cv_prerelease data,
                           v_status = ACTIVE, v_created_at = now\<rparr> db1 of
                     Inl e \<Rightarrow> (Inl e, db1, bus)
                   | Inr db2 \<Rightarrow>
                       (case select_versions_by_id version_id db2 of
                          [] \<Rightarrow> (Inl IndexError, db2, bus)
                        | row # _ \<Rightarrow>
                            (case to_version_response row of
                               Inl e \<Rightarrow> (Inl e, db2, bus)
                             | Inr version \<Rightarrow>
                                 (Inr version, db2,
                                  emit (version_created_event (c_product_id component) version) bus))))
              | _ \<Rightarrow> (Inl ValueError, db1, bus)))"

section \<open>Rolling back\<close>

definition version_rolled_back_event :: "ident \<Rightarrow> ident \<Rightarrow> ident \<Rightarrow> ident \<Rightarrow> domain_event" where
  "version_rolled_back_event product_id component_id version_id reactivated_id =
     \<lparr>event_type = VERSION_ROLLED_BACK, event_product_id = product_id,
      event_data = [(''component_id'', JStr component_id), (''version_id'', JStr version_id),
        (''reactivated_version_id'', JStr reactivated_id)]\<rparr>"

definition no_prior_error :: "ident \<Rightarrow> error" where
  "no_prior_error version_id =
     ConflictError (''Version '' @ squoted version_id @ '' has no prior version to roll back to.'')
       [(''version_id'', JStr version_id)]"

text \<open>The three updates, in the order the query runs them.\<close>

definition rollback_updates :: "version_response \<Rightarrow> version_response \<Rightarrow> database \<Rightarrow> database" where
  "rollback_updates target previous db =
     mark_status ACTIVE (vr_id previous)
       (supersede_active (vr_component_id target)
         (mark_status ROLLED_BACK (vr_id target) db))"

definition rollback_version_query ::
  "ident \<Rightarrow> database \<Rightarrow> event_bus option \<Rightarrow> version_response outcome \<times> database \<times> event_bus option" where
  "rollback_version_query version_id db bus =
     (case select_versions_by_id version_id db of
        [] \<Rightarrow>
          (Inl (NotFoundError (''Version '' @ squoted version_id @ '' does not exist.'')
             [(''version_id'', JStr version_id)]), db, bus)
      | target_row # _ \<Rightarrow>
          (case to_version_response target_row of
             Inl e \<Rightarrow> (Inl e, db, bus)
           | Inr target \<Rightarrow>
               (case select_previous (vr_component_id target) (vr_id target) (vr_major target)
                       (vr_minor target) (vr_patch target) db of
                  [] \<Rightarrow> (Inl (no_prior_error version_id), db, bus)
                | previous_row # _ \<Rightarrow>
                    (case to_version_response previous_row of
                       Inl e \<Rightarrow> (Inl e, db, bus)
                     | Inr previous \<Rightarrow>
                         let db1 = rollback_updates target previous db
                         in (case select_versions_by_id (vr_id previous) db1 of
                               [] \<Rightarrow> (Inl IndexError, db1, bus)
                             | reactivated_row # _ \<Rightarrow>
                                 (case to_version_response reactivated_row of
                                    Inl e \<Rightarrow> (Inl e, db1, bus)
                                  | Inr reactivated \<Rightarrow>
                                      (case bus of
                                         None \<Rightarrow> (Inr reactivated, db1, bus)
                                       | Some _ \<Rightarrow>
                                           (case fetchone (select_components_by_id (vr_component_id target) db1) of
                                              None \<Rightarrow> (Inl TypeError, db1, bus)
                                            | Some component \<Rightarrow>
                                                (Inr reactivated, db1,
                                                 emit (version_rolled_back_event (c_product_id component)
                                                   (vr_component_id target) (vr_id target)
                                                   (vr_id reactivated)) bus)))))))))"

section \<open>Invariants of the version table\<close>

definition one_active :: "version_row list \<Rightarrow> bool" where
  "one_active vs \<longleftrightarrow> (\<forall>cid. length (filter (active_of cid) vs) \<le> 1)"

definition all_nonneg :: "version_row list \<Rightarrow> bool" where
  "all_nonneg vs \<longleftrightarrow> (\<forall>v\<in>set vs. parts_nonneg v)"

text \<open>Everything of a row but its status: what history may not change.\<close>

definition history :: "version_row list \<Rightarrow> version_row list" where
  "history vs = map (set_status ACTIVE) vs"

lemma set_status_simps [simp]:
  "v_id (set_status st v) = v_id v" "v_component_id (set_status st v) = v_component_id v"
  "v_major (set_status st v) = v_major v" "v_minor (set_status st v) = v_minor v"
  "v_patch (set_status st v) = v_patch v" "v_prerelease (set_status st v) = v_prerelease v"
  "v_created_at (set_status st v) = v_created_at v" "v_status (set_status st v) = st"
  "set_status a (set_status b v) = set_status a v"
  by (simp_all add: set_status_def)

lemma parts_nonneg_set_status [simp]: "parts_nonneg (set_status st v) = parts_nonneg v"
  by (simp add: parts_nonneg_def)

lemma history_update [simp]: "history (sql_update P (set_status st) vs) = history vs"
  unfolding history_def by (rule map_sql_update) simp

lemma history_snoc [simp]: "history (vs @ [v]) = history vs @ [set_status ACTIVE v]"
  by (simp add: history_def)

lemma all_nonneg_update [simp]: "all_nonneg (sql_update P (set_status st) vs) = all_nonneg vs"
  by (simp add: all_nonneg_def ball_sql_update)

lemma no_active_after_supersede:
  "filter (active_of cid) (sql_update (active_of cid) (set_status SUPERSEDED) vs) = []"
  unfolding filter_empty_conv ball_sql_update by (simp add: active_of_def)

lemma other_active_after_supersede:
  "c \<noteq> cid \<Longrightarrow> filter (active_of c) (sql_update (active_of cid) (set_status SUPERSEDED) vs) = filter (active_of c) vs"
  by (induction vs) (auto simp: sql_update_def active_of_def)

lemma one_active_supersede:
  "one_active vs \<Longrightarrow> one_active (sql_update (active_of cid) (set_status SUPERSEDED) vs)"
  unfolding one_active_def
proof
  fix c
  assume "\<forall>c. length (filter (active_of c) vs) \<le> 1"
  then show "length (filter (active_of c) (sql_update (active_of cid) (set_status SUPERSEDED) vs)) \<le> 1"
    by (cases "c = cid") (simp_all add: no_active_after_supersede other_active_after_supersede)
qed

lemma one_active_supersede_insert:
  assumes "one_active vs" "v_component_id v = cid"
  shows "one_active (sql_update (active_of cid) (set_status SUPERSEDED) vs @ [v])"
proof -
  have "length (filter (active_of c) (sql_update (active_of cid) (set_status SUPERSEDED) vs @ [v])) \<le> 1" for c
  proof (cases "c = cid")
    case True
    then show ?thesis by (simp add: no_active_after_supersede)
  next
    case False
    with assms show ?thesis by (simp add: other_active_after_supersede one_active_def) (simp add: active_of_def)
  qed
  then show ?thesis by (simp add: one_active_def)
qed

lemma schema_ok_status:
  "schema_ok (db\<lparr>versions := sql_update P (set_status st) (versions db)\<rparr>) = schema_ok db"
  by (simp add: schema_ok_def)

lemma supersede_other [simp]:
  "products (supersede_active cid db) = products db" "components (supersede_active cid db) = components db"
  "releases (supersede_active cid db) = releases db"
  by (simp_all add: supersede_active_def)

section \<open>The outcomes of appending\<close>

definition created_row :: "ident \<Rightarrow> timestamp \<Rightarrow> create_version_model \<Rightarrow> int \<Rightarrow> int \<Rightarrow> int \<Rightarrow> version_row" where
  "created_row version_id now data a b c =
     \<lparr>v_id = version_id, v_component_id = cv_component_id data, v_major = a, v_minor = b, v_patch = c,
      v_prerelease = cv_prerelease data, v_status = ACTIVE, v_created_at = now\<rparr>"

lemma ids_sql_update [simp]: "v_id ` set (sql_update P (set_status st) vs) = v_id ` set vs"
  by (rule image_sql_update) simp

lemma supersede_versions [simp]:
  "versions (supersede_active cid db) = sql_update (active_of cid) (set_status SUPERSEDED) (versions db)"
  by (simp add: supersede_active_def)

lemma create_version_cases:
  assumes run: "create_version_query i now data db bus = (res, db', bus')"
    and valid: "semver_match (cv_version data)"
  obtains (unknown) e where "res = Inl e" "db' = db" "bus' = bus"
      "cv_component_id data \<notin> c_id ` set (components db)"
  | (refused) e where "res = Inl e" "db' = supersede_active (cv_component_id data) db" "bus' = bus"
      "e = OutOfRange \<or> (e = ConstraintViolation \<and> i \<in> v_id ` set (versions db))"
  | (created) a b c comp where "parse_core (cv_version data) = Inr (a, b, c)"
      "comp \<in> set (components db)" "c_id comp = cv_component_id data"
      "insert_version (created_row i now data a b c) (supersede_active (cv_component_id data) db) = Inr db'"
      "versions db' = sql_update (active_of (cv_component_id data)) (set_status SUPERSEDED) (versions db)
         @ [created_row i now data a b c]"
      "db' = db\<lparr>versions := versions db'\<rparr>"
      "i \<notin> v_id ` set (versions db)" "parts_nonneg (created_row i now data a b c)"
      "res = Inr (version_fields (created_row i now data a b c))"
      "bus' = emit (version_created_event (c_product_id comp)
                 (version_fields (created_row i now data a b c))) bus"
proof (cases "select_components_by_id (cv_component_id data) db")
  case Nil
  then have "cv_component_id data \<notin> c_id ` set (components db)"
    using select_component_None[of "cv_component_id data" db] by simp
  with Nil run show ?thesis by (intro unknown) (auto simp: create_version_query_def)
next
  case (Cons comp rest)
  have comp: "comp \<in> set (components db)" "c_id comp = cv_component_id data"
    using select_component_Some[of "cv_component_id data" db comp] Cons by simp_all
  from create_version_parts[OF valid] obtain a b c where parts: "cv_major data = Some a"
    "cv_minor data = Some b" "cv_patch data = Some c" "parse_core (cv_version data) = Inr (a, b, c)" by blast
  let ?row = "created_row i now data a b c" and ?db1 = "supersede_active (cv_component_id data) db"
  have nn: "parts_nonneg ?row" using parse_core_InrD(1-3)[OF parts(4)]
    by (simp add: parts_nonneg_def created_row_def)
  show ?thesis
  proof (cases "insert_version ?row ?db1")
    case (Inl e)
    have "e = OutOfRange \<or> (e = ConstraintViolation \<and> i \<in> v_id ` set (versions db))"
      using Inl comp(1) imageI[OF comp(1), of c_id] unfolding insert_version_def comp(2)
      by (auto simp: created_row_def split: if_splits)
    with Inl Cons run parts show ?thesis
      by (intro refused) (auto simp: create_version_query_def created_row_def Let_def)
  next
    case (Inr db2)
    have fresh: "i \<notin> v_id ` set (versions db)" using Inr unfolding insert_version_def
      by (auto simp: created_row_def split: if_splits)
    note db2 = insert_frame(3)[OF Inr]
    have "filter (\<lambda>v. v_id v = i) (versions ?db1) = []"
      unfolding filter_empty_conv supersede_versions ball_sql_update using fresh by auto
    then have sel: "select_versions_by_id i db2 = [?row]"
      by (simp add: select_versions_by_id_def db2) (simp add: created_row_def)
    have out: "res = Inr (version_fields ?row)" "db' = db2"
      "bus' = emit (version_created_event (c_product_id comp) (version_fields ?row)) bus"
      using Inr Cons run parts to_version_response_ok[OF nn] sel
      by (auto simp: create_version_query_def created_row_def Let_def)
    show ?thesis
      by (rule created[OF parts(4) comp Inr[folded out(2)] _ _ fresh nn out(1,3)])
         (simp_all add: out(2) db2 supersede_active_def)
  qed
qed

lemma create_version_keeps:
  assumes "create_version_query i now data db bus = (res, db', bus')" "semver_match (cv_version data)"
    and "schema_ok db" "one_active (versions db)" "all_nonneg (versions db)"
  shows "schema_ok db'" "one_active (versions db')" "all_nonneg (versions db')"
    "prefix (history (versions db)) (history (versions db'))"
proof -
  have s1: "schema_ok (supersede_active cid db)" for cid
    using assms(3) by (simp add: supersede_active_def schema_ok_status)
  from assms(1,2) have "schema_ok db' \<and> one_active (versions db') \<and> all_nonneg (versions db') \<and>
      prefix (history (versions db)) (history (versions db'))"
  proof (cases rule: create_version_cases)
    case unknown
    with assms show ?thesis by simp
  next
    case refused
    with assms s1 show ?thesis by (simp add: one_active_supersede)
  next
    case (created a b c comp)
    have "one_active (versions db')" unfolding created(5)
      by (rule one_active_supersede_insert[OF assms(4)]) (simp add: created_row_def)
    moreover have "all_nonneg (versions db')"
      using assms(5) created(8) by (simp add: created(5) all_nonneg_def ball_sql_update)
    ultimately show ?thesis using schema_ok_insert(3)[OF s1 created(4)] by (simp add: created(5))
  qed
  then show "schema_ok db'" "one_active (versions db')" "all_nonneg (versions db')"
    "prefix (history (versions db)) (history (versions db'))" by blast+
qed

section \<open>The outcomes of a rollback\<close>

definition prior_candidate :: "version_row \<Rightarrow> version_row \<Rightarrow> bool" where
  "prior_candidate t v \<longleftrightarrow> v_component_id v = v_component_id t \<and> v_id v \<noteq> v_id t
     \<and> v_status v \<noteq> ROLLED_BACK \<and> core_of v < core_of t"

definition rollback_status :: "version_row \<Rightarrow> version_row \<Rightarrow> version_row \<Rightarrow> version_status" where
  "rollback_status t p v =
     (if v_id v = v_id p then ACTIVE
      else if v_id v = v_id t then ROLLED_BACK
      else if active_of (v_component_id t) v then SUPERSEDED
      else v_status v)"

text \<open>The expanded comparison of the statement is the lexicographic order of the cores.\<close>

lemma core_less:
  "core_of v < (a, b, c) \<longleftrightarrow>
     (v_major v < a \<or> (v_major v = a \<and> v_minor v < b) \<or> (v_major v = a \<and> v_minor v = b \<and> v_patch v < c))"
  by (auto simp: core_of_def less_prod_def)

lemma select_previous_candidates:
  "select_previous (v_component_id t) (v_id t) (v_major t) (v_minor t) (v_patch t) db =
     take 1 (order_by_desc core_of (filter (prior_candidate t) (versions db)))"
proof -
  have "core_of t = (v_major t, v_minor t, v_patch t)" by (simp add: core_of_def)
  then show ?thesis
    unfolding select_previous_def prior_candidate_def by (simp only: core_less)
qed

lemma take_order_by_desc_Nil:
  "take 1 (order_by_desc k rows) = [] \<longleftrightarrow> rows = []"
  by simp

lemma take_order_by_desc_Cons:
  assumes "take 1 (order_by_desc k rows) = r # rest"
  shows "r \<in> set rows" "\<forall>x\<in>set rows. k x \<le> k r"
proof -
  from assms obtain tl where o: "order_by_desc k rows = r # tl" by (cases "order_by_desc k rows") auto
  show "r \<in> set rows" using set_order_by_desc[of k rows] o by auto
  show "\<forall>x\<in>set rows. k x \<le> k r" using order_by_desc_first[OF o] by blast
qed

lemma set_status_map:
  "(\<And>v. v \<in> set vs \<Longrightarrow> f v = set_status (g v) v) \<Longrightarrow> map f vs = map (\<lambda>v. set_status (g v) v) vs"
  by simp

lemma set_status_same: "set_status (v_status v) v = v"
  by (simp add: set_status_def)

lemma rollback_updates_versions:
  assumes "vr_id tr = v_id t" "vr_component_id tr = v_component_id t" "vr_id pr = v_id p" "v_id p \<noteq> v_id t"
  shows "rollback_updates tr pr db =
    db\<lparr>versions := map (\<lambda>v. set_status (rollback_status t p v) v) (versions db)\<rparr>"
proof -
  have "sql_update (\<lambda>v. v_id v = v_id p) (set_status ACTIVE)
          (sql_update (active_of (v_component_id t)) (set_status SUPERSEDED)
            (sql_update (\<lambda>v. v_id v = v_id t) (set_status ROLLED_BACK) vs))
        = map (\<lambda>v. set_status (rollback_status t p v) v) vs" for vs
    using assms(4)
    by (induction vs) (auto simp: sql_update_def rollback_status_def active_of_def set_status_same)
  then show ?thesis using assms(1-3) by (simp add: rollback_updates_def mark_status_def supersede_active_def)
qed

lemma filter_map_status:
  "filter (\<lambda>v. v_id v = i) (map (\<lambda>v. set_status (g v) v) vs)
     = map (\<lambda>v. set_status (g v) v) (filter (\<lambda>v. v_id v = i) vs)"
  by (induction vs) auto

lemma rollback_version_cases:
  assumes run: "rollback_version_query i db bus = (res, db', bus')"
    and ok: "schema_ok db" "all_nonneg (versions db)"
  obtains (unknown) e where "i \<notin> v_id ` set (versions db)" "res = Inl e" "db' = db" "bus' = bus"
  | (no_prior) t where "t \<in> set (versions db)" "v_id t = i"
      "\<forall>v\<in>set (versions db). \<not> prior_candidate t v"
      "res = Inl (no_prior_error i)" "db' = db" "bus' = bus"
  | (rolled) t p comp where "t \<in> set (versions db)" "v_id t = i" "p \<in> set (versions db)" "prior_candidate t p"
      "\<forall>v\<in>set (versions db). prior_candidate t v \<longrightarrow> core_of v \<le> core_of p"
      "versions db' = map (\<lambda>v. set_status (rollback_status t p v) v) (versions db)"
      "db' = db\<lparr>versions := versions db'\<rparr>"
      "res = Inr (version_fields (set_status ACTIVE p))"
      "comp \<in> set (components db)" "c_id comp = v_component_id t"
      "bus' = emit (version_rolled_back_event (c_product_id comp) (v_component_id t) i (v_id p)) bus"
      "take 1 (order_by_desc core_of (filter (prior_candidate t) (versions db))) = [p]"
proof (cases "select_versions_by_id i db")
  case Nil
  then have "i \<notin> v_id ` set (versions db)" by (auto simp: select_versions_by_id_def filter_empty_conv)
  with Nil run show ?thesis by (intro unknown) (auto simp: rollback_version_query_def)
next
  case (Cons t rest)
  have "t \<in> set (filter (\<lambda>v. v_id v = i) (versions db))" using Cons by (simp add: select_versions_by_id_def)
  then have t: "t \<in> set (versions db)" "v_id t = i" by auto
  have pkv: "pk v_id (versions db)" using ok(1) by (simp add: schema_ok_def)
  have resp: "to_version_response v = Inr (version_fields v)" if "v \<in> set (versions db)" for v
    using ok(2) that by (intro to_version_response_ok) (simp add: all_nonneg_def)
  have vf: "vr_component_id (version_fields v) = v_component_id v" "vr_id (version_fields v) = v_id v"
    "vr_major (version_fields v) = v_major v" "vr_minor (version_fields v) = v_minor v"
    "vr_patch (version_fields v) = v_patch v" for v by (simp_all add: version_fields_def)
  note run1 = run[unfolded rollback_version_query_def Cons list.case resp[OF t(1)] sum.case vf
    select_previous_candidates]
  show ?thesis
  proof (cases "take 1 (order_by_desc core_of (filter (prior_candidate t) (versions db)))")
    case Nil
    then have "\<forall>v\<in>set (versions db). \<not> prior_candidate t v"
      unfolding take_order_by_desc_Nil filter_empty_conv .
    moreover have "res = Inl (no_prior_error i)" "db' = db" "bus' = bus"
      using run1[unfolded Nil list.case] by simp_all
    ultimately show ?thesis using t by (intro no_prior[of t])
  next
    case pc: (Cons p rest')
    note first = take_order_by_desc_Cons[OF pc]
    then have p: "p \<in> set (versions db)" "prior_candidate t p" by auto
    have max: "\<forall>v\<in>set (versions db). prior_candidate t v \<longrightarrow> core_of v \<le> core_of p" using first(2) by auto
    let ?vs = "map (\<lambda>v. set_status (rollback_status t p v) v) (versions db)"
    have upd: "rollback_updates (version_fields t) (version_fields p) db = db\<lparr>versions := ?vs\<rparr>"
      by (rule rollback_updates_versions) (use p(2) in \<open>simp_all add: vf prior_candidate_def\<close>)
    have "filter (\<lambda>v. v_id v = v_id p) (versions db) = [p]"
      by (rule fetchone_by_key[OF pkv p(1) refl])
    then have sel: "select_versions_by_id (v_id p) (db\<lparr>versions := ?vs\<rparr>) = [set_status ACTIVE p]"
      by (simp add: select_versions_by_id_def filter_map_status rollback_status_def)
    have rp: "to_version_response (set_status ACTIVE p) = Inr (version_fields (set_status ACTIVE p))"
      using ok(2) p(1) by (intro to_version_response_ok) (simp add: all_nonneg_def)
    have "v_component_id t \<in> c_id ` set (components db)"
      using ok(1) t(1) by (auto simp: schema_ok_def fk_def)
    then obtain comp where c: "fetchone (select_components_by_id (v_component_id t) (db\<lparr>versions := ?vs\<rparr>)) = Some comp"
      using select_component_None[of "v_component_id t" "db\<lparr>versions := ?vs\<rparr>"] by auto
    from select_component_Some[OF this] have comp: "comp \<in> set (components db)" "c_id comp = v_component_id t" by auto
    from run1[unfolded pc list.case resp[OF p(1)] sum.case Let_def upd vf sel rp c option.case]
    have "res = Inr (version_fields (set_status ACTIVE p)) \<and> db' = db\<lparr>versions := ?vs\<rparr> \<and>
        bus' = emit (version_rolled_back_event (c_product_id comp) (v_component_id t) i (v_id p)) bus"
      by (cases bus) (auto simp: emit_def t(2) vf)
    moreover have "take 1 (order_by_desc core_of (filter (prior_candidate t) (versions db))) = [p]"
      using pc by (cases "order_by_desc core_of (filter (prior_candidate t) (versions db))") simp_all
    ultimately show ?thesis by (intro rolled[OF t p max _ _ _ comp]) auto
  qed
qed

lemma filter_active_map:
  assumes "\<And>v. v \<in> set vs \<Longrightarrow> v_component_id v = c \<Longrightarrow> g v = v" "\<And>v. v_component_id (g v) = v_component_id v"
  shows "filter (active_of c) (map g vs) = filter (active_of c) vs"
  using assms(1)
proof (induction vs)
  case (Cons v vs)
  have "v_component_id v = c \<Longrightarrow> g v = v" using Cons.prems by simp
  with Cons assms(2)[of v] show ?case by (auto simp: active_of_def)
qed simp

lemma rolled_active_filter:
  assumes "pk v_id vs" "t \<in> set vs" "p \<in> set vs" "prior_candidate t p"
  shows "filter (active_of c) (map (\<lambda>v. set_status (rollback_status t p v) v) vs) =
    (if c = v_component_id t then [set_status ACTIVE p] else filter (active_of c) vs)"
proof (cases "c = v_component_id t")
  case True
  have act: "active_of c (set_status (rollback_status t p v) v) \<longleftrightarrow> v_id v = v_id p" if "v \<in> set vs" for v
    using pkD[OF assms(1) that assms(3)] assms(4) True
    by (auto simp: active_of_def rollback_status_def prior_candidate_def)
  have "filter (active_of c) (map (\<lambda>v. set_status (rollback_status t p v) v) vs) =
      map (\<lambda>v. set_status (rollback_status t p v) v) (filter (\<lambda>v. v_id v = v_id p) vs)"
    using act by (induction vs) auto
  also have "filter (\<lambda>v. v_id v = v_id p) vs = [p]" by (rule fetchone_by_key[OF assms(1,3) refl])
  finally show ?thesis using True by (simp add: rollback_status_def)
next
  case False
  have same: "set_status (rollback_status t p v) v = v" if "v \<in> set vs" "v_component_id v = c" for v
  proof -
    have "v_id v \<noteq> v_id p" using pkD[OF assms(1) that(1) assms(3)] that(2) False assms(4)
      by (auto simp: prior_candidate_def)
    moreover have "v_id v \<noteq> v_id t" using pkD[OF assms(1) that(1) assms(2)] that(2) False by auto
    ultimately show ?thesis using that(2) False
      by (auto simp: rollback_status_def active_of_def set_status_same)
  qed
  from filter_active_map[of vs c "\<lambda>v. set_status (rollback_status t p v) v", OF same] False
  show ?thesis by simp
qed

lemma one_active_rolled:
  assumes "pk v_id vs" "t \<in> set vs" "p \<in> set vs" "prior_candidate t p" "one_active vs"
  shows "one_active (map (\<lambda>v. set_status (rollback_status t p v) v) vs)"
  using assms(5) unfolding one_active_def rolled_active_filter[OF assms(1-4)] by simp

lemma history_status_map [simp]: "history (map (\<lambda>v. set_status (f v) v) vs) = history vs"
  by (simp add: history_def)

lemma schema_ok_status_map:
  "schema_ok (db\<lparr>versions := map (\<lambda>v. set_status (f v) v) (versions db)\<rparr>) = schema_ok db"
  by (simp add: schema_ok_def pk_def fk_def version_ranges_def o_def image_image)

lemma all_nonneg_status_map [simp]:
  "all_nonneg (map (\<lambda>v. set_status (f v) v) vs) = all_nonneg vs"
  by (simp add: all_nonneg_def)

lemma rollback_version_keeps:
  assumes "rollback_version_query i db bus = (res, db', bus')"
    and "schema_ok db" "one_active (versions db)" "all_nonneg (versions db)"
  shows "schema_ok db'" "one_active (versions db')" "all_nonneg (versions db')"
    "history (versions db') = history (versions db)"
proof -
  from assms(1,2,4) have "schema_ok db' \<and> one_active (versions db') \<and> all_nonneg (versions db') \<and>
      history (versions db') = history (versions db)"
  proof (cases rule: rollback_version_cases)
    case (rolled t p comp)
    have pkv: "pk v_id (versions db)" using assms(2) by (simp add: schema_ok_def)
    have "schema_ok db'"
      using assms(2) schema_ok_status_map[of "rollback_status t p" db] rolled(6,7) by simp
    with one_active_rolled[OF pkv rolled(1,3,4) assms(3)] assms(4) show ?thesis
      by (simp add: rolled(6))
  qed (use assms in simp_all)
  then show "schema_ok db'" "one_active (versions db')" "all_nonneg (versions db')"
    "history (versions db') = history (versions db)" by blast+
qed

section \<open>Properties\<close>

definition valid_versions :: "database \<Rightarrow> bool" where
  "valid_versions db \<longleftrightarrow> schema_ok db \<and> one_active (versions db) \<and> all_nonneg (versions db)"

lemma valid_versions_sample: "valid_versions sample_database"
  by (simp add: valid_versions_def schema_ok_sample)
     (simp add: one_active_def all_nonneg_def parts_nonneg_def sample_defs active_of_def)

definition version_model :: "string \<Rightarrow> create_version_model" where
  "version_model text = \<lparr>cv_component_id = ''a'', cv_version = text, cv_prerelease = None\<rparr>"

text \<open>C17: Publishing a version. When it succeeds the component's only active version is the new
  row, which holds exactly the core parsed from the request and is what the call answers; the
  previously active version now has the status \<open>superseded\<close>, every other row is left exactly as it was, none is
  lost, and one \<open>version.created\<close> event is emitted for the component's product. When it fails no row is added
  or lost, no other component's active version changes and nothing is emitted.\<close>

theorem create_version_effect:
  assumes run: "create_version_query i now data db bus = (res, db', bus')"
    and valid: "semver_match (cv_version data)" and ok: "valid_versions db"
  shows "valid_versions db' \<and> db' = db\<lparr>versions := versions db'\<rparr> \<and>
    (\<forall>c. c \<noteq> cv_component_id data \<longrightarrow> filter (active_of c) (versions db') = filter (active_of c) (versions db)) \<and>
    (case res of
       Inl e \<Rightarrow> history (versions db') = history (versions db) \<and> bus' = bus
     | Inr vr \<Rightarrow> \<exists>a b c comp. parse_core (cv_version data) = Inr (a, b, c) \<and>
         filter (active_of (cv_component_id data)) (versions db') = [created_row i now data a b c] \<and>
         vr = version_fields (created_row i now data a b c) \<and>
         history (versions db') = history (versions db) @ [created_row i now data a b c] \<and>
         (\<forall>v\<in>set (versions db).
            (if v_component_id v = cv_component_id data \<and> v_status v = ACTIVE then v\<lparr>v_status := SUPERSEDED\<rparr> else v)
              \<in> set (versions db')) \<and>
         comp \<in> set (components db) \<and> c_id comp = cv_component_id data \<and>
         bus' = emit (version_created_event (c_product_id comp) vr) bus)"
proof -
  note o = ok[unfolded valid_versions_def]
  have keeps: "valid_versions db'"
    using create_version_keeps[OF run valid] o by (simp add: valid_versions_def)
  from run valid show ?thesis
  proof (cases rule: create_version_cases)
    case (created a b c comp)
    let ?r = "created_row i now data a b c"
    have r: "v_component_id ?r = cv_component_id data" "set_status ACTIVE ?r = ?r" "v_status ?r = ACTIVE"
      by (simp_all add: created_row_def set_status_def)
    have "filter (active_of (cv_component_id data)) (versions db') = [?r]"
      using r by (simp add: created(5) no_active_after_supersede active_of_def)
    moreover have "filter (active_of d) (versions db') = filter (active_of d) (versions db)" if "d \<noteq> cv_component_id data" for d
      using that r by (simp add: created(5) other_active_after_supersede active_of_def)
    moreover have "history (versions db') = history (versions db) @ [?r]" by (simp add: created(5) r(2))
    moreover have "(if v_component_id v = cv_component_id data \<and> v_status v = ACTIVE then v\<lparr>v_status := SUPERSEDED\<rparr> else v)
        \<in> set (versions db')" if "v \<in> set (versions db)" for v
      using that by (force simp: created(5) sql_update_def active_of_def set_status_def)
    ultimately show ?thesis using keeps created by auto
  next
    case (unknown e)
    with keeps show ?thesis by simp
  next
    case (refused e)
    with keeps show ?thesis by (simp add: other_active_after_supersede supersede_active_def)
  qed
qed

theorem create_version_effect_witness:
  "\<exists>vr db' a b c. create_version_query ''a3'' 9 (version_model ''1.2.0'') sample_database None = (Inr vr, db', None) \<and>
     filter (active_of ''a'') (versions db') = [created_row ''a3'' 9 (version_model ''1.2.0'') a b c]"
proof -
  have valid: "semver_match (cv_version (version_model ''1.2.0''))"
    by (simp add: version_model_def semver_match_def semver_full_def eat_number_dot_def number_and_suffix_def
        is_prerelease_char_def is_digit_def code_def)
  obtain res db' bus' where run: "create_version_query ''a3'' 9 (version_model ''1.2.0'') sample_database None = (res, db', bus')"
    by (cases "create_version_query ''a3'' 9 (version_model ''1.2.0'') sample_database None")
  from run have "\<exists>vr. res = Inr vr"
    by (auto simp: create_version_query_def select_components_by_id_def version_model_def sample_defs supersede_active_def
        cv_major_def cv_minor_def cv_patch_def nth_part_def py_int_def strip_def lstrip_def is_space_def code_def
        before_first_def parse_nat_def digit_val_def is_digit_def insert_version_def in_integer_range_def
        select_versions_by_id_def to_version_response_ok parts_nonneg_def sql_update_def
        active_of_def set_status_def Let_def)
  then obtain vr where "res = Inr vr" ..
  moreover from run have "bus' = None" using create_version_effect[OF run valid valid_versions_sample] calculation
    by (auto simp: emit_def)
  ultimately show ?thesis
    using create_version_effect[OF run valid valid_versions_sample] run by (auto simp: version_model_def)
qed

text \<open>A failed publication is not atomic: if the row is refused after the component was found
  (a part beyond the 32-bit column range, a clash of identifiers), the supersede statement has
  already run, so the component is left with no active version although the request failed.\<close>

theorem failed_version_leaves_no_active:
  assumes run: "create_version_query i now data db bus = (Inl e, db', bus')"
    and valid: "semver_match (cv_version data)" and known: "cv_component_id data \<in> c_id ` set (components db)"
  shows "filter (active_of (cv_component_id data)) (versions db') = [] \<and>
    (e = OutOfRange \<or> e = ConstraintViolation) \<and> history (versions db') = history (versions db)"
  using run valid
proof (cases rule: create_version_cases)
  case (refused e')
  then show ?thesis by (auto simp: no_active_after_supersede)
qed (use known in auto)

theorem failed_version_leaves_no_active_witness:
  "\<exists>e db'. create_version_query ''a3'' 9 (version_model ''3000000000.0.0'') sample_database None = (Inl e, db', None) \<and>
     filter (active_of ''a'') (versions sample_database) \<noteq> [] \<and> filter (active_of ''a'') (versions db') = []"
proof -
  have valid: "semver_match (cv_version (version_model ''3000000000.0.0''))"
    by (simp add: version_model_def semver_match_def semver_full_def eat_number_dot_def number_and_suffix_def
        is_prerelease_char_def is_digit_def code_def)
  obtain res db' bus' where run: "create_version_query ''a3'' 9 (version_model ''3000000000.0.0'') sample_database None = (res, db', bus')"
    by (cases "create_version_query ''a3'' 9 (version_model ''3000000000.0.0'') sample_database None")
  from run have "res = Inl OutOfRange" "bus' = None"
    by (simp_all add: create_version_query_def select_components_by_id_def version_model_def sample_defs supersede_active_def
        cv_major_def cv_minor_def cv_patch_def nth_part_def py_int_def strip_def lstrip_def is_space_def code_def
        before_first_def parse_nat_def digit_val_def is_digit_def insert_version_def in_integer_range_def Let_def)
  with run failed_version_leaves_no_active[OF _ valid, of "''a3''" 9 sample_database None OutOfRange db' None]
  show ?thesis by (auto simp: version_model_def sample_defs active_of_def)
qed

lemma one_activeD:
  "one_active vs \<Longrightarrow> v \<in> set vs \<Longrightarrow> w \<in> set vs \<Longrightarrow> active_of c v \<Longrightarrow> active_of c w \<Longrightarrow> v = w"
  unfolding one_active_def
proof -
  assume "\<forall>c. length (filter (active_of c) vs) \<le> 1"
  then have "length (filter (active_of c) vs) \<le> 1" by blast
  moreover assume "v \<in> set vs" "w \<in> set vs" "active_of c v" "active_of c w"
  then have "v \<in> set (filter (active_of c) vs)" "w \<in> set (filter (active_of c) vs)" by simp_all
  ultimately show "v = w" by (cases "filter (active_of c) vs") auto
qed

text \<open>Where the API contract is silent: rolling back a version that is not the active one retires that version
  and supersedes the active one, which is neither the target nor the version re-activated.\<close>

lemma rollback_demotes_active:
  assumes run: "rollback_version_query i db bus = (Inr vr, db', bus')" and ok: "valid_versions db"
    and "t \<in> set (versions db)" "v_id t = i" "v_status t \<noteq> ACTIVE"
    and a: "a \<in> set (versions db)" "active_of (v_component_id t) a" and "v_id a \<noteq> vr_id vr"
  shows "set_status ROLLED_BACK t \<in> set (versions db') \<and> set_status SUPERSEDED a \<in> set (versions db')"
proof -
  from ok have pk: "pk v_id (versions db)" and s: "schema_ok db" "all_nonneg (versions db)"
    by (simp_all add: valid_versions_def schema_ok_def)
  from run s show ?thesis
  proof (cases rule: rollback_version_cases)
    case (rolled u p comp)
    have u: "u = t" using pkD[OF pk rolled(1) assms(3)] rolled(2) assms(4) by simp
    have "v_id a \<noteq> v_id t" using pkD[OF pk a(1) assms(3)] assms(5) a(2) by (auto simp: active_of_def)
    moreover have "v_id a \<noteq> v_id p" "v_id t \<noteq> v_id p"
      using assms(8) rolled(4,8) u by (auto simp: version_fields_def prior_candidate_def)
    ultimately have "rollback_status u p t = ROLLED_BACK" "rollback_status u p a = SUPERSEDED"
      using a(2) u by (simp_all add: rollback_status_def)
    then show ?thesis unfolding rolled(6) using assms(3) a(1) by (simp add: rev_image_eqI)
  qed simp_all
qed

text \<open>C18: Rolling back the active version of a component. When the component has no earlier version that was
  not itself rolled back the request is refused and nothing changes. Otherwise the target becomes
  rolled back, the greatest such earlier version becomes the component's only active version and is
  what the call answers, every other row stays exactly as it is, none is added or removed, and one
  \<open>version.rolled_back\<close> event names the target and the version re-activated. (A target that is not the active
  version is outside this statement: the code accepts it, the API contract does not describe it.)\<close>

theorem rollback_effect:
  assumes run: "rollback_version_query i db bus = (res, db', bus')" and ok: "valid_versions db"
    and current: "\<forall>t\<in>set (versions db). v_id t = i \<longrightarrow> v_status t = ACTIVE"
  shows "valid_versions db' \<and> db' = db\<lparr>versions := versions db'\<rparr> \<and>
    (case res of
       Inl e \<Rightarrow> db' = db \<and> bus' = bus \<and> (\<forall>t p. t \<in> set (versions db) \<longrightarrow> v_id t = i \<longrightarrow> p \<in> set (versions db) \<longrightarrow> \<not> prior_candidate t p)
     | Inr vr \<Rightarrow> \<exists>t p comp. t \<in> set (versions db) \<and> v_id t = i \<and> p \<in> set (versions db) \<and> prior_candidate t p \<and>
         (\<forall>v \<in> set (versions db). prior_candidate t v \<longrightarrow> core_of v \<le> core_of p) \<and>
         versions db' = map (\<lambda>v. if v_id v = v_id t then v\<lparr>v_status := ROLLED_BACK\<rparr>
            else if v_id v = v_id p then v\<lparr>v_status := ACTIVE\<rparr> else v) (versions db) \<and>
         filter (active_of (v_component_id t)) (versions db') = [p\<lparr>v_status := ACTIVE\<rparr>] \<and>
         vr = version_fields (p\<lparr>v_status := ACTIVE\<rparr>) \<and>
         comp \<in> set (components db) \<and> c_id comp = v_component_id t \<and>
         bus' = emit (version_rolled_back_event (c_product_id comp) (v_component_id t) i (v_id p)) bus)"
proof -
  note o = ok[unfolded valid_versions_def]
  have keeps: "valid_versions db'"
    using rollback_version_keeps[OF run] o by (simp_all add: valid_versions_def)
  have pk: "pk v_id (versions db)" using o by (simp add: schema_ok_def)
  from run o have "schema_ok db" "all_nonneg (versions db)" by simp_all
  from run this show ?thesis
  proof (cases rule: rollback_version_cases)
    case (unknown e)
    then show ?thesis using keeps by auto
  next
    case (no_prior t)
    then have "\<forall>t' p. t' \<in> set (versions db) \<longrightarrow> v_id t' = i \<longrightarrow> p \<in> set (versions db) \<longrightarrow> \<not> prior_candidate t' p"
      using pkD[OF pk, of _ t] by metis
    with no_prior keeps show ?thesis by simp
  next
    case (rolled t p comp)
    have diff: "v_id p \<noteq> v_id t" using rolled(4) by (simp add: prior_candidate_def)
    have "active_of (v_component_id t) t" using current rolled(1,2) by (simp add: active_of_def)
    then have "v = t" if "v \<in> set (versions db)" "active_of (v_component_id t) v" for v
      using one_activeD that rolled(1) o by blast
    then have "rollback_status t p v = (if v_id v = v_id t then ROLLED_BACK else if v_id v = v_id p then ACTIVE else v_status v)"
      if "v \<in> set (versions db)" for v
      using that diff by (auto simp: rollback_status_def)
    then have "versions db' = map (\<lambda>v. if v_id v = v_id t then v\<lparr>v_status := ROLLED_BACK\<rparr>
        else if v_id v = v_id p then v\<lparr>v_status := ACTIVE\<rparr> else v) (versions db)"
      unfolding rolled(6) by (intro map_cong refl) (simp add: set_status_def)
    moreover have "filter (active_of (v_component_id t)) (versions db') = [p\<lparr>v_status := ACTIVE\<rparr>]"
      unfolding rolled(6) using rolled_active_filter[OF pk rolled(1,3,4), of "v_component_id t"] by (simp add: set_status_def)
    moreover have "version_fields (set_status ACTIVE p) = version_fields (p\<lparr>v_status := ACTIVE\<rparr>)"
      by (simp add: set_status_def)
    ultimately show ?thesis
      unfolding rolled(8) sum.case
      by (intro conjI exI[of _ t] exI[of _ p] exI[of _ comp] keeps rolled(1-5,7,9-10)) (use rolled(11) in blast)+
  qed
qed

theorem rollback_effect_witness:
  "\<exists>vr db'. rollback_version_query ''a2'' sample_database None = (Inr vr, db', None) \<and>
     filter (active_of ''a'') (versions db') = [sample_version ''a1'' ''a'' 1 0 ACTIVE] \<and> valid_versions db'"
proof -
  obtain res db' bus' where run: "rollback_version_query ''a2'' sample_database None = (res, db', bus')"
    by (cases "rollback_version_query ''a2'' sample_database None")
  have cand: "prior_candidate (sample_version ''a2'' ''a'' 1 1 ACTIVE) (sample_version ''a1'' ''a'' 1 0 SUPERSEDED)"
    by (simp add: prior_candidate_def sample_version_def core_of_def)
  have "\<forall>t\<in>set (versions sample_database). v_id t = ''a2'' \<longrightarrow> v_status t = ACTIVE"
    by (simp add: sample_defs)
  note facts = rollback_effect[OF run valid_versions_sample this]
  obtain vr where vr: "res = Inr vr"
  proof (cases res)
    case (Inl e)
    with facts have "\<forall>t p. t \<in> set (versions sample_database) \<longrightarrow> v_id t = ''a2'' \<longrightarrow> p \<in> set (versions sample_database)
        \<longrightarrow> \<not> prior_candidate t p" by simp
    with cand show thesis by (auto simp: sample_database_def sample_version_def)
  qed
  from facts[unfolded vr sum.case] obtain t p where tp: "t \<in> set (versions sample_database)" "v_id t = ''a2''"
    "p \<in> set (versions sample_database)" "prior_candidate t p" "bus' = None" "valid_versions db'"
    "filter (active_of (v_component_id t)) (versions db') = [p\<lparr>v_status := ACTIVE\<rparr>]"
    by (auto simp: emit_def)
  then have "v_component_id t = ''a''" "p\<lparr>v_status := ACTIVE\<rparr> = sample_version ''a1'' ''a'' 1 0 ACTIVE"
    by (auto simp: sample_database_def sample_version_def prior_candidate_def)
  with tp vr run show ?thesis by auto
qed

end
