(* ===== verification/Dependency_Graph.thy ===== *)
theory Dependency_Graph
  imports Errors
begin

text \<open>
  \<open>app/domain/dependency_graph.py\<close>: the adjacency map, the depth-first reachability loop
  with its explicit stack and seen set, and the cycle test made before an edge is added.
  The loop is shown to decide reachability, and the test to decide exactly whether the new
  edge would close a cycle; the \<open>edge_guard\<close> interface is what the query layer uses.
\<close>

type_synonym edge_list = "(ident \<times> ident) list"

definition adjacency :: "edge_list \<Rightarrow> (ident, ident list) dict" where
  "adjacency edges = group_rows fst snd edges []"

definition adjacent :: "(ident, ident list) dict \<Rightarrow> ident \<Rightarrow> ident list" where
  "adjacent adj node = (case dict_get adj node of None \<Rightarrow> [] | Some xs \<Rightarrow> xs)"

function reach_loop :: "(ident, ident list) dict \<Rightarrow> ident \<Rightarrow> ident list \<Rightarrow> ident set \<Rightarrow> bool" where
  "reach_loop adj target stack seen =
     (if stack = [] then False
      else let node = last stack; rest = butlast stack in
        if node = target then True
        else if node \<in> seen then reach_loop adj target rest seen
        else reach_loop adj target (rest @ adjacent adj node) (insert node seen))"
  by pat_completeness auto

lemma adjacent_outside: "node \<notin> set (keys adj) \<Longrightarrow> adjacent adj node = []"
  by (simp add: adjacent_def flip: map_of_eq_None_iff)

lemma butlast_shorter: "stack \<noteq> [] \<Longrightarrow> length (butlast stack) < length stack"
  by (cases stack rule: rev_cases) auto

text \<open>
  Visiting a node with outgoing edges removes it from the finite set of unseen ones; any
  other step shortens the stack.
\<close>

termination reach_loop
proof (relation "measures [\<lambda>(adj, target, stack, seen). card (set (keys adj) - seen),
                           \<lambda>(adj, target, stack, seen). length stack]", goal_cases)
  case 1
  show ?case by simp
next
  case (2 adj target stack seen node rest)
  then show ?case using butlast_shorter[of stack] by simp
next
  case (3 adj target stack seen node rest)
  show ?case
  proof (cases "node \<in> set (keys adj)")
    case True
    with 3 have "set (keys adj) - insert node seen \<subset> set (keys adj) - seen" by blast
    then have "card (set (keys adj) - insert node seen) < card (set (keys adj) - seen)"
      by (intro psubset_card_mono) auto
    then show ?thesis by simp
  next
    case False
    then have "set (keys adj) - insert node seen = set (keys adj) - seen" by blast
    with False 3 show ?thesis
      using adjacent_outside[OF False] butlast_shorter[of stack] by simp
  qed
qed

declare reach_loop.simps [simp del]

definition is_reachable :: "edge_list \<Rightarrow> ident \<Rightarrow> ident \<Rightarrow> bool" where
  "is_reachable edges start target = reach_loop (adjacency edges) target [start] {}"

definition would_create_cycle :: "edge_list \<Rightarrow> ident \<Rightarrow> ident \<Rightarrow> bool" where
  "would_create_cycle edges from_id to_id = is_reachable edges to_id from_id"

section \<open>The loop decides reachability\<close>

lemma set_adjacent_adjacency: "set (adjacent (adjacency edges) n) = set edges `` {n}"
  by (force simp: adjacent_def adjacency_def group_rows_get)

definition adj_rel :: "(ident, ident list) dict \<Rightarrow> (ident \<times> ident) set" where
  "adj_rel adj = {(n, m). m \<in> set (adjacent adj n)}"

lemma adj_rel_adjacency [simp]: "adj_rel (adjacency edges) = set edges"
  by (auto simp: adj_rel_def set_adjacent_adjacency)

lemma stack_split: "stack \<noteq> [] \<Longrightarrow> set stack = insert (last stack) (set (butlast stack))"
  by (cases stack rule: rev_cases) auto

text \<open>One turn of the loop, by the case of the node on top of the stack.\<close>

lemma reach_loop_turn:
  assumes "stack \<noteq> []"
  shows "last stack = target \<Longrightarrow> reach_loop adj target stack seen"
    and "last stack \<noteq> target \<Longrightarrow> last stack \<in> seen \<Longrightarrow>
           reach_loop adj target stack seen = reach_loop adj target (butlast stack) seen"
    and "last stack \<noteq> target \<Longrightarrow> last stack \<notin> seen \<Longrightarrow>
           reach_loop adj target stack seen =
             reach_loop adj target (butlast stack @ adjacent adj (last stack)) (insert (last stack) seen)"
  using assms by (simp_all add: reach_loop.simps[of adj target stack seen] Let_def)

lemma reach_loop_sound:
  "reach_loop adj target stack seen \<Longrightarrow> \<exists>s\<in>set stack. (s, target) \<in> (adj_rel adj)\<^sup>*"
proof (induction adj target stack seen rule: reach_loop.induct)
  case (1 adj target stack seen)
  let ?n = "last stack" and ?rest = "butlast stack"
  have ne: "stack \<noteq> []" using "1.prems" by (auto simp: reach_loop.simps)
  note st = stack_split[OF ne] and turn = reach_loop_turn[OF ne]
  consider "?n = target" | "?n \<noteq> target" "?n \<in> seen" | "?n \<noteq> target" "?n \<notin> seen" by blast
  then show ?case
  proof cases
    case 1
    with st show ?thesis by auto
  next
    case 2
    with "1.IH"(1)[OF ne refl refl 2] "1.prems" turn(2) st show ?thesis by auto
  next
    case 3
    with "1.IH"(2)[OF ne refl refl 3] "1.prems" turn(3) obtain s where
      s: "s \<in> set (?rest @ adjacent adj ?n)" "(s, target) \<in> (adj_rel adj)\<^sup>*" by auto
    show ?thesis
    proof (cases "s \<in> set ?rest")
      case False
      with s have "(?n, s) \<in> adj_rel adj" by (auto simp: adj_rel_def)
      with s(2) have "(?n, target) \<in> (adj_rel adj)\<^sup>*" by (rule_tac converse_rtrancl_into_rtrancl)
      with st show ?thesis by auto
    qed (use s st in auto)
  qed
qed

lemma reach_loop_complete:
  "(\<forall>n\<in>seen. adj_rel adj `` {n} \<subseteq> seen \<union> set stack) \<Longrightarrow> target \<notin> seen \<Longrightarrow>
    s \<in> seen \<union> set stack \<Longrightarrow> (s, target) \<in> (adj_rel adj)\<^sup>* \<Longrightarrow>
    reach_loop adj target stack seen"
proof (induction adj target stack seen rule: reach_loop.induct)
  case (1 adj target stack seen)
  let ?n = "last stack" and ?rest = "butlast stack"
  show ?case
  proof (cases "stack = []")
    case True
    with "1.prems" have closed: "adj_rel adj `` seen \<subseteq> seen" and s: "s \<in> seen" by auto
    have "target \<in> (adj_rel adj)\<^sup>* `` seen" using s "1.prems"(4) by blast
    with Image_closed_trancl[OF closed] "1.prems"(2) show ?thesis by simp
  next
    case False
    note st = stack_split[OF False] and turn = reach_loop_turn[OF False]
    have succ: "adj_rel adj `` {?n} = set (adjacent adj ?n)" by (auto simp: adj_rel_def)
    consider "?n = target" | "?n \<noteq> target" "?n \<in> seen" | "?n \<noteq> target" "?n \<notin> seen" by blast
    then show ?thesis
    proof cases
      case 1
      with turn(1) show ?thesis by simp
    next
      case 2
      from "1.prems"(1) st 2 have "\<forall>n\<in>seen. adj_rel adj `` {n} \<subseteq> seen \<union> set ?rest" by auto
      with "1.IH"(1)[OF False refl refl 2] "1.prems" st 2 turn(2) show ?thesis by auto
    next
      case 3
      let ?stack' = "?rest @ adjacent adj ?n" and ?seen' = "insert ?n seen"
      have "\<forall>n\<in>?seen'. adj_rel adj `` {n} \<subseteq> ?seen' \<union> set ?stack'"
        using "1.prems"(1) st succ by auto
      moreover have "s \<in> ?seen' \<union> set ?stack'" using "1.prems"(3) st by auto
      ultimately have "reach_loop adj target ?stack' ?seen'"
        using "1.IH"(2)[OF False refl refl 3] "1.prems"(2,4) 3 by auto
      with turn(3) 3 show ?thesis by simp
    qed
  qed
qed

lemma is_reachable_iff: "is_reachable edges start target \<longleftrightarrow> (start, target) \<in> (set edges)\<^sup>*"
proof
  assume "is_reachable edges start target"
  then show "(start, target) \<in> (set edges)\<^sup>*"
    using reach_loop_sound[of "adjacency edges" target "[start]" "{}"] by (simp add: is_reachable_def)
next
  assume "(start, target) \<in> (set edges)\<^sup>*"
  then show "is_reachable edges start target"
    using reach_loop_complete[of "{}" "adjacency edges" "[start]" target start]
    by (simp add: is_reachable_def)
qed

section \<open>The cycle guard\<close>

text \<open>
  What the query layer relies on: over an acyclic graph the guard rejects exactly the edges
  that would close a cycle.
\<close>

locale edge_guard =
  fixes rejects :: "edge_list \<Rightarrow> ident \<Rightarrow> ident \<Rightarrow> bool"
  assumes exact: "acyclic (set edges) \<Longrightarrow>
    rejects edges f t \<longleftrightarrow> \<not> acyclic (insert (f, t) (set edges))"
begin

lemma guarded_insert:
  "acyclic (set edges) \<Longrightarrow> \<not> rejects edges f t \<Longrightarrow> acyclic (set (edges @ [(f, t)]))"
  using exact[of edges f t] by simp

lemma rejects_self: "acyclic (set edges) \<Longrightarrow> rejects edges f f"
  using exact[of edges f f] by (auto simp: acyclic_def)

lemma rejects_back_edge:
  "acyclic (set edges) \<Longrightarrow> (t, f) \<in> (set edges)\<^sup>+ \<Longrightarrow> rejects edges f t"
  using exact[of edges f t] by (auto simp: acyclic_insert dest: trancl_into_rtrancl)

lemma guarded_remove: "acyclic (set edges) \<Longrightarrow> set edges' \<subseteq> set edges \<Longrightarrow> acyclic (set edges')"
  by (rule acyclic_subset)

end

lemma would_create_cycle_exact:
  "acyclic (set edges) \<Longrightarrow>
     would_create_cycle edges f t \<longleftrightarrow> \<not> acyclic (insert (f, t) (set edges))"
  by (simp add: would_create_cycle_def is_reachable_iff acyclic_insert)

interpretation cycle_guard: edge_guard would_create_cycle
  by unfold_locales (rule would_create_cycle_exact)

section \<open>Properties\<close>

text \<open>The depth-first search answers reachability exactly: for any list of edges, cyclic or
  not, it terminates and reports the target reachable precisely when a path of dependency edges
  (possibly empty) leads there from the start.\<close>

theorem is_reachable_correct:
  "is_reachable edges start target \<longleftrightarrow> (start, target) \<in> (set edges)\<^sup>*"
  by (rule is_reachable_iff)

text \<open>The cycle guard is exact: on an acyclic graph it rejects an edge precisely when adding
  it would make the graph cyclic, so no harmless edge is refused and no cycle gets in.\<close>

theorem would_create_cycle_correct:
  assumes "acyclic (set edges)"
  shows "would_create_cycle edges f t \<longleftrightarrow> \<not> acyclic (set (edges @ [(f, t)]))"
  using would_create_cycle_exact[OF assms, of f t] by simp

theorem would_create_cycle_correct_witness:
  "would_create_cycle [(''a'', ''b''), (''b'', ''c'')] ''c'' ''a''
     \<longleftrightarrow> \<not> acyclic (set ([(''a'', ''b''), (''b'', ''c'')] @ [(''c'', ''a'')]))"
proof -
  have "acyclic (set [(''a'', ''b''), (''b'', ''c'')])"
    by (rule acyclicI_order[of _ "\<lambda>s. (100 :: nat) - of_char (hd s)"]) auto
  from would_create_cycle_correct[OF this] show ?thesis .
qed

end
