(* ===== verification/Bump_Propagation.thy ===== *)
theory Bump_Propagation
  imports Enums Dependency_Graph
begin

text \<open>
  \<open>app/domain/bump_propagation.py\<close>: the maximum of levels, the contraction a level
  undergoes when a dependent feels it, the memoised depth-first walk over the dependency
  graph with its \<open>visiting\<close> set, and the product bump. A dictionary access that would
  raise \<open>KeyError\<close> is \<open>None\<close>; the walk is shown never to raise, to terminate on every
  graph, and over an acyclic graph to satisfy the recurrence its documentation states.
\<close>

type_synonym levels = "(ident, bump_level) dict"

definition by_ordinal :: "nat \<Rightarrow> bump_level" where
  "by_ordinal n =
     the (dict_get [(0, BL_NONE), (1, BL_PATCH), (2, BL_MINOR), (3, BL_MAJOR)] n)"

fun max_level_loop :: "nat \<Rightarrow> bump_level list \<Rightarrow> nat" where
  "max_level_loop highest [] = highest"
| "max_level_loop highest (l # ls) = max_level_loop (max highest (bump_ordinal l)) ls"

definition max_level :: "bump_level list \<Rightarrow> bump_level" where
  "max_level levels = by_ordinal (max_level_loop 0 levels)"

fun propagate :: "bump_level \<Rightarrow> bump_level" where
  "propagate BL_NONE = BL_NONE"
| "propagate BL_PATCH = BL_PATCH"
| "propagate BL_MINOR = BL_PATCH"
| "propagate BL_MAJOR = BL_MINOR"

section \<open>Levels form a contracting max-algebra\<close>

lemma by_ordinal_ordinal [simp]: "by_ordinal (bump_ordinal l) = l"
  by (cases l) (simp_all add: by_ordinal_def)

lemma max_level_loop_max:
  "max_level_loop (bump_ordinal h) ls = bump_ordinal (fold max ls h)"
proof (induction ls arbitrary: h)
  case (Cons l ls)
  then show ?case by (simp add: max.commute flip: bump_ordinal_max)
qed simp

lemma max_level_fold: "max_level ls = fold max ls BL_NONE"
  using max_level_loop_max[of BL_NONE ls] by (simp add: max_level_def)

locale level_algebra =
  fixes P :: "'l::linorder \<Rightarrow> 'l" and mx :: "'l list \<Rightarrow> 'l"
  assumes contracts: "P l \<le> l"
    and mono: "l \<le> m \<Longrightarrow> P l \<le> P m"
    and mx_upper: "l \<in> set ls \<Longrightarrow> l \<le> mx ls"
    and mx_least: "(\<And>l. l \<in> set ls \<Longrightarrow> l \<le> b) \<Longrightarrow> mx ls \<le> b"
begin

lemma mx_eqI: "b \<in> set ls \<Longrightarrow> (\<And>l. l \<in> set ls \<Longrightarrow> l \<le> b) \<Longrightarrow> mx ls = b"
  using mx_upper mx_least by (meson order.antisym)

lemma mx_cong_set: "set ls = set ls' \<Longrightarrow> mx ls = mx ls'"
  using mx_upper mx_least by (intro order.antisym) metis+

lemma mx_Cons_bound: "b \<le> m \<Longrightarrow> (\<And>l. l \<in> set ls \<Longrightarrow> l \<le> m) \<Longrightarrow> mx (b # map P ls) \<le> m"
  using contracts by (intro mx_least) (auto intro: order.trans)

lemma mx_Cons_base: "b \<le> mx (b # ls)"
  by (intro mx_upper) simp

lemma contribution: "d \<in> set ds \<Longrightarrow> P (f d) \<le> mx (b # map (\<lambda>d. P (f d)) ds)"
  by (intro mx_upper) auto

end

lemma fold_max_ge: "h \<le> fold max ls (h :: 'a::linorder)"
proof (induction ls arbitrary: h)
  case (Cons l ls)
  have "h \<le> max l h" by simp
  also have "\<dots> \<le> fold max ls (max l h)" by (rule Cons.IH)
  finally show ?case by simp
qed simp

lemma fold_max_upper: "l \<in> set ls \<Longrightarrow> l \<le> fold max ls (h :: 'a::linorder)"
proof (induction ls arbitrary: h)
  case (Cons a ls)
  then show ?case using order.trans[OF max.cobounded1 fold_max_ge[of "max a h" ls]] by auto
qed simp

lemma fold_max_least:
  "h \<le> b \<Longrightarrow> (\<And>l. l \<in> set ls \<Longrightarrow> l \<le> b) \<Longrightarrow> fold max ls h \<le> (b :: 'a::linorder)"
  by (induction ls arbitrary: h) auto

interpretation policy: level_algebra propagate max_level
proof unfold_locales
  show "propagate l \<le> l" for l by (cases l) (simp_all add: bump_order)
  show "l \<le> m \<Longrightarrow> propagate l \<le> propagate m" for l m
    by (cases l; cases m) (simp_all add: bump_order)
  show "l \<in> set ls \<Longrightarrow> l \<le> max_level ls" for l ls
    by (simp add: max_level_fold fold_max_upper)
  show "(\<And>l. l \<in> set ls \<Longrightarrow> l \<le> b) \<Longrightarrow> max_level ls \<le> b" for ls b
    by (simp add: max_level_fold fold_max_least)
qed

section \<open>The walk\<close>

fun add_edges :: "edge_list \<Rightarrow> (ident, ident list) dict \<Rightarrow> (ident, ident list) dict" where
  "add_edges [] d = d"
| "add_edges ((from_id, to_id) # es) d =
     add_edges es (dict_append from_id to_id (dict_setdefault to_id [] (dict_setdefault from_id [] d)))"

definition build_dependencies :: "levels \<Rightarrow> edge_list \<Rightarrow> (ident, ident list) dict" where
  "build_dependencies own_levels edges = add_edges edges (map (\<lambda>node. (node, [])) (keys own_levels))"

definition base_levels :: "levels \<Rightarrow> (ident, ident list) dict \<Rightarrow> levels" where
  "base_levels own_levels dependencies =
     map (\<lambda>node. (node, case dict_get own_levels node of None \<Rightarrow> BL_MAJOR | Some l \<Rightarrow> l))
       (keys dependencies)"

text \<open>
  \<open>effective(node)\<close> returns the level and the memo it leaves. \<open>visiting\<close> is passed down:
  the source adds the node before the recursive calls and discards it after them, and it
  was not in the set before. The source recurses once per edge of a path, so a chain of dependencies as long as
  CPython's recursion limit raises \<open>RecursionError\<close> there; the model has no such limit.
\<close>

function effective ::
    "(ident, ident list) dict \<Rightarrow> levels \<Rightarrow> ident \<Rightarrow> levels \<Rightarrow> ident set \<Rightarrow> (bump_level \<times> levels) option"
  and contributions ::
    "(ident, ident list) dict \<Rightarrow> levels \<Rightarrow> ident list \<Rightarrow> levels \<Rightarrow> ident set \<Rightarrow>
       (bump_level list \<times> levels) option"
  where
  "effective deps base node memo visiting =
     (case dict_get memo node of
        Some l \<Rightarrow> Some (l, memo)
      | None \<Rightarrow>
          if node \<in> visiting then map_option (\<lambda>b. (b, memo)) (dict_get base node)
          else case dict_get deps node of
                 None \<Rightarrow> None
               | Some ds \<Rightarrow>
                   (case contributions deps base ds memo (insert node visiting) of
                      None \<Rightarrow> None
                    | Some (ls, memo') \<Rightarrow>
                        map_option (\<lambda>b. let result = max_level (b # ls)
                                         in (result, dict_set node result memo'))
                          (dict_get base node)))"
| "contributions deps base [] memo visiting = Some ([], memo)"
| "contributions deps base (d # ds) memo visiting =
     (case effective deps base d memo visiting of
        None \<Rightarrow> None
      | Some (l, memo') \<Rightarrow>
          map_option (\<lambda>(ls, memo''). (propagate l # ls, memo''))
            (contributions deps base ds memo' visiting))"
  by pat_completeness auto

termination
proof (relation "measures
    [case_sum (\<lambda>(deps, base, node, memo, v). card (set (keys deps) - v))
              (\<lambda>(deps, base, ds, memo, v). card (set (keys deps) - v)),
     case_sum (\<lambda>(deps, base, node, memo, v). 0) (\<lambda>(deps, base, ds, memo, v). Suc (length ds))]",
    goal_cases)
  case (2 deps base node memo visiting ds)
  then have "node \<in> set (keys deps)" by (force dest: map_of_SomeD)
  with 2 have "set (keys deps) - insert node visiting \<subset> set (keys deps) - visiting" by blast
  then have "card (set (keys deps) - insert node visiting) < card (set (keys deps) - visiting)"
    by (intro psubset_card_mono) auto
  then show ?case by simp
qed simp_all

declare effective.simps [simp del]

fun collect_effective ::
  "(ident, ident list) dict \<Rightarrow> levels \<Rightarrow> ident list \<Rightarrow> levels \<Rightarrow> levels option" where
  "collect_effective deps base [] memo = Some []"
| "collect_effective deps base (node # nodes) memo =
     (case effective deps base node memo {} of
        None \<Rightarrow> None
      | Some (l, memo') \<Rightarrow> map_option (\<lambda>r. (node, l) # r) (collect_effective deps base nodes memo'))"

definition effective_levels :: "levels \<Rightarrow> edge_list \<Rightarrow> levels option" where
  "effective_levels own_levels edges =
     (let deps = build_dependencies own_levels edges
      in collect_effective deps (base_levels own_levels deps) (keys deps) [])"

definition derive_product_bump :: "levels \<Rightarrow> edge_list \<Rightarrow> bool \<Rightarrow> bump_level option" where
  "derive_product_bump own_levels edges removed_any =
     (case effective_levels own_levels edges of
        None \<Rightarrow> None
      | Some eff \<Rightarrow>
          (case those (map (dict_get eff) (keys own_levels)) of
             None \<Rightarrow> None
           | Some levels \<Rightarrow> Some (max_level (levels @ (if removed_any then [BL_MAJOR] else [])))))"

section \<open>The dependency map\<close>

definition endpoints :: "edge_list \<Rightarrow> ident set" where
  "endpoints edges = fst ` set edges \<union> snd ` set edges"

definition base_of :: "levels \<Rightarrow> ident \<Rightarrow> bump_level" where
  "base_of own n = (case dict_get own n of None \<Rightarrow> BL_MAJOR | Some l \<Rightarrow> l)"

definition deps_of :: "edge_list \<Rightarrow> ident \<Rightarrow> ident list" where
  "deps_of edges n = map snd (filter (\<lambda>e. fst e = n) edges)"

lemma map_of_add_edges:
  "map_of (add_edges es d) n =
     (if map_of d n = None \<and> n \<notin> endpoints es then None
      else Some ((case map_of d n of None \<Rightarrow> [] | Some xs \<Rightarrow> xs) @ deps_of es n))"
proof (induction es d rule: add_edges.induct)
  case (1 d)
  then show ?case by (simp add: endpoints_def deps_of_def split: option.splits)
next
  case (2 f t es d)
  have e: "endpoints ((f, t) # es) = insert f (insert t (endpoints es))" by (auto simp: endpoints_def)
  have o: "deps_of ((f, t) # es) n = (if n = f then t # deps_of es n else deps_of es n)"
    by (simp add: deps_of_def)
  have "map_of (dict_append f t (dict_setdefault t [] (dict_setdefault f [] d))) n =
      (if n = f then Some ((case map_of d f of None \<Rightarrow> [] | Some xs \<Rightarrow> xs) @ [t])
       else if n = t \<and> map_of d t = None then Some [] else map_of d n)"
    by (auto simp: map_of_dict_append map_of_dict_setdefault split: option.split)
  then show ?case
    unfolding add_edges.simps "2.IH" e o by (auto split: option.split)
qed

lemma map_of_build:
  "map_of (build_dependencies own edges) n =
     (if n \<in> set (keys own) \<union> endpoints edges then Some (deps_of edges n) else None)"
  unfolding build_dependencies_def map_of_add_edges map_of_keyed by simp

lemma keys_map_of: "set (keys d) = {k. map_of d k \<noteq> None}"
  by (auto simp: map_of_eq_None_iff image_iff)

lemma keys_build: "set (keys (build_dependencies own edges)) = set (keys own) \<union> endpoints edges"
  unfolding keys_map_of[of "build_dependencies own edges"] by (auto simp: map_of_build split: if_splits)

lemma map_of_base:
  "map_of (base_levels own deps) n = (if n \<in> set (keys deps) then Some (base_of own n) else None)"
  unfolding base_levels_def base_of_def by (simp only: map_of_keyed)

lemma deps_of_edges: "d \<in> set (deps_of edges n) \<longleftrightarrow> (n, d) \<in> set edges"
  by (force simp: deps_of_def)

lemma deps_of_endpoints: "set (deps_of edges n) \<subseteq> endpoints edges"
  by (force simp: deps_of_edges endpoints_def)

section \<open>The walk never raises and stays within bounds\<close>

text \<open>
  A dependency map is closed when every listed dependency is itself a key and every key has
  a base level. No hypothesis on cycles: the bounds hold on any graph.
\<close>

definition closed_deps :: "(ident, ident list) dict \<Rightarrow> levels \<Rightarrow> bool" where
  "closed_deps deps base \<longleftrightarrow>
     (\<forall>n ds. dict_get deps n = Some ds \<longrightarrow>
        dict_get base n \<noteq> None \<and> (\<forall>d\<in>set ds. dict_get deps d \<noteq> None))"

definition bounded_memo :: "levels \<Rightarrow> bump_level \<Rightarrow> levels \<Rightarrow> bool" where
  "bounded_memo base m memo \<longleftrightarrow>
     (\<forall>n l. dict_get memo n = Some l \<longrightarrow> l \<le> m \<and> (\<forall>b. dict_get base n = Some b \<longrightarrow> b \<le> l))"

lemma walk_total_bounded:
  "closed_deps deps base \<Longrightarrow> \<forall>n b. dict_get base n = Some b \<longrightarrow> b \<le> m \<Longrightarrow>
    bounded_memo base m memo \<Longrightarrow> dict_get deps node \<noteq> None \<Longrightarrow>
    \<exists>l memo'. effective deps base node memo visiting = Some (l, memo') \<and> bounded_memo base m memo'
       \<and> l \<le> m \<and> (\<forall>b. dict_get base node = Some b \<longrightarrow> b \<le> l)"
  "closed_deps deps base \<Longrightarrow> \<forall>n b. dict_get base n = Some b \<longrightarrow> b \<le> m \<Longrightarrow>
    bounded_memo base m memo \<Longrightarrow> \<forall>d\<in>set ds. dict_get deps d \<noteq> None \<Longrightarrow>
    \<exists>ls memo'. contributions deps base ds memo visiting = Some (ls, memo') \<and> bounded_memo base m memo'
       \<and> (\<forall>l\<in>set ls. l \<le> m)"
proof (induction deps base node memo visiting and deps base ds memo visiting
    rule: effective_contributions.induct)
  case (1 deps base node memo visiting)
  from "1.prems"(1,4) obtain ds b where ds: "dict_get deps node = Some ds"
    and b: "dict_get base node = Some b" and cl: "\<forall>d\<in>set ds. dict_get deps d \<noteq> None"
    by (fastforce simp: closed_deps_def)
  consider (memo) l where "dict_get memo node = Some l"
    | (cyc) "dict_get memo node = None" "node \<in> visiting"
    | (new) "dict_get memo node = None" "node \<notin> visiting" by fastforce
  then show ?case
  proof cases
    case memo
    with "1.prems"(3) show ?thesis by (auto simp: effective.simps bounded_memo_def)
  next
    case cyc
    with b "1.prems"(2,3) show ?thesis by (auto simp: effective.simps)
  next
    case new
    from "1.IH"[OF new ds "1.prems"(1-3) cl] obtain ls memo' where
      c: "contributions deps base ds memo (insert node visiting) = Some (ls, memo')"
      and bm: "bounded_memo base m memo'" and ls: "\<forall>l\<in>set ls. l \<le> m" by blast
    have "max_level (b # ls) \<le> m" "b \<le> max_level (b # ls)"
      using ls "1.prems"(2) b by (auto intro!: policy.mx_least policy.mx_Cons_base)
    with new ds c b bm show ?thesis
      by (auto simp: effective.simps[of deps base node] bounded_memo_def Let_def)
  qed
next
  case (3 deps base d ds memo visiting)
  from "3.IH"(1)[OF "3.prems"(1-3)] "3.prems"(4) obtain l memo' where
    e: "effective deps base d memo visiting = Some (l, memo')" "bounded_memo base m memo'" "l \<le> m"
    by auto
  from "3.IH"(2)[OF e(1) refl "3.prems"(1,2) e(2)] "3.prems"(4) obtain ls memo'' where
    "contributions deps base ds memo' visiting = Some (ls, memo'')" "bounded_memo base m memo''"
    "\<forall>l\<in>set ls. l \<le> m" by auto
  with e order.trans[OF policy.contracts e(3)] show ?case by auto
qed simp

lemma collect_total_bounded:
  assumes "closed_deps deps base" "\<forall>n b. dict_get base n = Some b \<longrightarrow> b \<le> m"
  shows "bounded_memo base m memo \<Longrightarrow> \<forall>n\<in>set ns. dict_get deps n \<noteq> None \<Longrightarrow>
    \<exists>eff. collect_effective deps base ns memo = Some eff \<and> keys eff = ns \<and> bounded_memo base m eff"
proof (induction ns arbitrary: memo)
  case (Cons n ns)
  from walk_total_bounded(1)[OF assms Cons.prems(1)] Cons.prems(2) obtain l memo' where
    e: "effective deps base n memo {} = Some (l, memo')" "bounded_memo base m memo'" "l \<le> m"
    "\<forall>b. dict_get base n = Some b \<longrightarrow> b \<le> l"
    by (metis list.set_intros(1))
  from Cons.IH[OF e(2)] Cons.prems(2) obtain eff where
    "collect_effective deps base ns memo' = Some eff" "keys eff = ns" "bounded_memo base m eff" by auto
  with e show ?case by (auto simp: bounded_memo_def)
qed (simp add: bounded_memo_def)

lemma closed_build: "closed_deps (build_dependencies own edges) (base_levels own (build_dependencies own edges))"
  unfolding closed_deps_def map_of_base keys_build map_of_build
  using deps_of_endpoints[of edges] by (simp split: if_splits) blast

lemma effective_levels_bounded:
  assumes "\<And>n. n \<in> set (keys own) \<union> endpoints edges \<Longrightarrow> base_of own n \<le> m"
  obtains eff where "effective_levels own edges = Some eff"
    and "set (keys eff) = set (keys own) \<union> endpoints edges"
    and "\<And>n l. dict_get eff n = Some l \<Longrightarrow> base_of own n \<le> l \<and> l \<le> m"
proof -
  let ?deps = "build_dependencies own edges"
  let ?base = "base_levels own ?deps"
  have "\<forall>n b. dict_get ?base n = Some b \<longrightarrow> b \<le> m"
    using assms unfolding map_of_base keys_build by (simp split: if_splits)
  from collect_total_bounded[OF closed_build this, of "[]" "keys ?deps"] obtain eff where
    e: "collect_effective ?deps ?base (keys ?deps) [] = Some eff" "keys eff = keys ?deps"
    "bounded_memo ?base m eff"
    by (auto simp: bounded_memo_def map_of_eq_None_iff)
  show ?thesis
  proof (rule that[of eff])
    show "effective_levels own edges = Some eff" using e(1) by (simp add: effective_levels_def Let_def)
    show "set (keys eff) = set (keys own) \<union> endpoints edges" by (simp only: e(2) keys_build)
    show "base_of own n \<le> l \<and> l \<le> m" if "dict_get eff n = Some l" for n l
    proof -
      have "n \<in> set (keys ?deps)" using that by (metis e(2) fst_conv image_eqI list.set_map map_of_SomeD)
      with e(3) that show ?thesis by (auto simp: bounded_memo_def map_of_base)
    qed
  qed
qed

section \<open>Over an acyclic graph the walk solves the recurrence\<close>

definition dep_rel :: "(ident, ident list) dict \<Rightarrow> (ident \<times> ident) set" where
  "dep_rel deps = {(n, d). \<exists>ds. dict_get deps n = Some ds \<and> d \<in> set ds}"

definition solves_at :: "(ident, ident list) dict \<Rightarrow> levels \<Rightarrow> levels \<Rightarrow> ident \<Rightarrow> bump_level \<Rightarrow> bool" where
  "solves_at deps base memo n l \<longleftrightarrow>
     (\<exists>ds b. dict_get deps n = Some ds \<and> dict_get base n = Some b \<and>
        (\<forall>d\<in>set ds. dict_get memo d \<noteq> None) \<and>
        l = max_level (b # map (\<lambda>d. propagate (the (dict_get memo d))) ds))"

definition solved_memo :: "(ident, ident list) dict \<Rightarrow> levels \<Rightarrow> levels \<Rightarrow> bool" where
  "solved_memo deps base memo \<longleftrightarrow>
     (\<forall>n l. dict_get memo n = Some l \<longrightarrow> solves_at deps base memo n l)"

lemma solves_at_mono:
  assumes "solves_at deps base memo n l" and "map_of memo \<subseteq>\<^sub>m map_of memo'"
  shows "solves_at deps base memo' n l"
proof -
  from assms(1) obtain ds b where d: "dict_get deps n = Some ds" "dict_get base n = Some b"
    and m: "\<forall>d\<in>set ds. dict_get memo d \<noteq> None"
    and l: "l = max_level (b # map (\<lambda>d. propagate (the (dict_get memo d))) ds)"
    by (auto simp: solves_at_def)
  have eq: "dict_get memo' d = dict_get memo d" if "d \<in> set ds" for d
    using assms(2) m that by (metis domIff map_le_def)
  then have "map (\<lambda>d. propagate (the (dict_get memo' d))) ds = map (\<lambda>d. propagate (the (dict_get memo d))) ds"
    by simp
  with l have "l = max_level (b # map (\<lambda>d. propagate (the (dict_get memo' d))) ds)" by (simp only:)
  moreover have "\<forall>d\<in>set ds. dict_get memo' d \<noteq> None" using m eq by simp
  ultimately show ?thesis unfolding solves_at_def using d by blast
qed

lemma solves_at_det: "solves_at deps base memo n l \<Longrightarrow> solves_at deps base memo n l' \<Longrightarrow> l = l'"
  unfolding solves_at_def by (elim exE conjE) simp

lemma solved_memo_set:
  assumes "solved_memo deps base memo" "solves_at deps base memo n l"
    "\<And>l'. dict_get memo n = Some l' \<Longrightarrow> l' = l"
  shows "solved_memo deps base (dict_set n l memo)" and "map_of memo \<subseteq>\<^sub>m map_of (dict_set n l memo)"
proof -
  show le: "map_of memo \<subseteq>\<^sub>m map_of (dict_set n l memo)"
    using assms(3) by (auto simp: map_le_def)
  show "solved_memo deps base (dict_set n l memo)"
    using assms(1,2) solves_at_mono[OF _ le] by (auto simp: solved_memo_def split: if_splits)
qed

lemma walk_solves:
  "acyclic (dep_rel deps) \<Longrightarrow> solved_memo deps base memo \<Longrightarrow>
    \<forall>u\<in>visiting. (u, node) \<in> (dep_rel deps)\<^sup>+ \<Longrightarrow>
    effective deps base node memo visiting = Some (l, memo') \<Longrightarrow>
    solved_memo deps base memo' \<and> map_of memo \<subseteq>\<^sub>m map_of memo' \<and> dict_get memo' node = Some l"
  "acyclic (dep_rel deps) \<Longrightarrow> solved_memo deps base memo \<Longrightarrow>
    \<forall>u\<in>visiting. \<forall>d\<in>set ds. (u, d) \<in> (dep_rel deps)\<^sup>+ \<Longrightarrow>
    contributions deps base ds memo visiting = Some (ls, memo') \<Longrightarrow>
    solved_memo deps base memo' \<and> map_of memo \<subseteq>\<^sub>m map_of memo' \<and>
    (\<forall>d\<in>set ds. dict_get memo' d \<noteq> None) \<and> ls = map (\<lambda>d. propagate (the (dict_get memo' d))) ds"
proof (induction deps base node memo visiting and deps base ds memo visiting
    arbitrary: l memo' and ls memo' rule: effective_contributions.induct)
  case (1 deps base node memo visiting)
  have nv: "node \<notin> visiting" using "1.prems"(1,3) by (auto simp: acyclic_def)
  show ?case
  proof (cases "dict_get memo node")
    case (Some x)
    with "1.prems" show ?thesis by (simp add: effective.simps)
  next
    case None
    with nv "1.prems"(4) obtain ds ls memo1 b where ds: "dict_get deps node = Some ds"
      and c: "contributions deps base ds memo (insert node visiting) = Some (ls, memo1)"
      and b: "dict_get base node = Some b" and l: "l = max_level (b # ls)"
      and memo': "memo' = dict_set node l memo1"
      by (auto simp: effective.simps[of deps base node] Let_def split: option.splits)
    have edge: "(node, d) \<in> dep_rel deps" if "d \<in> set ds" for d
      using ds that by (auto simp: dep_rel_def)
    have "\<forall>u\<in>insert node visiting. \<forall>d\<in>set ds. (u, d) \<in> (dep_rel deps)\<^sup>+"
      using edge "1.prems"(3) by (auto intro: trancl_into_trancl)
    from "1.IH"[OF None nv ds "1.prems"(1,2) this c]
    have sm: "solved_memo deps base memo1" and le: "map_of memo \<subseteq>\<^sub>m map_of memo1"
      and all: "\<forall>d\<in>set ds. dict_get memo1 d \<noteq> None"
      and ls: "ls = map (\<lambda>d. propagate (the (dict_get memo1 d))) ds" by blast+
    have sol: "solves_at deps base memo1 node l"
      using ds b all ls l by (auto simp: solves_at_def)
    have "l' = l" if "dict_get memo1 node = Some l'" for l'
      using solves_at_det[OF _ sol] sm that by (simp add: solved_memo_def)
    note next_memo = solved_memo_set[OF sm sol this]
    from next_memo(1) map_le_trans[OF le next_memo(2)] show ?thesis
      unfolding memo' map_of_dict_set by (simp only: fun_upd_same simp_thms)
  qed
next
  case (3 deps base d ds memo visiting)
  from "3.prems"(4) obtain l1 memo1 ls2 where
    e: "effective deps base d memo visiting = Some (l1, memo1)"
    and c: "contributions deps base ds memo1 visiting = Some (ls2, memo')"
    and ls: "ls = propagate l1 # ls2"
    by (auto split: option.splits)
  from "3.prems"(3) have "\<forall>u\<in>visiting. (u, d) \<in> (dep_rel deps)\<^sup>+"
    and v: "\<forall>u\<in>visiting. \<forall>d\<in>set ds. (u, d) \<in> (dep_rel deps)\<^sup>+" by auto
  from "3.IH"(1)[OF "3.prems"(1,2) this(1) e]
  have h1: "solved_memo deps base memo1" "map_of memo \<subseteq>\<^sub>m map_of memo1" "dict_get memo1 d = Some l1" by auto
  from "3.IH"(2)[OF e refl "3.prems"(1) h1(1) v c]
  have h2: "solved_memo deps base memo'" "map_of memo1 \<subseteq>\<^sub>m map_of memo'"
    "\<forall>d\<in>set ds. dict_get memo' d \<noteq> None" "ls2 = map (\<lambda>d. propagate (the (dict_get memo' d))) ds" by auto
  have "dict_get memo' d = Some l1" using h1(3) h2(2) by (metis domI map_le_def)
  with h1 h2 ls show ?case by (auto intro: map_le_trans)
qed simp

lemma collect_solves:
  assumes "acyclic (dep_rel deps)"
  shows "solved_memo deps base memo \<Longrightarrow> collect_effective deps base ns memo = Some eff \<Longrightarrow>
    \<exists>final. solved_memo deps base final \<and> map_of memo \<subseteq>\<^sub>m map_of final \<and>
      (\<forall>(n, l)\<in>set eff. dict_get final n = Some l)"
proof (induction ns arbitrary: memo eff)
  case (Cons n ns)
  from Cons.prems(2) obtain l memo' eff' where
    e: "effective deps base n memo {} = Some (l, memo')"
    and c: "collect_effective deps base ns memo' = Some eff'" and eff: "eff = (n, l) # eff'"
    by (auto split: option.splits)
  from walk_solves(1)[OF assms Cons.prems(1) _ e]
  have w: "solved_memo deps base memo'" "map_of memo \<subseteq>\<^sub>m map_of memo'" "dict_get memo' n = Some l" by auto
  from Cons.IH[OF w(1) c] obtain final where
    f: "solved_memo deps base final" "map_of memo' \<subseteq>\<^sub>m map_of final"
    "\<forall>(n, l)\<in>set eff'. dict_get final n = Some l" by blast
  have "dict_get final n = Some l" using w(3) f(2) by (metis domI map_le_def)
  with w f show ?case by (auto simp: eff intro!: exI[of _ final] intro: map_le_trans)
qed auto

lemma dep_rel_build: "dep_rel (build_dependencies own edges) = set edges"
  by (force simp: dep_rel_def map_of_build deps_of_edges endpoints_def split: if_splits)

lemma effective_levels_recurrence:
  assumes "acyclic (set edges)" and "effective_levels own edges = Some eff"
    and "dict_get eff n = Some l"
  shows "l = max_level (base_of own n # map (\<lambda>d. propagate (the (dict_get eff d))) (deps_of edges n))"
proof -
  let ?deps = "build_dependencies own edges"
  let ?base = "base_levels own ?deps"
  have ac: "acyclic (dep_rel ?deps)" using assms(1) by (simp add: dep_rel_build)
  from assms(2) have c: "collect_effective ?deps ?base (keys ?deps) [] = Some eff"
    by (simp add: effective_levels_def Let_def)
  from collect_solves[OF ac _ c] obtain final where
    f: "solved_memo ?deps ?base final" "\<forall>(n, l)\<in>set eff. dict_get final n = Some l"
    by (auto simp: solved_memo_def)
  have same: "dict_get final x = dict_get eff x" if "dict_get eff x \<noteq> None" for x
    using f(2) that by (fastforce dest: map_of_SomeD)
  from f(2) assms(3) have "dict_get final n = Some l" by (auto dest: map_of_SomeD)
  with f(1) have sol: "solves_at ?deps ?base final n l" by (simp add: solved_memo_def)
  then have l: "l = max_level (base_of own n # map (\<lambda>d. propagate (the (dict_get final d))) (deps_of edges n))"
    by (auto simp: solves_at_def map_of_build map_of_base split: if_splits)
  have "dict_get eff d \<noteq> None" if "d \<in> set (deps_of edges n)" for d
  proof -
    have "d \<in> set (keys eff)"
      using deps_of_endpoints[of edges n] that assms(2)
      by (metis UnCI bump_level_bounds(2) effective_levels_bounded option.inject subsetD)
    then show ?thesis by (simp add: map_of_eq_None_iff)
  qed
  with same l show ?thesis by (metis (mono_tags, lifting) map_eq_conv)
qed

section \<open>The product bump\<close>

lemma those_map_Some: "\<forall>k\<in>set ks. f k = Some (g k) \<Longrightarrow> those (map f ks) = Some (map g ks)"
  by (induction ks) auto

lemma derive_via_effective:
  assumes "effective_levels own edges = Some eff" "set (keys own) \<subseteq> set (keys eff)"
  shows "derive_product_bump own edges removed =
    Some (max_level (map (\<lambda>k. the (dict_get eff k)) (keys own) @ (if removed then [BL_MAJOR] else [])))"
proof -
  have "\<forall>k\<in>set (keys own). dict_get eff k = Some (the (dict_get eff k))"
    using assms(2) by (metis map_of_None_keys option.exhaust_sel subsetD)
  from those_map_Some[OF this] assms(1) show ?thesis by (simp add: derive_product_bump_def)
qed

lemma derive_total: "\<exists>b. derive_product_bump own edges removed = Some b"
  by (rule effective_levels_bounded[of own edges BL_MAJOR])
     (auto dest!: derive_via_effective[of own edges _ removed])

section \<open>Properties\<close>

text \<open>C16: Propagation always returns: for any own levels and any edges, cyclic or dangling ones
  included, \<open>effective_levels\<close> terminates without a failed lookup, answers for exactly the
  components and edge endpoints, and never lowers a component below its own level (an endpoint
  without an own level counts as major). CPython's limit on the depth of recursion, which a chain of about a thousand dependencies
  meets, is set aside.\<close>

theorem effective_levels_total_correct:
  "\<exists>eff. effective_levels own edges = Some eff \<and>
     set (keys eff) = set (keys own) \<union> endpoints edges \<and>
     (\<forall>n l. dict_get eff n = Some l \<longrightarrow> base_of own n \<le> l)"
  by (rule effective_levels_bounded[of own edges BL_MAJOR]) auto

theorem effective_levels_total_correct_witness:
  "\<exists>eff l. effective_levels [(''a'', BL_PATCH)] [(''a'', ''b''), (''b'', ''a'')] = Some eff \<and>
     dict_get eff ''b'' = Some l \<and> BL_MAJOR \<le> l"
proof -
  obtain eff where eff: "effective_levels [(''a'', BL_PATCH)] [(''a'', ''b''), (''b'', ''a'')] = Some eff"
      "set (keys eff) = {''a'', ''b''}"
      "\<forall>n l. dict_get eff n = Some l \<longrightarrow> base_of [(''a'', BL_PATCH)] n \<le> l"
    using effective_levels_total_correct[of "[(''a'', BL_PATCH)]" "[(''a'', ''b''), (''b'', ''a'')]"]
    by (auto simp: endpoints_def insert_commute)
  then obtain l where l: "dict_get eff ''b'' = Some l" using map_of_None_keys[of eff "''b''"] by auto
  with eff(3) have "BL_MAJOR \<le> l" by (auto simp: base_of_def dest!: spec[of _ "''b''"])
  with eff l show ?thesis by blast
qed

lemma acyclic_no_edges [simp]: "acyclic {}"
  by (simp add: acyclic_def)

lemma effective_levels_unique_aux:
  fixes f :: "ident \<Rightarrow> bump_level"
  assumes ac: "acyclic (set edges)" and run: "effective_levels own edges = Some eff"
    and f: "\<And>n. n \<in> set (keys own) \<union> endpoints edges \<Longrightarrow>
      f n = max_level (base_of own n # map (\<lambda>d. propagate (f d)) (deps_of edges n))"
  shows "n \<in> set (keys own) \<union> endpoints edges \<Longrightarrow> dict_get eff n = Some (f n)"
proof (induction n rule: wf_induct_rule[OF finite_acyclic_wf_converse[OF finite_set ac]])
  case (1 n)
  obtain eff' where eff': "effective_levels own edges = Some eff'" "set (keys eff') = set (keys own) \<union> endpoints edges"
    by (rule effective_levels_bounded[of own edges BL_MAJOR]) auto
  with run "1.prems" have "n \<in> set (keys eff)" by simp
  then obtain l where l: "dict_get eff n = Some l" using map_of_None_keys[of eff n] by auto
  have "dict_get eff d = Some (f d)" if "d \<in> set (deps_of edges n)" for d
    using "1.IH"[of d] that deps_of_edges[of d edges n] deps_of_endpoints[of edges n] by auto
  then have "map (\<lambda>d. propagate (the (dict_get eff d))) (deps_of edges n) = map (\<lambda>d. propagate (f d)) (deps_of edges n)"
    by simp
  with effective_levels_recurrence[OF ac run l] f[OF "1.prems"] l show ?case by simp
qed

text \<open>C15: On an acyclic dependency graph the effective levels are exactly the solution of the
  documented rule: a component's level is the maximum of its own level and of the propagated
  (one step weaker) levels of the components it depends on. Any assignment satisfying the rule
  is the one computed, so memoisation and the order of the walk do not matter.\<close>

theorem effective_levels_unique_solution:
  assumes "acyclic (set edges)" and "effective_levels own edges = Some eff"
    and "n \<in> set (keys own) \<union> endpoints edges"
  shows "(\<exists>l. dict_get eff n = Some l \<and>
      l = max_level (base_of own n # map (\<lambda>d. propagate (the (dict_get eff d))) (deps_of edges n))) \<and>
    (\<forall>f. (\<forall>m \<in> set (keys own) \<union> endpoints edges.
        f m = max_level (base_of own m # map (\<lambda>d. propagate (f d)) (deps_of edges m))) \<longrightarrow> dict_get eff n = Some (f n))"
proof -
  obtain eff' where eff': "effective_levels own edges = Some eff'" "set (keys eff') = set (keys own) \<union> endpoints edges"
    by (rule effective_levels_bounded[of own edges BL_MAJOR]) auto
  with assms(2,3) have "n \<in> set (keys eff)" by simp
  then obtain l where l: "dict_get eff n = Some l" using map_of_None_keys[of eff n] by auto
  from effective_levels_recurrence[OF assms(1,2) this] effective_levels_unique_aux[OF assms(1,2) _ assms(3)] l
  show ?thesis by blast
qed

theorem effective_levels_unique_solution_witness:
  "\<exists>eff l. effective_levels [(''a'', BL_NONE)] [(''a'', ''b'')] = Some eff \<and> dict_get eff ''a'' = Some l \<and>
     l = max_level (BL_NONE # map (\<lambda>d. propagate (the (dict_get eff d))) [''b''])"
proof -
  obtain eff where eff: "effective_levels [(''a'', BL_NONE)] [(''a'', ''b'')] = Some eff"
    by (rule effective_levels_bounded[of "[(''a'', BL_NONE)]" "[(''a'', ''b'')]" BL_MAJOR]) auto
  have ac: "acyclic (set [(''a'', ''b'')])" by (auto simp: acyclic_insert)
  from effective_levels_unique_solution[OF ac eff, of "''a''"] eff show ?thesis
    by (auto simp: base_of_def deps_of_def)
qed

lemma propagate_NONE_iff: "propagate l = BL_NONE \<longleftrightarrow> l = BL_NONE"
  by (cases l) simp_all

lemma max_level_ge: "l \<in> set ls \<Longrightarrow> l \<le> max_level ls"
  by (simp add: max_level_fold fold_max_upper)

text \<open>The derived product bump is at least every component's own change and at least major
  when a pinned component was removed. It is not bounded by the own changes: a component that
  depends on an endpoint with no active version makes it at least minor, even when nothing
  changed.\<close>

theorem derive_product_bump_lower_bounds:
  assumes "derive_product_bump own edges removed = Some bump"
  shows "(\<forall>n l. dict_get own n = Some l \<longrightarrow> l \<le> bump) \<and> (removed \<longrightarrow> bump = BL_MAJOR) \<and>
    (acyclic (set edges) \<longrightarrow>
      (\<forall>n d. (n, d) \<in> set edges \<longrightarrow> n \<in> set (keys own) \<longrightarrow> d \<notin> set (keys own) \<longrightarrow> BL_MINOR \<le> bump))"
proof -
  obtain eff where eff: "effective_levels own edges = Some eff" "set (keys eff) = set (keys own) \<union> endpoints edges"
      "\<And>n l. dict_get eff n = Some l \<Longrightarrow> base_of own n \<le> l"
    by (rule effective_levels_bounded[of own edges BL_MAJOR]) auto
  have bump: "bump = max_level (map (\<lambda>k. the (dict_get eff k)) (keys own) @ (if removed then [BL_MAJOR] else []))"
    using derive_via_effective[OF eff(1)] eff(2) assms by (simp add: Un_upper1 del: map_map)
  have key: "\<exists>l. dict_get eff n = Some l \<and> l \<le> bump" if n: "n \<in> set (keys own)" for n
  proof -
    from n eff(2) have "n \<in> set (keys eff)" by blast
    then obtain l where l: "dict_get eff n = Some l" using map_of_None_keys[of eff n] by auto
    have "l \<le> bump" unfolding bump by (rule max_level_ge) (use n l in \<open>force\<close>)
    with l show ?thesis by blast
  qed
  show ?thesis
  proof (intro conjI allI impI)
    fix n l assume own: "dict_get own n = Some l"
    then have "n \<in> set (keys own)" using map_of_None_keys[of own n] by auto
    from key[OF this] obtain e where "dict_get eff n = Some e" "e \<le> bump" by blast
    with eff(3)[of n e] own show "l \<le> bump" by (simp add: base_of_def)
  next
    assume removed
    then have "BL_MAJOR \<le> bump" unfolding bump by (intro max_level_ge) simp
    then show "bump = BL_MAJOR" by (intro order_antisym) simp_all
  next
    fix n d assume ac: "acyclic (set edges)" and e: "(n, d) \<in> set edges" "n \<in> set (keys own)" "d \<notin> set (keys own)"
    have "d \<in> set (keys eff)" using e(1) eff(2) by (force simp: endpoints_def)
    then obtain ld where ld: "dict_get eff d = Some ld" using map_of_None_keys[of eff d] by auto
    have "dict_get own d = None" using e(3) map_of_None_keys[of own d] by simp
    then have "base_of own d = BL_MAJOR" by (simp add: base_of_def)
    with eff(3)[OF ld] have major: "ld = BL_MAJOR" by (intro order_antisym) simp_all
    from key[OF e(2)] obtain l where l: "dict_get eff n = Some l" "l \<le> bump" by blast
    have "propagate ld \<le> l"
      unfolding effective_levels_recurrence[OF ac eff(1) l(1)]
      by (rule max_level_ge) (use e(1) ld deps_of_edges[of d edges n] in \<open>auto intro!: image_eqI[of _ _ d]\<close>)
    with major l(2) show "BL_MINOR \<le> bump" by (simp add: order_trans)
  qed
qed

theorem derive_product_bump_lower_bounds_witness:
  "\<exists>bump. derive_product_bump [(''a'', BL_NONE)] [(''a'', ''b'')] False = Some bump \<and> BL_MINOR \<le> bump"
proof -
  obtain bump where run: "derive_product_bump [(''a'', BL_NONE)] [(''a'', ''b'')] False = Some bump"
    using derive_total by blast
  have "acyclic (set [(''a'', ''b'')])" by (auto simp: acyclic_insert)
  with derive_product_bump_lower_bounds[OF run] run show ?thesis by auto
qed

end
