(* ===== verification/Dependencies.thy ===== *)
theory Dependencies
  imports Versions Bump_Propagation
begin

text \<open>
  \<open>app/queries/component_dependencies\<close>: adding and removing an edge of a product's
  dependency graph, reading the graph, and the impact what-if. The application-level guard
  keeps every product's graph acyclic, free of duplicates and inside the product.
\<close>

section \<open>Statements\<close>

definition select_edges :: "ident \<Rightarrow> database \<Rightarrow> edge_list" where
  "select_edges pid db =
     map (\<lambda>d. (d_from d, d_to d)) (filter (\<lambda>d. d_product_id d = pid) (dependencies db))"

definition select_edge :: "ident \<Rightarrow> ident \<Rightarrow> ident \<Rightarrow> database \<Rightarrow> dependency_row list" where
  "select_edge pid from_id to_id db =
     filter (\<lambda>d. d_product_id d = pid \<and> d_from d = from_id \<and> d_to d = to_id) (dependencies db)"

definition select_dependency_by_id :: "ident \<Rightarrow> database \<Rightarrow> dependency_row list" where
  "select_dependency_by_id i db = filter (\<lambda>d. d_id d = i) (dependencies db)"

definition delete_edge :: "ident \<Rightarrow> database \<Rightarrow> database" where
  "delete_edge i db = db\<lparr>dependencies := sql_delete (\<lambda>d. d_id d = i) (dependencies db)\<rparr>"

definition select_dependencies_of_product :: "ident \<Rightarrow> database \<Rightarrow> dependency_row list" where
  "select_dependencies_of_product pid db =
     order_by (\<lambda>d. (d_created_at d, d_id d)) (filter (\<lambda>d. d_product_id d = pid) (dependencies db))"

definition select_component_in_product :: "ident \<Rightarrow> ident \<Rightarrow> database \<Rightarrow> component_row list" where
  "select_component_in_product cid pid db =
     filter (\<lambda>c. c_id c = cid \<and> c_product_id c = pid) (components db)"

definition select_component_ids :: "ident \<Rightarrow> database \<Rightarrow> ident list" where
  "select_component_ids pid db =
     map c_id (order_by c_id (filter (\<lambda>c. c_product_id c = pid) (components db)))"

section \<open>Adding an edge\<close>

record create_dependency_request =
  cd_product_id :: ident
  cd_from :: ident
  cd_to :: ident

definition assert_component :: "ident \<Rightarrow> ident \<Rightarrow> database \<Rightarrow> error option" where
  "assert_component product_id component_id db =
     (case fetchone (select_components_by_id component_id db) of
        None \<Rightarrow> Some (NotFoundError (''Component '' @ squoted component_id @ '' does not exist.'')
                        [(''component_id'', JStr component_id)])
      | Some row \<Rightarrow>
          if c_product_id row \<noteq> product_id
          then Some (ConflictError (''Component '' @ squoted component_id
                       @ '' does not belong to product '' @ squoted product_id @ ''.'')
                     [(''component_id'', JStr component_id), (''product_id'', JStr product_id)])
          else None)"

definition edge_details :: "create_dependency_request \<Rightarrow> (string \<times> json) list" where
  "edge_details data =
     [(''from_component_id'', JStr (cd_from data)), (''to_component_id'', JStr (cd_to data))]"

text \<open>The guards of the query, in its order: the first that fails decides the error.\<close>

definition add_dependency_guard :: "create_dependency_request \<Rightarrow> database \<Rightarrow> error option" where
  "add_dependency_guard data db =
     (if fetchone (select_products_by_id (cd_product_id data) db) = None
      then Some (NotFoundError (''Product '' @ squoted (cd_product_id data) @ '' does not exist.'')
                  [(''product_id'', JStr (cd_product_id data))])
      else case assert_component (cd_product_id data) (cd_from data) db of
        Some e \<Rightarrow> Some e
      | None \<Rightarrow>
      (case assert_component (cd_product_id data) (cd_to data) db of
        Some e \<Rightarrow> Some e
      | None \<Rightarrow>
          if cd_from data = cd_to data
          then Some (ConflictError ''A component cannot depend on itself.''
                      [(''component_id'', JStr (cd_from data))])
          else if fetchone (select_edge (cd_product_id data) (cd_from data) (cd_to data) db) \<noteq> None
          then Some (ConflictError ''This dependency edge already exists.'' (edge_details data))
          else if would_create_cycle (select_edges (cd_product_id data) db) (cd_from data) (cd_to data)
          then Some (ConflictError ''This dependency edge would introduce a cycle.'' (edge_details data))
          else None))"

definition dependency_added_event :: "ident \<Rightarrow> dependency_response \<Rightarrow> domain_event" where
  "dependency_added_event product_id dependency =
     \<lparr>event_type = DEPENDENCY_ADDED, event_product_id = product_id,
      event_data = [(''dependency'', dependency_json dependency)]\<rparr>"

definition new_dependency_row :: "ident \<Rightarrow> timestamp \<Rightarrow> create_dependency_request \<Rightarrow> dependency_row" where
  "new_dependency_row edge_id now data =
     \<lparr>d_id = edge_id, d_product_id = cd_product_id data, d_from = cd_from data, d_to = cd_to data,
      d_created_at = now\<rparr>"

definition add_dependency_query ::
  "ident \<Rightarrow> timestamp \<Rightarrow> create_dependency_request \<Rightarrow> database \<Rightarrow> event_bus option \<Rightarrow>
     dependency_response outcome \<times> database \<times> event_bus option" where
  "add_dependency_query edge_id now data db bus =
     (case add_dependency_guard data db of
        Some e \<Rightarrow> (Inl e, db, bus)
      | None \<Rightarrow>
          (case insert_dependency (new_dependency_row edge_id now data) db of
             Inl e \<Rightarrow> (Inl e, db, bus)
           | Inr db1 \<Rightarrow>
               (case fetchone (select_dependency_by_id edge_id db1) of
                  None \<Rightarrow> (Inl AssertionFailed, db1, bus)
                | Some row \<Rightarrow>
                    let dependency = to_dependency_model row
                    in (Inr dependency, db1,
                        emit (dependency_added_event (cd_product_id data) dependency) bus))))"

section \<open>Removing an edge\<close>

definition dependency_removed_event :: "ident \<Rightarrow> ident \<Rightarrow> ident \<Rightarrow> ident \<Rightarrow> domain_event" where
  "dependency_removed_event edge_id product_id from_id to_id =
     \<lparr>event_type = DEPENDENCY_REMOVED, event_product_id = product_id,
      event_data = [(''dependency'', JObj
        [(''id'', JStr edge_id), (''product_id'', JStr product_id),
         (''from_component_id'', JStr from_id), (''to_component_id'', JStr to_id)])]\<rparr>"

definition remove_dependency_query ::
  "create_dependency_request \<Rightarrow> database \<Rightarrow> event_bus option \<Rightarrow> unit outcome \<times> database \<times> event_bus option"
  where
  "remove_dependency_query data db bus =
     (case fetchone (select_edge (cd_product_id data) (cd_from data) (cd_to data) db) of
        None \<Rightarrow>
          (Inl (NotFoundError ''This dependency edge does not exist.''
             ((''product_id'', JStr (cd_product_id data)) # edge_details data)), db, bus)
      | Some row \<Rightarrow>
          let edge_id = d_id row
          in (Inr (), delete_edge edge_id db,
              emit (dependency_removed_event edge_id (cd_product_id data) (cd_from data) (cd_to data)) bus))"

section \<open>Reading the graph and the impact of a change\<close>

definition graph_query :: "ident \<Rightarrow> database \<Rightarrow> graph_response" where
  "graph_query pid db =
     \<lparr>gr_product_id = pid, gr_nodes = map to_component_model (select_components_of_product pid db),
      gr_edges = map to_dependency_model (select_dependencies_of_product pid db)\<rparr>"

definition get_product_graph :: "ident \<Rightarrow> database \<Rightarrow> graph_response outcome" where
  "get_product_graph pid db =
     (case get_product_by_id_query pid db of Inl e \<Rightarrow> Inl e | Inr _ \<Rightarrow> Inr (graph_query pid db))"

definition impact_levels :: "ident \<Rightarrow> ident list \<Rightarrow> levels" where
  "impact_levels component_id component_ids =
     dict_set component_id BL_MAJOR (map (\<lambda>i. (i, BL_NONE)) component_ids)"

definition impact_query :: "ident \<Rightarrow> ident \<Rightarrow> database \<Rightarrow> impact_response outcome" where
  "impact_query pid component_id db =
     (if fetchone (select_products_by_id pid db) = None
      then Inl (NotFoundError (''Product '' @ squoted pid @ '' does not exist.'') [(''product_id'', JStr pid)])
      else if fetchone (select_component_in_product component_id pid db) = None
      then Inl (NotFoundError (''Component '' @ squoted component_id @ '' does not exist in product ''
                  @ squoted pid @ ''.'')
                [(''component_id'', JStr component_id), (''product_id'', JStr pid)])
      else
        let component_ids = select_component_ids pid db;
            own_levels = impact_levels component_id component_ids
        in (case effective_levels own_levels (select_edges pid db) of
              None \<Rightarrow> Inl KeyError
            | Some eff \<Rightarrow>
                (case those (map (dict_get eff) component_ids) of
                   None \<Rightarrow> Inl KeyError
                 | Some levels \<Rightarrow>
                     Inr \<lparr>ir_component_id = component_id,
                          ir_impacted =
                            map (\<lambda>(i, l). \<lparr>ic_component_id = i, ic_projected_change_level = bump_level_value l\<rparr>)
                              (filter (\<lambda>(i, l). i \<noteq> component_id \<and> l \<noteq> BL_NONE)
                                (zip component_ids levels))\<rparr>)))"

section \<open>The graph invariant\<close>

definition product_edges :: "ident \<Rightarrow> dependency_row list \<Rightarrow> edge_list" where
  "product_edges pid ds = map (\<lambda>d. (d_from d, d_to d)) (filter (\<lambda>d. d_product_id d = pid) ds)"

definition inside_product :: "component_row list \<Rightarrow> dependency_row \<Rightarrow> bool" where
  "inside_product cs d \<longleftrightarrow>
     (\<forall>c\<in>set cs. c_id c = d_from d \<or> c_id c = d_to d \<longrightarrow> c_product_id c = d_product_id d)"

definition graph_ok :: "dependency_row list \<Rightarrow> component_row list \<Rightarrow> bool" where
  "graph_ok ds cs \<longleftrightarrow>
     (\<forall>pid. acyclic (set (product_edges pid ds))) \<and> (\<forall>d\<in>set ds. inside_product cs d)"

lemma select_edges_product: "select_edges pid db = product_edges pid (dependencies db)"
  by (simp add: select_edges_def product_edges_def)

lemma graph_ok_acyclic: "graph_ok (dependencies db) (components db) \<Longrightarrow> acyclic (set (select_edges pid db))"
  by (simp add: graph_ok_def select_edges_product)

lemma product_edges_snoc:
  "product_edges pid (ds @ [d]) = product_edges pid ds @ (if d_product_id d = pid then [(d_from d, d_to d)] else [])"
  by (simp add: product_edges_def)

lemma product_edges_mono: "set es \<subseteq> set ds \<Longrightarrow> set (product_edges pid es) \<subseteq> set (product_edges pid ds)"
  by (auto simp: product_edges_def)

lemma assert_component_None:
  assumes "assert_component pid cid db = None"
  shows "\<exists>c\<in>set (components db). c_id c = cid \<and> c_product_id c = pid"
  using assms select_component_Some[of cid db]
  by (auto simp: assert_component_def split: option.splits if_splits)

lemma assert_component_iff:
  assumes "pk c_id (components db)"
  shows "assert_component pid cid db = None \<longleftrightarrow> (\<exists>c\<in>set (components db). c_id c = cid \<and> c_product_id c = pid)"
proof
  assume "\<exists>c\<in>set (components db). c_id c = cid \<and> c_product_id c = pid"
  then obtain c where c: "c \<in> set (components db)" "c_id c = cid" "c_product_id c = pid" by blast
  from fetchone_by_key[OF assms c(1,2)] c(3) show "assert_component pid cid db = None"
    by (simp add: assert_component_def select_components_by_id_def)
qed (rule assert_component_None)

lemma guard_None_iff:
  "add_dependency_guard data db = None \<longleftrightarrow>
     cd_product_id data \<in> p_id ` set (products db) \<and>
     assert_component (cd_product_id data) (cd_from data) db = None \<and>
     assert_component (cd_product_id data) (cd_to data) db = None \<and>
     cd_from data \<noteq> cd_to data \<and>
     select_edge (cd_product_id data) (cd_from data) (cd_to data) db = [] \<and>
     \<not> would_create_cycle (select_edges (cd_product_id data) db) (cd_from data) (cd_to data)"
  using select_product_None[of "cd_product_id data" db]
  by (auto simp: add_dependency_guard_def fetchone_None split: option.split)

lemma add_dependency_cases:
  assumes "add_dependency_query i now data db bus = (res, db', bus')"
  obtains (guarded) e where "add_dependency_guard data db = Some e" "res = Inl e" "db' = db" "bus' = bus"
  | (refused) e where "insert_dependency (new_dependency_row i now data) db = Inl e" "res = Inl e"
      "db' = db" "bus' = bus" "add_dependency_guard data db = None"
  | (added) "add_dependency_guard data db = None"
      "insert_dependency (new_dependency_row i now data) db = Inr db'"
      "db' = db\<lparr>dependencies := dependencies db @ [new_dependency_row i now data]\<rparr>"
      "i \<notin> d_id ` set (dependencies db)"
      "res = Inr (to_dependency_model (new_dependency_row i now data))"
      "bus' = emit (dependency_added_event (cd_product_id data)
                 (to_dependency_model (new_dependency_row i now data))) bus"
proof (cases "add_dependency_guard data db")
  case (Some e)
  with assms show ?thesis by (intro guarded[of e]) (auto simp: add_dependency_query_def)
next
  case None
  show ?thesis
  proof (cases "insert_dependency (new_dependency_row i now data) db")
    case (Inl e)
    with None assms show ?thesis by (intro refused[of e]) (auto simp: add_dependency_query_def)
  next
    case (Inr db1)
    have fresh: "i \<notin> d_id ` set (dependencies db)" using Inr
      by (auto simp: insert_dependency_def new_dependency_row_def split: if_splits)
    then have "filter (\<lambda>d. d_id d = i) (dependencies db) = []" by (auto simp: filter_empty_conv)
    with insert_frame(6)[OF Inr] have sel: "select_dependency_by_id i db1 = [new_dependency_row i now data]"
      by (simp add: select_dependency_by_id_def new_dependency_row_def)
    from assms None Inr sel have out: "res = Inr (to_dependency_model (new_dependency_row i now data))"
      "db' = db1" "bus' = emit (dependency_added_event (cd_product_id data)
                 (to_dependency_model (new_dependency_row i now data))) bus"
      by (auto simp: add_dependency_query_def Let_def)
    show ?thesis
      by (rule added[OF None Inr[folded out(2)] _ fresh out(1,3)])
         (simp add: out(2) insert_frame(6)[OF Inr])
  qed
qed

lemma graph_ok_add:
  assumes ok: "graph_ok ds cs" and pk: "pk c_id cs"
    and ends: "\<exists>c\<in>set cs. c_id c = d_from d \<and> c_product_id c = d_product_id d"
      "\<exists>c\<in>set cs. c_id c = d_to d \<and> c_product_id c = d_product_id d"
    and ac: "acyclic (set (product_edges (d_product_id d) ds @ [(d_from d, d_to d)]))"
  shows "graph_ok (ds @ [d]) cs"
proof -
  have "acyclic (set (product_edges pid (ds @ [d])))" for pid
  proof (cases "pid = d_product_id d")
    case True
    with ac show ?thesis by (simp only: product_edges_snoc if_True refl)
  next
    case False
    with ok show ?thesis by (simp add: product_edges_snoc graph_ok_def)
  qed
  moreover have "inside_product cs d"
    unfolding inside_product_def
  proof (intro ballI impI)
    fix c assume "c \<in> set cs" "c_id c = d_from d \<or> c_id c = d_to d"
    with ends pkD[OF pk] show "c_product_id c = d_product_id d" by metis
  qed
  ultimately show ?thesis using ok by (simp add: graph_ok_def)
qed

lemma graph_ok_subset:
  assumes "graph_ok ds cs" "set es \<subseteq> set ds"
  shows "graph_ok es cs"
  using assms(1) acyclic_subset[OF _ product_edges_mono[OF assms(2)]] assms(2)
  unfolding graph_ok_def by blast

lemma graph_ok_new_component:
  assumes "graph_ok ds cs" "fk d_from ds c_id cs" "fk d_to ds c_id cs" "c_id c \<notin> c_id ` set cs"
  shows "graph_ok ds (cs @ [c])"
proof -
  have "inside_product (cs @ [c]) d" if "d \<in> set ds" for d
  proof -
    have "d_from d \<in> c_id ` set cs" "d_to d \<in> c_id ` set cs"
      using assms(2,3) imageI[OF that, of d_from] imageI[OF that, of d_to] by (auto simp only: fk_def)
    then have "c_id c \<noteq> d_from d" "c_id c \<noteq> d_to d" using assms(4) by metis+
    with assms(1) that show ?thesis by (simp add: graph_ok_def inside_product_def)
  qed
  with assms(1) show ?thesis by (simp add: graph_ok_def)
qed

lemma add_dependency_keeps:
  assumes "add_dependency_query i now data db bus = (res, db', bus')"
    and "schema_ok db" "graph_ok (dependencies db) (components db)"
  shows "schema_ok db' \<and> graph_ok (dependencies db') (components db')"
  using assms(1)
proof (cases rule: add_dependency_cases)
  case added
  let ?d = "new_dependency_row i now data"
  have d: "d_from ?d = cd_from data" "d_to ?d = cd_to data" "d_product_id ?d = cd_product_id data"
    by (simp_all add: new_dependency_row_def)
  note g = added(1)[unfolded guard_None_iff]
  have "acyclic (set (select_edges (cd_product_id data) db @ [(cd_from data, cd_to data)]))"
    by (rule cycle_guard.guarded_insert[OF graph_ok_acyclic[OF assms(3)]]) (use g in blast)
  then have ac: "acyclic (set (product_edges (d_product_id ?d) (dependencies db) @ [(d_from ?d, d_to ?d)]))"
    by (simp only: select_edges_product d)
  have "graph_ok (dependencies db @ [?d]) (components db)"
    by (rule graph_ok_add[OF assms(3) _ _ _ ac])
       (use g assert_component_None assms(2) in \<open>auto simp: d schema_ok_def\<close>)
  with schema_ok_insert(6)[OF assms(2) added(2)] added(3) show ?thesis by simp
qed (use assms in simp_all)

lemma schema_ok_delete_edge:
  "schema_ok db \<Longrightarrow> schema_ok (delete_edge i db)"
  by (simp add: schema_ok_def delete_edge_def pk_delete fk_delete)

lemma remove_dependency_cases:
  assumes "remove_dependency_query data db bus = (res, db', bus')"
  obtains (absent) e where "select_edge (cd_product_id data) (cd_from data) (cd_to data) db = []"
      "res = Inl e" "db' = db" "bus' = bus"
  | (removed) d where "d \<in> set (dependencies db)" "d_key d = (cd_product_id data, cd_from data, cd_to data)"
      "res = Inr ()" "db' = delete_edge (d_id d) db"
      "bus' = emit (dependency_removed_event (d_id d) (cd_product_id data) (cd_from data) (cd_to data)) bus"
proof (cases "fetchone (select_edge (cd_product_id data) (cd_from data) (cd_to data) db)")
  case None
  with assms show ?thesis by (intro absent) (auto simp: remove_dependency_query_def fetchone_None)
next
  case (Some d)
  then have "d \<in> set (dependencies db)" "d_key d = (cd_product_id data, cd_from data, cd_to data)"
    using fetchone_Some_in[OF Some] by (auto simp: select_edge_def d_key_def)
  with Some assms show ?thesis by (intro removed[of d]) (auto simp: remove_dependency_query_def Let_def)
qed

lemma remove_dependency_keeps:
  assumes "remove_dependency_query data db bus = (res, db', bus')"
    and "schema_ok db" "graph_ok (dependencies db) (components db)"
  shows "schema_ok db' \<and> graph_ok (dependencies db') (components db')"
  using assms(1)
proof (cases rule: remove_dependency_cases)
  case (removed d)
  have "graph_ok (sql_delete (\<lambda>e. d_id e = d_id d) (dependencies db)) (components db)"
    by (rule graph_ok_subset[OF assms(3)]) (auto simp: sql_delete_def)
  with schema_ok_delete_edge[OF assms(2)] show ?thesis by (simp add: removed(4) delete_edge_def)
qed (use assms in simp)

section \<open>What the impact projection computes\<close>

definition impact_spec :: "edge_list \<Rightarrow> ident \<Rightarrow> ident \<Rightarrow> bump_level" where
  "impact_spec edges t n =
     (if n = t then BL_MAJOR
      else if (n, t) \<in> set edges then BL_MINOR
      else if is_reachable edges n t then BL_PATCH
      else BL_NONE)"

lemma propagate_le_minor: "propagate l \<le> BL_MINOR"
  by (cases l) (simp_all add: bump_order)

lemma propagate_le_patch: "l \<noteq> BL_MAJOR \<Longrightarrow> propagate l \<le> BL_PATCH"
  by (cases l) (simp_all add: bump_order)

lemma impact_spec_cases:
  "impact_spec edges t t = BL_MAJOR"
  "n \<noteq> t \<Longrightarrow> impact_spec edges t n \<noteq> BL_MAJOR"
  "n \<noteq> t \<Longrightarrow> \<not> is_reachable edges n t \<Longrightarrow> impact_spec edges t n = BL_NONE"
  "n \<noteq> t \<Longrightarrow> is_reachable edges n t \<Longrightarrow> propagate (impact_spec edges t n) = BL_PATCH"
  by (auto simp: impact_spec_def is_reachable_iff)

lemma impact_step:
  assumes "base = (if n = t then BL_MAJOR else BL_NONE)"
    and "\<And>d. d \<in> set ds \<longleftrightarrow> (n, d) \<in> set edges"
  shows "max_level (base # map (\<lambda>d. propagate (impact_spec edges t d)) ds) = impact_spec edges t n"
proof -
  consider "n = t" | "n \<noteq> t" "(n, t) \<in> set edges"
    | "n \<noteq> t" "(n, t) \<notin> set edges" "is_reachable edges n t"
    | "n \<noteq> t" "\<not> is_reachable edges n t" by blast
  then show ?thesis
  proof cases
    case 1
    then show ?thesis by (intro policy.mx_eqI) (simp_all add: assms(1) impact_spec_cases)
  next
    case 2
    have "impact_spec edges t n = propagate (impact_spec edges t t)" using 2 by (simp add: impact_spec_def)
    moreover have "t \<in> set ds" using 2 assms(2) by blast
    moreover have "impact_spec edges t n = BL_MINOR" using 2 by (simp add: impact_spec_def)
    ultimately show ?thesis
      using 2(1) propagate_le_minor by (intro policy.mx_eqI) (auto simp: assms(1))
  next
    case 3
    then obtain d where d: "(n, d) \<in> set edges" "is_reachable edges d t"
      unfolding is_reachable_iff by (meson converse_rtranclE)
    then have "d \<noteq> t" using 3 by blast
    have "impact_spec edges t n = propagate (impact_spec edges t d)"
      using 3 impact_spec_cases(4)[OF \<open>d \<noteq> t\<close> d(2)] by (simp add: impact_spec_def)
    moreover have "impact_spec edges t n = BL_PATCH" using 3 by (simp add: impact_spec_def)
    moreover have "propagate (impact_spec edges t d') \<le> BL_PATCH" if "d' \<in> set ds" for d'
      using that assms(2) 3 by (intro propagate_le_patch impact_spec_cases(2)) auto
    ultimately show ?thesis
      using 3(1) d(1) assms(2) by (intro policy.mx_eqI) (auto simp: assms(1))
  next
    case 4
    have "impact_spec edges t d = BL_NONE" if "d \<in> set ds" for d
      using 4 that assms(2) unfolding is_reachable_iff
      by (intro impact_spec_cases(3)) (auto simp: is_reachable_iff intro: converse_rtrancl_into_rtrancl)
    with 4 show ?thesis
      by (intro policy.mx_eqI) (auto simp: assms(1) impact_spec_cases(3))
  qed
qed

lemma impact_effective:
  assumes "acyclic (set edges)" and own: "\<And>n. n \<in> set (keys own) \<Longrightarrow> dict_get own n = Some (if n = t then BL_MAJOR else BL_NONE)"
    and ends: "endpoints edges \<subseteq> set (keys own)"
  obtains eff where "effective_levels own edges = Some eff" "set (keys eff) = set (keys own)"
    "\<And>n. n \<in> set (keys own) \<Longrightarrow> dict_get eff n = Some (impact_spec edges t n)"
proof (rule effective_levels_bounded[of own edges BL_MAJOR])
  fix eff assume e: "effective_levels own edges = Some eff"
    and k: "set (keys eff) = set (keys own) \<union> endpoints edges"
  from k ends have keys: "set (keys eff) = set (keys own)" by blast
  have "n \<in> set (keys own) \<longrightarrow> dict_get eff n = Some (impact_spec edges t n)" for n
  proof (induction n rule: wf_induct_rule[OF finite_acyclic_wf_converse[OF _ assms(1)]])
    case 1
    show ?case by simp
  next
    case (2 n)
    show ?case
    proof
      assume n: "n \<in> set (keys own)"
      with keys obtain l where l: "dict_get eff n = Some l"
        by (metis map_of_None_keys not_Some_eq)
      have d: "the (dict_get eff d) = impact_spec edges t d" if "d \<in> set (deps_of edges n)" for d
        using 2[of d] that ends deps_of_endpoints[of edges n] by (auto simp: deps_of_edges)
      have "l = max_level (base_of own n # map (\<lambda>d. propagate (the (dict_get eff d))) (deps_of edges n))"
        by (rule effective_levels_recurrence[OF assms(1) e l])
      also have "map (\<lambda>d. propagate (the (dict_get eff d))) (deps_of edges n) =
          map (\<lambda>d. propagate (impact_spec edges t d)) (deps_of edges n)" using d by simp
      also have "max_level (base_of own n # \<dots>) = impact_spec edges t n"
        by (rule impact_step) (simp_all add: base_of_def own[OF n] deps_of_edges)
      finally show "dict_get eff n = Some (impact_spec edges t n)" using l by simp
    qed
  qed
  then show thesis using that[OF e keys] by blast
qed simp

lemma set_component_ids:
  "set (select_component_ids pid db) = {c_id c | c. c \<in> set (components db) \<and> c_product_id c = pid}"
  by (auto simp: select_component_ids_def)

lemma product_endpoints:
  assumes "schema_ok db" "graph_ok (dependencies db) (components db)"
  shows "endpoints (select_edges pid db) \<subseteq> set (select_component_ids pid db)"
proof -
  have "d_from d \<in> set (select_component_ids pid db) \<and> d_to d \<in> set (select_component_ids pid db)"
    if d: "d \<in> set (dependencies db)" "d_product_id d = pid" for d
  proof -
    have "fk d_from (dependencies db) c_id (components db)" "fk d_to (dependencies db) c_id (components db)"
      using assms(1) by (simp_all add: schema_ok_def)
    from fkD[OF this(1) d(1)] fkD[OF this(2) d(1)] obtain c c' where
      "c \<in> set (components db)" "c_id c = d_from d" "c' \<in> set (components db)" "c_id c' = d_to d" by blast
    moreover have "inside_product (components db) d" using assms(2) d(1) by (simp add: graph_ok_def)
    ultimately show ?thesis unfolding set_component_ids inside_product_def d(2)[symmetric] by force
  qed
  then show ?thesis by (auto simp: endpoints_def select_edges_def)
qed

lemma impact_levels_get:
  "n \<in> set (keys (impact_levels t ids)) \<Longrightarrow> dict_get (impact_levels t ids) n = Some (if n = t then BL_MAJOR else BL_NONE)"
  "set (keys (impact_levels t ids)) = insert t (set ids)"
proof -
  show k: "set (keys (impact_levels t ids)) = insert t (set ids)"
    unfolding impact_levels_def keys_dict_set by simp
  show "dict_get (impact_levels t ids) n = Some (if n = t then BL_MAJOR else BL_NONE)"
    if "n \<in> set (keys (impact_levels t ids))"
    using that[unfolded k] unfolding impact_levels_def map_of_dict_set by (auto simp: map_of_keyed)
qed

lemma impact_query_result:
  assumes "schema_ok db" "graph_ok (dependencies db) (components db)"
    and "pid \<in> p_id ` set (products db)" "\<exists>c\<in>set (components db). c_id c = t \<and> c_product_id c = pid"
  shows "impact_query pid t db =
    Inr \<lparr>ir_component_id = t,
         ir_impacted = map (\<lambda>i. \<lparr>ic_component_id = i, ic_projected_change_level =
                                bump_level_value (impact_spec (select_edges pid db) t i)\<rparr>)
           (filter (\<lambda>i. i \<noteq> t \<and> is_reachable (select_edges pid db) i t) (select_component_ids pid db))\<rparr>"
proof -
  let ?ids = "select_component_ids pid db" and ?E = "select_edges pid db"
  have t: "t \<in> set ?ids" using assms(4) by (auto simp: set_component_ids)
  have own: "set (keys (impact_levels t ?ids)) = set ?ids"
    unfolding impact_levels_get(2) using t by blast
  have ends: "endpoints ?E \<subseteq> set (keys (impact_levels t ?ids))"
    unfolding own by (rule product_endpoints[OF assms(1,2)])
  obtain eff where e: "effective_levels (impact_levels t ?ids) ?E = Some eff"
    and get: "\<And>n. n \<in> set (keys (impact_levels t ?ids)) \<Longrightarrow> dict_get eff n = Some (impact_spec ?E t n)"
    using impact_effective[OF graph_ok_acyclic[OF assms(2)] impact_levels_get(1) ends] by blast
  have th: "those (map (dict_get eff) ?ids) = Some (map (impact_spec ?E t) ?ids)"
    by (rule those_map_Some) (use get[unfolded own] in blast)
  have f: "(i \<noteq> t \<and> impact_spec ?E t i \<noteq> BL_NONE) \<longleftrightarrow> (i \<noteq> t \<and> is_reachable ?E i t)" for i
    by (auto simp: impact_spec_def is_reachable_iff)
  have z: "filter (\<lambda>(i, l). i \<noteq> t \<and> l \<noteq> BL_NONE) (zip is (map (impact_spec ?E t) is)) =
      map (\<lambda>i. (i, impact_spec ?E t i)) (filter (\<lambda>i. i \<noteq> t \<and> is_reachable ?E i t) is)" for "is"
    using f by (induction "is") auto
  have "fetchone (select_products_by_id pid db) \<noteq> None" using assms(3) select_product_None by blast
  moreover have "fetchone (select_component_in_product t pid db) \<noteq> None"
    using assms(4) by (auto simp: select_component_in_product_def fetchone_filter_None)
  ultimately show ?thesis by (simp add: impact_query_def Let_def e th z o_def)
qed

section \<open>Properties\<close>

lemma graph_ok_sample: "graph_ok (dependencies sample_database) (components sample_database)"
  by (simp add: graph_ok_def product_edges_def inside_product_def sample_defs)

definition edge_request :: "ident \<Rightarrow> ident \<Rightarrow> create_dependency_request" where
  "edge_request f t = \<lparr>cd_product_id = ''p'', cd_from = f, cd_to = t\<rparr>"

lemma select_edge_Nil:
  "select_edge pid f t db = [] \<longleftrightarrow> (pid, f, t) \<notin> d_key ` set (dependencies db)"
  by (auto simp: select_edge_def d_key_def filter_empty_conv image_iff)

text \<open>C19: An edge is added exactly when it may be: the product exists, both endpoints are
  components of it, the edge is new, its identifier is fresh and the product's graph stays
  acyclic (a self-edge never does). Otherwise the request is refused and neither the store nor
  the bus changes; in both cases the graph invariant holds afterwards.\<close>

theorem add_dependency_exact:
  assumes run: "add_dependency_query i now data db bus = (res, db', bus')"
    and ok: "schema_ok db" "graph_ok (dependencies db) (components db)"
  shows "(\<not> isl res \<longleftrightarrow> cd_product_id data \<in> p_id ` set (products db) \<and>
      (\<exists>c\<in>set (components db). c_id c = cd_from data \<and> c_product_id c = cd_product_id data) \<and>
      (\<exists>c\<in>set (components db). c_id c = cd_to data \<and> c_product_id c = cd_product_id data) \<and>
      (cd_product_id data, cd_from data, cd_to data) \<notin> d_key ` set (dependencies db) \<and>
      acyclic (insert (cd_from data, cd_to data) (set (select_edges (cd_product_id data) db))) \<and>
      i \<notin> d_id ` set (dependencies db)) \<and>
    (isl res \<longrightarrow> db' = db \<and> bus' = bus) \<and>
    (\<not> isl res \<longrightarrow> db' = db\<lparr>dependencies := dependencies db @ [new_dependency_row i now data]\<rparr>) \<and>
    schema_ok db' \<and> graph_ok (dependencies db') (components db')"
proof -
  let ?row = "new_dependency_row i now data"
  have pk: "pk c_id (components db)" using ok(1) by (simp add: schema_ok_def)
  have ac: "acyclic (set (select_edges (cd_product_id data) db))" by (rule graph_ok_acyclic[OF ok(2)])
  have self: "acyclic (insert (f, t) r) \<Longrightarrow> f \<noteq> t" for f t :: ident and r by (auto simp: acyclic_def)
  have guard: "add_dependency_guard data db = None \<longleftrightarrow> cd_product_id data \<in> p_id ` set (products db) \<and>
      (\<exists>c\<in>set (components db). c_id c = cd_from data \<and> c_product_id c = cd_product_id data) \<and>
      (\<exists>c\<in>set (components db). c_id c = cd_to data \<and> c_product_id c = cd_product_id data) \<and>
      (cd_product_id data, cd_from data, cd_to data) \<notin> d_key ` set (dependencies db) \<and>
      acyclic (insert (cd_from data, cd_to data) (set (select_edges (cd_product_id data) db)))"
    unfolding guard_None_iff assert_component_iff[OF pk] select_edge_Nil would_create_cycle_exact[OF ac]
    using self by blast
  note keeps = add_dependency_keeps[OF run ok]
  have row: "d_id ?row = i" "d_product_id ?row = cd_product_id data" "d_from ?row = cd_from data" "d_to ?row = cd_to data"
    "d_key ?row = (cd_product_id data, cd_from data, cd_to data)"
    by (simp_all add: new_dependency_row_def d_key_def)
  from run show ?thesis
  proof (cases rule: add_dependency_cases)
    case (guarded e)
    then have "add_dependency_guard data db \<noteq> None" by simp
    with guard guarded keeps show ?thesis by (simp del: acyclic_insert) blast
  next
    case (refused e)
    have "i \<in> d_id ` set (dependencies db)"
    proof (rule ccontr)
      assume "i \<notin> d_id ` set (dependencies db)"
      moreover from guard refused(5) have "cd_product_id data \<in> p_id ` set (products db)"
          "cd_from data \<in> c_id ` set (components db)" "cd_to data \<in> c_id ` set (components db)"
          "(cd_product_id data, cd_from data, cd_to data) \<notin> d_key ` set (dependencies db)"
        by (auto simp del: acyclic_insert intro: rev_image_eqI)
      ultimately have "insert_dependency ?row db = Inr (db\<lparr>dependencies := dependencies db @ [?row]\<rparr>)"
        unfolding insert_dependency_def row by simp
      with refused(1) show False by simp
    qed
    with refused keeps show ?thesis by simp
  next
    case added
    with guard keeps show ?thesis by simp
  qed
qed

theorem add_dependency_exact_witness:
  "\<exists>res. fst (add_dependency_query ''d2'' 0 (edge_request ''b'' ''a'') sample_database None) = res \<and> isl res"
proof -
  obtain res db' bus' where run: "add_dependency_query ''d2'' 0 (edge_request ''b'' ''a'') sample_database None = (res, db', bus')"
    by (cases "add_dependency_query ''d2'' 0 (edge_request ''b'' ''a'') sample_database None")
  have "\<not> acyclic {(''b'' :: ident, ''a''), (''a'', ''b'')}"
    using trancl.trancl_into_trancl[OF r_into_trancl[of "''b''" "''a''"], of "{(''b'', ''a''), (''a'', ''b'')}" "''b''"]
    by (auto simp: acyclic_def)
  with add_dependency_exact[OF run schema_ok_sample graph_ok_sample] have "isl res"
    by (simp add: edge_request_def select_edges_def sample_defs)
  with run show ?thesis by simp
qed

text \<open>Removing an edge undoes adding it: after a successful addition the edge can be removed by
  its endpoints, and the dependency table is then exactly what it was before.\<close>

theorem add_remove_roundtrip:
  assumes run: "add_dependency_query i now data db bus = (Inr dep, db', bus')"
    and ok: "schema_ok db"
  shows "\<exists>bus2. remove_dependency_query data db' bus' = (Inr (), db, bus2)"
  using run
proof (cases rule: add_dependency_cases)
  case added
  let ?row = "new_dependency_row i now data"
  have none: "select_edge (cd_product_id data) (cd_from data) (cd_to data) db = []"
    using added(1) by (simp add: guard_None_iff)
  then have sel: "select_edge (cd_product_id data) (cd_from data) (cd_to data) db' = [?row]"
    by (simp add: select_edge_def added(3) new_dependency_row_def)
  have "filter (\<lambda>d. d_id d \<noteq> i) (dependencies db) = dependencies db"
    using added(4) by (auto simp: filter_id_conv)
  then have "delete_edge i db' = db"
    by (simp add: delete_edge_def sql_delete_def added(3) new_dependency_row_def)
  then show ?thesis by (simp add: remove_dependency_query_def sel Let_def new_dependency_row_def)
qed simp_all

theorem add_remove_roundtrip_witness:
  "\<exists>dep db' bus2. add_dependency_query ''d2'' 0 (edge_request ''b'' ''a'') (sample_database\<lparr>dependencies := []\<rparr>) None
     = (Inr dep, db', None) \<and>
     remove_dependency_query (edge_request ''b'' ''a'') db' None = (Inr (), sample_database\<lparr>dependencies := []\<rparr>, bus2)"
proof -
  let ?db = "sample_database\<lparr>dependencies := []\<rparr>"
  have ok: "schema_ok ?db" using schema_ok_sample by (simp add: schema_ok_def)
  have "\<not> would_create_cycle [] ''b'' ''a''"
    by (subst would_create_cycle_exact) (simp_all add: acyclic_insert)
  then obtain dep db' where run: "add_dependency_query ''d2'' 0 (edge_request ''b'' ''a'') ?db None = (Inr dep, db', None)"
    by (simp add: add_dependency_query_def add_dependency_guard_def edge_request_def select_products_by_id_def
        assert_component_def select_components_by_id_def select_edge_def select_edges_def sample_defs
        insert_dependency_def new_dependency_row_def select_dependency_by_id_def emit_def)
  from add_remove_roundtrip[OF run ok] run show ?thesis by blast
qed

text \<open>C20: The impact projection is exact. For an existing component of an existing product it lists
  precisely the other components of the product that depend on it, directly or through others,
  each once; a direct dependent is projected as minor and an indirect one as patch.\<close>

theorem impact_query_exact:
  assumes "schema_ok db" "graph_ok (dependencies db) (components db)"
    and "pid \<in> p_id ` set (products db)" and "\<exists>c\<in>set (components db). c_id c = t \<and> c_product_id c = pid"
  shows "\<exists>impacted. impact_query pid t db = Inr \<lparr>ir_component_id = t, ir_impacted = impacted\<rparr> \<and>
    set (map ic_component_id impacted) = {i. (i, t) \<in> (set (select_edges pid db))\<^sup>+} \<and>
    distinct (map ic_component_id impacted) \<and>
    (\<forall>x\<in>set impacted. ic_projected_change_level x =
       (if (ic_component_id x, t) \<in> set (select_edges pid db) then ''minor'' else ''patch''))"
proof -
  let ?E = "set (select_edges pid db)"
  let ?ids = "filter (\<lambda>i. i \<noteq> t \<and> is_reachable (select_edges pid db) i t) (select_component_ids pid db)"
  let ?imp = "map (\<lambda>i. \<lparr>ic_component_id = i, ic_projected_change_level =
      bump_level_value (impact_spec (select_edges pid db) t i)\<rparr>) ?ids"
  have ac: "acyclic ?E" by (rule graph_ok_acyclic[OF assms(2)])
  have "set ?ids = {i. (i, t) \<in> ?E\<^sup>+}"
  proof (intro equalityI subsetI)
    fix i assume "i \<in> set ?ids"
    then show "i \<in> {i. (i, t) \<in> ?E\<^sup>+}" by (auto simp: is_reachable_iff rtrancl_eq_or_trancl)
  next
    fix i assume i: "i \<in> {i. (i, t) \<in> ?E\<^sup>+}"
    then have "i \<noteq> t" using ac by (auto simp: acyclic_def)
    moreover from i obtain j where "(i, j) \<in> ?E" by (auto dest: tranclD)
    then have "i \<in> set (select_component_ids pid db)"
      using product_endpoints[OF assms(1,2), of pid] by (force simp: endpoints_def)
    ultimately show "i \<in> set ?ids" using i by (simp add: is_reachable_iff trancl_into_rtrancl)
  qed
  moreover have "distinct ?ids"
  proof -
    have "distinct (map c_id (components db))" using assms(1) schema_ok_keys by blast
    then have "distinct (select_component_ids pid db)"
      by (auto simp: select_component_ids_def order_by_def distinct_map intro: inj_on_subset)
    then show ?thesis by simp
  qed
  moreover have "ic_projected_change_level x = (if (ic_component_id x, t) \<in> ?E then ''minor'' else ''patch'')"
    if "x \<in> set ?imp" for x
    using that by (auto simp: impact_spec_def)
  moreover have "map ic_component_id ?imp = ?ids" by (simp add: o_def)
  ultimately show ?thesis
    by (intro exI[of _ ?imp] conjI) (simp_all only: impact_query_result[OF assms] simp_thms set_map, blast)
qed

theorem impact_query_exact_witness:
  "\<exists>impacted. impact_query ''p'' ''b'' sample_database = Inr \<lparr>ir_component_id = ''b'', ir_impacted = impacted\<rparr> \<and>
     ''a'' \<in> set (map ic_component_id impacted)"
proof -
  have "(''a'', ''b'') \<in> (set (select_edges ''p'' sample_database))\<^sup>+"
    by (rule r_into_trancl) (simp add: select_edges_def sample_defs)
  moreover have "''p'' \<in> p_id ` set (products sample_database)"
    "\<exists>c\<in>set (components sample_database). c_id c = ''b'' \<and> c_product_id c = ''p''" by (simp_all add: sample_defs)
  ultimately show ?thesis
    using impact_query_exact[OF schema_ok_sample graph_ok_sample, of "''p''" "''b''"] by blast
qed

end
