(* ===== verification/Releases.thy ===== *)
theory Releases
  imports Dependencies
begin

text \<open>
  \<open>app/queries/releases\<close> and the cut route of \<open>app/routers/releases.py\<close>: freezing a product's
  active versions into a release, deriving its version from the bump policy, replaying an
  idempotent cut, and loading a release with its pinned manifest.
\<close>

section \<open>Statements\<close>

record active_record =
  ar_component_id :: ident
  ar_name :: string
  ar_version_id :: ident
  ar_major :: int
  ar_minor :: int
  ar_patch :: int
  ar_prerelease :: "string option"

definition active_record_of :: "component_row \<Rightarrow> version_row \<Rightarrow> active_record" where
  "active_record_of c v =
     \<lparr>ar_component_id = c_id c, ar_name = c_name c, ar_version_id = v_id v, ar_major = v_major v,
      ar_minor = v_minor v, ar_patch = v_patch v, ar_prerelease = v_prerelease v\<rparr>"

definition select_active_components :: "ident \<Rightarrow> database \<Rightarrow> active_record list" where
  "select_active_components pid db =
     order_by ar_component_id
       (concat (map (\<lambda>c. map (active_record_of c)
                      (filter (\<lambda>v. v_component_id v = c_id c \<and> v_status v = ACTIVE) (versions db)))
          (filter (\<lambda>c. c_product_id c = pid) (components db))))"

definition select_release_by_idempotency :: "ident \<Rightarrow> string \<Rightarrow> database \<Rightarrow> release_row list" where
  "select_release_by_idempotency pid key db =
     take 1 (filter (\<lambda>r. r_product_id r = pid \<and> r_idempotency_key r = Some key) (releases db))"

definition select_latest_release :: "ident \<Rightarrow> database \<Rightarrow> release_row list" where
  "select_latest_release pid db =
     take 1 (order_by_desc (\<lambda>r. (r_created_at r, r_id r)) (filter (\<lambda>r. r_product_id r = pid) (releases db)))"

definition select_prior_manifest :: "ident \<Rightarrow> database \<Rightarrow> (ident \<times> version_tuple) list" where
  "select_prior_manifest release_id db =
     concat (map (\<lambda>rc. map (\<lambda>v. (rc_component_id rc, v_major v, v_minor v, v_patch v, v_prerelease v))
                        (filter (\<lambda>v. v_id v = rc_version_id rc) (versions db)))
       (filter (\<lambda>rc. rc_release_id rc = release_id) (release_components db)))"

definition select_release_by_id :: "ident \<Rightarrow> database \<Rightarrow> release_row list" where
  "select_release_by_id i db = filter (\<lambda>r. r_id r = i) (releases db)"

text \<open>The pinned rows of a release joined with their component and version.\<close>

type_synonym manifest_row = "release_component_row \<times> component_row \<times> version_row"

definition join_manifest :: "release_component_row list \<Rightarrow> database \<Rightarrow> manifest_row list" where
  "join_manifest rcs db =
     concat (map (\<lambda>rc. concat (map (\<lambda>c. map (\<lambda>v. (rc, c, v))
                          (filter (\<lambda>v. v_id v = rc_version_id rc) (versions db)))
                 (filter (\<lambda>c. c_id c = rc_component_id rc) (components db)))) rcs)"

definition select_release_manifest :: "ident \<Rightarrow> database \<Rightarrow> manifest_row list" where
  "select_release_manifest release_id db =
     order_by (\<lambda>(rc, c, v). c_id c)
       (join_manifest (filter (\<lambda>rc. rc_release_id rc = release_id) (release_components db)) db)"

section \<open>Loading a release\<close>

definition to_release_component :: "manifest_row \<Rightarrow> release_component_response" where
  "to_release_component row =
     (case row of (rc, c, v) \<Rightarrow>
        \<lparr>rcr_component_id = rc_component_id rc, rcr_name = c_name c, rcr_version_id = rc_version_id rc,
         rcr_version = format_version (v_major v) (v_minor v) (v_patch v) (v_prerelease v),
         rcr_change_level = rc_change_level rc\<rparr>)"

definition to_release_components :: "manifest_row list \<Rightarrow> release_component_response list" where
  "to_release_components rows = map to_release_component rows"

definition to_release_response :: "release_row \<Rightarrow> release_component_response list \<Rightarrow> release_response" where
  "to_release_response r cs =
     \<lparr>rr_id = r_id r, rr_product_id = r_product_id r, rr_product_version = r_product_version r,
      rr_label = r_label r, rr_notes = r_notes r, rr_created_at = isoformat (r_created_at r),
      rr_bump_level = r_bump_level r, rr_bump_rationale = r_bump_rationale r, rr_components = cs\<rparr>"

definition load_release :: "ident \<Rightarrow> database \<Rightarrow> release_response outcome" where
  "load_release release_id db =
     (let cs = to_release_components (select_release_manifest release_id db)
      in case select_release_by_id release_id db of
           [] \<Rightarrow> Inl IndexError
         | row # _ \<Rightarrow> Inr (to_release_response row cs))"

section \<open>Deriving the bump\<close>

text \<open>A dictionary comprehension over rows: a repeated key takes the last value.\<close>

fun dict_of_rows :: "('k \<times> 'v) list \<Rightarrow> ('k, 'v) dict \<Rightarrow> ('k, 'v) dict" where
  "dict_of_rows [] d = d"
| "dict_of_rows ((k, v) # rows) d = dict_of_rows rows (dict_set k v d)"

definition prior_manifest :: "ident option \<Rightarrow> database \<Rightarrow> (ident, version_tuple) dict" where
  "prior_manifest latest db =
     (case latest of None \<Rightarrow> [] | Some release_id \<Rightarrow> dict_of_rows (select_prior_manifest release_id db) [])"

definition record_tuple :: "active_record \<Rightarrow> version_tuple" where
  "record_tuple r = (ar_major r, ar_minor r, ar_patch r, ar_prerelease r)"

definition own_levels_of :: "(ident, version_tuple) dict \<Rightarrow> active_record list \<Rightarrow> levels" where
  "own_levels_of prior records =
     dict_of_rows
       (map (\<lambda>r. (ar_component_id r, classify_change (dict_get prior (ar_component_id r)) (record_tuple r)))
         records) []"

definition removed_any_of :: "(ident, version_tuple) dict \<Rightarrow> active_record list \<Rightarrow> bool" where
  "removed_any_of prior records = list_ex (\<lambda>i. i \<notin> set (map ar_component_id records)) (keys prior)"

definition rationale_json :: "bump_level \<Rightarrow> bool \<Rightarrow> levels \<Rightarrow> (ident \<times> bump_level) list \<Rightarrow> json" where
  "rationale_json bump removed own_levels effective_of =
     JObj [(''policy'', JStr (bump_policy_value POLICY_DEFAULT)),
           (''product_bump'', JStr (bump_level_value bump)),
           (''removed_any'', JBool removed),
           (''components'', JObj (map (\<lambda>((i, own), (_, eff)).
              (i, JObj [(''own'', JStr (bump_level_value own)), (''effective'', JStr (bump_level_value eff))]))
              (zip own_levels effective_of)))]"

definition derive ::
  "ident \<Rightarrow> string \<Rightarrow> active_record list \<Rightarrow> ident option \<Rightarrow> database \<Rightarrow>
     (bump_level \<times> string option \<times> (ident, string) dict) outcome" where
  "derive pid bump_policy records latest db =
     (if bump_policy \<noteq> bump_policy_value POLICY_DEFAULT then Inr (BL_MINOR, None, [])
      else
        let prior = prior_manifest latest db;
            own_levels = own_levels_of prior records;
            removed = removed_any_of prior records;
            edges = select_edges pid db
        in (case derive_product_bump own_levels edges removed of
              None \<Rightarrow> Inl KeyError
            | Some bump \<Rightarrow>
                (case effective_levels own_levels edges of
                   None \<Rightarrow> Inl KeyError
                 | Some eff \<Rightarrow>
                     (case those (map (\<lambda>i. map_option (Pair i) (dict_get eff i)) (keys own_levels)) of
                        None \<Rightarrow> Inl KeyError
                      | Some effs \<Rightarrow>
                          Inr (bump, Some (dumps_sorted (rationale_json bump removed own_levels effs)),
                               map (\<lambda>(i, l). (i, bump_level_value l)) own_levels)))))"

section \<open>Cutting\<close>

record cut_release_request =
  cut_product_id :: ident
  cut_label :: "string option"
  cut_notes :: "string option"
  cut_idempotency_key :: "string option"

record cut_release_result =
  crr_release :: release_response
  crr_created :: bool

fun insert_manifest ::
  "ident \<Rightarrow> (ident, string) dict \<Rightarrow> active_record list \<Rightarrow> database \<Rightarrow> error option \<times> database" where
  "insert_manifest release_id change [] db = (None, db)"
| "insert_manifest release_id change (r # rs) db =
     (case insert_release_component
             \<lparr>rc_release_id = release_id, rc_component_id = ar_component_id r,
              rc_version_id = ar_version_id r, rc_change_level = dict_get change (ar_component_id r)\<rparr> db of
        Inl e \<Rightarrow> (Some e, db)
      | Inr db' \<Rightarrow> insert_manifest release_id change rs db')"

definition nothing_to_release :: "ident \<Rightarrow> error" where
  "nothing_to_release pid =
     ConflictError (''Product '' @ squoted pid @ '' has no components with an active version; nothing to release.'')
       [(''product_id'', JStr pid)]"

definition current_version :: "release_row list \<Rightarrow> string \<Rightarrow> string" where
  "current_version latest base = (case latest of [] \<Rightarrow> base | r # _ \<Rightarrow> r_product_version r)"

definition latest_id :: "release_row list \<Rightarrow> ident option" where
  "latest_id latest = (case latest of [] \<Rightarrow> None | r # _ \<Rightarrow> Some (r_id r))"

definition fresh_cut ::
  "ident \<Rightarrow> timestamp \<Rightarrow> cut_release_request \<Rightarrow> string \<Rightarrow> string \<Rightarrow> database \<Rightarrow>
     cut_release_result outcome \<times> database" where
  "fresh_cut release_id now data base_version bump_policy db =
     (let records = select_active_components (cut_product_id data) db
      in if records = [] then (Inl (nothing_to_release (cut_product_id data)), db)
      else
        let latest = select_latest_release (cut_product_id data) db
        in (case derive (cut_product_id data) bump_policy records (latest_id latest) db of
              Inl e \<Rightarrow> (Inl e, db)
            | Inr (bump_level, rationale, change) \<Rightarrow>
                (case apply_bump (current_version latest base_version) bump_level of
                   Inl e \<Rightarrow> (Inl e, db)
                 | Inr product_version \<Rightarrow>
                     (case insert_release
                             \<lparr>r_id = release_id, r_product_id = cut_product_id data,
                              r_product_version = product_version, r_label = cut_label data,
                              r_notes = cut_notes data, r_idempotency_key = cut_idempotency_key data,
                              r_bump_level = Some (bump_level_value bump_level),
                              r_bump_rationale = rationale, r_created_at = now\<rparr> db of
                        Inl e \<Rightarrow> (Inl e, db)
                      | Inr db1 \<Rightarrow>
                          (case insert_manifest release_id change records db1 of
                             (Some e, db2) \<Rightarrow> (Inl e, db2)
                           | (None, db2) \<Rightarrow>
                               (case load_release release_id db2 of
                                  Inl e \<Rightarrow> (Inl e, db2)
                                | Inr release \<Rightarrow>
                                    (Inr \<lparr>crr_release = release, crr_created = True\<rparr>, db2)))))))"

definition cut_release_query ::
  "ident \<Rightarrow> timestamp \<Rightarrow> cut_release_request \<Rightarrow> database \<Rightarrow> cut_release_result outcome \<times> database" where
  "cut_release_query release_id now data db =
     (case select_products_by_id (cut_product_id data) db of
        [] \<Rightarrow>
          (Inl (NotFoundError (''Product '' @ squoted (cut_product_id data) @ '' does not exist.'')
             [(''product_id'', JStr (cut_product_id data))]), db)
      | product # _ \<Rightarrow>
          (case (case cut_idempotency_key data of
                   None \<Rightarrow> []
                 | Some key \<Rightarrow> select_release_by_idempotency (cut_product_id data) key db) of
             existing # _ \<Rightarrow>
               (case load_release (r_id existing) db of
                  Inl e \<Rightarrow> (Inl e, db)
                | Inr release \<Rightarrow> (Inr \<lparr>crr_release = release, crr_created = False\<rparr>, db))
           | [] \<Rightarrow> fresh_cut release_id now data (p_base_version product) (p_bump_policy product) db))"

text \<open>The route publishes \<open>release.cut\<close> for a fresh cut only.\<close>

definition release_cut_event :: "ident \<Rightarrow> release_response \<Rightarrow> domain_event" where
  "release_cut_event pid release =
     \<lparr>event_type = RELEASE_CUT, event_product_id = pid, event_data = [(''release'', release_json release)]\<rparr>"

definition cut_release ::
  "ident \<Rightarrow> timestamp \<Rightarrow> cut_release_request \<Rightarrow> database \<Rightarrow> event_bus \<Rightarrow>
     release_response outcome \<times> database \<times> event_bus" where
  "cut_release release_id now data db bus =
     (case cut_release_query release_id now data db of
        (Inl e, db') \<Rightarrow> (Inl e, db', bus)
      | (Inr result, db') \<Rightarrow>
          (Inr (crr_release result), db',
           if crr_created result then publish (release_cut_event (cut_product_id data) (crr_release result)) bus
           else bus))"

section \<open>The derivation never raises\<close>

lemma keys_dict_of_rows: "set (keys (dict_of_rows rows d)) = set (keys d) \<union> set (map fst rows)"
proof (induction rows d rule: dict_of_rows.induct)
  case (2 k v rows d)
  show ?case unfolding dict_of_rows.simps "2.IH" keys_dict_set by auto
qed simp

lemma distinct_dict_of_rows: "distinct (keys d) \<Longrightarrow> distinct (keys (dict_of_rows rows d))"
  by (induction rows d rule: dict_of_rows.induct) (auto simp: distinct_dict_set simp del: map_map)

lemma map_of_dict_of_rows:
  "distinct (map fst rows) \<Longrightarrow> map_of (dict_of_rows rows d) k =
     (case map_of rows k of None \<Rightarrow> map_of d k | Some v \<Rightarrow> Some v)"
proof (induction rows d rule: dict_of_rows.induct)
  case (2 k' v rows d)
  then have n: "map_of rows k' = None" by (simp add: map_of_eq_None_iff)
  have "map_of (dict_of_rows rows (dict_set k' v d)) k =
      (case map_of rows k of None \<Rightarrow> map_of (dict_set k' v d) k | Some v \<Rightarrow> Some v)"
    by (rule "2.IH") (use "2.prems" in simp)
  with n show ?case by (auto split: option.split)
qed simp

lemma effective_levels_total:
  obtains eff where "effective_levels own edges = Some eff" "set (keys own) \<subseteq> set (keys eff)"
  by (rule effective_levels_bounded[of own edges BL_MAJOR]) auto

lemma derive_legacy: "policy \<noteq> ''default'' \<Longrightarrow> derive pid policy records latest db = Inr (BL_MINOR, None, [])"
  by (simp add: derive_def)

lemma derive_default:
  obtains bump rationale where
    "derive pid ''default'' records latest db =
       Inr (bump, Some rationale,
            map (\<lambda>(i, l). (i, bump_level_value l)) (own_levels_of (prior_manifest latest db) records))"
    "derive_product_bump (own_levels_of (prior_manifest latest db) records) (select_edges pid db)
       (removed_any_of (prior_manifest latest db) records) = Some bump"
proof -
  let ?own = "own_levels_of (prior_manifest latest db) records"
  obtain bump where b: "derive_product_bump ?own (select_edges pid db)
      (removed_any_of (prior_manifest latest db) records) = Some bump"
    using derive_total by blast
  obtain eff where e: "effective_levels ?own (select_edges pid db) = Some eff"
    and k: "set (keys ?own) \<subseteq> set (keys eff)" by (rule effective_levels_total)
  have "\<forall>i\<in>set (keys ?own). map_option (Pair i) (dict_get eff i) = Some (i, the (dict_get eff i))"
  proof
    fix i assume "i \<in> set (keys ?own)"
    with k have "dict_get eff i \<noteq> None" unfolding map_of_None_keys by blast
    then show "map_option (Pair i) (dict_get eff i) = Some (i, the (dict_get eff i))" by auto
  qed
  note th = those_map_Some[OF this]
  show ?thesis by (rule that[OF _ b]) (simp add: derive_def Let_def b e th del: list.map_comp map_map)
qed

lemma derive_Inr: "\<exists>bump rationale change. derive pid policy records latest db = Inr (bump, rationale, change)"
  by (cases "policy = ''default''") (metis derive_default, metis derive_legacy)

section \<open>The pinned rows\<close>

definition manifest_ok ::
  "release_component_row list \<Rightarrow> component_row list \<Rightarrow> version_row list \<Rightarrow> release_row list \<Rightarrow> bool" where
  "manifest_ok rcs cs vs rs \<longleftrightarrow>
     (\<forall>rc\<in>set rcs. \<exists>c\<in>set cs. \<exists>v\<in>set vs. \<exists>r\<in>set rs.
        c_id c = rc_component_id rc \<and> v_id v = rc_version_id rc \<and> v_component_id v = c_id c \<and>
        r_id r = rc_release_id rc \<and> c_product_id c = r_product_id r)"

definition active_ids :: "ident \<Rightarrow> database \<Rightarrow> ident list" where
  "active_ids pid db = map ar_component_id (select_active_components pid db)"

lemma active_record_cases:
  assumes "r \<in> set (select_active_components pid db)"
  obtains c v where "c \<in> set (components db)" "v \<in> set (versions db)" "c_product_id c = pid"
    "v_component_id v = c_id c" "v_status v = ACTIVE" "r = active_record_of c v"
  using assms by (auto simp: select_active_components_def)

lemma active_record_sel [simp]:
  "ar_component_id (active_record_of c v) = c_id c" "ar_version_id (active_record_of c v) = v_id v"
  "ar_name (active_record_of c v) = c_name c"
  "ar_major (active_record_of c v) = v_major v" "ar_minor (active_record_of c v) = v_minor v"
  "ar_patch (active_record_of c v) = v_patch v" "ar_prerelease (active_record_of c v) = v_prerelease v"
  by (simp_all add: active_record_of_def)

lemma distinct_concat_keyed:
  assumes "distinct (map k xs)" "\<And>x. x \<in> set xs \<Longrightarrow> length (f x) \<le> 1"
    and "\<And>x y. x \<in> set xs \<Longrightarrow> y \<in> set (f x) \<Longrightarrow> g y = k x"
  shows "distinct (map g (concat (map f xs)))"
  using assms
proof (induction xs)
  case (Cons x xs)
  have "distinct (map g (f x))" using Cons.prems(2)[of x] by (cases "f x") auto
  moreover have "set (map g (f x)) \<inter> set (map g (concat (map f xs))) = {}"
    using Cons.prems(1,3) by fastforce
  moreover have "distinct (map g (concat (map f xs)))" by (rule Cons.IH) (use Cons.prems in auto)
  ultimately show ?case by simp
qed simp

text \<open>With at most one active version per component, a component is listed at most once.\<close>

lemma distinct_sort_key: "distinct (map k (sort_key k xs)) = distinct (map k xs)"
  by (simp add: distinct_map)

lemma distinct_active_ids:
  assumes "pk c_id (components db)" "one_active (versions db)"
  shows "distinct (active_ids pid db)"
proof -
  have "distinct (map c_id (filter (\<lambda>c. c_product_id c = pid) (components db)))"
    using assms(1) by (simp add: pk_def distinct_map_filter)
  moreover have "length (map (active_record_of c)
      (filter (\<lambda>v. v_component_id v = c_id c \<and> v_status v = ACTIVE) (versions db))) \<le> 1" for c
    using assms(2) unfolding one_active_def active_of_def length_map by (rule spec)
  ultimately have "distinct (map ar_component_id (concat (map (\<lambda>c. map (active_record_of c)
      (filter (\<lambda>v. v_component_id v = c_id c \<and> v_status v = ACTIVE) (versions db)))
      (filter (\<lambda>c. c_product_id c = pid) (components db)))))"
    by (rule distinct_concat_keyed) auto
  then show ?thesis
    unfolding active_ids_def select_active_components_def order_by_def distinct_sort_key .
qed

lemma active_ids_sorted: "sorted (active_ids pid db)"
  by (simp add: active_ids_def select_active_components_def order_by_def)

lemma join_manifest_Nil [simp]: "join_manifest [] db = []"
  by (simp add: join_manifest_def)

lemma join_manifest_Cons:
  assumes "pk c_id (components db)" "pk v_id (versions db)"
    and "c \<in> set (components db)" "c_id c = rc_component_id rc"
    and "v \<in> set (versions db)" "v_id v = rc_version_id rc"
  shows "join_manifest (rc # rcs) db = (rc, c, v) # join_manifest rcs db"
  using fetchone_by_key[OF assms(1,3,4)] fetchone_by_key[OF assms(2,5,6)]
  by (simp add: join_manifest_def)

definition pin_row :: "ident \<Rightarrow> (ident, string) dict \<Rightarrow> active_record \<Rightarrow> release_component_row" where
  "pin_row release_id change r =
     \<lparr>rc_release_id = release_id, rc_component_id = ar_component_id r,
      rc_version_id = ar_version_id r, rc_change_level = dict_get change (ar_component_id r)\<rparr>"

lemma pin_row_sel [simp]:
  "rc_release_id (pin_row i change r) = i" "rc_component_id (pin_row i change r) = ar_component_id r"
  "rc_version_id (pin_row i change r) = ar_version_id r"
  "rc_change_level (pin_row i change r) = dict_get change (ar_component_id r)"
  "rc_key (pin_row i change r) = (i, ar_component_id r)"
  by (simp_all add: pin_row_def rc_key_def)

lemma insert_manifest_ok:
  "release_id \<in> r_id ` set (releases db) \<Longrightarrow> distinct (map ar_component_id rs) \<Longrightarrow>
   \<forall>r\<in>set rs. (release_id, ar_component_id r) \<notin> rc_key ` set (release_components db) \<Longrightarrow>
   insert_manifest release_id change rs db =
     (None, db\<lparr>release_components := release_components db @ map (pin_row release_id change) rs\<rparr>)"
proof (induction release_id change rs db rule: insert_manifest.induct)
  case (2 release_id change r rs db)
  let ?db' = "db\<lparr>release_components := release_components db @ [pin_row release_id change r]\<rparr>"
  have ins: "insert_release_component (pin_row release_id change r) db = Inr ?db'"
    using "2.prems" by (simp add: insert_release_component_def)
  have "insert_manifest release_id change rs ?db' =
      (None, ?db'\<lparr>release_components := release_components ?db' @ map (pin_row release_id change) rs\<rparr>)"
    by (rule "2.IH"[folded pin_row_def, OF ins])
       (use "2.prems" in \<open>auto simp: image_iff\<close>)
  then show ?case by (simp add: ins flip: pin_row_def)
qed simp

lemma insert_manifest_schema:
  "insert_manifest release_id change rs db = (e, db') \<Longrightarrow> schema_ok db \<Longrightarrow> schema_ok db'"
proof (induction release_id change rs db arbitrary: db' rule: insert_manifest.induct)
  case (2 release_id change r rs db)
  show ?case
  proof (cases "insert_release_component (pin_row release_id change r) db")
    case (Inl e)
    with "2.prems" show ?thesis by (simp add: flip: pin_row_def)
  next
    case (Inr db1)
    from "2.IH"[OF Inr[unfolded pin_row_def]] Inr "2.prems" schema_ok_insert(5)[OF _ Inr] show ?thesis
      by (simp flip: pin_row_def)
  qed
qed simp

definition manifest_entry :: "(ident, string) dict \<Rightarrow> active_record \<Rightarrow> release_component_response" where
  "manifest_entry change r =
     \<lparr>rcr_component_id = ar_component_id r, rcr_name = ar_name r, rcr_version_id = ar_version_id r,
      rcr_version = format_version (ar_major r) (ar_minor r) (ar_patch r) (ar_prerelease r),
      rcr_change_level = dict_get change (ar_component_id r)\<rparr>"

lemma join_pins:
  assumes "pk c_id (components db)" "pk v_id (versions db)"
    and "\<forall>r\<in>set rs. \<exists>c\<in>set (components db). \<exists>v\<in>set (versions db). r = active_record_of c v"
  shows "\<exists>rows. join_manifest (map (pin_row i change) rs) db = rows \<and>
    map (\<lambda>(rc, c, v). c_id c) rows = map ar_component_id rs \<and>
    map to_release_component rows = map (manifest_entry change) rs"
  using assms(3)
proof (induction rs)
  case (Cons r rs)
  then obtain c v where r: "c \<in> set (components db)" "v \<in> set (versions db)" "r = active_record_of c v" by auto
  from Cons obtain rows where rows: "join_manifest (map (pin_row i change) rs) db = rows"
    "map (\<lambda>(rc, c, v). c_id c) rows = map ar_component_id rs"
    "map to_release_component rows = map (manifest_entry change) rs" by auto
  have "join_manifest (map (pin_row i change) (r # rs)) db = (pin_row i change r, c, v) # rows"
    using join_manifest_Cons[OF assms(1,2) r(1) _ r(2), of "pin_row i change r"] rows(1) by (simp add: r(3))
  moreover have "to_release_component (pin_row i change r, c, v) = manifest_entry change r"
    by (simp add: r(3) to_release_component_def manifest_entry_def)
  ultimately show ?case using rows(2,3) by (simp add: r(3))
qed simp

text \<open>Reading a release whose manifest holds the first of the active components only, or all of them.\<close>

lemma load_after_pins:
  assumes ok: "schema_ok db" and fresh: "i \<notin> r_id ` set (releases db)" and row: "r_id row = i"
    and part: "prefix rs (select_active_components pid db)"
    and db': "db' = db\<lparr>releases := releases db @ [row],
      release_components := release_components db @ map (pin_row i change) rs\<rparr>"
  shows "load_release i db' = Inr (to_release_response row (map (manifest_entry change) rs))"
proof -
  have none: "filter (\<lambda>rc. rc_release_id rc = i) (release_components db) = []"
    using ok fresh by (auto simp: schema_ok_def fk_def filter_empty_conv)
  have "filter (\<lambda>r. r_id r = i) (releases db) = []" using fresh by (auto simp: filter_empty_conv)
  then have sel: "select_release_by_id i db' = [row]" by (simp add: select_release_by_id_def db' row)
  have pks: "pk c_id (components db')" "pk v_id (versions db')" using ok by (simp_all add: schema_ok_def db')
  have "\<forall>r\<in>set rs. \<exists>c\<in>set (components db'). \<exists>v\<in>set (versions db'). r = active_record_of c v"
  proof
    fix r assume "r \<in> set rs"
    then have "r \<in> set (select_active_components pid db)" using set_mono_prefix[OF part] by blast
    then show "\<exists>c\<in>set (components db'). \<exists>v\<in>set (versions db'). r = active_record_of c v"
      by (auto simp: db' elim!: active_record_cases)
  qed
  from join_pins[OF pks this, of i change] obtain rows where
    j: "join_manifest (map (pin_row i change) rs) db' = rows"
    and k: "map (\<lambda>(rc, c, v). c_id c) rows = map ar_component_id rs"
    and m: "map to_release_component rows = map (manifest_entry change) rs" by auto
  obtain rest where "select_active_components pid db = rs @ rest" using part by (auto simp: prefix_def)
  then have "sorted (map (\<lambda>(rc, c, v). c_id c) rows)"
    using active_ids_sorted[of pid db] by (simp add: k active_ids_def sorted_append)
  then have "order_by (\<lambda>(rc, c, v). c_id c) rows = rows"
    unfolding order_by_def by (rule sort_key_id_if_sorted)
  moreover have "filter (\<lambda>rc. rc_release_id rc = i) (release_components db') = map (pin_row i change) rs"
    by (simp add: db' none filter_map o_def)
  ultimately have "select_release_manifest i db' = rows"
    by (simp add: select_release_manifest_def j)
  with sel m show ?thesis by (simp add: load_release_def to_release_components_def Let_def)
qed

lemmas load_after_cut = load_after_pins[OF _ _ _ prefix_order.refl]

section \<open>The outcomes of a cut\<close>

definition parses :: "string \<Rightarrow> bool" where
  "parses v \<longleftrightarrow> (\<exists>t. parse_core v = Inr t)"

lemma apply_bump_total:
  assumes "parses v"
  obtains v' where "apply_bump v l = Inr v'" "parses v'"
proof -
  from assms obtain a b c where t: "parse_core v = Inr (a, b, c)" by (auto simp: parses_def)
  note nn = parse_core_InrD(1-3)[OF t]
  show ?thesis
    using that apply_bump_parse[OF t] nn t
      parse_fmt_core(1)[of "a + 1" 0 0] parse_fmt_core(1)[of a "b + 1" 0] parse_fmt_core(1)[of a b "c + 1"]
    by (cases l) (auto simp: parses_def)
qed

definition cut_row ::
  "ident \<Rightarrow> timestamp \<Rightarrow> cut_release_request \<Rightarrow> string \<Rightarrow> bump_level \<Rightarrow> string option \<Rightarrow> release_row" where
  "cut_row release_id now data version bump rationale =
     \<lparr>r_id = release_id, r_product_id = cut_product_id data, r_product_version = version,
      r_label = cut_label data, r_notes = cut_notes data, r_idempotency_key = cut_idempotency_key data,
      r_bump_level = Some (bump_level_value bump), r_bump_rationale = rationale, r_created_at = now\<rparr>"

lemma cut_row_sel [simp]:
  "r_id (cut_row i now data v b r) = i" "r_product_id (cut_row i now data v b r) = cut_product_id data"
  "r_product_version (cut_row i now data v b r) = v"
  "r_idempotency_key (cut_row i now data v b r) = cut_idempotency_key data"
  by (simp_all add: cut_row_def)

definition after_cut ::
  "release_row \<Rightarrow> (ident, string) dict \<Rightarrow> active_record list \<Rightarrow> database \<Rightarrow> database" where
  "after_cut row change records db =
     db\<lparr>releases := releases db @ [row],
        release_components := release_components db @ map (pin_row (r_id row) change) records\<rparr>"

definition cut_result ::
  "release_row \<Rightarrow> (ident, string) dict \<Rightarrow> active_record list \<Rightarrow> cut_release_result" where
  "cut_result row change records =
     \<lparr>crr_release = to_release_response row (map (manifest_entry change) records), crr_created = True\<rparr>"

definition all_parse :: "database \<Rightarrow> bool" where
  "all_parse db \<longleftrightarrow>
     (\<forall>p\<in>set (products db). parses (p_base_version p)) \<and>
     (\<forall>r\<in>set (releases db). parses (r_product_version r))"

lemma latest_in: "select_latest_release pid db = r # rest \<Longrightarrow> r \<in> set (releases db) \<and> r_product_id r = pid"
  using take_order_by_desc_Cons(1)[of "\<lambda>r. (r_created_at r, r_id r)" "filter (\<lambda>r. r_product_id r = pid) (releases db)"]
  by (simp add: select_latest_release_def)

lemma current_parses:
  assumes "all_parse db" "parses base"
  shows "parses (current_version (select_latest_release pid db) base)"
  using assms latest_in[of pid db]
  by (cases "select_latest_release pid db") (auto simp: current_version_def all_parse_def)

lemma fresh_cut_cases:
  assumes run: "fresh_cut i now data base policy db = (res, db')"
    and ok: "schema_ok db" "one_active (versions db)" "all_parse db" "parses base"
      "cut_product_id data \<in> p_id ` set (products db)"
  obtains (nothing) "select_active_components (cut_product_id data) db = []"
      "res = Inl (nothing_to_release (cut_product_id data))" "db' = db"
  | (collision) "i \<in> r_id ` set (releases db)" "res = Inl ConstraintViolation" "db' = db"
  | (cut) bump rationale change version where
      "select_active_components (cut_product_id data) db \<noteq> []"
      "derive (cut_product_id data) policy (select_active_components (cut_product_id data) db)
         (latest_id (select_latest_release (cut_product_id data) db)) db = Inr (bump, rationale, change)"
      "apply_bump (current_version (select_latest_release (cut_product_id data) db) base) bump = Inr version"
      "parses version" "i \<notin> r_id ` set (releases db)"
      "db' = after_cut (cut_row i now data version bump rationale) change
               (select_active_components (cut_product_id data) db) db"
      "res = Inr (cut_result (cut_row i now data version bump rationale) change
               (select_active_components (cut_product_id data) db))"
proof -
  let ?pid = "cut_product_id data"
  let ?rs = "select_active_components ?pid db" and ?latest = "select_latest_release ?pid db"
  obtain bump rationale change where d: "derive ?pid policy ?rs (latest_id ?latest) db = Inr (bump, rationale, change)"
    using derive_Inr by blast
  obtain version where v: "apply_bump (current_version ?latest base) bump = Inr version" "parses version"
    by (rule apply_bump_total[OF current_parses[OF ok(3,4)]])
  let ?row = "cut_row i now data version bump rationale"
  note run' = run[unfolded fresh_cut_def Let_def d sum.case prod.case v(1), folded cut_row_def]
  consider "?rs = []" | "?rs \<noteq> []" "i \<in> r_id ` set (releases db)" | "?rs \<noteq> []" "i \<notin> r_id ` set (releases db)" by blast
  then show ?thesis
  proof cases
    case 1
    show ?thesis by (rule nothing) (use 1 run' in simp_all)
  next
    case 2
    then have "insert_release ?row db = Inl ConstraintViolation" by (simp add: insert_release_def)
    then show ?thesis by (intro collision) (use 2 run' in simp_all)
  next
    case 3
    have ins: "insert_release ?row db = Inr (db\<lparr>releases := releases db @ [?row]\<rparr>)"
      using 3 ok(5) by (simp add: insert_release_def)
    have dist: "distinct (map ar_component_id ?rs)"
      using distinct_active_ids[of db ?pid] ok(1,2) by (simp add: active_ids_def schema_ok_def)
    have "\<forall>r\<in>set ?rs. (i, ar_component_id r) \<notin> rc_key ` set (release_components db)"
      using ok(1) 3(2) by (auto simp: schema_ok_def fk_def rc_key_def)
    then have m: "insert_manifest i change ?rs (db\<lparr>releases := releases db @ [?row]\<rparr>) =
        (None, after_cut ?row change ?rs db)"
      using insert_manifest_ok[OF _ dist, of i "db\<lparr>releases := releases db @ [?row]\<rparr>" change]
      by (simp add: after_cut_def)
    have l: "load_release i (after_cut ?row change ?rs db) =
        Inr (to_release_response ?row (map (manifest_entry change) ?rs))"
      by (rule load_after_cut[OF ok(1) 3(2)]) (simp_all add: after_cut_def)
    from run' 3(1) have "res = Inr (cut_result ?row change ?rs) \<and> db' = after_cut ?row change ?rs db"
      by (simp add: ins m l cut_result_def)
    with 3 d v show ?thesis by (intro cut) simp_all
  qed
qed

lemma cut_release_query_cases:
  assumes run: "cut_release_query i now data db = (res, db')"
    and ok: "schema_ok db" "one_active (versions db)" "all_parse db"
  obtains (unknown) e where "cut_product_id data \<notin> p_id ` set (products db)" "res = Inl e" "db' = db"
  | (replay) key r release where "cut_idempotency_key data = Some key" "r \<in> set (releases db)"
      "r_product_id r = cut_product_id data" "r_idempotency_key r = Some key"
      "load_release (r_id r) db = Inr release"
      "res = Inr \<lparr>crr_release = release, crr_created = False\<rparr>" "db' = db"
  | (fresh) p where "p \<in> set (products db)" "p_id p = cut_product_id data"
      "cut_idempotency_key data = None \<or>
       (\<forall>r\<in>set (releases db). r_product_id r = cut_product_id data \<longrightarrow>
          r_idempotency_key r \<noteq> cut_idempotency_key data)"
      "fresh_cut i now data (p_base_version p) (p_bump_policy p) db = (res, db')"
proof (cases "select_products_by_id (cut_product_id data) db")
  case Nil
  then have "cut_product_id data \<notin> p_id ` set (products db)"
    using select_product_None[of "cut_product_id data" db] by simp
  with run Nil show ?thesis by (intro unknown) (auto simp: cut_release_query_def)
next
  case (Cons p rest)
  have p: "p \<in> set (products db)" "p_id p = cut_product_id data"
    using select_product_Some[of "cut_product_id data" db p] Cons by simp_all
  let ?ex = "case cut_idempotency_key data of None \<Rightarrow> []
             | Some key \<Rightarrow> select_release_by_idempotency (cut_product_id data) key db"
  note run' = run[unfolded cut_release_query_def Cons list.case]
  show ?thesis
  proof (cases ?ex)
    case Nil
    then have "cut_idempotency_key data = None \<or> (\<forall>r\<in>set (releases db). r_product_id r = cut_product_id data \<longrightarrow>
          r_idempotency_key r \<noteq> cut_idempotency_key data)"
      by (auto simp: select_release_by_idempotency_def filter_empty_conv split: option.splits)
    with p run' Nil show ?thesis by (intro fresh[of p]) simp_all
  next
    case ex: (Cons r rest')
    then obtain key where key: "cut_idempotency_key data = Some key"
      and sel: "select_release_by_idempotency (cut_product_id data) key db = r # rest'"
      by (cases "cut_idempotency_key data") auto
    have "r \<in> set (take 1 (filter (\<lambda>r. r_product_id r = cut_product_id data \<and> r_idempotency_key r = Some key) (releases db)))"
      using sel by (simp add: select_release_by_idempotency_def)
    then have r: "r \<in> set (releases db)" "r_product_id r = cut_product_id data" "r_idempotency_key r = Some key"
      using in_set_takeD by fastforce+
    have "select_release_by_id (r_id r) db = [r]"
      unfolding select_release_by_id_def
      by (rule fetchone_by_key[OF _ r(1) refl]) (use ok(1) in \<open>simp add: schema_ok_def\<close>)
    then obtain release where l: "load_release (r_id r) db = Inr release"
      by (simp add: load_release_def Let_def)
    from run'[unfolded ex list.case l sum.case] show ?thesis by (intro replay[OF key r l]) simp_all
  qed
qed

section \<open>Invariants of the release tables\<close>

definition idem_unique :: "release_row list \<Rightarrow> bool" where
  "idem_unique rs \<longleftrightarrow>
     (\<forall>r\<in>set rs. \<forall>r'\<in>set rs. r_product_id r = r_product_id r' \<longrightarrow>
        r_idempotency_key r = r_idempotency_key r' \<longrightarrow> r_idempotency_key r \<noteq> None \<longrightarrow> r = r')"

lemma idem_unique_snoc:
  assumes "idem_unique rs"
    and "r_idempotency_key r = None \<or>
         (\<forall>r'\<in>set rs. r_product_id r' = r_product_id r \<longrightarrow> r_idempotency_key r' \<noteq> r_idempotency_key r)"
  shows "idem_unique (rs @ [r])"
proof -
  have "x = y" if "x \<in> set (rs @ [r])" "y \<in> set (rs @ [r])" "r_product_id x = r_product_id y"
    "r_idempotency_key x = r_idempotency_key y" "r_idempotency_key x \<noteq> None" for x y
  proof -
    have "x = r \<or> x \<in> set rs" "y = r \<or> y \<in> set rs" using that(1,2) by auto
    then consider "x = r" "y = r" | "x = r" "y \<in> set rs" | "x \<in> set rs" "y = r" | "x \<in> set rs" "y \<in> set rs"
      by metis
    then show ?thesis
    proof cases
      case 4
      with assms(1) that(3-5) show ?thesis unfolding idem_unique_def by blast
    qed (use assms(2) that(3-5) in auto)
  qed
  then show ?thesis unfolding idem_unique_def by blast
qed

lemma manifest_fits:
  assumes "schema_ok db" "one_active (versions db)" "r_id row \<notin> r_id ` set (releases db)"
    and part: "prefix rs (select_active_components pid db)"
  shows "distinct (map ar_component_id rs)"
    and "\<forall>r\<in>set rs. (r_id row, ar_component_id r) \<notin> rc_key ` set (release_components db)"
proof -
  obtain rest where rest: "select_active_components pid db = rs @ rest" using part by (auto simp: prefix_def)
  show "distinct (map ar_component_id rs)"
    using distinct_active_ids[of db pid] assms(1,2) by (simp add: active_ids_def schema_ok_def rest)
  show "\<forall>r\<in>set rs. (r_id row, ar_component_id r) \<notin> rc_key ` set (release_components db)"
    using assms(1,3) by (auto simp: schema_ok_def fk_def rc_key_def)
qed

lemma schema_ok_after_cut:
  assumes "schema_ok db" "one_active (versions db)" "r_id row \<notin> r_id ` set (releases db)"
    and "r_product_id row \<in> p_id ` set (products db)" and "prefix rs (select_active_components pid db)"
  shows "schema_ok (after_cut row change rs db)"
proof -
  have ins: "insert_release row db = Inr (db\<lparr>releases := releases db @ [row]\<rparr>)"
    using assms(3,4) by (simp add: insert_release_def)
  have "insert_manifest (r_id row) change rs (db\<lparr>releases := releases db @ [row]\<rparr>) = (None, after_cut row change rs db)"
    using insert_manifest_ok[of "r_id row" "db\<lparr>releases := releases db @ [row]\<rparr>" rs change]
      manifest_fits[OF assms(1,2,3,5)] by (simp add: after_cut_def)
  then show ?thesis
    by (rule insert_manifest_schema) (rule schema_ok_insert(4)[OF assms(1) ins])
qed

lemma manifest_ok_after_cut:
  assumes "manifest_ok (release_components db) (components db) (versions db) (releases db)"
    and "r_product_id row = pid" and "prefix rs (select_active_components pid db)"
  shows "manifest_ok (release_components db @ map (pin_row (r_id row) change) rs)
           (components db) (versions db) (releases db @ [row])"
proof -
  have "\<exists>c\<in>set (components db). \<exists>v\<in>set (versions db). \<exists>r\<in>set (releases db @ [row]).
        c_id c = rc_component_id rc \<and> v_id v = rc_version_id rc \<and> v_component_id v = c_id c \<and>
        r_id r = rc_release_id rc \<and> c_product_id c = r_product_id r"
    if rc: "rc \<in> set (release_components db @ map (pin_row (r_id row) change) rs)" for rc
  proof (cases "rc \<in> set (release_components db)")
    case True
    with assms(1) show ?thesis unfolding manifest_ok_def by fastforce
  next
    case False
    with rc set_mono_prefix[OF assms(3)] obtain r where
      r: "r \<in> set (select_active_components pid db)" "rc = pin_row (r_id row) change r" by auto
    from r(1) obtain c v where "c \<in> set (components db)" "v \<in> set (versions db)" "c_product_id c = pid"
      "v_component_id v = c_id c" "r = active_record_of c v" by (rule active_record_cases)
    with r(2) assms(2) show ?thesis by (auto intro!: bexI[of _ c] bexI[of _ v])
  qed
  then show ?thesis unfolding manifest_ok_def by blast
qed

definition releases_ok :: "database \<Rightarrow> bool" where
  "releases_ok db \<longleftrightarrow>
     manifest_ok (release_components db) (components db) (versions db) (releases db) \<and>
     all_parse db \<and> idem_unique (releases db)"

lemma cut_release_query_frame:
  assumes run: "cut_release_query i now data db = (res, db')"
    and ok: "schema_ok db" "one_active (versions db)" "all_parse db"
  shows "db' = db \<or>
    (\<exists>row change. i \<notin> r_id ` set (releases db) \<and> r_id row = i \<and> r_product_id row = cut_product_id data \<and>
       cut_product_id data \<in> p_id ` set (products db) \<and> parses (r_product_version row) \<and>
       (r_idempotency_key row = None \<or> (\<forall>r\<in>set (releases db). r_product_id r = cut_product_id data \<longrightarrow>
          r_idempotency_key r \<noteq> r_idempotency_key row)) \<and>
       db' = after_cut row change (select_active_components (cut_product_id data) db) db)"
  using assms
proof (cases rule: cut_release_query_cases)
  case (fresh p)
  have pp: "parses (p_base_version p)" "cut_product_id data \<in> p_id ` set (products db)"
    using fresh(1,2) ok(3) imageI[OF fresh(1), of p_id] by (auto simp: all_parse_def)
  from fresh(4) ok pp show ?thesis
  proof (cases rule: fresh_cut_cases)
    case (cut bump rationale change version)
    with fresh(3) pp(2) show ?thesis
      by (intro disjI2 exI[of _ "cut_row i now data version bump rationale"] exI[of _ change]) simp
  qed simp_all
qed simp_all

lemma cut_release_query_keeps:
  assumes run: "cut_release_query i now data db = (res, db')"
    and ok: "schema_ok db" "one_active (versions db)" "releases_ok db"
  shows "schema_ok db' \<and> releases_ok db' \<and> versions db' = versions db \<and> components db' = components db
    \<and> products db' = products db \<and> dependencies db' = dependencies db"
proof -
  have ap: "all_parse db" using ok(3) by (simp add: releases_ok_def)
  show ?thesis
  proof (cases "db' = db")
    case True
    with ok show ?thesis by simp
  next
    case False
    with cut_release_query_frame[OF run ok(1,2) ap] obtain row change where
      row: "i \<notin> r_id ` set (releases db)" "r_id row = i" "r_product_id row = cut_product_id data"
      "cut_product_id data \<in> p_id ` set (products db)" "parses (r_product_version row)"
      "r_idempotency_key row = None \<or> (\<forall>r\<in>set (releases db). r_product_id r = cut_product_id data \<longrightarrow>
          r_idempotency_key r \<noteq> r_idempotency_key row)"
      and db': "db' = after_cut row change (select_active_components (cut_product_id data) db) db"
      by blast
    have "schema_ok db'" unfolding db' by (rule schema_ok_after_cut[OF _ _ _ _ prefix_order.refl]) (use ok row in simp_all)
    moreover have "idem_unique (releases db @ [row])"
      by (rule idem_unique_snoc) (use ok(3) row in \<open>auto simp: releases_ok_def\<close>)
    moreover note manifest_ok_after_cut[OF _ row(3) prefix_order.refl, of db change]
    ultimately show ?thesis
      using ok(3) row(5) by (simp add: releases_ok_def db' after_cut_def all_parse_def)
  qed
qed

section \<open>Properties\<close>

definition cut_ready :: "database \<Rightarrow> bool" where
  "cut_ready db \<longleftrightarrow> schema_ok db \<and> one_active (versions db) \<and> releases_ok db"

lemma cut_ready_parts:
  assumes "cut_ready db"
  shows "schema_ok db" "one_active (versions db)" "releases_ok db" "all_parse db" "idem_unique (releases db)"
    "manifest_ok (release_components db) (components db) (versions db) (releases db)"
  using assms by (simp_all add: cut_ready_def releases_ok_def)

lemma parses_default: "parses ''0.0.0''"
proof -
  have "fmt_core 0 0 0 = ''0.0.0''" by (simp add: fmt_core_def str_int_def str_nat.simps digit_char_def)
  with parse_fmt_core(1)[of 0 0 0] show ?thesis unfolding parses_def by (metis order.refl)
qed

lemma cut_ready_sample: "cut_ready sample_database"
  unfolding cut_ready_def releases_ok_def using schema_ok_sample parses_default
  by (auto simp: one_active_def manifest_ok_def all_parse_def idem_unique_def sample_defs active_of_def)

definition cut_request :: "string option \<Rightarrow> cut_release_request" where
  "cut_request key = \<lparr>cut_product_id = ''p'', cut_label = None, cut_notes = None, cut_idempotency_key = key\<rparr>"

lemma sample_active: "select_active_components ''p'' sample_database \<noteq> []"
  by (simp add: select_active_components_def sample_defs)

lemma apply_bump_monotone:
  assumes "apply_bump v l = Inr w" "parses v"
  shows "\<exists>old new. parse_core v = Inr old \<and> parse_core w = Inr new \<and> old \<le> new"
proof -
  from assms(2) obtain a b c where t: "parse_core v = Inr (a, b, c)" by (auto simp: parses_def)
  note nn = parse_core_InrD(1-3)[OF t]
  show ?thesis
    using assms(1) nn t parse_fmt_core(1)[of "a + 1" 0 0] parse_fmt_core(1)[of a "b + 1" 0] parse_fmt_core(1)[of a b "c + 1"]
    by (cases l) (auto simp: apply_bump_parse[OF t])
qed

lemma set_active_pins:
  "(i, j) \<in> set (map (\<lambda>r. (ar_component_id r, ar_version_id r)) (select_active_components pid db)) \<longleftrightarrow>
     (\<exists>c\<in>set (components db). \<exists>v\<in>set (versions db). c_product_id c = pid \<and> v_component_id v = c_id c \<and>
        v_status v = ACTIVE \<and> i = c_id c \<and> j = v_id v)"
  by (auto simp: select_active_components_def image_iff)

lemma filter_new_pins:
  assumes "schema_ok db" "r_id row \<notin> r_id ` set (releases db)"
  shows "filter (\<lambda>rc. rc_release_id rc = r_id row) (release_components (after_cut row change rs db))
    = map (pin_row (r_id row) change) rs"
proof -
  have "filter (\<lambda>rc. rc_release_id rc = r_id row) (release_components db) = []"
    unfolding filter_empty_conv
  proof (intro ballI notI)
    fix rc assume "rc \<in> set (release_components db)" "rc_release_id rc = r_id row"
    with fkD[of rc_release_id "release_components db" r_id "releases db" rc] assms show False
      by (auto simp: schema_ok_def image_iff)
  qed
  then show ?thesis by (simp add: after_cut_def filter_map o_def)
qed

text \<open>C10: A fresh cut freezes the product's composition. It appends exactly one release with the
  given identifier, its manifest pins each component with an active version to that version
  and nothing else, each component at most once, the answer lists exactly these pins, and the
  new product version parses to a core no lower than that of the version it bumps.\<close>

theorem cut_pins_active_versions:
  assumes run: "cut_release_query i now data db = (Inr result, db')" and fresh: "crr_created result"
    and ok: "cut_ready db"
  shows "\<exists>row. releases db' = releases db @ [row] \<and> r_id row = i \<and> r_product_id row = cut_product_id data \<and>
    (\<forall>c v. (c, v) \<in> set (map (\<lambda>rc. (rc_component_id rc, rc_version_id rc))
          (filter (\<lambda>rc. rc_release_id rc = i) (release_components db'))) \<longleftrightarrow>
        (\<exists>comp\<in>set (components db). \<exists>ver\<in>set (versions db). c_product_id comp = cut_product_id data \<and>
           v_component_id ver = c_id comp \<and> v_status ver = ACTIVE \<and> c = c_id comp \<and> v = v_id ver)) \<and>
    distinct (map rc_component_id (filter (\<lambda>rc. rc_release_id rc = i) (release_components db'))) \<and>
    map (\<lambda>e. (rcr_component_id e, rcr_version_id e)) (rr_components (crr_release result)) =
      map (\<lambda>rc. (rc_component_id rc, rc_version_id rc)) (filter (\<lambda>rc. rc_release_id rc = i) (release_components db')) \<and>
    rr_product_version (crr_release result) = r_product_version row \<and>
    (\<exists>p old new. p \<in> set (products db) \<and> p_id p = cut_product_id data \<and>
       parse_core (current_version (select_latest_release (cut_product_id data) db) (p_base_version p)) = Inr old \<and>
       parse_core (r_product_version row) = Inr new \<and> old \<le> new)"
proof -
  note k = cut_ready_parts[OF ok]
  let ?pid = "cut_product_id data"
  let ?rs = "select_active_components ?pid db"
  from run k(1,2,4) show ?thesis
  proof (cases rule: cut_release_query_cases)
    case (fresh p)
    have pp: "parses (p_base_version p)" "?pid \<in> p_id ` set (products db)"
      using fresh(1,2) k(4) imageI[OF fresh(1), of p_id] by (auto simp: all_parse_def)
    from fresh(4) k(1,2,4) pp show ?thesis
    proof (cases rule: fresh_cut_cases)
      case (cut bump rationale change version)
      let ?row = "cut_row i now data version bump rationale"
      have pins: "filter (\<lambda>rc. rc_release_id rc = i) (release_components db') = map (pin_row i change) ?rs"
        using filter_new_pins[OF k(1), of ?row change ?rs] cut(5) by (simp add: cut(6))
      have dist: "distinct (map ar_component_id ?rs)"
        using distinct_active_ids[of db ?pid] k(1,2) by (simp add: active_ids_def schema_ok_def)
      have rel: "releases db' = releases db @ [?row]" by (simp add: cut(6) after_cut_def)
      have res: "rr_components (crr_release result) = map (manifest_entry change) ?rs"
        "rr_product_version (crr_release result) = version"
        using cut(7) by (simp_all add: cut_result_def to_release_response_def)
      have entries: "map (\<lambda>e. (rcr_component_id e, rcr_version_id e)) (map (manifest_entry change) ?rs)
          = map (\<lambda>r. (ar_component_id r, ar_version_id r)) ?rs"
        by (simp add: manifest_entry_def)
      have pin_ids: "map (\<lambda>rc. (rc_component_id rc, rc_version_id rc)) (map (pin_row i change) ?rs)
          = map (\<lambda>r. (ar_component_id r, ar_version_id r)) ?rs"
        "map rc_component_id (map (pin_row i change) ?rs) = map ar_component_id ?rs"
        by simp_all
      from apply_bump_monotone[OF cut(3) current_parses[OF k(4) pp(1)]]
      obtain old new where mono: "parse_core (current_version (select_latest_release ?pid db) (p_base_version p)) = Inr old"
        "parse_core version = Inr new" "old \<le> new" by blast
      show ?thesis
        unfolding pins pin_ids res entries
        by (intro exI[of _ ?row] conjI allI set_active_pins rel dist refl exI[of _ p] exI[of _ old] exI[of _ new])
           (use fresh(1,2) mono in simp_all)
    qed (use assms(1) in simp_all)
  next
    case (replay key r release)
    with fresh show ?thesis by simp
  qed simp
qed

text \<open>C11: Cutting never breaks half-way. From a store that satisfies the invariants and with a
  fresh identifier, the only failures are the not-found error of an unknown product and the
  conflict of a product without active versions: no lookup, version text, row or constraint
  fails, for any policy, dependency graph (CPython's recursion limit aside) or history; and a failed cut leaves the store as it
  was.\<close>

theorem cut_failures_exact:
  assumes run: "cut_release_query i now data db = (Inl e, db')"
    and ok: "cut_ready db" and fresh: "i \<notin> r_id ` set (releases db)"
  shows "db' = db \<and>
    (if cut_product_id data \<in> p_id ` set (products db)
     then e = nothing_to_release (cut_product_id data) \<and> select_active_components (cut_product_id data) db = []
     else \<exists>msg details. e = NotFoundError msg details)"
proof -
  note k = cut_ready_parts[OF ok]
  from run k(1,2,4) show ?thesis
  proof (cases rule: cut_release_query_cases)
    case (unknown e')
    then have "select_products_by_id (cut_product_id data) db = []"
      by (auto simp: select_products_by_id_def filter_empty_conv image_iff)
    with run have "\<exists>msg details. e = NotFoundError msg details" by (auto simp: cut_release_query_def)
    with unknown show ?thesis by simp
  next
    case (fresh p)
    have pp: "parses (p_base_version p)" "cut_product_id data \<in> p_id ` set (products db)"
      using fresh(1,2) k(4) imageI[OF fresh(1), of p_id] by (auto simp: all_parse_def)
    from fresh(4) k(1,2,4) pp show ?thesis
      by (cases rule: fresh_cut_cases) (use pp assms(3) in simp_all)
  qed simp
qed

theorem cut_failures_exact_witness:
  "\<exists>e. cut_release_query ''r1'' 5 (cut_request None) (sample_database\<lparr>versions := []\<rparr>)
     = (Inl e, sample_database\<lparr>versions := []\<rparr>) \<and> e = nothing_to_release ''p''"
proof -
  let ?db = "sample_database\<lparr>versions := []\<rparr>"
  have ok: "cut_ready ?db"
    using cut_ready_sample
    by (simp add: cut_ready_def schema_ok_def releases_ok_def manifest_ok_def all_parse_def one_active_def)
       (simp add: sample_defs)
  have act: "select_active_components ''p'' ?db = []"
    by (simp add: select_active_components_def sample_defs)
  then obtain e db' where run: "cut_release_query ''r1'' 5 (cut_request None) ?db = (Inl e, db')"
    by (simp add: cut_release_query_def cut_request_def select_products_by_id_def fresh_cut_def sample_defs)
  have "''r1'' \<notin> r_id ` set (releases ?db)" by (simp add: sample_defs)
  from cut_failures_exact[OF run ok this] run show ?thesis by (auto simp: cut_request_def sample_defs)
qed

lemma sample_cut:
  "\<exists>result db'. cut_release_query ''r1'' 5 (cut_request key) sample_database = (Inr result, db') \<and> crr_created result \<and>
     releases db' \<noteq> []"
proof -
  obtain res db' where run: "cut_release_query ''r1'' 5 (cut_request key) sample_database = (res, db')"
    by (cases "cut_release_query ''r1'' 5 (cut_request key) sample_database")
  note k = cut_ready_parts[OF cut_ready_sample]
  have no: "r_id ` set (releases sample_database) = {}" by (simp add: sample_defs)
  have pid: "cut_product_id (cut_request key) = ''p''" by (simp add: cut_request_def)
  from run k(1,2,4) show ?thesis
  proof (cases rule: cut_release_query_cases)
    case (unknown e)
    then show ?thesis by (simp add: sample_defs cut_request_def)
  next
    case (replay key' r release)
    with no show ?thesis by auto
  next
    case (fresh p)
    have pp: "parses (p_base_version p)" "cut_product_id (cut_request key) \<in> p_id ` set (products sample_database)"
      using fresh(1,2) k(4) imageI[OF fresh(1), of p_id] by (auto simp: all_parse_def)
    from fresh(4) k(1,2,4) pp show ?thesis
    proof (cases rule: fresh_cut_cases)
      case nothing
      with sample_active pid show ?thesis by simp
    next
      case collision
      with no show ?thesis by auto
    next
      case (cut bump rationale change version)
      with run show ?thesis by (simp add: cut_result_def after_cut_def)
    qed
  qed
qed

theorem cut_pins_active_versions_witness:
  "\<exists>result db' row. cut_release_query ''r1'' 5 (cut_request None) sample_database = (Inr result, db') \<and>
     releases db' = [row] \<and> r_id row = ''r1''"
proof -
  obtain result db' where run: "cut_release_query ''r1'' 5 (cut_request None) sample_database = (Inr result, db')"
    "crr_created result" using sample_cut by blast
  from cut_pins_active_versions[OF run cut_ready_sample] run show ?thesis by (auto simp: sample_defs)
qed

text \<open>The legacy policy keeps the old rule. For a product whose stored policy is anything but
  the default one, a fresh cut bumps exactly as the old minor-only function did (minor bump of
  the latest product version, or of the base version for the first), records the level minor,
  and stores no rationale and no per-component change level.\<close>

theorem legacy_cut_is_minor_bump:
  assumes run: "cut_release_query i now data db = (Inr result, db')" and fresh: "crr_created result"
    and ok: "cut_ready db" and p: "p \<in> set (products db)" "p_id p = cut_product_id data"
    and legacy: "p_bump_policy p \<noteq> bump_policy_value POLICY_DEFAULT"
  shows "next_product_version
      (map_option r_product_version (fetchone (select_latest_release (cut_product_id data) db))) (p_base_version p)
      = Inr (rr_product_version (crr_release result)) \<and>
    rr_bump_level (crr_release result) = Some ''minor'' \<and> rr_bump_rationale (crr_release result) = None \<and>
    (\<forall>e\<in>set (rr_components (crr_release result)). rcr_change_level e = None)"
proof -
  note k = cut_ready_parts[OF ok]
  from run k(1,2,4) show ?thesis
  proof (cases rule: cut_release_query_cases)
    case (fresh q)
    have "q = p" using pkD[of p_id "products db" q p] fresh(1,2) p k(1) by (simp add: schema_ok_def)
    with fresh have run': "fresh_cut i now data (p_base_version p) (p_bump_policy p) db = (Inr result, db')" by simp
    have pp: "parses (p_base_version p)" "cut_product_id data \<in> p_id ` set (products db)"
      using p k(4) imageI[OF p(1), of p_id] by (auto simp: all_parse_def)
    from run' k(1,2,4) pp show ?thesis
    proof (cases rule: fresh_cut_cases)
      case (cut bump rationale change version)
      have d: "bump = BL_MINOR" "rationale = None" "change = []"
        using cut(2) legacy by (simp_all add: derive_legacy)
      have "current_version (select_latest_release (cut_product_id data) db) (p_base_version p) =
          (case map_option r_product_version (fetchone (select_latest_release (cut_product_id data) db)) of
             None \<Rightarrow> p_base_version p | Some v \<Rightarrow> v)"
        by (simp add: current_version_def fetchone_def split: list.split)
      with cut(3,7) d show ?thesis
        by (auto simp: next_product_version_def apply_bump_def cut_result_def to_release_response_def cut_row_def
            manifest_entry_def)
    qed simp_all
  next
    case (replay key r release)
    with fresh show ?thesis by simp
  qed simp
qed

definition legacy_database :: database where
  "legacy_database = sample_database\<lparr>products := map (\<lambda>p. p\<lparr>p_bump_policy := ''legacy''\<rparr>) (products sample_database)\<rparr>"

theorem legacy_cut_is_minor_bump_witness:
  "\<exists>result db'. cut_release_query ''r1'' 5 (cut_request None) legacy_database = (Inr result, db') \<and>
     rr_bump_level (crr_release result) = Some ''minor''"
proof -
  have ok: "cut_ready legacy_database"
    using cut_ready_sample
    by (simp add: cut_ready_def schema_ok_def releases_ok_def manifest_ok_def all_parse_def one_active_def
        legacy_database_def fk_def pk_def o_def image_image)
  note k = cut_ready_parts[OF ok]
  obtain res db' where run: "cut_release_query ''r1'' 5 (cut_request None) legacy_database = (res, db')"
    by (cases "cut_release_query ''r1'' 5 (cut_request None) legacy_database")
  have none: "releases legacy_database = []" by (simp add: legacy_database_def sample_defs)
  have "\<not> isl res"
  proof
    assume "isl res"
    then obtain e where "res = Inl e" by (cases res) auto
    from cut_failures_exact[OF run[unfolded this] ok] none
    show False by (simp add: cut_request_def legacy_database_def select_active_components_def sample_defs)
  qed
  then obtain result where res: "res = Inr result" by (cases res) auto
  have created: "crr_created result"
    using run[unfolded res] k(1,2,4)
    by (cases rule: cut_release_query_cases)
       (use none in \<open>auto simp: fresh_cut_def Let_def split: sum.splits option.splits prod.splits if_splits\<close>)
  obtain p where p: "p \<in> set (products legacy_database)" "p_id p = cut_product_id (cut_request None)"
      "p_bump_policy p \<noteq> bump_policy_value POLICY_DEFAULT"
    by (simp add: legacy_database_def sample_defs cut_request_def)
  from legacy_cut_is_minor_bump[OF run[unfolded res] created ok p] run res show ?thesis by blast
qed

end
