(* ===== verification/Release_Reads.thy ===== *)
theory Release_Reads
  imports Releases "HOL-Library.Multiset"
begin

text \<open>
  \<open>app/queries/releases_read\<close>: the manifest reader, a single release and a product's ledger.
  The second half relates two databases of which one grew out of the other, and shows that a
  release once cut reads the same in both.
\<close>

section \<open>Reading\<close>

definition reader_component :: "manifest_row \<Rightarrow> release_component_response" where
  "reader_component row =
     (case row of (rc, c, v) \<Rightarrow>
        \<lparr>rcr_component_id = rc_component_id rc, rcr_name = c_name c, rcr_version_id = rc_version_id rc,
         rcr_version = version_string (v_major v) (v_minor v) (v_patch v) (v_prerelease v),
         rcr_change_level = rc_change_level rc\<rparr>)"

definition row_release :: "manifest_row \<Rightarrow> ident" where
  "row_release row = (case row of (rc, c, v) \<Rightarrow> rc_release_id rc)"

definition reader_key :: "manifest_row \<Rightarrow> string \<times> ident" where
  "reader_key row = (case row of (rc, c, v) \<Rightarrow> (c_name c, rc_component_id rc))"

definition select_manifests :: "ident list \<Rightarrow> database \<Rightarrow> manifest_row list" where
  "select_manifests release_ids db =
     order_by reader_key
       (join_manifest (filter (\<lambda>rc. rc_release_id rc \<in> set release_ids) (release_components db)) db)"

definition read_manifests :: "ident list \<Rightarrow> database \<Rightarrow> (ident, release_component_response list) dict" where
  "read_manifests release_ids db =
     (if release_ids = [] then []
      else group_rows row_release reader_component (select_manifests release_ids db) [])"

definition manifest_for :: "(ident, release_component_response list) dict \<Rightarrow> ident \<Rightarrow> release_component_response list" where
  "manifest_for manifests i = (case dict_get manifests i of None \<Rightarrow> [] | Some cs \<Rightarrow> cs)"

definition release_to_model :: "release_row \<Rightarrow> release_component_response list \<Rightarrow> release_response" where
  "release_to_model r cs =
     \<lparr>rr_id = r_id r, rr_product_id = r_product_id r, rr_product_version = r_product_version r,
      rr_label = r_label r, rr_notes = r_notes r, rr_created_at = isoformat (r_created_at r),
      rr_bump_level = r_bump_level r, rr_bump_rationale = r_bump_rationale r, rr_components = cs\<rparr>"

definition get_release_by_id_query :: "ident \<Rightarrow> database \<Rightarrow> release_response outcome" where
  "get_release_by_id_query release_id db =
     (case fetchone (select_release_by_id release_id db) of
        None \<Rightarrow> Inl (NotFoundError (''No release exists with id '' @ squoted release_id @ ''.'')
                      [(''release_id'', JStr release_id)])
      | Some row \<Rightarrow>
          let i = r_id row
          in Inr (release_to_model row (manifest_for (read_manifests [i] db) i)))"

definition select_releases_of_product :: "ident \<Rightarrow> database \<Rightarrow> release_row list" where
  "select_releases_of_product pid db =
     order_by_desc (\<lambda>r. (r_created_at r, r_id r)) (filter (\<lambda>r. r_product_id r = pid) (releases db))"

definition list_releases_by_product_query :: "ident \<Rightarrow> database \<Rightarrow> release_response list outcome" where
  "list_releases_by_product_query pid db =
     (if fetchone (select_products_by_id pid db) = None
      then Inl (NotFoundError (''No product exists with id '' @ squoted pid @ ''.'') [(''product_id'', JStr pid)])
      else
        let rows = select_releases_of_product pid db;
            manifests = read_manifests (map r_id rows) db
        in Inr (map (\<lambda>row. release_to_model row (manifest_for manifests (r_id row))) rows))"

section \<open>A manifest read alone or with others\<close>

lemma map_sort_key: "sort_key k (map f xs) = map f (sort_key (\<lambda>x. k (f x)) xs)"
proof -
  have ins: "insort_key k (f x) (map f ys) = map f (insort_key (\<lambda>x. k (f x)) x ys)" for x ys
    by (induction ys) auto
  show ?thesis by (induction xs) (simp_all add: ins)
qed

lemma filter_join_manifest:
  "filter (\<lambda>row. row_release row = i) (join_manifest rcs db) =
     join_manifest (filter (\<lambda>rc. rc_release_id rc = i) rcs) db"
proof (induction rcs)
  case (Cons rc rcs)
  have split: "join_manifest (rc # rcs) db = join_manifest [rc] db @ join_manifest rcs db" for rc rcs
    by (simp add: join_manifest_def)
  have "\<forall>row\<in>set (join_manifest [rc] db). row_release row = rc_release_id rc"
    by (auto simp: join_manifest_def row_release_def)
  then have "filter (\<lambda>row. row_release row = i) (join_manifest [rc] db) =
      (if rc_release_id rc = i then join_manifest [rc] db else [])"
    by (cases "rc_release_id rc = i") simp_all
  with Cons show ?case 
    by (simp add: split[of rc rcs] split[of rc "filter (\<lambda>rc. rc_release_id rc = i) rcs"])
qed (simp add: join_manifest_def)

lemma manifest_for_read:
  assumes "i \<in> set ids"
  shows "manifest_for (read_manifests ids db) i =
    map reader_component (order_by reader_key
      (join_manifest (filter (\<lambda>rc. rc_release_id rc = i) (release_components db)) db))"
proof -
  have ne: "ids \<noteq> []" using assms by auto
  have "manifest_for (read_manifests ids db) i =
      map reader_component (filter (\<lambda>row. row_release row = i) (select_manifests ids db))"
    using group_rows_get[of row_release reader_component "select_manifests ids db" i]
    by (simp add: manifest_for_def read_manifests_def ne)
  also have "filter (\<lambda>row. row_release row = i) (select_manifests ids db) =
      order_by reader_key (join_manifest (filter (\<lambda>rc. rc_release_id rc = i)
        (filter (\<lambda>rc. rc_release_id rc \<in> set ids) (release_components db))) db)"
    unfolding select_manifests_def order_by_def filter_sort filter_join_manifest ..
  also have "filter (\<lambda>rc. rc_release_id rc = i) (filter (\<lambda>rc. rc_release_id rc \<in> set ids) (release_components db))
      = filter (\<lambda>rc. rc_release_id rc = i) (release_components db)"
    using assms by (auto simp: filter_filter intro: filter_cong)
  finally show ?thesis .
qed

definition release_view :: "release_row \<Rightarrow> database \<Rightarrow> release_response" where
  "release_view r db = release_to_model r (map reader_component (order_by reader_key
      (join_manifest (filter (\<lambda>rc. rc_release_id rc = r_id r) (release_components db)) db)))"

lemma get_release_view:
  assumes "pk r_id (releases db)" "r \<in> set (releases db)"
  shows "get_release_by_id_query (r_id r) db = Inr (release_view r db)"
proof -
  have "select_release_by_id (r_id r) db = [r]"
    unfolding select_release_by_id_def by (rule fetchone_by_key[OF assms refl])
  then show ?thesis
    by (simp add: get_release_by_id_query_def Let_def release_view_def manifest_for_read)
qed

lemma list_releases_views:
  assumes "pid \<in> p_id ` set (products db)"
  shows "list_releases_by_product_query pid db =
    Inr (map (\<lambda>r. release_view r db) (select_releases_of_product pid db))"
proof -
  let ?rows = "select_releases_of_product pid db"
  have "release_to_model r (manifest_for (read_manifests (map r_id ?rows) db) (r_id r)) = release_view r db"
    if "r \<in> set ?rows" for r
    using that by (simp add: release_view_def manifest_for_read)
  moreover have "fetchone (select_products_by_id pid db) \<noteq> None" using assms select_product_None by blast
  ultimately show ?thesis by (simp add: list_releases_by_product_query_def Let_def)
qed

section \<open>Growth\<close>

text \<open>
  What every operation of the program does to the tables a release is read from: rows are
  only appended, a version row may change its status and nothing else, and no manifest row is
  added to a release that already existed.
\<close>

definition extends :: "database \<Rightarrow> database \<Rightarrow> bool" where
  "extends db db' \<longleftrightarrow>
     prefix (releases db) (releases db') \<and> prefix (components db) (components db') \<and>
     prefix (history (versions db)) (history (versions db')) \<and>
     (\<exists>new. release_components db' = release_components db @ new \<and>
        (\<forall>rc\<in>set new. rc_release_id rc \<notin> r_id ` set (releases db)))"

lemma extends_refl: "extends db db"
  by (simp add: extends_def)

lemma extends_trans:
  assumes "extends a b" "extends b c"
  shows "extends a c"
proof -
  from assms obtain n m where n: "release_components b = release_components a @ n"
    "\<forall>rc\<in>set n. rc_release_id rc \<notin> r_id ` set (releases a)"
    and m: "release_components c = release_components b @ m"
    "\<forall>rc\<in>set m. rc_release_id rc \<notin> r_id ` set (releases b)"
    by (auto simp: extends_def)
  have "set (releases a) \<subseteq> set (releases b)" using assms(1) by (auto simp: extends_def prefix_def)
  then have "\<forall>rc\<in>set (n @ m). rc_release_id rc \<notin> r_id ` set (releases a)" using n(2) m(2) by auto
  moreover have "release_components c = release_components a @ (n @ m)" using n(1) m(1) by simp
  moreover have "prefix (releases a) (releases c)" "prefix (components a) (components c)"
    "prefix (history (versions a)) (history (versions c))"
    using assms by (auto simp: extends_def intro: prefix_order.trans)
  ultimately show ?thesis unfolding extends_def by blast
qed

definition pin_view :: "manifest_row \<Rightarrow> manifest_row" where
  "pin_view row = (case row of (rc, c, v) \<Rightarrow> (rc, c, set_status ACTIVE v))"

lemma history_row:
  assumes "prefix (history vs) (history vs')" "v \<in> set vs"
  obtains v' where "v' \<in> set vs'" "set_status ACTIVE v' = set_status ACTIVE v"
proof -
  have "set_status ACTIVE v \<in> set (history vs)" using assms(2) by (simp add: history_def)
  with assms(1) have "set_status ACTIVE v \<in> set (history vs')" using set_mono_prefix by blast
  then obtain v' where "v' \<in> set vs'" "set_status ACTIVE v = set_status ACTIVE v'"
    by (auto simp: history_def)
  then show ?thesis by (intro that[of v']) simp_all
qed

lemma same_history_fields:
  assumes "set_status ACTIVE v' = set_status ACTIVE v"
  shows "v_id v' = v_id v" "v_component_id v' = v_component_id v" "v_major v' = v_major v"
    "v_minor v' = v_minor v" "v_patch v' = v_patch v" "v_prerelease v' = v_prerelease v"
  using assms by (metis set_status_simps)+

lemma join_view_same:
  assumes keys: "pk c_id (components db)" "pk v_id (versions db)" "pk c_id (components db')" "pk v_id (versions db')"
    and grow: "prefix (components db) (components db')" "prefix (history (versions db)) (history (versions db'))"
    and pins: "\<forall>rc\<in>set rcs. \<exists>c\<in>set (components db). \<exists>v\<in>set (versions db).
                 c_id c = rc_component_id rc \<and> v_id v = rc_version_id rc"
  shows "map pin_view (join_manifest rcs db') = map pin_view (join_manifest rcs db)"
  using pins
proof (induction rcs)
  case (Cons rc rcs)
  then obtain c v where cv: "c \<in> set (components db)" "v \<in> set (versions db)"
    "c_id c = rc_component_id rc" "v_id v = rc_version_id rc" by auto
  have c': "c \<in> set (components db')" using grow(1) cv(1) by (auto simp: prefix_def)
  obtain v' where v': "v' \<in> set (versions db')" "set_status ACTIVE v' = set_status ACTIVE v"
    by (rule history_row[OF grow(2) cv(2)])
  have "v_id v' = rc_version_id rc" using same_history_fields(1)[OF v'(2)] cv(4) by simp
  from join_manifest_Cons[OF keys(1,2) cv(1,3,2,4)] join_manifest_Cons[OF keys(3,4) c' cv(3) v'(1) this]
  show ?case using Cons v'(2) by (simp add: pin_view_def)
qed simp

lemma reader_component_view [simp]: "reader_component (pin_view row) = reader_component row"
  by (simp add: reader_component_def pin_view_def split: prod.split)

lemma reader_key_view [simp]: "reader_key (pin_view row) = reader_key row"
  by (simp add: reader_key_def pin_view_def split: prod.split)

lemma view_determines:
  assumes "map pin_view rows = map pin_view rows'"
  shows "map reader_component (order_by reader_key rows) = map reader_component (order_by reader_key rows')"
proof -
  have "map reader_component (order_by reader_key rs) =
      map reader_component (order_by reader_key (map pin_view rs))" for rs
    by (simp add: order_by_def map_sort_key o_def)
  with assms show ?thesis by metis
qed

lemma release_view_extends:
  assumes "schema_ok db" "schema_ok db'" "extends db db'" "r \<in> set (releases db)"
    and "manifest_ok (release_components db) (components db) (versions db) (releases db)"
  shows "release_view r db' = release_view r db"
proof -
  let ?F = "filter (\<lambda>rc. rc_release_id rc = r_id r)"
  obtain new where new: "release_components db' = release_components db @ new"
    "\<forall>rc\<in>set new. rc_release_id rc \<notin> r_id ` set (releases db)"
    using assms(3) by (auto simp: extends_def)
  have "?F new = []" using new(2) assms(4) by (auto simp: filter_empty_conv)
  then have same: "?F (release_components db') = ?F (release_components db)" by (simp add: new(1))
  have pks: "pk c_id (components db)" "pk v_id (versions db)" "pk c_id (components db')" "pk v_id (versions db')"
    using assms(1,2) by (simp_all add: schema_ok_def)
  have grow: "prefix (components db) (components db')" "prefix (history (versions db)) (history (versions db'))"
    using assms(3) by (simp_all add: extends_def)
  have "\<forall>rc\<in>set (?F (release_components db)). \<exists>c\<in>set (components db). \<exists>v\<in>set (versions db).
      c_id c = rc_component_id rc \<and> v_id v = rc_version_id rc"
    using assms(5) unfolding manifest_ok_def by fastforce
  from view_determines[OF join_view_same[OF pks grow this]] show ?thesis
    by (simp add: release_view_def same)
qed

lemma manifest_ok_extends:
  assumes "manifest_ok rcs cs vs rs" "set cs \<subseteq> set cs'" "prefix (history vs) (history vs')" "set rs \<subseteq> set rs'"
  shows "manifest_ok rcs cs' vs' rs'"
  unfolding manifest_ok_def
proof
  fix rc assume "rc \<in> set rcs"
  then obtain c v r where cvr: "c \<in> set cs" "v \<in> set vs" "r \<in> set rs" "c_id c = rc_component_id rc"
    "v_id v = rc_version_id rc" "v_component_id v = c_id c" "r_id r = rc_release_id rc"
    "c_product_id c = r_product_id r" using assms(1) unfolding manifest_ok_def by blast
  obtain v' where v': "v' \<in> set vs'" "set_status ACTIVE v' = set_status ACTIVE v"
    by (rule history_row[OF assms(3) cvr(2)])
  from cvr v' same_history_fields[OF v'(2)] assms(2,4)
  show "\<exists>c\<in>set cs'. \<exists>v\<in>set vs'. \<exists>r\<in>set rs'. c_id c = rc_component_id rc \<and> v_id v = rc_version_id rc \<and>
      v_component_id v = c_id c \<and> r_id r = rc_release_id rc \<and> c_product_id c = r_product_id r"
    by (intro bexI[of _ c] bexI[of _ v'] bexI[of _ r]) auto
qed

section \<open>What was returned at the cut is what is read back\<close>

lemma in_join_manifest:
  "(rc, c, v) \<in> set (join_manifest rcs db) \<Longrightarrow>
     rc \<in> set rcs \<and> c \<in> set (components db) \<and> v \<in> set (versions db) \<and>
     c_id c = rc_component_id rc \<and> v_id v = rc_version_id rc"
  by (auto simp: join_manifest_def)

lemma reader_is_mapper: "v_prerelease v \<noteq> Some [] \<Longrightarrow> reader_component (rc, c, v) = to_release_component (rc, c, v)"
  using renderers_agree_iff[of "v_major v" "v_minor v" "v_patch v" "v_prerelease v"]
  by (simp add: reader_component_def to_release_component_def)

lemma view_after_cut:
  assumes ok: "schema_ok db" and fresh: "r_id row \<notin> r_id ` set (releases db)"
    and pre: "\<forall>r\<in>set (select_active_components pid db). ar_prerelease r \<noteq> Some []"
  shows "mset (rr_components (release_view row (after_cut row change (select_active_components pid db) db))) =
    mset (map (manifest_entry change) (select_active_components pid db))"
proof -
  let ?rs = "select_active_components pid db"
  let ?db = "after_cut row change ?rs db"
  have none: "filter (\<lambda>rc. rc_release_id rc = r_id row) (release_components db) = []"
    unfolding filter_empty_conv
  proof (intro ballI notI)
    fix rc assume "rc \<in> set (release_components db)" "rc_release_id rc = r_id row"
    with fkD[of rc_release_id "release_components db" r_id "releases db" rc] ok fresh show False
      by (auto simp: schema_ok_def image_iff)
  qed
  have pins: "filter (\<lambda>rc. rc_release_id rc = r_id row) (release_components ?db) = map (pin_row (r_id row) change) ?rs"
    by (simp add: after_cut_def none filter_map o_def)
  have pks: "pk c_id (components ?db)" "pk v_id (versions ?db)" using ok by (simp_all add: schema_ok_def after_cut_def)
  have act: "\<forall>r\<in>set ?rs. \<exists>c\<in>set (components ?db). \<exists>v\<in>set (versions ?db). r = active_record_of c v"
    by (auto simp: after_cut_def elim!: active_record_cases)
  from join_pins[OF pks act, of "r_id row" change] obtain rows where
    j: "join_manifest (map (pin_row (r_id row) change) ?rs) ?db = rows"
    and m: "map to_release_component rows = map (manifest_entry change) ?rs" by auto
  have "reader_component row' = to_release_component row'" if row': "row' \<in> set rows" for row'
  proof -
    obtain rc c v where r: "row' = (rc, c, v)" by (cases row')
    have "(rc, c, v) \<in> set (join_manifest (map (pin_row (r_id row) change) ?rs) ?db)"
      using row' by (simp only: j r)
    from in_join_manifest[OF this] obtain a where a: "a \<in> set ?rs" "rc = pin_row (r_id row) change a"
      and v: "v \<in> set (versions ?db)" "v_id v = rc_version_id rc" by auto
    from act a(1) obtain c0 v0 where v0: "v0 \<in> set (versions ?db)" "a = active_record_of c0 v0" by blast
    have "v = v0" by (rule pkD[OF pks(2) v(1) v0(1)]) (simp add: v(2) a(2) v0(2))
    with pre a(1) v0(2) have "v_prerelease v \<noteq> Some []" by auto
    then show ?thesis by (simp add: r reader_is_mapper)
  qed
  then have "map reader_component rows = map (manifest_entry change) ?rs" using m by (simp cong: map_cong)
  then have "mset (map reader_component rows) = mset (map (manifest_entry change) ?rs)" by simp
  then show ?thesis
    by (simp add: release_view_def release_to_model_def pins j order_by_def)
qed

section \<open>Replaying a cut\<close>

lemma mapper_component_view [simp]: "to_release_component (pin_view row) = to_release_component row"
  by (simp add: to_release_component_def pin_view_def split: prod.split)

lemma view_component_id [simp]: "(case pin_view row of (rc, c, v) \<Rightarrow> c_id c) = (case row of (rc, c, v) \<Rightarrow> c_id c)"
  by (simp add: pin_view_def split: prod.split)

lemma load_release_extends:
  assumes "schema_ok db" "schema_ok db'" "extends db db'" "r \<in> set (releases db)"
    and "manifest_ok (release_components db) (components db) (versions db) (releases db)"
  shows "load_release (r_id r) db' = load_release (r_id r) db"
proof -
  let ?F = "filter (\<lambda>rc. rc_release_id rc = r_id r)"
  obtain new where new: "release_components db' = release_components db @ new"
    "\<forall>rc\<in>set new. rc_release_id rc \<notin> r_id ` set (releases db)"
    using assms(3) by (auto simp: extends_def)
  have "?F new = []" using new(2) assms(4) by (auto simp: filter_empty_conv)
  then have same: "?F (release_components db') = ?F (release_components db)" by (simp add: new(1))
  have pks: "pk c_id (components db)" "pk v_id (versions db)" "pk c_id (components db')" "pk v_id (versions db')"
    "pk r_id (releases db)" "pk r_id (releases db')"
    using assms(1,2) by (simp_all add: schema_ok_def)
  have grow: "prefix (components db) (components db')" "prefix (history (versions db)) (history (versions db'))"
    "r \<in> set (releases db')"
    using assms(3,4) by (auto simp: extends_def dest: set_mono_prefix)
  have "\<forall>rc\<in>set (?F (release_components db)). \<exists>c\<in>set (components db). \<exists>v\<in>set (versions db).
      c_id c = rc_component_id rc \<and> v_id v = rc_version_id rc"
    using assms(5) unfolding manifest_ok_def by fastforce
  note view = join_view_same[OF pks(1-4) grow(1,2) this]
  let ?k = "\<lambda>(rc, c, v). c_id c"
  have out: "map to_release_component (order_by ?k rs) = map to_release_component (order_by ?k (map pin_view rs))" for rs
    by (simp add: order_by_def map_sort_key o_def)
  have "to_release_components (select_release_manifest (r_id r) db') = to_release_components (select_release_manifest (r_id r) db)"
    unfolding to_release_components_def select_release_manifest_def same by (subst (1 2) out) (simp only: view)
  moreover have "select_release_by_id (r_id r) d = [r]" if "pk r_id (releases d)" "r \<in> set (releases d)" for d
    unfolding select_release_by_id_def by (rule fetchone_by_key[OF that refl])
  ultimately show ?thesis using pks(5,6) assms(4) grow(3) by (simp add: load_release_def Let_def)
qed

lemma fresh_result_loads:
  assumes run: "cut_release_query i now data db = (Inr result, db')" and ok: "cut_ready db"
  obtains r where "r \<in> set (releases db')" "r_product_id r = cut_product_id data"
    "load_release (r_id r) db' = Inr (crr_release result)"
    "cut_idempotency_key data \<noteq> None \<Longrightarrow> r_idempotency_key r = cut_idempotency_key data"
proof -
  note k = cut_ready_parts[OF ok]
  from run k(1,2,4) show ?thesis
  proof (cases rule: cut_release_query_cases)
    case (replay key r release)
    then show ?thesis by (intro that[of r]) simp_all
  next
    case (fresh p)
    have pp: "parses (p_base_version p)" "cut_product_id data \<in> p_id ` set (products db)"
      using fresh(1,2) k(4) imageI[OF fresh(1), of p_id] by (auto simp: all_parse_def)
    from fresh(4) k(1,2,4) pp show ?thesis
    proof (cases rule: fresh_cut_cases)
      case (cut bump rationale change version)
      let ?row = "cut_row i now data version bump rationale"
      have "load_release i db' = Inr (crr_release result)"
        using load_after_cut[OF k(1) cut(5), of ?row db' change "cut_product_id data"] cut(6,7)
        by (simp add: after_cut_def cut_result_def)
      then show ?thesis by (intro that[of ?row]) (simp_all add: cut(6) after_cut_def)
    qed simp_all
  qed simp
qed

section \<open>Properties\<close>

text \<open>C12: Cutting is idempotent per key. Once a cut with an idempotency key has answered, repeating
  it with that key at any later state, whatever label, notes, clock and identifier the repeat
  brings and whatever versions, edges and releases were created in between, answers the very
  same release, reports it as not created, and changes nothing.\<close>

theorem cut_replay_idempotent:
  assumes first: "cut_release_query i now data db = (Inr result, db1)" and ok: "cut_ready db"
    and key: "cut_idempotency_key data = Some key"
    and later: "extends db1 db2" "cut_ready db2"
    and same: "cut_product_id again = cut_product_id data" "cut_idempotency_key again = Some key"
  shows "cut_release_query i' now' again db2 = (Inr \<lparr>crr_release = crr_release result, crr_created = False\<rparr>, db2)"
proof -
  note k = cut_ready_parts[OF ok] and k2 = cut_ready_parts[OF later(2)]
  from fresh_result_loads[OF first ok] key obtain r where r: "r \<in> set (releases db1)"
      "r_product_id r = cut_product_id data" "load_release (r_id r) db1 = Inr (crr_release result)"
      "r_idempotency_key r = Some key"
    by (metis option.distinct(1))
  have keeps: "schema_ok db1" "releases_ok db1"
    using cut_release_query_keeps[OF first k(1-3)] by simp_all
  have r2: "r \<in> set (releases db2)" using later(1) r(1) by (auto simp: extends_def dest: set_mono_prefix)
  have load: "load_release (r_id r) db2 = Inr (crr_release result)"
    using load_release_extends[OF keeps(1) k2(1) later(1) r(1)] keeps(2) r(3) by (simp add: releases_ok_def)
  obtain res db3 where run: "cut_release_query i' now' again db2 = (res, db3)"
    by (cases "cut_release_query i' now' again db2")
  have pid: "cut_product_id again \<in> p_id ` set (products db2)"
    using fkD[of r_product_id "releases db2" p_id "products db2" r] k2(1) r2 r(2) same(1)
    by (auto simp: schema_ok_def intro: rev_image_eqI)
  from run k2(1,2,4) show ?thesis
  proof (cases rule: cut_release_query_cases)
    case (unknown e)
    with pid show ?thesis by simp
  next
    case (replay key' r' release)
    have "r' = r"
      using k2(5) replay(1-4) r2 r(2,4) same unfolding idem_unique_def by auto
    with replay load run show ?thesis by simp
  next
    case (fresh p)
    then show ?thesis using r2 r(2,4) same by auto
  qed
qed

theorem cut_replay_idempotent_witness:
  "\<exists>result db1. cut_release_query ''r1'' 5 (cut_request (Some ''k'')) sample_database = (Inr result, db1) \<and>
     cut_release_query ''r2'' 9 (cut_request (Some ''k'')) db1
       = (Inr \<lparr>crr_release = crr_release result, crr_created = False\<rparr>, db1)"
proof -
  obtain result db1 where run: "cut_release_query ''r1'' 5 (cut_request (Some ''k'')) sample_database = (Inr result, db1)"
    using sample_cut by blast
  note k = cut_ready_parts[OF cut_ready_sample]
  from cut_release_query_keeps[OF run k(1-3)] k(2) have "cut_ready db1" by (simp add: cut_ready_def)
  from cut_replay_idempotent[OF run cut_ready_sample _ extends_refl this, of "''k''" "cut_request (Some ''k'')" "''r2''" 9] run
  show ?thesis by (auto simp: cut_request_def)
qed

lemma release_view_ordered:
  "sorted (map (\<lambda>e. (rcr_name e, rcr_component_id e)) (rr_components (release_view r db)))"
proof -
  have "(\<lambda>e. (rcr_name e, rcr_component_id e)) \<circ> reader_component = reader_key"
    by (intro ext) (simp add: reader_component_def reader_key_def split: prod.split)
  then show ?thesis by (simp add: release_view_def release_to_model_def order_by_def)
qed

text \<open>C39: The answer of a fresh cut and the later read by identifier describe the same release: all
  scalar fields are equal and the manifests hold the same entries, provided no version the cut pins
  has an empty-string prerelease (the two paths render that one case differently). The entries are
  ordered by component id in the answer, and by component name, then component id, in the read.\<close>

theorem cut_answer_matches_read:
  assumes run: "cut_release_query i now data db = (Inr result, db')" and fresh: "crr_created result"
    and ok: "cut_ready db"
    and no_empty: "\<forall>r\<in>set (select_active_components (cut_product_id data) db). ar_prerelease r \<noteq> Some []"
  shows "\<exists>read. get_release_by_id_query i db' = Inr read \<and>
    read\<lparr>rr_components := []\<rparr> = (crr_release result)\<lparr>rr_components := []\<rparr> \<and>
    mset (rr_components read) = mset (rr_components (crr_release result)) \<and>
    sorted (map rcr_component_id (rr_components (crr_release result))) \<and>
    sorted (map (\<lambda>e. (rcr_name e, rcr_component_id e)) (rr_components read))"
proof -
  note k = cut_ready_parts[OF ok]
  let ?rs = "select_active_components (cut_product_id data) db"
  from run k(1,2,4) show ?thesis
  proof (cases rule: cut_release_query_cases)
    case (fresh p)
    have pp: "parses (p_base_version p)" "cut_product_id data \<in> p_id ` set (products db)"
      using fresh(1,2) k(4) imageI[OF fresh(1), of p_id] by (auto simp: all_parse_def)
    from fresh(4) k(1,2,4) pp show ?thesis
    proof (cases rule: fresh_cut_cases)
      case (cut bump rationale change version)
      let ?row = "cut_row i now data version bump rationale"
      have "schema_ok db'" using cut_release_query_keeps[OF run k(1-3)] by simp
      moreover have "?row \<in> set (releases db')" by (simp add: cut(6) after_cut_def)
      ultimately have read: "get_release_by_id_query i db' = Inr (release_view ?row db')"
        using get_release_view[of db' ?row] by (simp add: schema_ok_def)
      from view_after_cut[OF k(1) _ no_empty, of ?row change] cut(5,6)
      have "mset (rr_components (release_view ?row db')) = mset (map (manifest_entry change) ?rs)" by simp
      moreover have "sorted (map rcr_component_id (map (manifest_entry change) ?rs))"
        using active_ids_sorted[of "cut_product_id data" db] by (simp add: active_ids_def manifest_entry_def o_def)
      ultimately show ?thesis
        using read cut(7) release_view_ordered[of ?row db']
        by (simp add: cut_result_def to_release_response_def release_view_def release_to_model_def)
    qed (use assms(1) in simp_all)
  next
    case (replay key r release)
    with fresh show ?thesis by simp
  qed simp
qed

theorem cut_answer_matches_read_witness:
  "\<exists>result db' read. cut_release_query ''r1'' 5 (cut_request None) sample_database = (Inr result, db') \<and>
     get_release_by_id_query ''r1'' db' = Inr read \<and>
     mset (rr_components read) = mset (rr_components (crr_release result))"
proof -
  obtain result db' where run: "cut_release_query ''r1'' 5 (cut_request None) sample_database = (Inr result, db')"
    "crr_created result" using sample_cut by blast
  have "\<forall>r\<in>set (select_active_components (cut_product_id (cut_request None)) sample_database). ar_prerelease r \<noteq> Some []"
    by (auto elim!: active_record_cases simp: sample_defs)
  from cut_answer_matches_read[OF run cut_ready_sample this] run show ?thesis by blast
qed

text \<open>The ledger agrees with the single reads: listing a product's releases gives every one of
  its releases exactly once, newest first, and each entry is exactly what reading that release
  by its identifier gives; an unknown product is a not-found error.\<close>

theorem ledger_agrees_with_reads:
  assumes "schema_ok db"
  shows "if pid \<in> p_id ` set (products db)
    then \<exists>rows. list_releases_by_product_query pid db = Inr (map (\<lambda>r. projr (get_release_by_id_query (r_id r) db)) rows) \<and>
      mset rows = mset (filter (\<lambda>r. r_product_id r = pid) (releases db)) \<and>
      sorted_wrt (\<lambda>r s. (r_created_at r, r_id r) \<ge> (r_created_at s, r_id s)) rows \<and>
      list_all (\<lambda>r. \<not> isl (get_release_by_id_query (r_id r) db)) rows
    else \<exists>msg details. list_releases_by_product_query pid db = Inl (NotFoundError msg details)"
proof (cases "pid \<in> p_id ` set (products db)")
  case True
  let ?rows = "select_releases_of_product pid db"
  have "get_release_by_id_query (r_id r) db = Inr (release_view r db)" if "r \<in> set ?rows" for r
    using get_release_view[of db r] assms that by (auto simp: schema_ok_def select_releases_of_product_def)
  then have "map (\<lambda>r. release_view r db) ?rows = map (\<lambda>r. projr (get_release_by_id_query (r_id r) db)) ?rows"
    "list_all (\<lambda>r. \<not> isl (get_release_by_id_query (r_id r) db)) ?rows"
    by (simp_all add: list_all_iff)
  moreover have "mset ?rows = mset (filter (\<lambda>r. r_product_id r = pid) (releases db))"
    by (simp add: select_releases_of_product_def order_by_desc_def)
  moreover have "sorted_wrt (\<lambda>r s. (r_created_at r, r_id r) \<ge> (r_created_at s, r_id s)) ?rows"
    unfolding select_releases_of_product_def by (rule order_by_desc_sorted)
  ultimately show ?thesis using True list_releases_views[OF True]
    by (simp only: if_True) (rule exI[of _ ?rows], simp)
next
  case False
  then have "fetchone (select_products_by_id pid db) = None" using select_product_None by blast
  then have "\<exists>msg details. list_releases_by_product_query pid db = Inl (NotFoundError msg details)"
    by (auto simp: list_releases_by_product_query_def)
  with False show ?thesis by simp
qed

theorem ledger_agrees_with_reads_witness:
  "list_releases_by_product_query ''p'' sample_database = Inr []"
proof -
  have "''p'' \<in> p_id ` set (products sample_database)" "releases sample_database = []" by (simp_all add: sample_defs)
  with ledger_agrees_with_reads[OF schema_ok_sample, of "''p''"] show ?thesis by auto
qed

end
