(* ===== verification/Timeline.thy ===== *)
theory Timeline
  imports Catalog
begin

text \<open>
  \<open>app/queries/timeline\<close> and its route: a product, its components and each component's
  versions, assembled from three selects by grouping the version rows in Python.
\<close>

definition select_versions_of_product :: "ident \<Rightarrow> database \<Rightarrow> version_row list" where
  "select_versions_of_product pid db =
     order_by_desc (\<lambda>v. (v_major v, v_minor v, v_patch v, v_id v))
       (concat (map (\<lambda>v. map (\<lambda>c. v)
                 (filter (\<lambda>c. c_id c = v_component_id v \<and> c_product_id c = pid) (components db)))
          (versions db)))"

text \<open>\<open>_read_product\<close> selects no base version: the response model's default applies.\<close>

definition read_product :: "ident \<Rightarrow> database \<Rightarrow> product_response option" where
  "read_product pid db =
     map_option (\<lambda>p. \<lparr>pr_id = p_id p, pr_name = p_name p, pr_description = p_description p,
                      pr_base_version = ''0.0.0'', pr_created_at = isoformat (p_created_at p)\<rparr>)
       (fetchone (select_products_by_id pid db))"

definition read_versions_by_component ::
  "ident \<Rightarrow> database \<Rightarrow> (ident, version_response list) dict outcome" where
  "read_versions_by_component pid db =
     (case map_outcome to_version_response (select_versions_of_product pid db) of
        Inl e \<Rightarrow> Inl e
      | Inr vs \<Rightarrow> Inr (group_rows vr_component_id (\<lambda>v. v) vs []))"

definition read_components ::
  "ident \<Rightarrow> database \<Rightarrow> (ident, version_response list) dict \<Rightarrow> component_with_versions_response list" where
  "read_components pid db versions_by_component =
     map (\<lambda>c. \<lparr>cw_id = c_id c, cw_product_id = c_product_id c, cw_name = c_name c, cw_kind = c_kind c,
               cw_versions = (case dict_get versions_by_component (c_id c) of None \<Rightarrow> [] | Some vs \<Rightarrow> vs)\<rparr>)
       (select_components_of_product pid db)"

definition timeline_query :: "ident \<Rightarrow> database \<Rightarrow> timeline_response option outcome" where
  "timeline_query pid db =
     (case read_product pid db of
        None \<Rightarrow> Inr None
      | Some product \<Rightarrow>
          (case read_versions_by_component pid db of
             Inl e \<Rightarrow> Inl e
           | Inr by_component \<Rightarrow>
               Inr (Some \<lparr>tl_product = product, tl_components = read_components pid db by_component\<rparr>)))"

definition get_timeline :: "ident \<Rightarrow> database \<Rightarrow> timeline_response outcome" where
  "get_timeline pid db =
     (case timeline_query pid db of
        Inl e \<Rightarrow> Inl e
      | Inr None \<Rightarrow> Inl (NotFoundError ''Product not found.'' [(''product_id'', JStr pid)])
      | Inr (Some timeline) \<Rightarrow> Inr timeline)"

section \<open>Grouping the joined rows\<close>

definition versions_newest_first :: "ident \<Rightarrow> database \<Rightarrow> version_row list" where
  "versions_newest_first cid db =
     order_by_desc (\<lambda>v. (v_major v, v_minor v, v_patch v, v_id v))
       (filter (\<lambda>v. v_component_id v = cid) (versions db))"

lemma filter_order_by_desc: "filter P (order_by_desc k rows) = order_by_desc k (filter P rows)"
  unfolding order_by_desc_def rev_filter[symmetric] filter_sort ..

lemma joined_versions:
  assumes "pk c_id (components db)" "c \<in> set (components db)" "c_product_id c = pid"
  shows "filter (\<lambda>v. v_component_id v = c_id c) (select_versions_of_product pid db) =
    versions_newest_first (c_id c) db"
proof -
  have one: "filter (\<lambda>c'. c_id c' = c_id c \<and> c_product_id c' = pid) (components db) = [c]"
    unfolding filter_filter[symmetric] fetchone_by_key[OF assms(1,2) refl] using assms(3) by simp
  have "filter (\<lambda>v. v_component_id v = c_id c)
      (concat (map (\<lambda>v. map (\<lambda>c. v) (filter (\<lambda>c. c_id c = v_component_id v \<and> c_product_id c = pid) (components db))) vs))
      = filter (\<lambda>v. v_component_id v = c_id c) vs" for vs :: "version_row list"
  proof (induction vs)
    case (Cons v vs)
    show ?case
    proof (cases "v_component_id v = c_id c")
      case True
      with Cons one show ?thesis by simp
    next
      case False
      with Cons show ?thesis by (auto simp: filter_empty_conv)
    qed
  qed simp
  then show ?thesis
    unfolding select_versions_of_product_def versions_newest_first_def filter_order_by_desc
    by (simp only:)
qed

lemma get_timeline_result:
  assumes ok: "schema_ok db" "\<forall>v\<in>set (versions db). parts_nonneg v" and p: "p \<in> set (products db)"
  shows "get_timeline (p_id p) db =
    Inr \<lparr>tl_product = (to_product_model p)\<lparr>pr_base_version := ''0.0.0''\<rparr>,
         tl_components = map (\<lambda>c. \<lparr>cw_id = c_id c, cw_product_id = c_product_id c, cw_name = c_name c,
             cw_kind = c_kind c, cw_versions = map version_fields (versions_newest_first (c_id c) db)\<rparr>)
           (select_components_of_product (p_id p) db)\<rparr>"
proof -
  let ?sel = "select_versions_of_product (p_id p) db"
  have pks: "pk p_id (products db)" "pk c_id (components db)" using ok(1) by (simp_all add: schema_ok_def)
  have "fetchone (select_products_by_id (p_id p) db) = Some p"
    using fetchone_by_key[OF pks(1) p refl] by (simp add: select_products_by_id_def)
  then have rp: "read_product (p_id p) db = Some ((to_product_model p)\<lparr>pr_base_version := ''0.0.0''\<rparr>)"
    by (simp add: read_product_def to_product_model_def)
  have "\<forall>v\<in>set ?sel. parts_nonneg v" using ok(2) by (auto simp: select_versions_of_product_def)
  then have "map_outcome to_version_response ?sel = Inr (map version_fields ?sel)"
    by (intro map_outcome_Inr to_version_response_ok) auto
  then have rv: "read_versions_by_component (p_id p) db =
      Inr (group_rows vr_component_id (\<lambda>v. v) (map version_fields ?sel) [])"
    by (simp add: read_versions_by_component_def)
  have "(case dict_get (group_rows vr_component_id (\<lambda>v. v) (map version_fields ?sel) []) (c_id c) of
           None \<Rightarrow> [] | Some vs \<Rightarrow> vs) = map version_fields (versions_newest_first (c_id c) db)"
    if c: "c \<in> set (select_components_of_product (p_id p) db)" for c
  proof -
    from c have "c \<in> set (components db)" "c_product_id c = p_id p"
      by (auto simp: select_components_of_product_def)
    from joined_versions[OF pks(2) this] show ?thesis
      unfolding group_rows_get by (simp add: filter_map o_def version_fields_def)
  qed
  then show ?thesis by (simp add: get_timeline_def timeline_query_def rp rv read_components_def)
qed

section \<open>Properties\<close>

text \<open>The timeline is complete in one call: for an existing product it nests every component of
  the product, ordered by name and id, each with exactly its own versions, newest core first,
  whatever the statement's joins return them interleaved with. The product part repeats the
  stored product except for its base version, which is not read and is always the default.\<close>

theorem timeline_complete:
  assumes "schema_ok db" and "\<forall>v\<in>set (versions db). parts_nonneg v" and "p \<in> set (products db)"
  shows "\<exists>comps. get_timeline (p_id p) db =
      Inr \<lparr>tl_product = (to_product_model p)\<lparr>pr_base_version := ''0.0.0''\<rparr>, tl_components = comps\<rparr> \<and>
    map cw_id comps = map c_id (select_components_of_product (p_id p) db) \<and>
    (\<forall>x\<in>set comps. \<exists>rows. cw_versions x = map version_fields rows \<and>
       mset rows = mset (filter (\<lambda>v. v_component_id v = cw_id x) (versions db)) \<and>
       sorted_wrt (\<lambda>v w. (v_major v, v_minor v, v_patch v) \<ge> (v_major w, v_minor w, v_patch w)) rows)"
proof -
  have sorted: "sorted_wrt (\<lambda>v w. (v_major v, v_minor v, v_patch v) \<ge> (v_major w, v_minor w, v_patch w))
      (versions_newest_first cid db)" for cid
    using order_by_desc_sorted[of "\<lambda>v. (v_major v, v_minor v, v_patch v, v_id v)" "filter (\<lambda>v. v_component_id v = cid) (versions db)"]
    unfolding versions_newest_first_def by (rule sorted_wrt_mono_rel[rotated]) (auto simp: less_eq_prod_simp)
  have all: "mset (versions_newest_first cid db) = mset (filter (\<lambda>v. v_component_id v = cid) (versions db))" for cid
    by (simp add: versions_newest_first_def order_by_desc_def)
  show ?thesis unfolding get_timeline_result[OF assms] using sorted all by (auto simp: o_def)
qed

theorem timeline_complete_witness:
  "\<exists>t. get_timeline ''p'' sample_database = Inr t \<and> map cw_id (tl_components t) = [''a'', ''b'']"
proof -
  have nonneg: "\<forall>v\<in>set (versions sample_database). parts_nonneg v" by (simp add: sample_defs parts_nonneg_def)
  define p where "p = hd (products sample_database)"
  have p: "p \<in> set (products sample_database)" "p_id p = ''p''" by (simp_all add: p_def sample_defs)
  have "map c_id (select_components_of_product ''p'' sample_database) = [''a'', ''b'']"
    by (simp add: select_components_of_product_def order_by_def sample_defs)
  with timeline_complete[OF schema_ok_sample nonneg p(1)] show ?thesis by (auto simp: p(2))
qed

end
