(* ===== verification/Sse.thy ===== *)
theory Sse
  imports Event_Bus
begin

text \<open>
  \<open>app/sse\<close>: the wire frames and the generator behind \<open>GET /products/{id}/events\<close>. The
  generator is a state machine over the shared bus: it subscribes when opened (in the source on its first iteration,
  which the server asks for as soon as it has sent the response's head), then each
  wait ends with an event of its queue or, the queue being empty, with the keep-alive
  timeout, and closing it unsubscribes. The step relation interleaves it with publishers and
  other subscribers; a ghost log of what was published for the product and of the evictions
  states what a client can rely on.
\<close>

section \<open>Frames\<close>

definition NL :: char where
  "NL = CHR 0x0A"

definition format_sse_frame :: "domain_event \<Rightarrow> string" where
  "format_sse_frame ev =
     (let payload = dumps_compact (JObj (event_data ev))
      in ''event: '' @ event_type_value (event_type ev) @ [NL] @ ''data: '' @ payload @ [NL, NL])"

definition keep_alive_frame :: string where
  "keep_alive_frame = '': keep-alive'' @ [NL, NL]"

lemma NL_not_printable: "\<not> printable NL"
  by (simp add: NL_def printable_def code_def)

lemma NL_not_in_payload: "NL \<notin> set (dumps_compact j)"
  using printable_dumps_compact NL_not_printable by blast

lemma NL_not_in_type: "NL \<notin> set (event_type_value t)"
  by (cases t) (simp_all add: NL_def)

definition event_line :: "domain_event \<Rightarrow> string" where
  "event_line ev = ''event: '' @ event_type_value (event_type ev)"

definition data_line :: "domain_event \<Rightarrow> string" where
  "data_line ev = ''data: '' @ dumps_compact (JObj (event_data ev))"

lemma no_NL_in_lines: "NL \<notin> set (event_line ev)" "NL \<notin> set (data_line ev)"
  using NL_not_in_type NL_not_in_payload by (auto simp: event_line_def data_line_def) (simp_all add: NL_def)

lemma frame_lines: "format_sse_frame ev = event_line ev @ NL # data_line ev @ NL # [] @ NL # []"
  by (simp add: format_sse_frame_def event_line_def data_line_def Let_def)

lemma split_frame:
  "split_on NL (format_sse_frame ev @ rest) = event_line ev # data_line ev # [] # split_on NL rest"
  using no_NL_in_lines split_on_append[of NL "[]" rest]
  by (simp add: frame_lines del: split_on.simps)

lemma split_keep_alive: "split_on NL (keep_alive_frame @ rest) = '': keep-alive'' # [] # split_on NL rest"
  using split_on_append[of NL "'': keep-alive''" "NL # rest"] split_on_append[of NL "[]" rest]
  by (simp add: keep_alive_frame_def NL_def)

lemma split_frames:
  "split_on NL (concat (map format_sse_frame evs)) =
     concat (map (\<lambda>e. [event_line e, data_line e, []]) evs) @ [[]]"
  by (induction evs) (simp_all add: split_frame)

section \<open>The generator\<close>

record sse_stream =
  stream_product :: ident
  stream_queue :: queue_ref

definition stream_open :: "ident \<Rightarrow> event_bus \<Rightarrow> sse_stream \<times> event_bus" where
  "stream_open pid bus =
     (let (q, bus') = subscribe pid bus in (\<lparr>stream_product = pid, stream_queue = q\<rparr>, bus'))"

definition stream_poll :: "sse_stream \<Rightarrow> event_bus \<Rightarrow> string \<times> event_bus" where
  "stream_poll st bus =
     (case take_event (stream_queue st) bus of
        Some (ev, bus') \<Rightarrow> (format_sse_frame ev, bus')
      | None \<Rightarrow> (keep_alive_frame, bus))"

definition stream_close :: "sse_stream \<Rightarrow> event_bus \<Rightarrow> event_bus" where
  "stream_close st bus = unsubscribe (stream_product st) (stream_queue st) bus"

section \<open>Interleaving with publishers and other subscribers\<close>

record session_state =
  ss_bus :: event_bus
  ss_sent :: "domain_event list"
  ss_published :: "domain_event list"
  ss_evicted :: nat

inductive stream_step :: "sse_stream \<Rightarrow> session_state \<Rightarrow> session_state \<Rightarrow> bool" for st where
  publish_here: "event_product_id ev = stream_product st \<Longrightarrow>
     stream_step st s (s\<lparr>ss_bus := publish ev (ss_bus s), ss_published := ss_published s @ [ev],
       ss_evicted := ss_evicted s
         + (if length (queue_of (ss_bus s) (stream_queue st)) = QUEUE_MAXSIZE then 1 else 0)\<rparr>)"
| publish_elsewhere: "event_product_id ev \<noteq> stream_product st \<Longrightarrow>
     stream_step st s (s\<lparr>ss_bus := publish ev (ss_bus s)\<rparr>)"
| poll_event: "take_event (stream_queue st) (ss_bus s) = Some (ev, bus') \<Longrightarrow>
     stream_step st s (s\<lparr>ss_bus := bus', ss_sent := ss_sent s @ [ev]\<rparr>)"
| keep_alive: "take_event (stream_queue st) (ss_bus s) = None \<Longrightarrow> stream_step st s s"
| other_open: "stream_step st s (s\<lparr>ss_bus := snd (subscribe pid (ss_bus s))\<rparr>)"
| other_take: "q \<noteq> stream_queue st \<Longrightarrow> take_event q (ss_bus s) = Some (ev, bus') \<Longrightarrow>
     stream_step st s (s\<lparr>ss_bus := bus'\<rparr>)"
| other_close: "q \<noteq> stream_queue st \<Longrightarrow>
     stream_step st s (s\<lparr>ss_bus := unsubscribe pid q (ss_bus s)\<rparr>)"

definition session_start :: "event_bus \<Rightarrow> session_state" where
  "session_start bus = \<lparr>ss_bus = bus, ss_sent = [], ss_published = [], ss_evicted = 0\<rparr>"

definition stream_inv :: "sse_stream \<Rightarrow> session_state \<Rightarrow> bool" where
  "stream_inv st s \<longleftrightarrow>
     bus_ok (ss_bus s) \<and> stream_queue st \<in> set (subscribers_of (ss_bus s) (stream_product st)) \<and>
     subseq (ss_sent s @ queue_of (ss_bus s) (stream_queue st)) (ss_published s) \<and>
     suffix (queue_of (ss_bus s) (stream_queue st)) (ss_published s) \<and>
     length (ss_published s) =
       length (ss_sent s) + length (queue_of (ss_bus s) (stream_queue st)) + ss_evicted s"

lemma bus_ok_registered_lt: "bus_ok b \<Longrightarrow> q \<in> set (subscribers_of b pid) \<Longrightarrow> q \<noteq> next_ref b"
  using bus_ok_fresh by fastforce

lemma suffix_snoc_tl: "suffix (a # q) p \<Longrightarrow> suffix q p"
  by (metis suffix_ConsD)

lemma stream_inv_start:
  assumes "bus_ok bus" and "stream_open pid bus = (st, bus')"
  shows "stream_inv st (session_start bus')"
proof -
  have b: "bus' = snd (subscribe pid bus)" and st: "stream_product st = pid" "stream_queue st = next_ref bus"
    using assms(2) by (auto simp: stream_open_def subscribe_def Let_def)
  show ?thesis
    using bus_ok_subscribe[OF assms(1), of pid]
    by (simp add: stream_inv_def session_start_def b st subscribers_of_subscribe queue_of_subscribe)
qed

lemma stream_inv_publish_here:
  assumes "stream_inv st s" and "event_product_id ev = stream_product st"
  shows "stream_inv st (s\<lparr>ss_bus := publish ev (ss_bus s), ss_published := ss_published s @ [ev],
       ss_evicted := ss_evicted s
         + (if length (queue_of (ss_bus s) (stream_queue st)) = QUEUE_MAXSIZE then 1 else 0)\<rparr>)"
proof -
  let ?q = "queue_of (ss_bus s) (stream_queue st)"
  have ok: "bus_ok (ss_bus s)" and inv: "subseq (ss_sent s @ ?q) (ss_published s)" "suffix ?q (ss_published s)"
    "length (ss_published s) = length (ss_sent s) + length ?q + ss_evicted s"
    and reg: "stream_queue st \<in> set (subscribers_of (ss_bus s) (stream_product st))"
    using assms(1) by (simp_all add: stream_inv_def)
  have q': "queue_of (publish ev (ss_bus s)) (stream_queue st) = offer ev ?q"
    using reg assms(2) by (simp add: queue_of_publish[OF ok])
  note bound = bus_ok_bound[OF ok, of "stream_queue st"]
  show ?thesis
  proof (cases "length ?q = QUEUE_MAXSIZE")
    case True
    then obtain a r where ar: "?q = a # r" by (cases ?q) (simp_all add: QUEUE_MAXSIZE_def)
    have o: "offer ev ?q = r @ [ev]" using ring256.put_full[OF True] by (simp add: ar)
    have "subseq (ss_sent s @ r) (ss_sent s @ ?q)" unfolding ar by (rule list_emb_append_mono) auto
    then have "subseq (ss_sent s @ r) (ss_published s)" using inv(1) subseq_order.trans by blast
    then have "subseq ((ss_sent s @ r) @ [ev]) (ss_published s @ [ev])" by (rule list_emb_append_mono) simp
    moreover have "suffix (r @ [ev]) (ss_published s @ [ev])"
      using suffix_snoc_tl[of a r] inv(2) by (simp add: ar)
    ultimately show ?thesis
      using ok reg inv(3) True by (simp add: stream_inv_def q' o[unfolded ar] ar bus_ok_publish)
  next
    case False
    with bound have o: "offer ev ?q = ?q @ [ev]" by (intro ring256.put_room) simp
    have "subseq ((ss_sent s @ ?q) @ [ev]) (ss_published s @ [ev])"
      using inv(1) by (rule list_emb_append_mono) simp
    then show ?thesis
      using ok reg inv(2,3) False by (simp add: stream_inv_def q' o bus_ok_publish)
  qed
qed

lemma take_event_queue:
  "take_event q b = Some (ev, b') \<Longrightarrow> queue_of b q = ev # queue_of b' q \<and>
     (\<forall>r. r \<noteq> q \<longrightarrow> queue_of b' r = queue_of b r) \<and> (\<forall>p. subscribers_of b' p = subscribers_of b p)"
  by (cases "queue_of b q") (auto simp: take_event_def)

lemma stream_inv_step:
  assumes "stream_step st s s'" and "stream_inv st s"
  shows "stream_inv st s'"
  using assms
proof cases
  case (publish_here ev)
  with stream_inv_publish_here[OF assms(2)] show ?thesis by blast
next
  case (publish_elsewhere ev)
  have ok: "bus_ok (ss_bus s)" using assms(2) by (simp add: stream_inv_def)
  have "stream_queue st \<notin> set (subscribers_of (ss_bus s) (event_product_id ev))"
    using assms(2) bus_ok_disjoint[OF ok] publish_elsewhere(2) by (auto simp: stream_inv_def)
  then show ?thesis
    using assms(2) by (simp add: publish_elsewhere(1) stream_inv_def queue_of_publish[OF ok] bus_ok_publish)
next
  case (poll_event ev bus')
  note t = take_event_queue[OF poll_event(2)]
  then have q: "queue_of (ss_bus s) (stream_queue st) = ev # queue_of bus' (stream_queue st)" by blast
  have "suffix (queue_of bus' (stream_queue st)) (ss_published s)"
    by (rule suffix_snoc_tl[of ev]) (use assms(2) q in \<open>simp add: stream_inv_def\<close>)
  with assms(2) t bus_ok_take[OF _ poll_event(2)] show ?thesis
    by (simp add: poll_event(1) stream_inv_def q)
next
  case (other_open pid)
  have ok: "bus_ok (ss_bus s)" using assms(2) by (simp add: stream_inv_def)
  have "stream_queue st \<noteq> next_ref (ss_bus s)"
    using assms(2) bus_ok_registered_lt[OF ok] by (auto simp: stream_inv_def)
  with assms(2) bus_ok_subscribe[OF ok] show ?thesis
    by (auto simp: other_open stream_inv_def queue_of_subscribe subscribers_of_subscribe)
next
  case (other_take q ev bus')
  with assms(2) take_event_queue[OF other_take(3)] bus_ok_take[OF _ other_take(3)] show ?thesis
    by (simp add: stream_inv_def)
next
  case (other_close q pid)
  with assms(2) bus_ok_unsubscribe[of "ss_bus s"] show ?thesis
    by (auto simp: stream_inv_def subscribers_of_unsubscribe)
qed (use assms in simp)

interpretation stream: invariant_system "stream_step st" "stream_inv st" for st
  by unfold_locales (rule stream_inv_step)

lemma stream_inv_reachable:
  assumes "bus_ok bus" "stream_open pid bus = (st, bus')"
    and "(stream_step st)\<^sup>*\<^sup>* (session_start bus') s"
  shows "stream_inv st s"
  by (rule stream.invariant[OF assms(3) stream_inv_start[OF assms(1,2)]])

section \<open>Properties\<close>

text \<open>The wire format is unambiguous: whatever JSON the events carry, the stream of their
  frames splits at line ends into exactly one event line, one data line and one blank line per
  event, in order. No payload can break out of its frame.\<close>

theorem sse_frames_parse:
  "split_on NL (concat (map format_sse_frame evs)) =
     concat (map (\<lambda>e. [event_line e, data_line e, []]) evs) @ [[]] \<and>
   split_on NL (keep_alive_frame @ rest) = '': keep-alive'' # [] # split_on NL rest"
  using split_frames split_keep_alive by simp

text \<open>What a stream client can rely on: in every state reachable by any interleaving of
  publishers, polls and other subscribers, the events sent so far and those still queued are a
  subsequence in order of those published for the product since the stream opened, the queue
  is always a suffix of them, at most 256 wait, and exactly the evicted ones are missing.\<close>

theorem stream_delivery:
  assumes "bus_ok bus" and "stream_open pid bus = (st, bus')"
    and "(stream_step st)\<^sup>*\<^sup>* (session_start bus') s"
  shows "subseq (ss_sent s @ queue_of (ss_bus s) (stream_queue st)) (ss_published s) \<and>
    suffix (queue_of (ss_bus s) (stream_queue st)) (ss_published s) \<and>
    length (queue_of (ss_bus s) (stream_queue st)) \<le> 256 \<and>
    length (ss_published s) = length (ss_sent s) + length (queue_of (ss_bus s) (stream_queue st)) + ss_evicted s"
proof -
  have inv: "stream_inv st s" by (rule stream_inv_reachable[OF assms])
  then have "bus_ok (ss_bus s)" by (simp add: stream_inv_def)
  from bus_ok_bound[OF this, of "stream_queue st"] inv show ?thesis by (simp add: stream_inv_def QUEUE_MAXSIZE_def)
qed

theorem stream_delivery_witness:
  "\<exists>(st :: sse_stream) (s :: session_state). length (ss_published s) = 1 \<and>
     subseq (ss_sent s @ queue_of (ss_bus s) (stream_queue st)) (ss_published s)"
proof -
  define st where "st = fst (stream_open ''p'' new_event_bus)"
  define bus' where "bus' = snd (stream_open ''p'' new_event_bus)"
  have opened: "stream_open ''p'' new_event_bus = (st, bus')" by (simp add: st_def bus'_def)
  have pid: "stream_product st = ''p''" by (simp add: st_def stream_open_def subscribe_def Let_def)
  define s where "s = (session_start bus')\<lparr>ss_bus := publish sample_event bus', ss_published := [sample_event],
      ss_evicted := (if length (queue_of bus' (stream_queue st)) = QUEUE_MAXSIZE then 1 else 0)\<rparr>"
  have "stream_step st (session_start bus') s"
    using stream_step.publish_here[of sample_event st "session_start bus'"]
    by (simp add: pid sample_event_def s_def session_start_def)
  then have "(stream_step st)\<^sup>*\<^sup>* (session_start bus') s" ..
  note facts = stream_delivery[OF bus_ok_new opened this]
  show ?thesis
    by (intro exI[of _ st] exI[of _ s]) (use facts in \<open>simp add: s_def session_start_def\<close>)
qed

end
