(* ===== verification/Rate_Limiter.thy ===== *)
theory Rate_Limiter
  imports Errors
begin

text \<open>
  \<open>app/security\<close>: the sliding-window limiter, its environment-backed settings, the pure-ASGI
  middleware in front of \<open>/auth/*\<close>, and the API-key settings. The monotonic clock is an
  argument, read in integer ticks. The limiter is shown never to raise and never to exceed
  its key bound, and to decide exactly as an unbounded log of admissions would as long as fewer
  clients than the bound are active within a window.
\<close>

type_synonym environ = "string \<Rightarrow> string option"

section \<open>The limiter\<close>

record limiter =
  max_keys :: int
  admissions :: "(string, int list) dict"

definition default_max_keys :: int where
  "default_max_keys = 1024"

definition new_limiter :: "int option \<Rightarrow> limiter" where
  "new_limiter max_keys_arg =
     \<lparr>max_keys = (case max_keys_arg of None \<Rightarrow> default_max_keys | Some n \<Rightarrow> n), admissions = []\<rparr>"

definition tracked_key_count :: "limiter \<Rightarrow> nat" where
  "tracked_key_count l = length (admissions l)"

text \<open>\<open>bucket[-1]\<close>: \<open>None\<close> is the \<open>IndexError\<close> of an empty deque.\<close>

definition newest :: "int list \<Rightarrow> int option" where
  "newest bucket = (if bucket = [] then None else Some (last bucket))"

fun stale_keys :: "int \<Rightarrow> (string, int list) dict \<Rightarrow> string list option" where
  "stale_keys cutoff [] = Some []"
| "stale_keys cutoff ((k, b) # rest) =
     (case newest b of
        None \<Rightarrow> None
      | Some t \<Rightarrow> map_option (\<lambda>ks. if t \<le> cutoff then k # ks else ks) (stale_keys cutoff rest))"

definition prune_stale :: "int \<Rightarrow> (string, int list) dict \<Rightarrow> (string, int list) dict option" where
  "prune_stale cutoff adm = map_option (\<lambda>ks. fold dict_del ks adm) (stale_keys cutoff adm)"

text \<open>\<open>min(d, key=...)\<close> over a dictionary: the first key of least newest admission.\<close>

fun min_newest :: "string \<Rightarrow> int \<Rightarrow> (string, int list) dict \<Rightarrow> string option" where
  "min_newest k t [] = Some k"
| "min_newest k t ((k', b) # rest) =
     (case newest b of
        None \<Rightarrow> None
      | Some t' \<Rightarrow> if t' < t then min_newest k' t' rest else min_newest k t rest)"

definition evict_least_recent :: "(string, int list) dict \<Rightarrow> (string, int list) dict option" where
  "evict_least_recent adm =
     (case adm of
        [] \<Rightarrow> Some adm
      | (k, b) # rest \<Rightarrow>
          (case newest b of
             None \<Rightarrow> None
           | Some t \<Rightarrow> map_option (\<lambda>oldest. dict_del oldest adm) (min_newest k t rest)))"

definition make_room :: "int \<Rightarrow> limiter \<Rightarrow> limiter option" where
  "make_room cutoff l =
     (case (if max_keys l \<le> int (length (admissions l)) then prune_stale cutoff (admissions l)
            else Some (admissions l)) of
        None \<Rightarrow> None
      | Some adm1 \<Rightarrow>
          map_option (\<lambda>adm2. l\<lparr>admissions := adm2\<rparr>)
            (if max_keys l \<le> int (length adm1) then evict_least_recent adm1 else Some adm1))"

definition admit :: "string \<Rightarrow> int \<Rightarrow> int \<Rightarrow> int \<Rightarrow> int list \<Rightarrow> limiter \<Rightarrow> bool \<times> limiter" where
  "admit key limit cutoff now bucket l =
     (let live = dropWhile (\<lambda>t. t \<le> cutoff) bucket
      in if limit \<le> int (length live) then (False, l\<lparr>admissions := dict_set key live (admissions l)\<rparr>)
         else (True, l\<lparr>admissions := dict_set key (live @ [now]) (admissions l)\<rparr>))"

definition allow :: "string \<Rightarrow> int \<Rightarrow> int \<Rightarrow> int \<Rightarrow> limiter \<Rightarrow> (bool \<times> limiter) option" where
  "allow key limit window now l =
     (if limit \<le> 0 then Some (True, l)
      else
        let cutoff = now - window
        in (case dict_get (admissions l) key of
              Some bucket \<Rightarrow> Some (admit key limit cutoff now bucket l)
            | None \<Rightarrow> map_option (\<lambda>l'. admit key limit cutoff now [] l') (make_room cutoff l)))"

section \<open>The limiter's own invariant\<close>

definition bucket_ok :: "int \<Rightarrow> int list \<Rightarrow> bool" where
  "bucket_ok clock b \<longleftrightarrow> b \<noteq> [] \<and> sorted b \<and> (\<forall>t\<in>set b. t \<le> clock)"

definition buckets_ok :: "int \<Rightarrow> limiter \<Rightarrow> bool" where
  "buckets_ok clock l \<longleftrightarrow> distinct (keys (admissions l)) \<and> (\<forall>p\<in>set (admissions l). bucket_ok clock (snd p))"

lemma buckets_ok_new: "buckets_ok clock (new_limiter m)"
  by (simp add: buckets_ok_def new_limiter_def)

lemma bucket_ok_mono: "bucket_ok clock b \<Longrightarrow> clock \<le> now \<Longrightarrow> bucket_ok now b"
  by (auto simp: bucket_ok_def)

lemma stale_keys_total:
  "\<forall>p\<in>set adm. snd p \<noteq> [] \<Longrightarrow>
     stale_keys cutoff adm = Some (map fst (filter (\<lambda>p. last (snd p) \<le> cutoff) adm))"
  by (induction cutoff adm rule: stale_keys.induct) (auto simp: newest_def)

lemma fold_dict_del: "fold dict_del ks adm = filter (\<lambda>p. fst p \<notin> set ks) adm"
  by (induction ks arbitrary: adm) (auto simp: dict_del_def filter_filter intro: filter_cong)

lemma prune_stale_result:
  assumes "distinct (keys adm)" "\<forall>p\<in>set adm. snd p \<noteq> []"
  shows "prune_stale cutoff adm = Some (filter (\<lambda>p. cutoff < last (snd p)) adm)"
proof -
  let ?st = "map fst (filter (\<lambda>p. last (snd p) \<le> cutoff) adm)"
  have "(fst p \<notin> set ?st) = (cutoff < last (snd p))" if p: "p \<in> set adm" for p
  proof -
    have "(fst p \<in> set ?st) = (\<exists>q\<in>set adm. fst q = fst p \<and> last (snd q) \<le> cutoff)"
      by (auto simp: image_iff) (metis fst_conv snd_conv)+
    also have "\<dots> = (last (snd p) \<le> cutoff)"
      using distinct_key_unique[OF assms(1) _ p] p by metis
    finally show ?thesis by (simp only: not_le)
  qed
  then have "filter (\<lambda>p. fst p \<notin> set ?st) adm = filter (\<lambda>p. cutoff < last (snd p)) adm"
    by (rule filter_cong[OF refl])
  then show ?thesis by (simp only: prune_stale_def stale_keys_total[OF assms(2)] fold_dict_del option.map)
qed

lemma min_newest_total:
  "\<forall>p\<in>set adm. snd p \<noteq> [] \<Longrightarrow> \<exists>k'. min_newest k t adm = Some k' \<and> k' \<in> insert k (set (keys adm))"
  by (induction k t adm rule: min_newest.induct) (auto simp: newest_def)

lemma evict_least_recent_result:
  assumes "\<forall>p\<in>set adm. snd p \<noteq> []"
  shows "\<exists>k. evict_least_recent adm = Some (dict_del k adm) \<and> (adm \<noteq> [] \<longrightarrow> k \<in> set (keys adm))"
proof (cases adm)
  case Nil
  then show ?thesis by (simp add: evict_least_recent_def dict_del_def)
next
  case (Cons p rest)
  obtain k b where p: "p = (k, b)" by force
  with Cons assms have b: "b \<noteq> []" and r: "\<forall>p\<in>set rest. snd p \<noteq> []" by auto
  from min_newest_total[OF r, of k "last b"] obtain k' where
    "min_newest k (last b) rest = Some k'" "k' \<in> insert k (set (keys rest))" by blast
  with b show ?thesis by (auto simp: evict_least_recent_def Cons p newest_def)
qed

lemma length_dict_del:
  assumes "distinct (keys d)" "k \<in> set (keys d)"
  shows "length (dict_del k d) = length d - 1"
  using assms
proof (induction d)
  case (Cons p d)
  show ?case
  proof (cases "fst p = k")
    case True
    with Cons.prems have "\<forall>q\<in>set d. fst q \<noteq> k" by (auto simp: image_iff)
    with True show ?thesis by (simp add: dict_del_def)
  next
    case False
    with Cons show ?thesis by (cases d) (auto simp: dict_del_def)
  qed
qed simp

text \<open>Making room never raises, keeps a sub-dictionary, and leaves space for one more key.\<close>

lemma make_room_result:
  assumes ok: "buckets_ok clock l"
  shows "\<exists>l'. make_room cutoff l = Some l' \<and> max_keys l' = max_keys l \<and> buckets_ok clock l' \<and>
    set (admissions l') \<subseteq> set (admissions l) \<and> length (admissions l') \<le> length (admissions l) \<and>
    (1 \<le> max_keys l \<longrightarrow> int (length (admissions l)) \<le> max_keys l \<longrightarrow> int (length (admissions l')) < max_keys l)"
proof -
  let ?adm = "admissions l"
  have d: "distinct (keys ?adm)" and ne: "\<forall>p\<in>set ?adm. snd p \<noteq> []"
    using ok by (simp_all add: buckets_ok_def bucket_ok_def)
  define adm1 where "adm1 = (if max_keys l \<le> int (length ?adm) then filter (\<lambda>p. cutoff < last (snd p)) ?adm else ?adm)"
  have s1: "(if max_keys l \<le> int (length ?adm) then prune_stale cutoff ?adm else Some ?adm) = Some adm1"
    by (simp add: adm1_def prune_stale_result[OF d ne])
  have sub1: "set adm1 \<subseteq> set ?adm" "length adm1 \<le> length ?adm" "distinct (keys adm1)"
    using d by (auto simp: adm1_def distinct_map_filter)
  have ne1: "\<forall>p\<in>set adm1. snd p \<noteq> []" using ne sub1(1) by blast
  obtain k where ev: "evict_least_recent adm1 = Some (dict_del k adm1)" "adm1 \<noteq> [] \<longrightarrow> k \<in> set (keys adm1)"
    using evict_least_recent_result[OF ne1] by blast
  define adm2 where "adm2 = (if max_keys l \<le> int (length adm1) then dict_del k adm1 else adm1)"
  have res: "make_room cutoff l = Some (l\<lparr>admissions := adm2\<rparr>)"
    unfolding make_room_def s1 by (simp add: adm2_def ev(1))
  have sub2: "set adm2 \<subseteq> set adm1" "length adm2 \<le> length adm1" "distinct (keys adm2)"
    using sub1(3) by (auto simp: adm2_def dict_del_def distinct_map_filter)
  have "int (length adm2) < max_keys l" if "1 \<le> max_keys l" "int (length ?adm) \<le> max_keys l"
  proof (cases "max_keys l \<le> int (length adm1)")
    case True
    with that have "adm1 \<noteq> []" by auto
    with length_dict_del[OF sub1(3)] ev(2) True that sub1(2) show ?thesis by (simp add: adm2_def)
  next
    case False
    then show ?thesis by (simp add: adm2_def)
  qed
  moreover have "buckets_ok clock (l\<lparr>admissions := adm2\<rparr>)"
    using ok sub1(1) sub2(1,3) by (auto simp: buckets_ok_def)
  ultimately show ?thesis using res sub1 sub2 by auto
qed

lemma set_dict_set:
  assumes "distinct (keys d)"
  shows "set (dict_set k b d) = insert (k, b) {p \<in> set d. fst p \<noteq> k}"
  using assms
proof (induction d)
  case (Cons p d)
  show ?case
  proof (cases "fst p = k")
    case True
    with Cons.prems have "\<forall>q\<in>set d. fst q \<noteq> k" by (auto simp: image_iff)
    with True show ?thesis by (cases p) auto
  next
    case False
    with Cons show ?thesis by (cases p) auto
  qed
qed simp

lemma length_dict_set: "length (dict_set k v d) = (if map_of d k = None then Suc (length d) else length d)"
  by (induction d) auto

lemma sorted_dropWhile: "sorted b \<Longrightarrow> sorted (dropWhile P b)"
  by (metis sorted_append takeWhile_dropWhile_id)

definition next_bucket :: "int \<Rightarrow> int \<Rightarrow> int \<Rightarrow> int list \<Rightarrow> int list" where
  "next_bucket limit cutoff now b =
     (let live = dropWhile (\<lambda>t. t \<le> cutoff) b in if limit \<le> int (length live) then live else live @ [now])"

lemma admit_bucket:
  "admit key limit cutoff now b l =
     (int (length (dropWhile (\<lambda>t. t \<le> cutoff) b)) < limit,
      l\<lparr>admissions := dict_set key (next_bucket limit cutoff now b) (admissions l)\<rparr>)"
  by (auto simp: admit_def next_bucket_def Let_def)

lemma next_bucket_ok:
  assumes "clock \<le> now" "0 < limit" "sorted b" "\<forall>t\<in>set b. t \<le> clock"
  shows "bucket_ok now (next_bucket limit cutoff now b)"
proof -
  let ?live = "dropWhile (\<lambda>t. t \<le> cutoff) b"
  have le: "\<forall>t\<in>set ?live. t \<le> now" using assms(1,4) by (meson order.trans set_dropWhileD)
  show ?thesis
  proof (cases "limit \<le> int (length ?live)")
    case True
    then have "?live \<noteq> []" using assms(2) by (metis int_zle_neg list.size(3) not_le of_nat_0)
    with True le sorted_dropWhile[OF assms(3)] show ?thesis
      by (simp only: next_bucket_def Let_def if_True bucket_ok_def simp_thms)
  next
    case False
    with le sorted_dropWhile[OF assms(3)] show ?thesis
      by (simp add: next_bucket_def Let_def bucket_ok_def sorted_append)
  qed
qed

lemma admit_ok:
  assumes ok: "buckets_ok clock l" and now: "clock \<le> now" and limit: "0 < limit"
    and b: "sorted b" "\<forall>t\<in>set b. t \<le> clock"
  shows "buckets_ok now (snd (admit key limit cutoff now b l))"
proof -
  have d: "distinct (keys (admissions l))" using ok by (simp add: buckets_ok_def)
  have "\<forall>p\<in>set (admissions l). bucket_ok now (snd p)"
    using ok bucket_ok_mono[OF _ now] by (simp add: buckets_ok_def)
  with next_bucket_ok[OF now limit b] have "\<forall>p\<in>set (dict_set key (next_bucket limit cutoff now b) (admissions l)). bucket_ok now (snd p)"
    by (simp add: set_dict_set[OF d])
  with distinct_dict_set[OF d] show ?thesis by (simp add: admit_bucket buckets_ok_def)
qed

lemma allow_total:
  assumes ok: "buckets_ok clock l" and now: "clock \<le> now"
  obtains ok' l' where "allow key limit window now l = Some (ok', l')" "buckets_ok now l'"
    "max_keys l' = max_keys l"
    "1 \<le> max_keys l \<Longrightarrow> int (length (admissions l)) \<le> max_keys l \<Longrightarrow> int (length (admissions l')) \<le> max_keys l"
proof -
  have mono: "buckets_ok now l" using ok bucket_ok_mono[OF _ now] by (simp add: buckets_ok_def)
  consider "limit \<le> 0" | b where "0 < limit" "dict_get (admissions l) key = Some b"
    | "0 < limit" "dict_get (admissions l) key = None" by fastforce
  then show ?thesis
  proof cases
    case 1
    with mono that show ?thesis by (simp add: allow_def)
  next
    case (2 b)
    from map_of_SomeD[OF 2(2)] ok have b: "sorted b" "\<forall>t\<in>set b. t \<le> clock"
      by (auto simp: buckets_ok_def bucket_ok_def)
    have a: "allow key limit window now l = Some (admit key limit (now - window) now b l)"
      using 2 by (simp add: allow_def)
    have "length (admissions (snd (admit key limit (now - window) now b l))) = length (admissions l)"
      using 2(2) by (simp add: admit_bucket length_dict_set)
    with that[OF a[unfolded admit_bucket]] admit_ok[OF ok now 2(1) b, of key "now - window"]
    show ?thesis by (simp add: admit_bucket)
  next
    case 3
    obtain l1 where l1: "make_room (now - window) l = Some l1" "max_keys l1 = max_keys l" "buckets_ok clock l1"
      "1 \<le> max_keys l \<Longrightarrow> int (length (admissions l)) \<le> max_keys l \<Longrightarrow> int (length (admissions l1)) < max_keys l"
      using make_room_result[OF ok] by blast
    have a: "allow key limit window now l = Some (admit key limit (now - window) now [] l1)"
      using 3 l1(1) by (simp add: allow_def)
    have "length (admissions (snd (admit key limit (now - window) now [] l1))) \<le> Suc (length (admissions l1))"
      by (simp add: admit_bucket length_dict_set)
    with that[OF a[unfolded admit_bucket]] admit_ok[OF l1(3) now 3(1), of "[]" key "now - window"] l1(2,4)
    show ?thesis by (force simp: admit_bucket)
  qed
qed

section \<open>Refinement of an unbounded admission log\<close>

type_synonym admission_log = "string \<Rightarrow> int list"

definition in_window :: "int \<Rightarrow> int \<Rightarrow> int list \<Rightarrow> int list" where
  "in_window window now ts = filter (\<lambda>t. now - window < t) ts"

definition log_decides :: "string \<Rightarrow> int \<Rightarrow> int \<Rightarrow> int \<Rightarrow> admission_log \<Rightarrow> bool" where
  "log_decides key limit window now log \<longleftrightarrow> int (length (in_window window now (log key))) < limit"

definition log_allow :: "string \<Rightarrow> int \<Rightarrow> int \<Rightarrow> int \<Rightarrow> admission_log \<Rightarrow> bool \<times> admission_log" where
  "log_allow key limit window now log =
     (let ok = log_decides key limit window now log
      in (ok, if ok then log(key := log key @ [now]) else log))"

definition live_clients :: "int \<Rightarrow> int \<Rightarrow> admission_log \<Rightarrow> string set" where
  "live_clients window now log = {k. in_window window now (log k) \<noteq> []}"

definition tracked :: "int \<Rightarrow> int \<Rightarrow> int list option \<Rightarrow> int list \<Rightarrow> bool" where
  "tracked window clock bucket ts =
     (case bucket of None \<Rightarrow> in_window window clock ts = []
      | Some b \<Rightarrow> \<exists>pre. ts = pre @ b \<and> (\<forall>t\<in>set pre. t \<le> clock - window))"

definition tracks :: "int \<Rightarrow> int \<Rightarrow> limiter \<Rightarrow> admission_log \<Rightarrow> bool" where
  "tracks window clock l log \<longleftrightarrow>
     buckets_ok clock l \<and> finite {k. log k \<noteq> []} \<and>
     (\<forall>k. tracked window clock (dict_get (admissions l) k) (log k))"

lemma tracked_mono:
  assumes "tracked window clock b ts" "clock \<le> now"
  shows "tracked window now b ts"
proof (cases b)
  case None
  with assms show ?thesis by (auto simp: tracked_def in_window_def filter_empty_conv)
next
  case (Some b)
  with assms show ?thesis by (fastforce simp: tracked_def)
qed

lemma dropWhile_in_window: "sorted b \<Longrightarrow> dropWhile (\<lambda>t. t \<le> now - window) b = in_window window now b"
proof (induction b)
  case (Cons t b)
  show ?case
  proof (cases "t \<le> now - window")
    case False
    with Cons.prems have "\<forall>x\<in>set b. now - window < x" by fastforce
    with False show ?thesis by (simp add: in_window_def)
  qed (use Cons in \<open>simp add: in_window_def\<close>)
qed (simp add: in_window_def)

lemma tracked_in_window:
  "tracked window now (Some b) ts \<Longrightarrow> in_window window now ts = in_window window now b"
  by (force simp: tracked_def in_window_def filter_empty_conv)

lemma admit_tracked:
  assumes "tracked window now (Some b) ts" "sorted b"
  shows "int (length (dropWhile (\<lambda>t. t \<le> now - window) b)) < limit \<longleftrightarrow> int (length (in_window window now ts)) < limit"
    and "tracked window now (Some (next_bucket limit (now - window) now b))
       (if int (length (in_window window now ts)) < limit then ts @ [now] else ts)"
proof -
  have w: "dropWhile (\<lambda>t. t \<le> now - window) b = in_window window now ts"
    by (simp add: tracked_in_window[OF assms(1)] dropWhile_in_window[OF assms(2)])
  then show "int (length (dropWhile (\<lambda>t. t \<le> now - window) b)) < limit \<longleftrightarrow> int (length (in_window window now ts)) < limit"
    by simp
  obtain pre where pre: "ts = pre @ b" "\<forall>t\<in>set pre. t \<le> now - window" using assms(1) by (auto simp: tracked_def)
  let ?dead = "takeWhile (\<lambda>t. t \<le> now - window) b"
  have split: "ts = (pre @ ?dead) @ in_window window now ts"
    unfolding w[symmetric] by (simp add: pre(1))
  have dead: "\<forall>t\<in>set (pre @ ?dead). t \<le> now - window" using pre(2) by (auto dest: set_takeWhileD)
  show "tracked window now (Some (next_bucket limit (now - window) now b))
       (if int (length (in_window window now ts)) < limit then ts @ [now] else ts)"
  proof (cases "int (length (in_window window now ts)) < limit")
    case True
    have "ts @ [now] = (pre @ ?dead) @ (in_window window now ts @ [now])" using split by simp
    with dead True show ?thesis unfolding tracked_def next_bucket_def Let_def w
      by (auto intro!: exI[of _ "pre @ ?dead"])
  next
    case False
    with dead split show ?thesis unfolding tracked_def next_bucket_def Let_def w
      by (intro exI[of _ "pre @ ?dead"] | simp)+
  qed
qed

lemma empty_tracked: "tracked window now None ts \<Longrightarrow> tracked window now (Some []) ts"
  by (auto simp: tracked_def in_window_def filter_empty_conv not_less)

lemma tracks_admit:
  assumes tr: "tracks window now l log" and limit: "0 < limit"
    and b: "b = (case dict_get (admissions l) key of None \<Rightarrow> [] | Some x \<Rightarrow> x)"
  shows "fst (admit key limit (now - window) now b l) = fst (log_allow key limit window now log)"
    and "tracks window now (snd (admit key limit (now - window) now b l)) (snd (log_allow key limit window now log))"
proof -
  have ok: "buckets_ok now l" and fin: "finite {k. log k \<noteq> []}"
    and each: "\<And>k. tracked window now (dict_get (admissions l) k) (log k)"
    using tr by (auto simp: tracks_def)
  have tb: "tracked window now (Some b) (log key)"
    using each[of key] empty_tracked by (auto simp: b split: option.splits)
  have sb: "sorted b \<and> (\<forall>t\<in>set b. t \<le> now)"
  proof (cases "dict_get (admissions l) key")
    case (Some x)
    from map_of_SomeD[OF this] ok have "bucket_ok now x" by (auto simp: buckets_ok_def)
    with Some show ?thesis by (simp add: b bucket_ok_def)
  qed (simp add: b)
  note adm = admit_tracked[OF tb conjunct1[OF sb], of limit]
  show "fst (admit key limit (now - window) now b l) = fst (log_allow key limit window now log)"
    using adm(1) by (simp add: admit_bucket log_allow_def log_decides_def Let_def)
  have "buckets_ok now (snd (admit key limit (now - window) now b l))"
    by (rule admit_ok[OF ok order.refl limit]) (use sb in auto)
  moreover have "finite {k. snd (log_allow key limit window now log) k \<noteq> []}"
    by (rule finite_subset[OF _ finite.insertI[OF fin, of key]]) (auto simp: log_allow_def Let_def)
  moreover have "tracked window now (dict_get (admissions (snd (admit key limit (now - window) now b l))) k)
      (snd (log_allow key limit window now log) k)" for k
    using adm(2) each[of k] by (auto simp: admit_bucket log_allow_def log_decides_def Let_def)
  ultimately show "tracks window now (snd (admit key limit (now - window) now b l)) (snd (log_allow key limit window now log))"
    by (simp add: tracks_def)
qed

lemma filter_keyed_get:
  assumes "distinct (keys d)"
  shows "map_of (filter P d) k = (case map_of d k of None \<Rightarrow> None | Some v \<Rightarrow> if P (k, v) then Some v else None)"
  using assms by (induction d) (auto split: option.splits simp: map_of_eq_None_iff image_iff)

text \<open>With fewer live clients than the bound, pruning alone makes room: nobody is evicted.\<close>

lemma make_room_tracks:
  assumes tr: "tracks window now l log" and few: "int (card (live_clients window now log)) < max_keys l"
  shows "\<exists>l'. make_room (now - window) l = Some l' \<and> tracks window now l' log \<and>
           (dict_get (admissions l) key = None \<longrightarrow> dict_get (admissions l') key = None)"
proof (cases "max_keys l \<le> int (length (admissions l))")
  case False
  then show ?thesis using tr by (intro exI[of _ l]) (simp add: make_room_def)
next
  case True
  let ?adm = "admissions l"
  let ?adm1 = "filter (\<lambda>p. now - window < last (snd p)) ?adm"
  have ok: "buckets_ok now l" and fin: "finite {k. log k \<noteq> []}"
    and each: "\<And>k. tracked window now (dict_get ?adm k) (log k)" using tr by (auto simp: tracks_def)
  have d: "distinct (keys ?adm)" and bs: "\<forall>p\<in>set ?adm. bucket_ok now (snd p)" using ok by (simp_all add: buckets_ok_def)
  have ne: "\<forall>p\<in>set ?adm. snd p \<noteq> []" using bs by (simp add: bucket_ok_def)
  have sub: "fst ` set ?adm1 \<subseteq> live_clients window now log"
  proof
    fix k assume "k \<in> fst ` set ?adm1"
    then obtain b where kb: "(k, b) \<in> set ?adm" "now - window < last b" by auto
    then have get: "dict_get ?adm k = Some b" using d by simp
    have "b \<noteq> []" using ne kb(1) by auto
    with kb(2) have "in_window window now b \<noteq> []" by (auto simp: in_window_def filter_empty_conv)
    with tracked_in_window[of window now b "log k"] each[of k] get show "k \<in> live_clients window now log"
      by (simp add: live_clients_def)
  qed
  have "live_clients window now log \<subseteq> {k. log k \<noteq> []}" by (auto simp: live_clients_def in_window_def)
  from card_mono[OF finite_subset[OF this fin] sub] have "card (fst ` set ?adm1) \<le> card (live_clients window now log)" .
  moreover have "card (fst ` set ?adm1) = length ?adm1"
    using distinct_card[of "keys ?adm1"] d by (simp add: distinct_map_filter)
  ultimately have room: "int (length ?adm1) < max_keys l" using few by simp
  have mr: "make_room (now - window) l = Some (l\<lparr>admissions := ?adm1\<rparr>)"
    using True room by (simp add: make_room_def prune_stale_result[OF d ne])
  have "tracked window now (dict_get ?adm1 k) (log k)" for k
  proof (cases "dict_get ?adm k")
    case None
    with each[of k] show ?thesis by (simp add: filter_keyed_get[OF d])
  next
    case (Some b)
    show ?thesis
    proof (cases "now - window < last b")
      case True
      with Some each[of k] show ?thesis by (simp add: filter_keyed_get[OF d])
    next
      case False
      from map_of_SomeD[OF Some] bs have "bucket_ok now b" by auto
      then have "\<forall>t\<in>set b. t \<le> last b" by (cases b rule: rev_cases) (auto simp: bucket_ok_def sorted_append)
      with False have "in_window window now b = []" by (force simp: in_window_def filter_empty_conv)
      with tracked_in_window[of window now b "log k"] each[of k] Some False show ?thesis
        by (simp add: filter_keyed_get[OF d]) (simp add: tracked_def)
    qed
  qed
  moreover have "buckets_ok now (l\<lparr>admissions := ?adm1\<rparr>)"
    using d bs by (simp add: buckets_ok_def distinct_map_filter)
  ultimately show ?thesis using mr fin
    by (intro exI[of _ "l\<lparr>admissions := ?adm1\<rparr>"]) (simp add: tracks_def filter_keyed_get[OF d])
qed

lemma tracks_mono: "tracks window clock l log \<Longrightarrow> clock \<le> now \<Longrightarrow> tracks window now l log"
  using tracked_mono bucket_ok_mono unfolding tracks_def buckets_ok_def by blast

lemma allow_refines:
  assumes tr: "tracks window clock l log" and now: "clock \<le> now" and limit: "0 < limit"
    and few: "int (card (live_clients window now log)) < max_keys l"
  obtains l' where "allow key limit window now l = Some (fst (log_allow key limit window now log), l')"
    "tracks window now l' (snd (log_allow key limit window now log))" "max_keys l' = max_keys l"
proof -
  note trn = tracks_mono[OF tr now]
  show ?thesis
  proof (cases "dict_get (admissions l) key")
    case (Some b)
    note t = tracks_admit[OF trn limit, of b key]
    have "allow key limit window now l = Some (admit key limit (now - window) now b l)"
      using limit Some by (simp add: allow_def)
    with t Some show ?thesis
      by (intro that[of "snd (admit key limit (now - window) now b l)"]) (auto simp: admit_bucket)
  next
    case None
    obtain l1 where l1: "make_room (now - window) l = Some l1" "tracks window now l1 log"
      "dict_get (admissions l1) key = None"
      using make_room_tracks[OF trn few, of key] None by blast
    have mk: "max_keys l1 = max_keys l" using make_room_result[of now l "now - window"] l1(1) trn
      by (auto simp: tracks_def)
    note t = tracks_admit[OF l1(2) limit, of "[]" key]
    have "allow key limit window now l = Some (admit key limit (now - window) now [] l1)"
      using limit None l1(1) by (simp add: allow_def)
    with t l1(3) mk show ?thesis
      by (intro that[of "snd (admit key limit (now - window) now [] l1)"]) (auto simp: admit_bucket)
  qed
qed

section \<open>Runs\<close>

type_synonym request = "string \<times> int"

fun run_limiter :: "int \<Rightarrow> int \<Rightarrow> request list \<Rightarrow> limiter \<Rightarrow> bool list option" where
  "run_limiter limit window [] l = Some []"
| "run_limiter limit window ((key, now) # reqs) l =
     (case allow key limit window now l of
        None \<Rightarrow> None
      | Some (ok, l') \<Rightarrow> map_option ((#) ok) (run_limiter limit window reqs l'))"

fun run_log :: "int \<Rightarrow> int \<Rightarrow> request list \<Rightarrow> admission_log \<Rightarrow> bool list \<times> admission_log" where
  "run_log limit window [] log = ([], log)"
| "run_log limit window ((key, now) # reqs) log =
     (let (ok, log') = log_allow key limit window now log; (oks, log'') = run_log limit window reqs log'
      in (ok # oks, log''))"

fun times_from :: "int \<Rightarrow> request list \<Rightarrow> bool" where
  "times_from clock [] = True"
| "times_from clock ((key, now) # reqs) = (clock \<le> now \<and> times_from now reqs)"

definition admitted :: "string \<Rightarrow> request list \<Rightarrow> bool list \<Rightarrow> int list" where
  "admitted key reqs oks = map (\<lambda>(r, ok). snd r) (filter (\<lambda>(r, ok). fst r = key \<and> ok) (zip reqs oks))"

lemma live_clients_subset: "live_clients window now log \<subseteq> {k. log k \<noteq> []}"
  by (auto simp: live_clients_def in_window_def)

lemma run_refines:
  assumes "tracks window clock l log" "times_from clock reqs" "0 < limit"
    and "finite K" "{k. log k \<noteq> []} \<union> set (map fst reqs) \<subseteq> K" "int (card K) < max_keys l"
  shows "run_limiter limit window reqs l = Some (fst (run_log limit window reqs log))"
  using assms(1,2,5,6)
proof (induction reqs arbitrary: clock l log)
  case (Cons r reqs)
  obtain key now where r: "r = (key, now)" by force
  from Cons.prems r have now: "clock \<le> now" and times: "times_from now reqs" by auto
  have "live_clients window now log \<subseteq> K" using live_clients_subset[of window now log] Cons.prems(3) by blast
  from card_mono[OF assms(4) this] Cons.prems(4) have few: "int (card (live_clients window now log)) < max_keys l" by simp
  obtain l' where l': "allow key limit window now l = Some (fst (log_allow key limit window now log), l')"
    "tracks window now l' (snd (log_allow key limit window now log))" "max_keys l' = max_keys l"
    by (rule allow_refines[OF Cons.prems(1) now assms(3) few])
  have "{k. snd (log_allow key limit window now log) k \<noteq> []} \<union> set (map fst reqs) \<subseteq> K"
    using Cons.prems(3) by (auto simp: r log_allow_def Let_def split: if_splits)
  from Cons.IH[OF l'(2) times this] l' Cons.prems(4) show ?case
    by (simp add: r split: prod.split)
qed simp

text \<open>The log of a run: what was there before, then the admitted times of each client in order.\<close>

lemma run_log_log:
  "snd (run_log limit window reqs log) k = log k @ admitted k reqs (fst (run_log limit window reqs log))"
proof (induction reqs arbitrary: log)
  case (Cons r reqs)
  obtain key now where r: "r = (key, now)" by force
  show ?case using Cons.IH[of "snd (log_allow key limit window now log)"]
    by (auto simp: r admitted_def log_allow_def Let_def split: prod.splits if_splits)
qed (simp add: admitted_def)

text \<open>
  At every moment, no more than \<open>limit\<close> admissions of a client lie within a window ending then.
\<close>

definition window_bounded :: "int \<Rightarrow> int \<Rightarrow> int list \<Rightarrow> bool" where
  "window_bounded limit window ts \<longleftrightarrow> (\<forall>T. int (length (filter (\<lambda>t. T - window < t \<and> t \<le> T) ts)) \<le> limit)"

lemma window_bounded_log_allow:
  assumes "window_bounded limit window (log k)" "\<forall>t\<in>set (log k). t \<le> now" "0 < limit"
  shows "window_bounded limit window (snd (log_allow key limit window now log) k)"
proof (cases "k = key \<and> log_decides key limit window now log")
  case False
  with assms(1) show ?thesis by (auto simp: log_allow_def Let_def)
next
  case True
  then have new: "snd (log_allow key limit window now log) k = log k @ [now]"
    and few: "int (length (in_window window now (log k))) < limit"
    by (auto simp: log_allow_def log_decides_def Let_def)
  have "int (length (filter (\<lambda>t. T - window < t \<and> t \<le> T) (log k @ [now]))) \<le> limit" for T
  proof (cases "T - window < now \<and> now \<le> T")
    case True
    then have "length (filter (\<lambda>t. T - window < t \<and> t \<le> T) ts) \<le> length (in_window window now ts)" for ts
      by (induction ts) (auto simp: in_window_def)
    from this[of "log k"] few True show ?thesis by simp
  next
    case False
    with assms(1) show ?thesis by (auto simp: window_bounded_def)
  qed
  then show ?thesis by (simp add: new window_bounded_def)
qed

lemma run_log_window:
  assumes "0 < limit"
  shows "times_from clock reqs \<Longrightarrow> \<forall>t\<in>set (log k). t \<le> clock \<Longrightarrow> window_bounded limit window (log k) \<Longrightarrow>
    window_bounded limit window (snd (run_log limit window reqs log) k)"
proof (induction reqs arbitrary: clock log)
  case (Cons r reqs)
  obtain key now where r: "r = (key, now)" by force
  let ?log = "snd (log_allow key limit window now log)"
  from Cons.prems r have now: "clock \<le> now" "times_from now reqs" by auto
  have "\<forall>t\<in>set (log k). t \<le> now" using Cons.prems(2) now(1) by force
  moreover from this have "\<forall>t\<in>set (?log k). t \<le> now" by (auto simp: log_allow_def Let_def)
  ultimately have "window_bounded limit window (snd (run_log limit window reqs ?log) k)"
    using Cons.IH[OF now(2)] window_bounded_log_allow[of limit window log k, OF Cons.prems(3) _ assms] by blast
  then show ?case by (simp add: r split_beta Let_def)
qed simp

lemma tracks_new: "tracks window clock (new_limiter m) (\<lambda>k. [])"
  using buckets_ok_new[of clock m] by (simp add: tracks_def tracked_def in_window_def new_limiter_def)

lemma admitted_from_new: "snd (run_log limit window reqs (\<lambda>k. [])) k = admitted k reqs (fst (run_log limit window reqs (\<lambda>k. [])))"
  using run_log_log[of limit window reqs "\<lambda>k. []" k] by simp

section \<open>Properties\<close>

text \<open>C23: The limiter never fails and its memory is bounded: in every state it can be in, whatever
  the limit, window, key and (non-decreasing) time, a request gets a decision, no bucket is ever
  empty where the code reads its last element, and with a bound of at least one the number of
  tracked clients never exceeds it.\<close>

theorem limiter_total_bounded:
  assumes "buckets_ok clock l" and "clock \<le> now"
  shows "\<exists>decision l'. allow key limit window now l = Some (decision, l') \<and> buckets_ok now l' \<and>
    max_keys l' = max_keys l \<and>
    (1 \<le> max_keys l \<and> int (tracked_key_count l) \<le> max_keys l \<longrightarrow> int (tracked_key_count l') \<le> max_keys l')"
proof -
  obtain d l' where "allow key limit window now l = Some (d, l')" "buckets_ok now l'" "max_keys l' = max_keys l"
    "1 \<le> max_keys l \<Longrightarrow> int (length (admissions l)) \<le> max_keys l \<Longrightarrow> int (length (admissions l')) \<le> max_keys l"
    by (rule allow_total[OF assms, of key limit window]) blast
  then show ?thesis by (auto simp: tracked_key_count_def)
qed

theorem limiter_total_bounded_witness:
  "\<exists>d l'. allow ''ip'' 5 60 10 (new_limiter (Some 1)) = Some (d, l') \<and> tracked_key_count l' \<le> 1"
  using limiter_total_bounded[OF buckets_ok_new[of 0 "Some 1"], of 10 "''ip''" 5 60]
  by (auto simp: new_limiter_def tracked_key_count_def)



text \<open>The rate limit is enforced: on any run in time order with fewer clients than the bound, at
  no moment do more than the limit of one client's admitted requests lie within one window.\<close>

theorem limiter_window_bound:
  assumes "times_from clock reqs" and "0 < limit"
    and "int (card (set (map fst reqs))) < (case bound of None \<Rightarrow> default_max_keys | Some n \<Rightarrow> n)"
    and "run_limiter limit window reqs (new_limiter bound) = Some decisions"
  shows "window_bounded limit window (admitted key reqs decisions)"
proof -
  have "run_limiter limit window reqs (new_limiter bound) = Some (fst (run_log limit window reqs (\<lambda>k. [])))"
    by (rule run_refines[OF tracks_new assms(1,2), of "set (map fst reqs)"])
       (use assms(3) in \<open>simp_all add: new_limiter_def\<close>)
  with assms(4) have d: "decisions = fst (run_log limit window reqs (\<lambda>k. []))" by simp
  show ?thesis
    unfolding d admitted_from_new[symmetric]
    by (rule run_log_window[OF assms(2,1)]) (use assms(2) in \<open>simp_all add: window_bounded_def\<close>)
qed

theorem limiter_window_bound_witness:
  "\<exists>ds. run_limiter 1 60 [(''a'', 0), (''a'', 10)] (new_limiter None) = Some ds \<and>
     window_bounded 1 60 (admitted ''a'' [(''a'', 0), (''a'', 10)] ds)"
proof -
  let ?reqs = "[(''a'', 0), (''a'', 10)] :: request list"
  have "run_limiter 1 60 ?reqs (new_limiter None) = Some (fst (run_log 1 60 ?reqs (\<lambda>k. [])))"
    by (rule run_refines[OF tracks_new, of 0 _ _ "{''a''}"]) (simp_all add: new_limiter_def default_max_keys_def)
  with limiter_window_bound[of 0 ?reqs 1 None 60] show ?thesis by (auto simp: default_max_keys_def)
qed

end
