(* ===== verification/Security.thy ===== *)
theory Security
  imports Rate_Limiter
begin

text \<open>
  The environment-backed settings of \<open>app/security\<close> and the middleware that applies the limiter
  to \<open>/auth/*\<close>. The environment is an argument of every accessor because the code reads it on
  each call.
\<close>

section \<open>Rate-limit settings\<close>

record rate_limit_settings =
  rls_limit :: "int option"
  rls_window_seconds :: "int option"
  rls_trust_forwarded_for :: "bool option"
  rls_max_tracked_clients :: int

definition rate_limit_settings_init ::
  "int option \<Rightarrow> int option \<Rightarrow> bool option \<Rightarrow> int option \<Rightarrow> rate_limit_settings" where
  "rate_limit_settings_init limit window trust max_clients =
     \<lparr>rls_limit = limit, rls_window_seconds = window, rls_trust_forwarded_for = trust,
      rls_max_tracked_clients = (case max_clients of None \<Rightarrow> 1024 | Some n \<Rightarrow> n)\<rparr>"

definition int_or_default :: "string \<Rightarrow> int \<Rightarrow> int" where
  "int_or_default raw fallback = (case py_int raw of None \<Rightarrow> fallback | Some i \<Rightarrow> i)"

definition rl_limit :: "rate_limit_settings \<Rightarrow> environ \<Rightarrow> int" where
  "rl_limit s env =
     (case rls_limit s of
        Some n \<Rightarrow> n
      | None \<Rightarrow> (case env ''LAVS_AUTH_RATE_LIMIT'' of
                  None \<Rightarrow> 0
                | Some raw \<Rightarrow> if strip raw = [] then 0 else int_or_default raw 0))"

definition rl_window_seconds :: "rate_limit_settings \<Rightarrow> environ \<Rightarrow> int" where
  "rl_window_seconds s env =
     (case rls_window_seconds s of
        Some n \<Rightarrow> n
      | None \<Rightarrow> (case env ''LAVS_AUTH_RATE_WINDOW_SECONDS'' of
                  None \<Rightarrow> 60
                | Some raw \<Rightarrow> if strip raw = [] then 60 else int_or_default raw 60))"

definition truthy :: "string \<Rightarrow> bool" where
  "truthy raw = (lower (strip raw) \<in> set [''1'', ''true'', ''yes'', ''on''])"

definition rl_trust_forwarded_for :: "rate_limit_settings \<Rightarrow> environ \<Rightarrow> bool" where
  "rl_trust_forwarded_for s env =
     (case rls_trust_forwarded_for s of
        Some b \<Rightarrow> b
      | None \<Rightarrow> truthy (case env ''LAVS_AUTH_RATE_TRUST_FORWARDED_FOR'' of None \<Rightarrow> [] | Some raw \<Rightarrow> raw))"

definition rl_enabled :: "rate_limit_settings \<Rightarrow> environ \<Rightarrow> bool" where
  "rl_enabled s env = (0 < rl_limit s env \<and> 0 < rl_window_seconds s env)"

section \<open>The middleware\<close>

record asgi_scope =
  scope_type :: string
  scope_path :: string
  scope_headers :: "(string \<times> string) list"
  scope_client :: "string option"

definition ascii_lower_char :: "char \<Rightarrow> char" where
  "ascii_lower_char c = (if 65 \<le> code c \<and> code c \<le> 90 then char_of (code c + 32) else c)"

fun forwarded_for :: "(string \<times> string) list \<Rightarrow> string option" where
  "forwarded_for [] = None"
| "forwarded_for ((name, value) # headers) =
     (if map ascii_lower_char name = ''x-forwarded-for''
      then (let first = strip (before_first (CHR '','') value) in if first \<noteq> [] then Some first else None)
      else forwarded_for headers)"

definition client_key :: "rate_limit_settings \<Rightarrow> environ \<Rightarrow> asgi_scope \<Rightarrow> string" where
  "client_key s env sc =
     (let transport = (case scope_client sc of None \<Rightarrow> ''unknown'' | Some c \<Rightarrow> c)
      in if rl_trust_forwarded_for s env
         then (case forwarded_for (scope_headers sc) of Some f \<Rightarrow> f | None \<Rightarrow> transport)
         else transport)"

definition rate_limited_response :: "int \<Rightarrow> http_response" where
  "rate_limited_response window_seconds =
     (let e = RateLimitedError ''too many requests'' [(''retry_after_seconds'', JInt window_seconds)]
      in \<lparr>resp_status = http_status (err_class e),
          resp_headers = [(''Retry-After'', str_int window_seconds)],
          resp_body = error_envelope_json
            (error_detail_json (class_code (err_class e)) (err_message e) (err_details e))\<rparr>)"

text \<open>Ticks of the clock per second.\<close>

definition ticks_per_second :: int where
  "ticks_per_second = 1000000000"

datatype forwarding = Forwarded | Refused http_response

definition under_auth :: "asgi_scope \<Rightarrow> bool" where
  "under_auth sc = (scope_type sc = ''http'' \<and> startswith (scope_path sc) ''/auth/'')"

definition rate_limit_middleware ::
  "rate_limit_settings \<Rightarrow> environ \<Rightarrow> int \<Rightarrow> asgi_scope \<Rightarrow> limiter \<Rightarrow> (forwarding \<times> limiter) option" where
  "rate_limit_middleware s env now sc l =
     (if \<not> under_auth sc then Some (Forwarded, l)
      else if \<not> rl_enabled s env then Some (Forwarded, l)
      else
        map_option
          (\<lambda>(admitted, l'). (if admitted then Forwarded else Refused (rate_limited_response (rl_window_seconds s env)), l'))
          (allow (client_key s env sc) (rl_limit s env) (rl_window_seconds s env * ticks_per_second) now l))"

definition middleware_limiter :: "rate_limit_settings \<Rightarrow> limiter" where
  "middleware_limiter s = new_limiter (Some (rls_max_tracked_clients s))"

section \<open>API-key settings\<close>

record api_key_settings =
  aks_header_name :: string
  aks_env_var_name :: string

definition or_default :: "string option \<Rightarrow> string \<Rightarrow> string" where
  "or_default v d = (case v of None \<Rightarrow> d | Some s \<Rightarrow> if s = [] then d else s)"

definition api_key_settings_init :: "string option \<Rightarrow> string option \<Rightarrow> api_key_settings" where
  "api_key_settings_init header_name env_var_name =
     \<lparr>aks_header_name = or_default header_name ''X-API-Key'',
      aks_env_var_name = or_default env_var_name ''LAVS_API_KEY''\<rparr>"

definition configured_key :: "api_key_settings \<Rightarrow> environ \<Rightarrow> string option" where
  "configured_key s env = env (aks_env_var_name s)"

definition api_settings :: api_key_settings where
  "api_settings = api_key_settings_init None None"

definition API_KEY_HEADER :: string where
  "API_KEY_HEADER = aks_header_name api_settings"

definition get_configured_api_key :: "environ \<Rightarrow> string option" where
  "get_configured_api_key env = configured_key api_settings env"

definition is_authentication_enabled :: "environ \<Rightarrow> bool" where
  "is_authentication_enabled env =
     (case get_configured_api_key env of None \<Rightarrow> False | Some k \<Rightarrow> k \<noteq> [])"

section \<open>What the middleware leaves alone\<close>

lemma middleware_inert:
  "\<not> under_auth sc \<or> \<not> rl_enabled s env \<Longrightarrow> rate_limit_middleware s env now sc l = Some (Forwarded, l)"
  by (auto simp: rate_limit_middleware_def)

lemma client_key_untrusted:
  "\<not> rl_trust_forwarded_for s env \<Longrightarrow> client_key s env (sc\<lparr>scope_headers := h\<rparr>) = client_key s env sc"
  by (simp add: client_key_def Let_def)

lemma middleware_total:
  assumes "buckets_ok clock l" "clock \<le> now"
  shows "\<exists>d l'. rate_limit_middleware s env now sc l = Some (d, l') \<and> buckets_ok now l' \<and> max_keys l' = max_keys l"
proof (cases "under_auth sc \<and> rl_enabled s env")
  case True
  obtain ok' l' where "allow (client_key s env sc) (rl_limit s env) (rl_window_seconds s env * ticks_per_second) now l
      = Some (ok', l')" "buckets_ok now l'" "max_keys l' = max_keys l" by (rule allow_total[OF assms]) blast
  with True show ?thesis by (simp add: rate_limit_middleware_def)
next
  case False
  have "buckets_ok now l" using assms bucket_ok_mono by (auto simp: buckets_ok_def)
  with False middleware_inert[of sc s env now l] show ?thesis by auto
qed

lemma middleware_refused_envelope:
  assumes "rate_limit_middleware s env now sc l = Some (Refused r, l')"
  shows "resp_status r = 429" and "resp_headers r = [(''Retry-After'', str_int (rl_window_seconds s env))]"
    and "0 < rl_window_seconds s env" "under_auth sc"
  using assms by (auto simp: rate_limit_middleware_def rate_limited_response_def RateLimitedError_def
      rl_enabled_def Let_def split: if_splits)

section \<open>Properties\<close>

text \<open>The middleware limits the authentication surface and nothing else. It always decides; a
  request outside \<open>/auth/\<close>, or any request while the limit is not set, is forwarded and leaves
  the limiter as it was; a refusal is the 429 envelope with a positive retry time; and unless
  the forwarded-for header is trusted, no request header influences the decision.\<close>

theorem rate_limit_middleware_contract:
  assumes "buckets_ok clock l" and "clock \<le> now"
  shows "\<exists>d l'. rate_limit_middleware s env now sc l = Some (d, l') \<and> buckets_ok now l' \<and>
    (\<not> under_auth sc \<or> \<not> rl_enabled s env \<longrightarrow> d = Forwarded \<and> l' = l) \<and>
    (\<forall>r. d = Refused r \<longrightarrow> resp_status r = 429 \<and> under_auth sc \<and> 0 < rl_window_seconds s env \<and>
       resp_headers r = [(''Retry-After'', str_int (rl_window_seconds s env))]) \<and>
    (\<not> rl_trust_forwarded_for s env \<longrightarrow>
       (\<forall>headers. rate_limit_middleware s env now (sc\<lparr>scope_headers := headers\<rparr>) l = Some (d, l')))"
proof -
  obtain d l' where run: "rate_limit_middleware s env now sc l = Some (d, l')" "buckets_ok now l'"
    using middleware_total[OF assms] by blast
  have header: "rate_limit_middleware s env now (sc\<lparr>scope_headers := h\<rparr>) l = Some (d, l')"
    if "\<not> rl_trust_forwarded_for s env" for h
    unfolding run(1)[symmetric] by (simp add: rate_limit_middleware_def under_auth_def client_key_untrusted[OF that])
  have inert: "d = Forwarded \<and> l' = l" if "\<not> under_auth sc \<or> \<not> rl_enabled s env"
    using middleware_inert[OF that, of now l] run(1) by simp
  have refused: "resp_status r = 429 \<and> under_auth sc \<and> 0 < rl_window_seconds s env \<and>
      resp_headers r = [(''Retry-After'', str_int (rl_window_seconds s env))]" if "d = Refused r" for r
    using middleware_refused_envelope[OF run(1)[unfolded that]] by simp
  have "(\<not> under_auth sc \<or> \<not> rl_enabled s env \<longrightarrow> d = Forwarded \<and> l' = l)" using inert by (rule impI)
  moreover have "\<forall>r. d = Refused r \<longrightarrow> resp_status r = 429 \<and> under_auth sc \<and> 0 < rl_window_seconds s env \<and>
      resp_headers r = [(''Retry-After'', str_int (rl_window_seconds s env))]" using refused by (intro allI impI)
  moreover have "\<not> rl_trust_forwarded_for s env \<longrightarrow>
      (\<forall>headers. rate_limit_middleware s env now (sc\<lparr>scope_headers := headers\<rparr>) l = Some (d, l'))"
    using header by (intro allI impI)
  ultimately show ?thesis using run by (intro exI[of _ d] exI[of _ l'] conjI)
qed

theorem rate_limit_middleware_contract_witness:
  "\<exists>d l'. rate_limit_middleware (rate_limit_settings_init (Some 1) (Some 60) (Some False) None) Map.empty 5
     \<lparr>scope_type = ''http'', scope_path = ''/auth/login'', scope_headers = [], scope_client = None\<rparr>
     (new_limiter None) = Some (d, l') \<and> buckets_ok 5 l'"
proof -
  have "(0::int) \<le> 5" by simp
  from rate_limit_middleware_contract[OF buckets_ok_new[of 0 None] this] show ?thesis by blast
qed

end
