(* ===== verification/Mail.thy ===== *)
theory Mail
  imports Ring
begin

text \<open>
  \<open>app/mail/capture_mailer.py\<close>: the application-scoped in-memory mailer, a
  \<open>deque(maxlen=capacity)\<close> of captured messages with its read operations, and the
  dependency that installs one lazily.
\<close>

record captured_email =
  mail_to :: string
  mail_subject :: string
  mail_body :: string

record capture_mailer =
  mail_capacity :: nat
  mail_messages :: "captured_email list"

definition default_max_messages :: nat where
  "default_max_messages = 100"

definition new_mailer :: "nat option \<Rightarrow> capture_mailer" where
  "new_mailer max_messages =
     \<lparr>mail_capacity = (case max_messages of None \<Rightarrow> default_max_messages | Some n \<Rightarrow> n),
      mail_messages = []\<rparr>"

text \<open>Appending to a bounded deque pops from the left once it is longer than the bound.\<close>

definition deque_append :: "nat \<Rightarrow> 'a \<Rightarrow> 'a list \<Rightarrow> 'a list" where
  "deque_append maxlen x xs =
     (let ys = xs @ [x] in if maxlen < length ys then tl ys else ys)"

definition send :: "string \<Rightarrow> string \<Rightarrow> string \<Rightarrow> capture_mailer \<Rightarrow> capture_mailer" where
  "send to subject body m =
     m\<lparr>mail_messages :=
         deque_append (mail_capacity m) \<lparr>mail_to = to, mail_subject = subject, mail_body = body\<rparr>
           (mail_messages m)\<rparr>"

definition messages :: "capture_mailer \<Rightarrow> captured_email list" where
  "messages m = mail_messages m"

definition last_message :: "capture_mailer \<Rightarrow> captured_email option" where
  "last_message m = (if mail_messages m \<noteq> [] then Some (last (mail_messages m)) else None)"

fun first_to :: "string \<Rightarrow> captured_email list \<Rightarrow> captured_email option" where
  "first_to recipient [] = None"
| "first_to recipient (m # ms) = (if mail_to m = recipient then Some m else first_to recipient ms)"

definition last_for :: "string \<Rightarrow> capture_mailer \<Rightarrow> captured_email option" where
  "last_for recipient m = first_to recipient (rev (mail_messages m))"

definition clear_mailer :: "capture_mailer \<Rightarrow> capture_mailer" where
  "clear_mailer m = m\<lparr>mail_messages := []\<rparr>"

definition get_mailer :: "capture_mailer option \<Rightarrow> capture_mailer" where
  "get_mailer installed = (case installed of None \<Rightarrow> new_mailer None | Some m \<Rightarrow> m)"

section \<open>The mailbox is a drop-oldest ring\<close>

lemma deque_append_last_n:
  assumes "length xs \<le> n"
  shows "deque_append n x xs = last_n n (xs @ [x])"
proof (cases "length xs = n")
  case True
  then have "Suc (length xs) - n = 1" by simp
  with True show ?thesis
    by (simp only: deque_append_def last_n_def Let_def length_append_singleton)
       (cases xs; simp)
next
  case False
  with assms show ?thesis by (simp add: deque_append_def last_n_all)
qed

interpretation ring100: bounded_buffer "deque_append default_max_messages" "\<lambda>q. q" default_max_messages
  by unfold_locales (simp_all add: default_max_messages_def deque_append_last_n)

definition send_all :: "captured_email list \<Rightarrow> capture_mailer \<Rightarrow> capture_mailer" where
  "send_all es m = fold (\<lambda>e. send (mail_to e) (mail_subject e) (mail_body e)) es m"

lemma send_all_messages:
  "mail_capacity (send_all es m) = mail_capacity m \<and>
   mail_messages (send_all es m) = fold (deque_append (mail_capacity m)) es (mail_messages m)"
proof (induction es arbitrary: m)
  case (Cons e es)
  have e: "send (mail_to e) (mail_subject e) (mail_body e) m =
      m\<lparr>mail_messages := deque_append (mail_capacity m) e (mail_messages m)\<rparr>"
    by (cases e) (simp add: send_def)
  show ?case using Cons[of "m\<lparr>mail_messages := deque_append (mail_capacity m) e (mail_messages m)\<rparr>"]
    by (simp add: send_all_def e)
qed (simp add: send_all_def)

lemma default_mailer_ring: "mail_messages (send_all es (new_mailer None)) = last_n 100 es"
  using ring100.put_all_from_empty[of "[]" es]
  by (simp add: send_all_messages new_mailer_def default_max_messages_def)

lemma first_to_rev_snoc: "first_to r (rev (ms @ [m])) = (if mail_to m = r then Some m else first_to r (rev ms))"
  by simp

lemma first_to_Some: "first_to r ms = Some m \<Longrightarrow> m \<in> set ms \<and> mail_to m = r"
  by (induction ms) (auto split: if_splits)

lemma send_capacity [simp]: "mail_capacity (send t s b m) = mail_capacity m"
  by (simp add: send_def)

lemma last_message_send:
  "0 < mail_capacity m \<Longrightarrow> last_message (send r s b m) = Some \<lparr>mail_to = r, mail_subject = s, mail_body = b\<rparr>"
  by (cases "mail_messages m") (auto simp: last_message_def send_def deque_append_def Let_def last_tl)

text \<open>What was just sent is what \<open>last_for\<close> finds, and only its recipient sees a change.\<close>

lemma last_for_send:
  assumes "0 < mail_capacity m"
  shows "last_for r (send r s b m) = Some \<lparr>mail_to = r, mail_subject = s, mail_body = b\<rparr>"
  using assms by (simp add: last_for_def send_def deque_append_def Let_def) (cases "mail_messages m"; simp)

section \<open>Properties\<close>

text \<open>The capture mailer is a ring of the last hundred messages: after any sequence of sends
  it holds exactly the newest hundred in order, and the lookup by recipient finds the newest
  message sent to that address, so the verification token just mailed can always be read.\<close>

theorem capture_mailer_keeps_newest:
  "mail_messages (send_all es (new_mailer None)) = last_n 100 es \<and>
   last_for r (send r s b (send_all es (new_mailer None))) = Some \<lparr>mail_to = r, mail_subject = s, mail_body = b\<rparr>"
proof -
  have "mail_capacity (send_all es (new_mailer None)) = 100"
    using send_all_messages[of es "new_mailer None"] by (simp add: new_mailer_def default_max_messages_def)
  with last_for_send[of "send_all es (new_mailer None)" r s b] default_mailer_ring show ?thesis by simp
qed

end
