(* ===== verification/Auth_Store.thy ===== *)
theory Auth_Store
  imports Responses Security Mail
begin

text \<open>
  The persistent half of \<open>app/auth\<close>: users, sessions and verification tokens, with the settings
  they read. The SHA-256 digest of a token, the argon2 functions, fresh secrets and identifiers,
  and the clock (naive UTC microseconds) are arguments. Instants are unbounded: that \<open>now + timedelta(...)\<close> overflows for a
  time to live of thousands of years is not modelled. Sessions and verification tokens share
  one contract, a store of expiring keys that stay dead once retired; it is a locale here,
  interpreted on both.
\<close>

fun user_status_value :: "user_status \<Rightarrow> string" where
  "user_status_value PENDING = ''pending''"
| "user_status_value USER_ACTIVE = ''active''"
| "user_status_value DISABLED = ''disabled''"

record user_response =
  ur_id :: ident
  ur_email :: string
  ur_status :: string
  ur_edition :: "string option"

definition user_model :: "user_row \<Rightarrow> user_response" where
  "user_model u =
     \<lparr>ur_id = u_id u, ur_email = u_email u, ur_status = user_status_value (u_status u), ur_edition = u_edition u\<rparr>"

definition microseconds :: "int \<Rightarrow> timestamp" where
  "microseconds seconds = seconds * 1000000"

section \<open>Users\<close>

definition create_user ::
  "ident \<Rightarrow> string \<Rightarrow> string \<Rightarrow> user_status \<Rightarrow> string option \<Rightarrow> timestamp \<Rightarrow> database \<Rightarrow>
     (error + user_response \<times> database)" where
  "create_user user_id email password_hash st edition now db =
     (case insert_user \<lparr>u_id = user_id, u_email = email, u_password_hash = password_hash, u_status = st,
                        u_edition = edition, u_created_at = now\<rparr> db of
        Inl e \<Rightarrow> Inl e
      | Inr db' \<Rightarrow>
          Inr (\<lparr>ur_id = user_id, ur_email = email, ur_status = user_status_value st, ur_edition = edition\<rparr>, db'))"

definition get_user_by_email :: "string \<Rightarrow> database \<Rightarrow> user_row option" where
  "get_user_by_email email db = fetchone (filter (\<lambda>u. u_email u = email) (users db))"

definition get_user_by_id :: "ident \<Rightarrow> database \<Rightarrow> user_row option" where
  "get_user_by_id i db = fetchone (filter (\<lambda>u. u_id u = i) (users db))"

definition activate_user :: "ident \<Rightarrow> database \<Rightarrow> database" where
  "activate_user i db =
     db\<lparr>users := sql_update (\<lambda>u. u_id u = i) (\<lambda>u. u\<lparr>u_status := USER_ACTIVE\<rparr>) (users db)\<rparr>"

section \<open>Sessions\<close>

definition create_session ::
  "(string \<Rightarrow> string) \<Rightarrow> ident \<Rightarrow> string \<Rightarrow> timestamp \<Rightarrow> ident \<Rightarrow> int \<Rightarrow> database \<Rightarrow> (error + string \<times> database)"
  where
  "create_session sha session_id token now user_id ttl_seconds db =
     (case insert_session \<lparr>s_id = session_id, s_user_id = user_id, s_token_hash = sha token,
             s_created_at = now, s_expires_at = now + microseconds ttl_seconds\<rparr> db of
        Inl e \<Rightarrow> Inl e
      | Inr db' \<Rightarrow> Inr (token, db'))"

definition lookup_active_user_id :: "(string \<Rightarrow> string) \<Rightarrow> string \<Rightarrow> timestamp \<Rightarrow> database \<Rightarrow> ident option" where
  "lookup_active_user_id sha token now db =
     map_option s_user_id
       (fetchone (filter (\<lambda>s. s_token_hash s = sha token \<and> now < s_expires_at s) (sessions db)))"

definition delete_session :: "(string \<Rightarrow> string) \<Rightarrow> string \<Rightarrow> database \<Rightarrow> database" where
  "delete_session sha token db =
     db\<lparr>sessions := sql_delete (\<lambda>s. s_token_hash s = sha token) (sessions db)\<rparr>"

section \<open>Verification tokens\<close>

definition issue_token :: "string \<Rightarrow> ident \<Rightarrow> timestamp \<Rightarrow> int \<Rightarrow> database \<Rightarrow> database outcome" where
  "issue_token token_hash user_id now ttl_seconds db =
     insert_token \<lparr>t_token_hash = token_hash, t_user_id = user_id,
       t_expires_at = now + microseconds ttl_seconds, t_consumed_at = None\<rparr> db"

definition find_active_token :: "string \<Rightarrow> timestamp \<Rightarrow> database \<Rightarrow> token_row option" where
  "find_active_token token_hash now db =
     fetchone (filter (\<lambda>t. t_token_hash t = token_hash \<and> t_consumed_at t = None \<and> now < t_expires_at t)
       (tokens db))"

definition consume_token :: "string \<Rightarrow> timestamp \<Rightarrow> database \<Rightarrow> database" where
  "consume_token token_hash now db =
     db\<lparr>tokens := sql_update (\<lambda>t. t_token_hash t = token_hash) (\<lambda>t. t\<lparr>t_consumed_at := Some now\<rparr>) (tokens db)\<rparr>"

section \<open>The shared contract\<close>

text \<open>
  \<open>used\<close> says that some row of the store carries the key. A key found live belongs to a used
  row; retiring a key makes it dead at every time and leaves the others alone; adding another
  key leaves it alone.
\<close>

locale expiring_store =
  fixes used :: "'s \<Rightarrow> 'k \<Rightarrow> bool"
    and find :: "'s \<Rightarrow> 'k \<Rightarrow> int \<Rightarrow> 'u option"
    and add :: "'k \<Rightarrow> 'u \<Rightarrow> int \<Rightarrow> 's \<Rightarrow> 's"
    and retire :: "'k \<Rightarrow> int \<Rightarrow> 's \<Rightarrow> 's"
  assumes find_unused: "\<not> used s k \<Longrightarrow> find s k now = None"
    and find_add: "\<not> used s k \<Longrightarrow> find (add k u e s) k now = (if now < e then Some u else None)"
    and find_add_other: "k' \<noteq> k \<Longrightarrow> find (add k u e s) k' now = find s k' now"
    and find_retire: "find (retire k t s) k now = None"
    and find_retire_other: "k' \<noteq> k \<Longrightarrow> find (retire k t s) k' now = find s k' now"
    and find_expires: "find s k now' \<noteq> None \<Longrightarrow> now \<le> now' \<Longrightarrow> find s k now \<noteq> None"
begin

lemma live_until_expiry: "\<not> used s k \<Longrightarrow> find (add k u e s) k now = Some u \<longleftrightarrow> now < e"
  by (simp add: find_add)

lemma stays_expired: "find s k now = None \<Longrightarrow> now \<le> now' \<Longrightarrow> find s k now' = None"
  using find_expires by blast

text \<open>Operations on a store: additions and retirements of any keys.\<close>

fun store_ops :: "('k \<times> 'u \<times> int + 'k \<times> int) list \<Rightarrow> 's \<Rightarrow> 's" where
  "store_ops [] s = s"
| "store_ops (Inl (k, u, e) # ops) s = store_ops ops (add k u e s)"
| "store_ops (Inr (k, t) # ops) s = store_ops ops (retire k t s)"

lemma dead_stays_dead:
  "(\<forall>t. find s k t = None) \<Longrightarrow> (\<forall>u e. Inl (k, u, e) \<notin> set ops) \<Longrightarrow> find (store_ops ops s) k now = None"
proof (induction ops arbitrary: s)
  case (Cons x ops)
  show ?case
  proof (cases x)
    case (Inl a)
    obtain k' u e where a: "a = (k', u, e)" by (cases a)
    with Cons.prems(2) Inl have "k \<noteq> k'" by auto
    with Cons.prems(1) have "\<forall>t. find (add k' u e s) k t = None" by (simp add: find_add_other)
    with Cons.IH Cons.prems(2) show ?thesis by (simp add: Inl a)
  next
    case (Inr a)
    obtain k' t where a: "a = (k', t)" by (cases a)
    have "\<forall>r. find (retire k' t s) k r = None"
      using Cons.prems(1) find_retire find_retire_other by (cases "k = k'") auto
    with Cons.IH Cons.prems(2) show ?thesis by (simp add: Inr a)
  qed
qed simp

lemma retired_is_dead:
  "(\<forall>u e. Inl (k, u, e) \<notin> set ops) \<Longrightarrow> find (store_ops ops (retire k t s)) k now = None"
  by (rule dead_stays_dead) (simp_all add: find_retire)

end

text \<open>Sessions, by the digest of the token: the key is retired by deleting its rows.\<close>

definition session_used :: "session_row list \<Rightarrow> string \<Rightarrow> bool" where
  "session_used ss h \<longleftrightarrow> (\<exists>s\<in>set ss. s_token_hash s = h)"

definition session_find :: "session_row list \<Rightarrow> string \<Rightarrow> timestamp \<Rightarrow> ident option" where
  "session_find ss h now =
     map_option s_user_id (fetchone (filter (\<lambda>s. s_token_hash s = h \<and> now < s_expires_at s) ss))"

definition session_add :: "ident \<Rightarrow> timestamp \<Rightarrow> string \<Rightarrow> ident \<Rightarrow> timestamp \<Rightarrow> session_row list \<Rightarrow> session_row list" where
  "session_add i created h u e ss =
     ss @ [\<lparr>s_id = i, s_user_id = u, s_token_hash = h, s_created_at = created, s_expires_at = e\<rparr>]"

definition session_retire :: "string \<Rightarrow> timestamp \<Rightarrow> session_row list \<Rightarrow> session_row list" where
  "session_retire h t ss = sql_delete (\<lambda>s. s_token_hash s = h) ss"

lemma fetchone_append: "fetchone (xs @ ys) = (case fetchone xs of None \<Rightarrow> fetchone ys | Some x \<Rightarrow> Some x)"
  by (cases xs) simp_all

lemma fetchone_filter_exists: "fetchone (filter P xs) \<noteq> None \<longleftrightarrow> (\<exists>x\<in>set xs. P x)"
  by (auto simp: fetchone_None filter_empty_conv)

interpretation sessions: expiring_store session_used session_find "session_add i created" session_retire
proof
  fix ss :: "session_row list" and h h' :: string and now now' t e :: timestamp and u :: ident
  show "\<not> session_used ss h \<Longrightarrow> session_find ss h now = None"
    by (auto simp: session_used_def session_find_def fetchone_None filter_empty_conv)
  show "\<not> session_used ss h \<Longrightarrow> session_find (session_add i created h u e ss) h now = (if now < e then Some u else None)"
  proof -
    assume "\<not> session_used ss h"
    then have "filter (\<lambda>s. s_token_hash s = h \<and> now < s_expires_at s) ss = []"
      by (auto simp: session_used_def filter_empty_conv)
    then show ?thesis by (simp add: session_find_def session_add_def)
  qed
  show "h' \<noteq> h \<Longrightarrow> session_find (session_add i created h u e ss) h' now = session_find ss h' now"
    by (simp add: session_find_def session_add_def)
  show "session_find (session_retire h t ss) h now = None"
    by (auto simp: session_find_def session_retire_def sql_delete_def fetchone_None filter_empty_conv)
  show "h' \<noteq> h \<Longrightarrow> session_find (session_retire h t ss) h' now = session_find ss h' now"
  proof -
    assume "h' \<noteq> h"
    then have "filter (\<lambda>s. s_token_hash s = h' \<and> now < s_expires_at s) (session_retire h t ss)
        = filter (\<lambda>s. s_token_hash s = h' \<and> now < s_expires_at s) ss"
      by (auto simp: session_retire_def sql_delete_def intro!: filter_cong)
    then show ?thesis by (simp add: session_find_def)
  qed
  show "session_find ss h now' \<noteq> None \<Longrightarrow> now \<le> now' \<Longrightarrow> session_find ss h now \<noteq> None"
    by (auto simp: session_find_def fetchone_None filter_empty_conv)
qed

text \<open>Verification tokens: the key is retired by stamping \<open>consumed_at\<close>.\<close>

definition token_used :: "token_row list \<Rightarrow> string \<Rightarrow> bool" where
  "token_used ts h \<longleftrightarrow> (\<exists>t\<in>set ts. t_token_hash t = h)"

definition live_token :: "string \<Rightarrow> timestamp \<Rightarrow> token_row \<Rightarrow> bool" where
  "live_token h now t \<longleftrightarrow> t_token_hash t = h \<and> t_consumed_at t = None \<and> now < t_expires_at t"

definition token_find :: "token_row list \<Rightarrow> string \<Rightarrow> timestamp \<Rightarrow> ident option" where
  "token_find ts h now = map_option t_user_id (fetchone (filter (live_token h now) ts))"

definition token_add :: "string \<Rightarrow> ident \<Rightarrow> timestamp \<Rightarrow> token_row list \<Rightarrow> token_row list" where
  "token_add h u e ts =
     ts @ [\<lparr>t_token_hash = h, t_user_id = u, t_expires_at = e, t_consumed_at = None\<rparr>]"

definition token_retire :: "string \<Rightarrow> timestamp \<Rightarrow> token_row list \<Rightarrow> token_row list" where
  "token_retire h now ts =
     sql_update (\<lambda>t. t_token_hash t = h) (\<lambda>t. t\<lparr>t_consumed_at := Some now\<rparr>) ts"

lemma live_token_simps:
  "\<not> live_token h now (t\<lparr>t_consumed_at := Some x\<rparr>)" "t_token_hash t \<noteq> h \<Longrightarrow> \<not> live_token h now t"
  by (simp_all add: live_token_def)

lemma live_token_hash: "live_token h now t \<Longrightarrow> t_token_hash t = h"
  by (simp add: live_token_def)

lemma filter_live_retired:
  "filter (live_token h' now) (token_retire h t ts) = (if h' = h then [] else filter (live_token h' now) ts)"
  by (induction ts) (auto simp: token_retire_def sql_update_def live_token_simps(1) dest: live_token_hash)

interpretation tokens: expiring_store token_used token_find token_add token_retire
proof
  fix ts :: "token_row list" and h h' :: string and now now' t e :: timestamp and u :: ident
  show unused: "\<not> token_used ts h \<Longrightarrow> token_find ts h now = None"
    by (auto simp: token_used_def token_find_def live_token_def fetchone_None filter_empty_conv)
  show "\<not> token_used ts h \<Longrightarrow> token_find (token_add h u e ts) h now = (if now < e then Some u else None)"
  proof -
    assume "\<not> token_used ts h"
    then have "filter (live_token h now) ts = []"
      by (auto simp: token_used_def live_token_def filter_empty_conv)
    then show ?thesis by (simp add: token_find_def token_add_def live_token_def)
  qed
  show "h' \<noteq> h \<Longrightarrow> token_find (token_add h u e ts) h' now = token_find ts h' now"
    by (simp add: token_find_def token_add_def live_token_def)
  show "token_find (token_retire h t ts) h now = None"
    by (simp add: token_find_def filter_live_retired)
  show "h' \<noteq> h \<Longrightarrow> token_find (token_retire h t ts) h' now = token_find ts h' now"
    by (simp add: token_find_def filter_live_retired)
  show "token_find ts h now' \<noteq> None \<Longrightarrow> now \<le> now' \<Longrightarrow> token_find ts h now \<noteq> None"
    by (auto simp: token_find_def live_token_def fetchone_None filter_empty_conv)
qed

text \<open>The service operations are the store's, keyed by the digest.\<close>

lemma lookup_is_find: "lookup_active_user_id sha token now db = session_find (sessions db) (sha token) now"
  by (simp add: lookup_active_user_id_def session_find_def)

lemma delete_is_retire: "sessions (delete_session sha token db) = session_retire (sha token) t (sessions db)"
  by (simp add: delete_session_def session_retire_def)

lemma find_active_is_find:
  "map_option t_user_id (find_active_token h now db) = token_find (tokens db) h now"
  by (simp add: find_active_token_def token_find_def live_token_def[abs_def])

lemma consume_is_retire: "tokens (consume_token h now db) = token_retire h now (tokens db)"
  by (simp add: consume_token_def token_retire_def)

end
