(* ===== verification/Auth.thy ===== *)
theory Auth
  imports Auth_Store
begin

text \<open>
  The request-time half of \<open>app/auth\<close> and the routes of \<open>app/routers/auth.py\<close>: settings, the two
  providers, the registry and the fail-closed resolver, sign-up, verification, login, logout
  and \<open>/auth/me\<close>. A provider is a function of what it reads at request time; providers a
  plugin registers are further functions of the same type.
\<close>

section \<open>Settings\<close>

datatype auth_mode = PASSWORD | APIKEY

fun auth_mode_value :: "auth_mode \<Rightarrow> string" where
  "auth_mode_value PASSWORD = ''password''"
| "auth_mode_value APIKEY = ''apikey''"

record auth_settings =
  as_modes :: "auth_mode set option"
  as_allowed_email_domains :: "string list option"
  as_session_ttl_seconds :: "int option"
  as_edition :: "string option"

definition default_auth_settings :: auth_settings where
  "default_auth_settings = \<lparr>as_modes = None, as_allowed_email_domains = None,
     as_session_ttl_seconds = None, as_edition = None\<rparr>"

definition env_or_empty :: "environ \<Rightarrow> string \<Rightarrow> string" where
  "env_or_empty env name = (case env name of None \<Rightarrow> [] | Some v \<Rightarrow> v)"

definition split_csv :: "string \<Rightarrow> string list" where
  "split_csv raw = filter (\<lambda>w. w \<noteq> []) (map strip (split_on (CHR '','') raw))"

definition auth_mode_of :: "string \<Rightarrow> auth_mode option" where
  "auth_mode_of w =
     (if w = auth_mode_value PASSWORD then Some PASSWORD
      else if w = auth_mode_value APIKEY then Some APIKEY else None)"

definition recognised_modes :: "string list \<Rightarrow> auth_mode set" where
  "recognised_modes ws = set (List.map_filter (\<lambda>w. auth_mode_of (lower w)) ws)"

definition modes :: "auth_settings \<Rightarrow> environ \<Rightarrow> auth_mode set" where
  "modes s env =
     (case as_modes s of
        Some ms \<Rightarrow> ms
      | None \<Rightarrow> recognised_modes (split_csv (env_or_empty env ''LAVS_AUTH_MODES'')))"

definition allowed_email_domains :: "auth_settings \<Rightarrow> environ \<Rightarrow> string list" where
  "allowed_email_domains s env =
     (case as_allowed_email_domains s of
        Some ds \<Rightarrow> ds
      | None \<Rightarrow> map lower (split_csv (env_or_empty env ''LAVS_ALLOWED_EMAIL_DOMAINS'')))"

definition env_int :: "environ \<Rightarrow> string \<Rightarrow> int \<Rightarrow> int outcome" where
  "env_int env name fallback =
     (case env name of
        None \<Rightarrow> Inr fallback
      | Some raw \<Rightarrow>
          if strip raw = [] then Inr fallback
          else (case py_int raw of None \<Rightarrow> Inl ValueError | Some i \<Rightarrow> Inr i))"

definition session_ttl_seconds :: "auth_settings \<Rightarrow> environ \<Rightarrow> int outcome" where
  "session_ttl_seconds s env =
     (case as_session_ttl_seconds s of
        Some n \<Rightarrow> Inr n
      | None \<Rightarrow> env_int env ''LAVS_SESSION_TTL_SECONDS'' 604800)"

definition edition :: "auth_settings \<Rightarrow> environ \<Rightarrow> string" where
  "edition s env =
     (case as_edition s of
        Some e \<Rightarrow> e
      | None \<Rightarrow> (case env ''LAVS_EDITION'' of
                  None \<Rightarrow> ''oss''
                | Some raw \<Rightarrow> if strip raw = [] then ''oss'' else strip raw))"

definition password_enabled :: "auth_settings \<Rightarrow> environ \<Rightarrow> bool" where
  "password_enabled s env = (PASSWORD \<in> modes s env)"

definition apikey_mode_enabled :: "auth_settings \<Rightarrow> environ \<Rightarrow> bool" where
  "apikey_mode_enabled s env = (APIKEY \<in> modes s env)"

definition verification_ttl_seconds :: "int option \<Rightarrow> environ \<Rightarrow> int outcome" where
  "verification_ttl_seconds pinned env =
     (case pinned of
        Some n \<Rightarrow> Inr n
      | None \<Rightarrow> env_int env ''LAVS_EMAIL_VERIFICATION_TTL_SECONDS'' 86400)"

section \<open>Principals and providers\<close>

datatype principal_kind = USER | SERVICE_KIND

record principal =
  prin_kind :: principal_kind
  prin_id :: ident
  prin_email :: "string option"
  prin_edition :: string

text \<open>Header names are compared in lower case, as the web framework stores them.\<close>

record auth_request =
  rq_headers :: "(string, string) dict"
  rq_cookies :: "(string, string) dict"

record auth_env =
  ae_environ :: environ
  ae_now :: timestamp
  ae_db :: "database option"
  ae_sha :: "string \<Rightarrow> string"

type_synonym provider = "auth_env \<Rightarrow> auth_request \<Rightarrow> principal option outcome"

text \<open>\<open>hmac.compare_digest\<close> on two strings: a \<open>TypeError\<close> unless both are ASCII.\<close>

definition is_ascii :: "string \<Rightarrow> bool" where
  "is_ascii s = list_all (\<lambda>c. code c < 128) s"

definition compare_digest :: "string \<Rightarrow> string \<Rightarrow> bool outcome" where
  "compare_digest a b = (if is_ascii a \<and> is_ascii b then Inr (a = b) else Inl TypeError)"

definition api_key_provider :: "string \<Rightarrow> provider" where
  "api_key_provider ed ae rq =
     (case get_configured_api_key (ae_environ ae) of
        None \<Rightarrow> Inr None
      | Some configured \<Rightarrow>
          if configured = [] then Inr None
          else (case dict_get (rq_headers rq) (lower API_KEY_HEADER) of
                  None \<Rightarrow> Inr None
                | Some presented \<Rightarrow>
                    (case compare_digest presented configured of
                       Inl e \<Rightarrow> Inl e
                     | Inr same \<Rightarrow>
                         Inr (if same
                              then Some \<lparr>prin_kind = SERVICE_KIND, prin_id = ''api-key'', prin_email = None,
                                         prin_edition = ed\<rparr>
                              else None))))"

definition SESSION_COOKIE :: string where
  "SESSION_COOKIE = ''lavs_session''"

definition session_cookie_token :: "auth_request \<Rightarrow> string option" where
  "session_cookie_token rq =
     (case dict_get (rq_cookies rq) SESSION_COOKIE of
        None \<Rightarrow> None | Some token \<Rightarrow> if token = [] then None else Some token)"

definition password_session_provider :: "string \<Rightarrow> provider" where
  "password_session_provider ed ae rq =
     (case session_cookie_token rq of
        None \<Rightarrow> Inr None
      | Some token \<Rightarrow>
          (case ae_db ae of
             None \<Rightarrow> Inr None
           | Some db \<Rightarrow>
               (case lookup_active_user_id (ae_sha ae) token (ae_now ae) db of
                  None \<Rightarrow> Inr None
                | Some user_id \<Rightarrow>
                    (case get_user_by_id user_id db of
                       None \<Rightarrow> Inr None
                     | Some u \<Rightarrow>
                         Inr (Some \<lparr>prin_kind = USER, prin_id = user_id, prin_email = Some (u_email u),
                                    prin_edition = ed\<rparr>)))))"

section \<open>Registry and resolver\<close>

definition build_registry :: "auth_settings \<Rightarrow> environ \<Rightarrow> provider list" where
  "build_registry s env =
     (if is_authentication_enabled env \<or> apikey_mode_enabled s env
      then [api_key_provider (edition s env)] else [])"

text \<open>The registry of a started application: core providers, then what plugins registered.\<close>

definition app_registry :: "auth_settings \<Rightarrow> environ \<Rightarrow> provider list \<Rightarrow> provider list" where
  "app_registry s env plugins =
     build_registry s env
     @ (if password_enabled s env then [password_session_provider (edition s env)] else []) @ plugins"

record auth_resolver =
  res_registry :: "provider list"
  res_edition :: string
  res_auth_configured :: bool

definition build_resolver :: "auth_settings \<Rightarrow> environ \<Rightarrow> provider list option \<Rightarrow> auth_resolver" where
  "build_resolver s env registry =
     \<lparr>res_registry = (case registry of None \<Rightarrow> build_registry s env | Some r \<Rightarrow> r),
      res_edition = edition s env,
      res_auth_configured = (modes s env \<noteq> {} \<or> is_authentication_enabled env)\<rparr>"

fun try_providers :: "provider list \<Rightarrow> auth_env \<Rightarrow> auth_request \<Rightarrow> principal option outcome" where
  "try_providers [] ae rq = Inr None"
| "try_providers (p # ps) ae rq =
     (case p ae rq of
        Inl e \<Rightarrow> Inl e
      | Inr (Some who) \<Rightarrow> Inr (Some who)
      | Inr None \<Rightarrow> try_providers ps ae rq)"

definition anonymous_principal :: "string \<Rightarrow> principal" where
  "anonymous_principal ed =
     \<lparr>prin_kind = SERVICE_KIND, prin_id = ''anonymous'', prin_email = None, prin_edition = ed\<rparr>"

definition resolve :: "auth_resolver \<Rightarrow> auth_env \<Rightarrow> auth_request \<Rightarrow> principal outcome" where
  "resolve r ae rq =
     (case try_providers (res_registry r) ae rq of
        Inl e \<Rightarrow> Inl e
      | Inr (Some p) \<Rightarrow> Inr p
      | Inr None \<Rightarrow>
          if res_auth_configured r \<or> res_registry r \<noteq> []
          then Inl (UnauthorizedError ''No valid credentials were provided.'' [])
          else Inr (anonymous_principal (res_edition r)))"

definition require_principal :: "auth_resolver option \<Rightarrow> auth_env \<Rightarrow> auth_request \<Rightarrow> principal outcome" where
  "require_principal installed ae rq =
     (case installed of
        None \<Rightarrow> resolve (build_resolver default_auth_settings (ae_environ ae) None) ae rq
      | Some r \<Rightarrow> resolve r ae rq)"

section \<open>Sign-up\<close>

record signup_model =
  su_email :: string
  su_password :: string

text \<open>\<open>^[^@\s]+@[^@\s]+\.[^@\s]+$\<close> against the whole string.\<close>

definition email_shape :: "string \<Rightarrow> bool" where
  "email_shape s =
     (case split_on (CHR ''@'') s of
        [l, d] \<Rightarrow> l \<noteq> [] \<and> CHR ''.'' \<in> set (butlast (tl d)) \<and> list_all (\<lambda>c. \<not> is_space c) (l @ d)
      | _ \<Rightarrow> False)"

definition validate_signup :: "string \<Rightarrow> string \<Rightarrow> signup_model option" where
  "validate_signup email password =
     (let normalized = lower (strip email)
      in if length email \<le> 320 \<and> email_shape normalized \<and> 12 \<le> length password \<and> length password \<le> 128
         then Some \<lparr>su_email = normalized, su_password = password\<rparr> else None)"

definition duplicate_email_error :: error where
  "duplicate_email_error = ConflictError ''This email address cannot be registered.'' []"

definition verification_body :: "string \<Rightarrow> string" where
  "verification_body token =
     ''Welcome to LAVS.'' @ [CHR 0x0A, CHR 0x0A]
     @ ''Use the following single-use token to verify your account:'' @ [CHR 0x0A, CHR 0x0A]
     @ token @ [CHR 0x0A, CHR 0x0A]
     @ ''The token expires; if it has, request a new one by signing up again.''"

definition domain_error_of :: "string \<Rightarrow> string list \<Rightarrow> error option" where
  "domain_error_of email allowed =
     (if allowed = [] then None
      else let domain = after_last (CHR ''@'') email
           in if domain \<in> set allowed then None
              else Some (DomainNotAllowedError ''This email domain is not permitted for sign-up.''
                          [(''domain'', JStr domain)]))"

record fresh_values =
  fr_user_id :: ident
  fr_token :: string
  fr_now :: timestamp

definition register ::
  "(string \<Rightarrow> string) \<Rightarrow> (string \<Rightarrow> string) \<Rightarrow> environ \<Rightarrow> auth_settings \<Rightarrow> int option \<Rightarrow> fresh_values \<Rightarrow> signup_model \<Rightarrow>
     database \<Rightarrow> capture_mailer \<Rightarrow> unit outcome \<times> database \<times> capture_mailer" where
  "register hash_password sha env s ttl_pinned fresh model db mailer =
     (case domain_error_of (su_email model) (allowed_email_domains s env) of
        Some e \<Rightarrow> (Inl e, db, mailer)
      | None \<Rightarrow>
          if get_user_by_email (su_email model) db \<noteq> None then (Inl duplicate_email_error, db, mailer)
          else
            (case create_user (fr_user_id fresh) (su_email model) (hash_password (su_password model)) PENDING
                    (Some (edition s env)) (fr_now fresh) db of
               Inl e \<Rightarrow> (Inl (if e = ConstraintViolation then duplicate_email_error else e), db, mailer)
             | Inr (_, db1) \<Rightarrow>
                 (case verification_ttl_seconds ttl_pinned env of
                    Inl e \<Rightarrow> (Inl e, db1, mailer)
                  | Inr ttl \<Rightarrow>
                      (case issue_token (sha (fr_token fresh)) (fr_user_id fresh) (fr_now fresh) ttl db1 of
                         Inl e \<Rightarrow> (Inl e, db1, mailer)
                       | Inr db2 \<Rightarrow>
                           (Inr (), db2,
                            send (su_email model) ''Verify your LAVS account''
                              (verification_body (fr_token fresh)) mailer)))))"

section \<open>Verification\<close>

definition invalid_token_error :: error where
  "invalid_token_error = NotFoundError ''The verification token is invalid or has expired.'' []"

definition verify ::
  "(string \<Rightarrow> string) \<Rightarrow> timestamp \<Rightarrow> string \<Rightarrow> database \<Rightarrow> user_response outcome \<times> database" where
  "verify sha now token db =
     (let token_hash = sha token
      in case find_active_token token_hash now db of
           None \<Rightarrow> (Inl invalid_token_error, db)
         | Some row \<Rightarrow>
             let user_id = t_user_id row;
                 db1 = consume_token token_hash now (activate_user user_id db)
             in (case get_user_by_id user_id db1 of
                   None \<Rightarrow> (Inl invalid_token_error, db1)
                 | Some u \<Rightarrow> (Inr (user_model u), db1)))"

section \<open>Login, logout, me\<close>

record session_cookie =
  ck_value :: string
  ck_max_age :: int
  ck_http_only :: bool
  ck_secure :: bool
  ck_same_site :: string
  ck_path :: string

definition make_session_cookie :: "string \<Rightarrow> int \<Rightarrow> session_cookie" where
  "make_session_cookie token ttl =
     \<lparr>ck_value = token, ck_max_age = ttl, ck_http_only = True, ck_secure = True,
      ck_same_site = ''lax'', ck_path = ''/''\<rparr>"

definition login_failure :: error where
  "login_failure = UnauthorizedError ''invalid credentials'' []"

definition normalize_login_email :: "string \<Rightarrow> string" where
  "normalize_login_email email = lower (strip email)"

text \<open>\<open>pw_ok stored password\<close> is argon2's check; \<open>equaliser\<close> the throw-away hash.\<close>

definition login ::
  "(string \<Rightarrow> string \<Rightarrow> bool) \<Rightarrow> (string \<Rightarrow> string) \<Rightarrow> string \<Rightarrow> environ \<Rightarrow> auth_settings \<Rightarrow> ident \<Rightarrow> string \<Rightarrow>
     timestamp \<Rightarrow> string \<Rightarrow> string \<Rightarrow> database \<Rightarrow> (user_response \<times> session_cookie) outcome \<times> database" where
  "login pw_ok sha equaliser env s session_id token now email password db =
     (let row = get_user_by_email email db;
          stored = (case row of None \<Rightarrow> equaliser | Some u \<Rightarrow> u_password_hash u);
          password_ok = pw_ok stored password
      in case row of
           None \<Rightarrow> (Inl login_failure, db)
         | Some u \<Rightarrow>
             if \<not> password_ok \<or> u_status u \<noteq> USER_ACTIVE then (Inl login_failure, db)
             else (case session_ttl_seconds s env of
                     Inl e \<Rightarrow> (Inl e, db)
                   | Inr ttl \<Rightarrow>
                       (case create_session sha session_id token now (u_id u) ttl db of
                          Inl e \<Rightarrow> (Inl e, db)
                        | Inr (raw, db') \<Rightarrow> (Inr (user_model u, make_session_cookie raw ttl), db'))))"

definition logout :: "(string \<Rightarrow> string) \<Rightarrow> auth_request \<Rightarrow> database \<Rightarrow> database" where
  "logout sha rq db =
     (case session_cookie_token rq of None \<Rightarrow> db | Some token \<Rightarrow> delete_session sha token db)"

definition me :: "principal \<Rightarrow> database \<Rightarrow> user_response" where
  "me p db =
     (case get_user_by_id (prin_id p) db of
        Some u \<Rightarrow> user_model u
      | None \<Rightarrow> \<lparr>ur_id = prin_id p,
                  ur_email = (case prin_email p of Some e \<Rightarrow> e | None \<Rightarrow> prin_id p),
                  ur_status = user_status_value USER_ACTIVE, ur_edition = Some (prin_edition p)\<rparr>)"

section \<open>What the store operations keep\<close>

lemma schema_ok_auth_ops:
  assumes "schema_ok db"
  shows "schema_ok (activate_user i db)" "schema_ok (consume_token h now db)" "schema_ok (delete_session sha tok db)"
  using assms
  by (simp_all add: schema_ok_def activate_user_def consume_token_def delete_session_def pk_delete fk_delete)

lemma get_user_by_id_Some: "get_user_by_id i db = Some u \<Longrightarrow> u \<in> set (users db) \<and> u_id u = i"
  unfolding get_user_by_id_def by (drule fetchone_Some_in) simp

lemma get_user_by_email_Some: "get_user_by_email e db = Some u \<Longrightarrow> u \<in> set (users db) \<and> u_email u = e"
  unfolding get_user_by_email_def by (drule fetchone_Some_in) simp

lemma get_user_by_id_in: "schema_ok db \<Longrightarrow> u \<in> set (users db) \<Longrightarrow> get_user_by_id (u_id u) db = Some u"
  using filter_key_single[OF schema_ok_keys(8)] by (simp add: get_user_by_id_def)

lemma get_user_by_email_in: "schema_ok db \<Longrightarrow> u \<in> set (users db) \<Longrightarrow> get_user_by_email (u_email u) db = Some u"
  using filter_key_single[OF schema_ok_keys(9)] by (simp add: get_user_by_email_def)

lemma get_user_by_email_None: "get_user_by_email e db = None \<longleftrightarrow> e \<notin> u_email ` set (users db)"
  by (auto simp: get_user_by_email_def fetchone_None filter_empty_conv)

lemma get_user_activated:
  "get_user_by_id i (activate_user j db) =
     map_option (\<lambda>u. if u_id u = j then u\<lparr>u_status := USER_ACTIVE\<rparr> else u) (get_user_by_id i db)"
proof -
  define act where "act = (\<lambda>u :: user_row. if u_id u = j then u\<lparr>u_status := USER_ACTIVE\<rparr> else u)"
  have same: "u_id (act u) = u_id u" for u by (simp add: act_def)
  have "users (activate_user j db) = map act (users db)"
    by (simp add: activate_user_def sql_update_def act_def)
  then have "get_user_by_id i (activate_user j db) = fetchone (map act (filter (\<lambda>u. u_id u = i) (users db)))"
    by (simp add: get_user_by_id_def filter_map o_def same)
  then show ?thesis by (simp add: get_user_by_id_def fetchone_def act_def split: list.split)
qed

lemma auth_frames [simp]:
  "sessions (activate_user i db) = sessions db" "tokens (activate_user i db) = tokens db"
  "users (consume_token h now db) = users db" "sessions (consume_token h now db) = sessions db"
  "users (delete_session sha tok db) = users db" "tokens (delete_session sha tok db) = tokens db"
  by (simp_all add: activate_user_def consume_token_def delete_session_def)

lemma get_user_consume [simp]: "get_user_by_id i (consume_token h now db) = get_user_by_id i db"
  by (simp add: get_user_by_id_def)

section \<open>Outcomes of sign-up, verification and login\<close>

definition pending_user :: "(string \<Rightarrow> string) \<Rightarrow> fresh_values \<Rightarrow> signup_model \<Rightarrow> string \<Rightarrow> user_row" where
  "pending_user hash fresh model ed =
     \<lparr>u_id = fr_user_id fresh, u_email = su_email model, u_password_hash = hash (su_password model),
      u_status = PENDING, u_edition = Some ed, u_created_at = fr_now fresh\<rparr>"

definition fresh_token :: "(string \<Rightarrow> string) \<Rightarrow> fresh_values \<Rightarrow> int \<Rightarrow> token_row" where
  "fresh_token sha fresh ttl =
     \<lparr>t_token_hash = sha (fr_token fresh), t_user_id = fr_user_id fresh,
      t_expires_at = fr_now fresh + microseconds ttl, t_consumed_at = None\<rparr>"

lemma register_cases:
  assumes "register hash sha env s pin fresh model db mailer = (res, db', mailer')"
  obtains (refused) e where "res = Inl e" "db' = db" "mailer' = mailer"
    | (stranded) e where "res = Inl e" "mailer' = mailer"
        "insert_user (pending_user hash fresh model (edition s env)) db = Inr db'"
    | (registered) ttl db1 where "res = Inr ()" "verification_ttl_seconds pin env = Inr ttl"
        "domain_error_of (su_email model) (allowed_email_domains s env) = None"
        "insert_user (pending_user hash fresh model (edition s env)) db = Inr db1"
        "insert_token (fresh_token sha fresh ttl) db1 = Inr db'"
        "mailer' = send (su_email model) ''Verify your LAVS account'' (verification_body (fr_token fresh)) mailer"
proof -
  let ?ins = "insert_user (pending_user hash fresh model (edition s env)) db"
  consider (dom) e where "domain_error_of (su_email model) (allowed_email_domains s env) = Some e"
    | (dup) "domain_error_of (su_email model) (allowed_email_domains s env) = None"
        "get_user_by_email (su_email model) db \<noteq> None"
    | (ins) "domain_error_of (su_email model) (allowed_email_domains s env) = None"
        "get_user_by_email (su_email model) db = None"
    by fastforce
  then show thesis
  proof cases
    case ins
    show thesis
    proof (cases ?ins)
      case (Inl e)
      with assms ins show thesis
        by (intro refused) (auto simp: register_def create_user_def pending_user_def)
    next
      case (Inr db1)
      show thesis
      proof (cases "verification_ttl_seconds pin env")
        case (Inl e)
        with assms ins Inr show thesis
          by (intro stranded[of e]) (simp_all add: register_def create_user_def pending_user_def)
      next
        case ttl: (Inr ttl)
        show thesis
        proof (cases "insert_token (fresh_token sha fresh ttl) db1")
          case (Inl e)
          with assms ins Inr ttl show thesis
            by (intro stranded[of e])
               (simp_all add: register_def create_user_def pending_user_def issue_token_def fresh_token_def)
        next
          case tok: (Inr db2)
          with assms ins Inr ttl show thesis
            by (intro registered[of ttl db1])
               (simp_all add: register_def create_user_def pending_user_def issue_token_def fresh_token_def)
        qed
      qed
    qed
  qed (use assms in \<open>auto simp: register_def intro: refused\<close>)
qed

lemma verify_cases:
  assumes "verify sha now token db = (res, db')"
  obtains (refused) "res = Inl invalid_token_error" "db' = db" "find_active_token (sha token) now db = None"
    | (orphan) row where "res = Inl invalid_token_error" "find_active_token (sha token) now db = Some row"
        "get_user_by_id (t_user_id row) db = None"
        "db' = consume_token (sha token) now (activate_user (t_user_id row) db)"
    | (verified) row u where "res = Inr (user_model (u\<lparr>u_status := USER_ACTIVE\<rparr>))"
        "find_active_token (sha token) now db = Some row" "get_user_by_id (t_user_id row) db = Some u"
        "db' = consume_token (sha token) now (activate_user (t_user_id row) db)"
proof (cases "find_active_token (sha token) now db")
  case None
  with assms refused show thesis by (simp add: verify_def)
next
  case (Some row)
  show thesis
  proof (cases "get_user_by_id (t_user_id row) db")
    case None
    with assms Some show thesis
      by (intro orphan[of row]) (simp_all add: verify_def Let_def get_user_activated)
  next
    case u: (Some u)
    with get_user_by_id_Some[OF u] assms Some show thesis
      by (intro verified[of u row]) (simp_all add: verify_def Let_def get_user_activated)
  qed
qed

definition opened_session ::
  "(string \<Rightarrow> string) \<Rightarrow> ident \<Rightarrow> string \<Rightarrow> timestamp \<Rightarrow> ident \<Rightarrow> int \<Rightarrow> session_row" where
  "opened_session sha session_id token now user_id ttl =
     \<lparr>s_id = session_id, s_user_id = user_id, s_token_hash = sha token, s_created_at = now,
      s_expires_at = now + microseconds ttl\<rparr>"

definition may_login :: "(string \<Rightarrow> string \<Rightarrow> bool) \<Rightarrow> string \<Rightarrow> user_row \<Rightarrow> bool" where
  "may_login pw_ok password u \<longleftrightarrow> pw_ok (u_password_hash u) password \<and> u_status u = USER_ACTIVE"

lemma login_cases:
  assumes "login pw_ok sha eq env s session_id token now email password db = (res, db')"
  obtains (denied) "res = Inl login_failure" "db' = db"
        "\<forall>u. get_user_by_email email db = Some u \<longrightarrow> \<not> may_login pw_ok password u"
    | (failed) u e where "get_user_by_email email db = Some u" "may_login pw_ok password u" "res = Inl e" "db' = db"
        "session_ttl_seconds s env = Inl e \<or>
         (\<exists>ttl. session_ttl_seconds s env = Inr ttl \<and>
            insert_session (opened_session sha session_id token now (u_id u) ttl) db = Inl e)"
    | (opened) u ttl where "get_user_by_email email db = Some u" "may_login pw_ok password u"
        "session_ttl_seconds s env = Inr ttl" "res = Inr (user_model u, make_session_cookie token ttl)"
        "insert_session (opened_session sha session_id token now (u_id u) ttl) db = Inr db'"
proof (cases "get_user_by_email email db")
  case None
  with assms show thesis by (intro denied) (simp_all add: login_def)
next
  case (Some u)
  show thesis
  proof (cases "may_login pw_ok password u")
    case False
    with Some assms show thesis by (intro denied) (auto simp: login_def may_login_def)
  next
    case ok: True
    show thesis
    proof (cases "session_ttl_seconds s env")
      case (Inl e)
      with Some ok assms show thesis by (intro failed[of u e]) (auto simp: login_def may_login_def)
    next
      case (Inr ttl)
      show thesis
      proof (cases "insert_session (opened_session sha session_id token now (u_id u) ttl) db")
        case (Inl e)
        with Some ok Inr assms show thesis
          by (intro failed[of u e]) (auto simp: login_def may_login_def create_session_def opened_session_def)
      next
        case ins: (Inr db2)
        with Some ok Inr assms show thesis
          by (intro opened[of u ttl]) (auto simp: login_def may_login_def create_session_def opened_session_def)
      qed
    qed
  qed
qed

section \<open>What the providers answer\<close>

definition key_principal :: "string \<Rightarrow> principal" where
  "key_principal ed = \<lparr>prin_kind = SERVICE_KIND, prin_id = ''api-key'', prin_email = None, prin_edition = ed\<rparr>"

definition user_principal :: "string \<Rightarrow> user_row \<Rightarrow> principal" where
  "user_principal ed u =
     \<lparr>prin_kind = USER, prin_id = u_id u, prin_email = Some (u_email u), prin_edition = ed\<rparr>"

definition presents_api_key :: "environ \<Rightarrow> auth_request \<Rightarrow> bool" where
  "presents_api_key env rq \<longleftrightarrow>
     (\<exists>key. get_configured_api_key env = Some key \<and> key \<noteq> [] \<and>
        dict_get (rq_headers rq) (lower API_KEY_HEADER) = Some key)"

definition presents_session :: "auth_env \<Rightarrow> auth_request \<Rightarrow> user_row \<Rightarrow> bool" where
  "presents_session ae rq u \<longleftrightarrow>
     (\<exists>token db row. session_cookie_token rq = Some token \<and> ae_db ae = Some db \<and>
        row \<in> set (sessions db) \<and> s_token_hash row = ae_sha ae token \<and> ae_now ae < s_expires_at row \<and>
        u \<in> set (users db) \<and> u_id u = s_user_id row)"

lemma try_providers_Some: "try_providers ps ae rq = Inr (Some p) \<Longrightarrow> \<exists>q\<in>set ps. q ae rq = Inr (Some p)"
  by (induction ps) (auto split: sum.splits option.splits)

lemma api_key_provider_Some:
  "api_key_provider ed ae rq = Inr (Some p) \<Longrightarrow> presents_api_key (ae_environ ae) rq \<and> p = key_principal ed"
  by (auto simp: api_key_provider_def compare_digest_def presents_api_key_def key_principal_def
      split: option.splits sum.splits if_splits)

lemma lookup_active_Some:
  assumes "lookup_active_user_id sha token now db = Some i"
  obtains row where "row \<in> set (sessions db)" "s_token_hash row = sha token" "now < s_expires_at row" "s_user_id row = i"
  using assms unfolding lookup_active_user_id_def
  by (auto dest!: fetchone_Some_in)

lemma session_provider_Some:
  assumes "password_session_provider ed ae rq = Inr (Some p)"
  shows "\<exists>u. presents_session ae rq u \<and> p = user_principal ed u"
proof -
  from assms obtain token db i u where facts: "session_cookie_token rq = Some token" "ae_db ae = Some db"
      "lookup_active_user_id (ae_sha ae) token (ae_now ae) db = Some i" "get_user_by_id i db = Some u"
      "p = \<lparr>prin_kind = USER, prin_id = i, prin_email = Some (u_email u), prin_edition = ed\<rparr>"
    by (auto simp: password_session_provider_def split: option.splits)
  note u = get_user_by_id_Some[OF facts(4)]
  from lookup_active_Some[OF facts(3)] obtain row where "row \<in> set (sessions db)"
      "s_token_hash row = ae_sha ae token" "ae_now ae < s_expires_at row" "s_user_id row = i" .
  with facts u have "presents_session ae rq u"
    unfolding presents_session_def by (intro exI[of _ token] exI[of _ db] exI[of _ row]) simp
  with facts(5) u show ?thesis by (auto simp: user_principal_def)
qed

text \<open>A protected application never lets an unauthenticated request through: once an
  authentication mode or an API key is configured, the resolver of the started application
  (core providers and any plugin providers) answers with a principal only if the request
  presents the configured API key, or the cookie of an unexpired session of an existing user
  while password mode is on, or a plugin's provider vouched for it.\<close>

theorem configured_fail_closed:
  assumes "modes s env \<noteq> {} \<or> is_authentication_enabled env"
    and "ae_environ ae = env"
    and "require_principal (Some (build_resolver s env (Some (app_registry s env plugins)))) ae rq = Inr p"
  shows "presents_api_key env rq \<and> p = key_principal (edition s env) \<or>
    password_enabled s env \<and> (\<exists>u. presents_session ae rq u \<and> p = user_principal (edition s env) u) \<or>
    (\<exists>q\<in>set plugins. q ae rq = Inr (Some p))"
proof -
  have "try_providers (app_registry s env plugins) ae rq = Inr (Some p)"
    using assms(1,3) by (auto simp: require_principal_def resolve_def build_resolver_def split: sum.splits option.splits)
  from try_providers_Some[OF this] obtain q where "q \<in> set (app_registry s env plugins)" "q ae rq = Inr (Some p)"
    by blast
  then show ?thesis
    using assms(2) api_key_provider_Some[of "edition s env" ae rq p] session_provider_Some[of "edition s env" ae rq p]
    by (auto simp: app_registry_def build_registry_def split: if_splits)
qed

theorem configured_fail_closed_witness:
  "presents_api_key [''LAVS_API_KEY'' \<mapsto> ''k''] \<lparr>rq_headers = [(lower API_KEY_HEADER, ''k'')], rq_cookies = []\<rparr>"
proof -
  define env :: environ where "env = [''LAVS_API_KEY'' \<mapsto> ''k'']"
  define rq where "rq = \<lparr>rq_headers = [(lower API_KEY_HEADER, ''k'')], rq_cookies = []\<rparr>"
  define ae where "ae = \<lparr>ae_environ = env, ae_now = 0, ae_db = None, ae_sha = id\<rparr>"
  have key: "get_configured_api_key env = Some ''k''" "is_authentication_enabled env"
    by (simp_all add: env_def get_configured_api_key_def is_authentication_enabled_def configured_key_def
        api_settings_def api_key_settings_init_def or_default_def)
  have modes: "modes default_auth_settings env = {}"
    by (simp add: modes_def default_auth_settings_def env_def env_or_empty_def split_csv_def
        recognised_modes_def List.map_filter_def strip_def lstrip_def)
  have "require_principal (Some (build_resolver default_auth_settings env (Some (app_registry default_auth_settings env []))))
      ae rq = Inr (key_principal (edition default_auth_settings env))"
    by (simp add: require_principal_def resolve_def build_resolver_def app_registry_def build_registry_def key
        password_enabled_def modes api_key_provider_def ae_def rq_def compare_digest_def is_ascii_def key_principal_def code_def)
  from configured_fail_closed[OF _ _ this] key have "presents_api_key env rq"
    by (auto simp: ae_def password_enabled_def modes)
  then show ?thesis by (simp add: env_def rq_def)
qed

section \<open>Login and the life of a session\<close>

lemma login_failure_distinct:
  "session_ttl_seconds s env = Inl e \<Longrightarrow> e \<noteq> login_failure"
  "insert_session r db = Inl e \<Longrightarrow> e \<noteq> login_failure"
  by (auto simp: session_ttl_seconds_def env_int_def login_failure_def insert_session_def error_defs
      split: option.splits if_splits)

text \<open>Login refuses an unknown address, a wrong password and an account that is not active
  with the same error and without writing anything, and that error is given only in these
  cases; no failed login of any kind changes the store.\<close>

theorem login_refusal_uniform:
  assumes "schema_ok db" and "login pw_ok sha eq env s sid token now email password db = (res, db')"
  shows "(res = Inl login_failure \<longleftrightarrow>
      \<not> (\<exists>u\<in>set (users db). u_email u = email \<and> pw_ok (u_password_hash u) password \<and> u_status u = USER_ACTIVE))
    \<and> (isl res \<longrightarrow> db' = db)"
proof -
  have owner: "get_user_by_email email db = Some u \<longleftrightarrow> u \<in> set (users db) \<and> u_email u = email" for u
    using get_user_by_email_Some get_user_by_email_in[OF assms(1)] by blast
  from assms(2) show ?thesis
  proof (cases rule: login_cases)
    case denied
    with owner show ?thesis by (auto simp: may_login_def)
  next
    case (failed u e)
    then have "e \<noteq> login_failure" using login_failure_distinct by blast
    moreover have "u \<in> set (users db)" "u_email u = email" using failed(1) owner by auto
    ultimately show ?thesis using failed by (auto simp: may_login_def)
  next
    case (opened u ttl)
    with owner show ?thesis by (auto simp: may_login_def)
  qed
qed

theorem login_refusal_uniform_witness:
  "login (=) id ''hash'' Map.empty default_auth_settings ''s1'' ''tok'' 0 ''a@b.c'' ''pw'' empty_database
     = (Inl login_failure, empty_database)"
  using login_refusal_uniform[OF schema_ok_empty, where pw_ok = "(=)" and sha = id and eq = "''hash''"
      and env = Map.empty and s = default_auth_settings and sid = "''s1''" and token = "''tok''" and now = 0
      and email = "''a@b.c''" and password = "''pw''", OF surjective_pairing]
  by (auto simp: empty_database_def prod_eq_iff)

definition cookie_request :: "session_cookie \<Rightarrow> auth_request" where
  "cookie_request ck = \<lparr>rq_headers = [], rq_cookies = [(SESSION_COOKIE, ck_value ck)]\<rparr>"

lemma session_provider_find:
  assumes "schema_ok db" "session_cookie_token rq = Some token"
  shows "password_session_provider ed \<lparr>ae_environ = env, ae_now = t, ae_db = Some db, ae_sha = sha\<rparr> rq =
    Inr (case session_find (sessions db) (sha token) t of
           None \<Rightarrow> None | Some i \<Rightarrow> map_option (user_principal ed) (get_user_by_id i db))"
  using assms(2) by (auto simp: password_session_provider_def lookup_is_find user_principal_def
      dest: get_user_by_id_Some split: option.splits)

lemma login_session_added:
  assumes "login pw_ok sha eq env s sid token now email password db = (Inr (ur, ck), db')" "schema_ok db"
  obtains u where "u \<in> set (users db)" "may_login pw_ok password u" "ur = user_model u" "u_email u = email"
    "ck_value ck = token" "users db' = users db"
    "sessions db' = session_add sid now (sha token) (u_id u) (now + microseconds (ck_max_age ck)) (sessions db)"
    "ck_http_only ck" "ck_secure ck" "schema_ok db'"
  using assms(1)
proof (cases rule: login_cases)
  case (opened u ttl)
  note u = get_user_by_email_Some[OF opened(1)]
  from insert_frame(8)[OF opened(5)] have "users db' = users db"
    "sessions db' = session_add sid now (sha token) (u_id u) (now + microseconds ttl) (sessions db)"
    by (simp_all add: session_add_def opened_session_def)
  with opened u schema_ok_insert(8)[OF assms(2) opened(5)] show thesis
    by (intro that[of u]) (simp_all add: make_session_cookie_def)
qed simp_all

text \<open>A successful login opens a session for exactly its lifetime: with a token nobody holds
  yet, the returned cookie (HTTP-only and secure) authenticates the user at every moment before
  the expiry the cookie announces and never at or after it, leaves every other session as it
  was, and authenticates nobody at any time once the holder logs out.\<close>

theorem login_then_logout:
  assumes "login pw_ok sha eq env s sid token now email password db = (Inr (ur, ck), db')"
    and "schema_ok db" and "\<not> session_used (sessions db) (sha token)" and "token \<noteq> []"
  shows "(\<forall>t. password_session_provider ed \<lparr>ae_environ = env', ae_now = t, ae_db = Some db', ae_sha = sha\<rparr>
        (cookie_request ck) = Inr (if t < now + microseconds (ck_max_age ck)
             then Some \<lparr>prin_kind = USER, prin_id = ur_id ur, prin_email = Some email, prin_edition = ed\<rparr> else None)) \<and>
    (\<forall>t. password_session_provider ed \<lparr>ae_environ = env', ae_now = t,
        ae_db = Some (logout sha (cookie_request ck) db'), ae_sha = sha\<rparr> (cookie_request ck) = Inr None) \<and>
    (\<forall>t other. sha other \<noteq> sha token \<longrightarrow>
        lookup_active_user_id sha other t (logout sha (cookie_request ck) db') = lookup_active_user_id sha other t db) \<and>
    ck_http_only ck \<and> ck_secure ck"
proof -
  from login_session_added[OF assms(1,2)] obtain u where u: "u \<in> set (users db)" "ur = user_model u" "u_email u = email"
      "ck_value ck = token" "users db' = users db"
      "sessions db' = session_add sid now (sha token) (u_id u) (now + microseconds (ck_max_age ck)) (sessions db)"
      "ck_http_only ck" "ck_secure ck" "schema_ok db'"
    by metis
  have cookie: "session_cookie_token (cookie_request ck) = Some token"
    using assms(4) u(4) by (simp add: session_cookie_token_def cookie_request_def)
  have user: "get_user_by_id (u_id u) db' = Some u"
    using get_user_by_id_in[OF u(9)] u(1,5) by simp
  have out: "logout sha (cookie_request ck) db' = delete_session sha token db'"
    by (simp add: logout_def cookie)
  show ?thesis
  proof (intro conjI allI impI)
    fix t
    show "password_session_provider ed \<lparr>ae_environ = env', ae_now = t, ae_db = Some db', ae_sha = sha\<rparr> (cookie_request ck)
        = Inr (if t < now + microseconds (ck_max_age ck)
             then Some \<lparr>prin_kind = USER, prin_id = ur_id ur, prin_email = Some email, prin_edition = ed\<rparr> else None)"
      using user u(2,3)
      by (simp add: session_provider_find[OF u(9) cookie] u(6) sessions.find_add[OF assms(3)] user_principal_def user_model_def)
    show "password_session_provider ed \<lparr>ae_environ = env', ae_now = t, ae_db = Some (logout sha (cookie_request ck) db'),
        ae_sha = sha\<rparr> (cookie_request ck) = Inr None"
      by (simp add: out session_provider_find[OF schema_ok_auth_ops(3)[OF u(9)] cookie] delete_is_retire[of _ _ _ t]
          sessions.find_retire)
    fix other
    assume "sha other \<noteq> sha token"
    then show "lookup_active_user_id sha other t (logout sha (cookie_request ck) db') = lookup_active_user_id sha other t db"
      by (simp add: out lookup_is_find delete_is_retire[of _ _ _ t] sessions.find_retire_other u(6) sessions.find_add_other)
  qed (use u(7,8) in auto)
qed

definition one_user_database :: database where
  "one_user_database = empty_database\<lparr>users := [\<lparr>u_id = ''u1'', u_email = ''a@b.c'', u_password_hash = ''pw'',
     u_status = USER_ACTIVE, u_edition = None, u_created_at = 0\<rparr>]\<rparr>"

lemma schema_ok_one_user: "schema_ok one_user_database"
  using schema_ok_empty
  by (simp add: schema_ok_def one_user_database_def empty_database_def pk_def)

theorem login_then_logout_witness:
  "\<exists>ck db'. password_session_provider ''oss'' \<lparr>ae_environ = Map.empty, ae_now = 5, ae_db = Some db', ae_sha = id\<rparr>
     (cookie_request ck) = Inr (Some \<lparr>prin_kind = USER, prin_id = ''u1'', prin_email = Some ''a@b.c'', prin_edition = ''oss''\<rparr>)"
proof -
  define s where "s = default_auth_settings\<lparr>as_session_ttl_seconds := Some 60\<rparr>"
  obtain db' where run: "login (=) id ''h'' Map.empty s ''s1'' ''tok'' 0 ''a@b.c'' ''pw'' one_user_database
      = (Inr (\<lparr>ur_id = ''u1'', ur_email = ''a@b.c'', ur_status = ''active'', ur_edition = None\<rparr>,
          make_session_cookie ''tok'' 60), db')"
    by (simp add: login_def one_user_database_def empty_database_def get_user_by_email_def session_ttl_seconds_def
        s_def create_session_def insert_session_def user_model_def)
  have unused: "\<not> session_used (sessions one_user_database) (id ''tok'')"
    by (simp add: session_used_def one_user_database_def empty_database_def)
  show ?thesis
    by (intro exI[of _ "make_session_cookie ''tok'' 60"] exI[of _ db'],
        subst login_then_logout[OF run schema_ok_one_user unused, THEN conjunct1, rule_format])
       (simp_all add: make_session_cookie_def microseconds_def)
qed

section \<open>The life of a sign-up\<close>

lemma domain_error_distinct: "domain_error_of email ds = Some e \<Longrightarrow> e \<noteq> duplicate_email_error"
  by (auto simp: domain_error_of_def Let_def duplicate_email_error_def error_defs split: if_splits)

lemma register_duplicate:
  assumes "su_email model \<in> u_email ` set (users db)"
    and "domain_error_of (su_email model) (allowed_email_domains s env) = None"
  shows "register hash sha env s pin fresh model db mailer = (Inl duplicate_email_error, db, mailer)"
proof -
  have "get_user_by_email (su_email model) db \<noteq> None" using assms(1) by (simp add: get_user_by_email_None)
  with assms(2) show ?thesis by (simp add: register_def)
qed

lemma token_added:
  "insert_token (fresh_token sha fresh ttl) db = Inr db' \<Longrightarrow>
     tokens db' = token_add (sha (fr_token fresh)) (fr_user_id fresh) (fr_now fresh + microseconds ttl) (tokens db)
     \<and> \<not> token_used (tokens db) (sha (fr_token fresh)) \<and> users db' = users db"
  unfolding insert_token_def fresh_token_def token_add_def token_used_def
  by (clarsimp split: if_splits) (metis image_eqI)

lemma verify_dead:
  assumes "\<And>t. token_find (tokens db) (sha token) t = None"
  shows "verify sha now token db = (Inl invalid_token_error, db)"
proof -
  have "find_active_token (sha token) now db = None"
    using assms[of now] find_active_is_find[of "sha token" now db] by simp
  then show ?thesis by (simp add: verify_def)
qed

lemma verify_live:
  assumes "schema_ok db" "u \<in> set (users db)" "token_find (tokens db) (sha token) now = Some (u_id u)"
  shows "verify sha now token db =
    (Inr (user_model (u\<lparr>u_status := USER_ACTIVE\<rparr>)), consume_token (sha token) now (activate_user (u_id u) db))"
proof -
  obtain row where row: "find_active_token (sha token) now db = Some row" "t_user_id row = u_id u"
    using assms(3) find_active_is_find[of "sha token" now db] by auto
  show ?thesis
    using row get_user_by_id_in[OF assms(1,2)] by (simp add: verify_def Let_def get_user_activated)
qed

lemma verified_token_dead: "token_find (tokens (consume_token h now db)) h t = None"
  by (simp add: consume_is_retire tokens.find_retire)

lemma activate_in: "u \<in> set (users db) \<Longrightarrow> u\<lparr>u_status := USER_ACTIVE\<rparr> \<in> set (users (activate_user (u_id u) db))"
  unfolding activate_user_def by (auto simp: sql_update_def)

lemma login_succeeds:
  assumes "schema_ok db" "u \<in> set (users db)" "may_login pw_ok password u" "session_ttl_seconds s env = Inr ttl"
    "sid \<notin> s_id ` set (sessions db)"
  shows "\<exists>db'. login pw_ok sha eq env s sid token now (u_email u) password db
    = (Inr (user_model u, make_session_cookie token ttl), db')"
  using assms get_user_by_email_in[OF assms(1,2)]
  by (simp add: login_def may_login_def create_session_def insert_session_def)



end
