(* ===== verification/Routes.thy ===== *)
theory Routes
  imports Release_Reads Timeline Sse Auth
begin

text \<open>
  The HTTP surface: \<open>app/main.py\<close> (the objects the lifespan puts on \<open>app.state\<close>, the probes)
  and \<open>app/routers\<close>. A request meets the rate-limit middleware, then the router-level
  authentication, then the validation of its body, then the handler; a typed error is rendered
  by its registered handler and any other exception ends as the framework's plain 500. The
  web framework itself is represented by that order and by nothing else.
\<close>

section \<open>Application state and requests\<close>

type_synonym meta_extension = "environ \<Rightarrow> auth_settings \<Rightarrow> (string, json) dict"

record app_state =
  app_db :: database
  app_bus :: event_bus
  app_settings :: auth_settings
  app_resolver :: auth_resolver
  app_extensions :: "meta_extension list"
  app_mailer :: capture_mailer
  app_limiter :: limiter

text \<open>
  What the lifespan assembles: \<open>stored\<close> is the database after schema initialisation and
  migration, \<open>plugins\<close> and \<open>extensions\<close> what the plugin seam registered.
\<close>

definition lifespan_start :: "environ \<Rightarrow> provider list \<Rightarrow> meta_extension list \<Rightarrow> database \<Rightarrow> app_state" where
  "lifespan_start env plugins extensions stored =
     (let settings = default_auth_settings
      in \<lparr>app_db = stored, app_bus = new_event_bus, app_settings = settings,
          app_resolver = build_resolver settings env (Some (app_registry settings env plugins)),
          app_extensions = extensions, app_mailer = new_mailer None,
          app_limiter = middleware_limiter (rate_limit_settings_init None None None None)\<rparr>)"

text \<open>
  What a request reads besides the application: the environment, the two clocks, the fresh
  values it may mint, the third-party functions, and pydantic's list of validation errors.
\<close>

record call_env =
  ce_environ :: environ
  ce_now :: timestamp
  ce_clock :: int
  ce_id :: ident
  ce_token :: string
  ce_hash_password :: "string \<Rightarrow> string"
  ce_pw_ok :: "string \<Rightarrow> string \<Rightarrow> bool"
  ce_sha :: "string \<Rightarrow> string"
  ce_equaliser :: string
  ce_valid_ulid :: "string \<Rightarrow> bool"
  ce_errors :: "json list"
  ce_db_answers :: bool

text \<open>The routes, with the path and query parameters and the body fields each takes.\<close>

datatype api_call =
    GetRoot | GetHealth | GetReady | GetMeta
  | Signup string string | Verify string | Login string string | Me | Logout
  | ListProducts | CreateProduct string "string option" | GetProduct ident
  | ListProductComponents ident | GetProductGraph ident | GetProductImpact ident ident
  | AddDependency ident ident ident | RemoveDependency ident ident ident
  | CreateComponent ident string string | ListComponentVersions ident
  | CreateVersion ident json "string option" | RollbackVersion ident
  | GetTimeline ident
  | CutRelease ident "string option" "string option" | ListProductReleases ident | GetRelease ident
  | StreamProductEvents ident

record http_request =
  hr_headers :: "(string \<times> string) list"
  hr_cookies :: "(string, string) dict"
  hr_client :: "string option"
  hr_call :: api_call

datatype api_answer =
    JsonAnswer http_response
  | LoggedIn http_response session_cookie
  | NoContent
  | LoggedOut
  | EventStream sse_stream "(string \<times> string) list"
  | Unhandled error

section \<open>Rendering\<close>

definition component_with_versions_json :: "component_with_versions_response \<Rightarrow> json" where
  "component_with_versions_json c = JObj
     [(''id'', JStr (cw_id c)), (''product_id'', JStr (cw_product_id c)), (''name'', JStr (cw_name c)),
      (''kind'', JStr (component_kind_value (cw_kind c))), (''versions'', JArr (map version_json (cw_versions c)))]"

definition timeline_json :: "timeline_response \<Rightarrow> json" where
  "timeline_json t = JObj
     [(''product'', product_json (tl_product t)),
      (''components'', JArr (map component_with_versions_json (tl_components t)))]"

definition graph_json :: "graph_response \<Rightarrow> json" where
  "graph_json g = JObj
     [(''product_id'', JStr (gr_product_id g)), (''nodes'', JArr (map component_json (gr_nodes g))),
      (''edges'', JArr (map dependency_json (gr_edges g)))]"

definition impacted_json :: "impacted_component \<Rightarrow> json" where
  "impacted_json i = JObj
     [(''component_id'', JStr (ic_component_id i)),
      (''projected_change_level'', JStr (ic_projected_change_level i))]"

definition impact_json :: "impact_response \<Rightarrow> json" where
  "impact_json r = JObj
     [(''component_id'', JStr (ir_component_id r)), (''impacted'', JArr (map impacted_json (ir_impacted r)))]"

definition user_json :: "user_response \<Rightarrow> json" where
  "user_json u = JObj
     [(''id'', JStr (ur_id u)), (''email'', JStr (ur_email u)), (''status'', JStr (ur_status u)),
      (''edition'', json_opt JStr (ur_edition u))]"

definition signup_accepted_json :: json where
  "signup_accepted_json = JObj [(''status'', JStr ''pending_verification'')]"

definition json_response :: "nat \<Rightarrow> json \<Rightarrow> api_answer" where
  "json_response status_code body =
     JsonAnswer \<lparr>resp_status = status_code, resp_headers = [], resp_body = body\<rparr>"

text \<open>\<open>register_error_handlers\<close>: typed errors become envelopes, everything else the server's 500.\<close>

definition answer_error :: "error \<Rightarrow> api_answer" where
  "answer_error e = (case e of DomainErr d \<Rightarrow> JsonAnswer (handle_domain_error d) | _ \<Rightarrow> Unhandled e)"

definition answer_with :: "('a \<Rightarrow> api_answer) \<Rightarrow> 'a outcome \<Rightarrow> api_answer" where
  "answer_with ok r = (case r of Inl e \<Rightarrow> answer_error e | Inr x \<Rightarrow> ok x)"

definition unprocessable :: "call_env \<Rightarrow> api_answer" where
  "unprocessable ce = JsonAnswer (handle_validation_error (ce_errors ce))"

section \<open>Probes and the capability endpoint\<close>

definition root :: json where
  "root = JStr ''Welcome to the lowercase acronym versioning system.''"

definition health :: json where
  "health = JObj [(''status'', JStr ''ok'')]"

text \<open>\<open>connection\<close> is \<open>None\<close> when no session is open, else whether \<open>SELECT 1\<close> answers.\<close>

definition ready :: "bool option \<Rightarrow> http_response" where
  "ready connection =
     (let not_ready = \<lparr>resp_status = 503, resp_headers = [], resp_body = JObj [(''status'', JStr ''not ready'')]\<rparr>
      in case connection of
           None \<Rightarrow> not_ready
         | Some answers \<Rightarrow>
             if answers
             then \<lparr>resp_status = 200, resp_headers = [], resp_body = JObj [(''status'', JStr ''ready'')]\<rparr>
             else not_ready)"

definition enabled_auth_modes :: "auth_settings \<Rightarrow> environ \<Rightarrow> string list" where
  "enabled_auth_modes s env =
     sorted_list_of_set (auth_mode_value ` (modes s env \<union> (if is_authentication_enabled env then {APIKEY} else {})))"

definition dict_update :: "('k, 'v) dict \<Rightarrow> ('k, 'v) dict \<Rightarrow> ('k, 'v) dict" where
  "dict_update d new = fold (\<lambda>(k, v). dict_set k v) new d"

definition merged_extensions :: "meta_extension list \<Rightarrow> environ \<Rightarrow> auth_settings \<Rightarrow> (string, json) dict" where
  "merged_extensions extensions env s = fold (\<lambda>ext d. dict_update d (ext env s)) extensions []"

fun is_jstr :: "json \<Rightarrow> bool" where
  "is_jstr (JStr s) = True"
| "is_jstr j = False"

fun is_str_list :: "json \<Rightarrow> bool" where
  "is_str_list (JArr js) = list_all is_jstr js"
| "is_str_list j = False"

text \<open>\<open>MetaResponseModel.model_validate\<close>: two typed fields, everything else passes through.\<close>

definition meta_model :: "(string, json) dict \<Rightarrow> (string, json) dict outcome" where
  "meta_model payload =
     (case (dict_get payload ''edition'', dict_get payload ''auth_modes'') of
        (Some e, Some ms) \<Rightarrow> if is_jstr e \<and> is_str_list ms then Inr payload else Inl ValueError
      | _ \<Rightarrow> Inl ValueError)"

definition get_meta :: "auth_settings \<Rightarrow> meta_extension list \<Rightarrow> environ \<Rightarrow> (string, json) dict outcome" where
  "get_meta s extensions env =
     meta_model (dict_update
       [(''edition'', JStr (edition s env)), (''auth_modes'', JArr (map JStr (enabled_auth_modes s env)))]
       (merged_extensions extensions env s))"

definition meta_json :: "(string, json) dict \<Rightarrow> json" where
  "meta_json payload = JObj (filter (\<lambda>p. snd p \<noteq> JNull) payload)"

section \<open>Route handlers\<close>

text \<open>Reads leave the application as it is; a write returns the tables, the bus or the mailer it changed.\<close>

definition read_answer :: "app_state \<Rightarrow> json outcome \<Rightarrow> api_answer \<times> app_state" where
  "read_answer st r = (answer_with (json_response 200) r, st)"

definition outcome_map :: "('a \<Rightarrow> 'b) \<Rightarrow> 'a outcome \<Rightarrow> 'b outcome" where
  "outcome_map f r = (case r of Inl e \<Rightarrow> Inl e | Inr x \<Rightarrow> Inr (f x))"

definition list_products :: "app_state \<Rightarrow> api_answer \<times> app_state" where
  "list_products st = read_answer st (Inr (JArr (map product_json (list_products_query (app_db st)))))"

definition create_product :: "call_env \<Rightarrow> string \<Rightarrow> string option \<Rightarrow> app_state \<Rightarrow> api_answer \<times> app_state" where
  "create_product ce name description st =
     (case validate_create_product name description of
        None \<Rightarrow> (unprocessable ce, st)
      | Some body \<Rightarrow>
          let (r, db) = create_product_query (ce_id ce) (ce_now ce) body (app_db st)
          in (answer_with (\<lambda>p. json_response 201 (product_json p)) r, st\<lparr>app_db := db\<rparr>))"

definition get_product :: "ident \<Rightarrow> app_state \<Rightarrow> api_answer \<times> app_state" where
  "get_product pid st = read_answer st (outcome_map product_json (get_product_by_id_query pid (app_db st)))"

definition product_components :: "ident \<Rightarrow> app_state \<Rightarrow> api_answer \<times> app_state" where
  "product_components pid st =
     read_answer st (outcome_map (\<lambda>cs. JArr (map component_json cs)) (list_product_components pid (app_db st)))"

definition product_graph :: "ident \<Rightarrow> app_state \<Rightarrow> api_answer \<times> app_state" where
  "product_graph pid st = read_answer st (outcome_map graph_json (get_product_graph pid (app_db st)))"

definition get_product_impact :: "ident \<Rightarrow> ident \<Rightarrow> app_state \<Rightarrow> api_answer \<times> app_state" where
  "get_product_impact pid component st =
     read_answer st (outcome_map impact_json (impact_query pid component (app_db st)))"

text \<open>\<open>CreateDependencyModel\<close> and \<open>VerifyModel\<close>.\<close>

definition validate_create_dependency :: "(string \<Rightarrow> bool) \<Rightarrow> ident \<Rightarrow> ident \<Rightarrow> bool" where
  [simp]: "validate_create_dependency valid_ulid from_id to_id \<longleftrightarrow> valid_ulid from_id \<and> valid_ulid to_id"

definition validate_verify :: "string \<Rightarrow> bool" where
  [simp]: "validate_verify token \<longleftrightarrow> 1 \<le> length token \<and> length token \<le> 256"

definition add_product_dependency ::
  "call_env \<Rightarrow> ident \<Rightarrow> ident \<Rightarrow> ident \<Rightarrow> app_state \<Rightarrow> api_answer \<times> app_state" where
  "add_product_dependency ce pid from_id to_id st =
     (if validate_create_dependency (ce_valid_ulid ce) from_id to_id
      then
        let (r, db, bus) = add_dependency_query (ce_id ce) (ce_now ce)
              \<lparr>cd_product_id = pid, cd_from = from_id, cd_to = to_id\<rparr> (app_db st) (Some (app_bus st))
        in (answer_with (\<lambda>d. json_response 201 (dependency_json d)) r,
            st\<lparr>app_db := db, app_bus := the bus\<rparr>)
      else (unprocessable ce, st))"

definition remove_product_dependency ::
  "ident \<Rightarrow> ident \<Rightarrow> ident \<Rightarrow> app_state \<Rightarrow> api_answer \<times> app_state" where
  "remove_product_dependency pid from_id to_id st =
     (let (r, db, bus) = remove_dependency_query
            \<lparr>cd_product_id = pid, cd_from = from_id, cd_to = to_id\<rparr> (app_db st) (Some (app_bus st))
      in (answer_with (\<lambda>_. NoContent) r, st\<lparr>app_db := db, app_bus := the bus\<rparr>))"

definition component_kind_of :: "string \<Rightarrow> component_kind option" where
  "component_kind_of s = find (\<lambda>k. component_kind_value k = s) [LIBRARY, SERVICE, UI, CLI]"

definition create_component ::
  "call_env \<Rightarrow> ident \<Rightarrow> string \<Rightarrow> string \<Rightarrow> app_state \<Rightarrow> api_answer \<times> app_state" where
  "create_component ce pid name kind st =
     (case Option.bind (component_kind_of kind) (validate_create_component (ce_valid_ulid ce) pid name) of
        None \<Rightarrow> (unprocessable ce, st)
      | Some body \<Rightarrow>
          let (r, db) = create_component_query (ce_id ce) body (app_db st)
          in (answer_with (\<lambda>c. json_response 201 (component_json c)) r, st\<lparr>app_db := db\<rparr>))"

definition list_component_versions :: "ident \<Rightarrow> app_state \<Rightarrow> api_answer \<times> app_state" where
  "list_component_versions cid st =
     read_answer st (outcome_map (\<lambda>vs. JArr (map version_json vs)) (list_component_versions_query cid (app_db st)))"

text \<open>
  The validator of \<open>version\<close> runs before the type check, so a value that is not text makes
  \<open>rex.match\<close> raise a \<open>TypeError\<close>, which no handler turns into a 422.
\<close>

definition create_version ::
  "call_env \<Rightarrow> ident \<Rightarrow> json \<Rightarrow> string option \<Rightarrow> app_state \<Rightarrow> api_answer \<times> app_state" where
  "create_version ce cid version prerelease st =
     (case version of
        JStr text \<Rightarrow>
          (case validate_create_version (ce_valid_ulid ce) cid text prerelease of
             None \<Rightarrow> (unprocessable ce, st)
           | Some body \<Rightarrow>
               let (r, db, bus) = create_version_query (ce_id ce) (ce_now ce) body (app_db st) (Some (app_bus st))
               in (answer_with (\<lambda>v. json_response 200 (version_json v)) r,
                   st\<lparr>app_db := db, app_bus := the bus\<rparr>))
      | _ \<Rightarrow> (Unhandled TypeError, st))"

definition rollback_version :: "ident \<Rightarrow> app_state \<Rightarrow> api_answer \<times> app_state" where
  "rollback_version vid st =
     (let (r, db, bus) = rollback_version_query vid (app_db st) (Some (app_bus st))
      in (answer_with (\<lambda>v. json_response 200 (version_json v)) r, st\<lparr>app_db := db, app_bus := the bus\<rparr>))"

definition product_timeline :: "ident \<Rightarrow> app_state \<Rightarrow> api_answer \<times> app_state" where
  "product_timeline pid st = read_answer st (outcome_map timeline_json (get_timeline pid (app_db st)))"

definition validate_cut_release :: "string option \<Rightarrow> string option \<Rightarrow> bool" where
  "validate_cut_release label notes =
     ((case label of None \<Rightarrow> True | Some l \<Rightarrow> length l \<le> 256) \<and>
      (case notes of None \<Rightarrow> True | Some n \<Rightarrow> length n \<le> 4096))"

definition cut_product_release ::
  "call_env \<Rightarrow> string option \<Rightarrow> ident \<Rightarrow> string option \<Rightarrow> string option \<Rightarrow> app_state \<Rightarrow> api_answer \<times> app_state"
  where
  "cut_product_release ce idempotency_key pid label notes st =
     (if validate_cut_release label notes
      then
        let (r, db, bus) = cut_release (ce_id ce) (ce_now ce)
              \<lparr>cut_product_id = pid, cut_label = label, cut_notes = notes,
               cut_idempotency_key = idempotency_key\<rparr> (app_db st) (app_bus st)
        in (answer_with (\<lambda>rel. json_response 201 (release_json rel)) r, st\<lparr>app_db := db, app_bus := bus\<rparr>)
      else (unprocessable ce, st))"

definition list_product_releases :: "ident \<Rightarrow> app_state \<Rightarrow> api_answer \<times> app_state" where
  "list_product_releases pid st =
     read_answer st (outcome_map (\<lambda>rs. JArr (map release_json rs)) (list_releases_by_product_query pid (app_db st)))"

definition get_release :: "ident \<Rightarrow> app_state \<Rightarrow> api_answer \<times> app_state" where
  "get_release rid st = read_answer st (outcome_map release_json (get_release_by_id_query rid (app_db st)))"

definition SSE_HEADERS :: "(string \<times> string) list" where
  "SSE_HEADERS =
     [(''Cache-Control'', ''no-cache''), (''Connection'', ''keep-alive''), (''X-Accel-Buffering'', ''no'')]"

text \<open>The generator subscribes as soon as the response is iterated, so opening is one step here.\<close>

definition stream_product_events :: "ident \<Rightarrow> app_state \<Rightarrow> api_answer \<times> app_state" where
  "stream_product_events pid st =
     (let (stream, bus) = stream_open pid (app_bus st)
      in (EventStream stream SSE_HEADERS, st\<lparr>app_bus := bus\<rparr>))"

section \<open>The auth routes\<close>

definition signup :: "call_env \<Rightarrow> string \<Rightarrow> string \<Rightarrow> app_state \<Rightarrow> api_answer \<times> app_state" where
  "signup ce email password st =
     (case validate_signup email password of
        None \<Rightarrow> (unprocessable ce, st)
      | Some body \<Rightarrow>
          let (r, db, mailer) = register (ce_hash_password ce) (ce_sha ce) (ce_environ ce) (app_settings st) None
                \<lparr>fr_user_id = ce_id ce, fr_token = ce_token ce, fr_now = ce_now ce\<rparr> body (app_db st) (app_mailer st)
          in (answer_with (\<lambda>_. json_response 202 signup_accepted_json) r,
              st\<lparr>app_db := db, app_mailer := mailer\<rparr>))"

definition verify_account :: "call_env \<Rightarrow> string \<Rightarrow> app_state \<Rightarrow> api_answer \<times> app_state" where
  "verify_account ce token st =
     (if validate_verify token
      then
        let (r, db) = verify (ce_sha ce) (ce_now ce) token (app_db st)
        in (answer_with (\<lambda>u. json_response 200 (user_json u)) r, st\<lparr>app_db := db\<rparr>)
      else (unprocessable ce, st))"

definition validate_login :: "string \<Rightarrow> string \<Rightarrow> string option" where
  "validate_login email password =
     (if 1 \<le> length email \<and> length email \<le> 320 \<and> 1 \<le> length password \<and> length password \<le> 128
      then Some (normalize_login_email email) else None)"

definition login_account :: "call_env \<Rightarrow> string \<Rightarrow> string \<Rightarrow> app_state \<Rightarrow> api_answer \<times> app_state" where
  "login_account ce email password st =
     (case validate_login email password of
        None \<Rightarrow> (unprocessable ce, st)
      | Some normalized \<Rightarrow>
          let (r, db) = login (ce_pw_ok ce) (ce_sha ce) (ce_equaliser ce) (ce_environ ce) (app_settings st)
                (ce_id ce) (ce_token ce) (ce_now ce) normalized password (app_db st)
          in (answer_with (\<lambda>(u, cookie). LoggedIn \<lparr>resp_status = 200, resp_headers = [], resp_body = user_json u\<rparr> cookie) r,
              st\<lparr>app_db := db\<rparr>))"

section \<open>Authentication, dispatch and the middleware\<close>

definition auth_request_of :: "http_request \<Rightarrow> auth_request" where
  "auth_request_of rq = \<lparr>rq_headers = hr_headers rq, rq_cookies = hr_cookies rq\<rparr>"

definition auth_env_of :: "call_env \<Rightarrow> app_state \<Rightarrow> auth_env" where
  "auth_env_of ce st =
     \<lparr>ae_environ = ce_environ ce, ae_now = ce_now ce, ae_db = Some (app_db st), ae_sha = ce_sha ce\<rparr>"

text \<open>The routers that declare no principal: probes, \<open>/meta\<close> and the account routes but \<open>/auth/me\<close>.\<close>

fun secured :: "api_call \<Rightarrow> bool" where
  "secured GetRoot = False"
| "secured GetHealth = False"
| "secured GetReady = False"
| "secured GetMeta = False"
| "secured (Signup _ _) = False"
| "secured (Verify _) = False"
| "secured (Login _ _) = False"
| "secured Logout = False"
| "secured _ = True"

fun serve_open :: "call_env \<Rightarrow> http_request \<Rightarrow> api_call \<Rightarrow> app_state \<Rightarrow> api_answer \<times> app_state" where
  "serve_open ce rq GetRoot st = (json_response 200 root, st)"
| "serve_open ce rq GetHealth st = (json_response 200 health, st)"
| "serve_open ce rq GetReady st = (JsonAnswer (ready (Some (ce_db_answers ce))), st)"
| "serve_open ce rq GetMeta st =
     read_answer st (outcome_map meta_json (get_meta (app_settings st) (app_extensions st) (ce_environ ce)))"
| "serve_open ce rq (Signup email password) st = signup ce email password st"
| "serve_open ce rq (Verify token) st = verify_account ce token st"
| "serve_open ce rq (Login email password) st = login_account ce email password st"
| "serve_open ce rq _ st = (LoggedOut, st\<lparr>app_db := logout (ce_sha ce) (auth_request_of rq) (app_db st)\<rparr>)"

fun serve_secured ::
  "call_env \<Rightarrow> http_request \<Rightarrow> principal \<Rightarrow> api_call \<Rightarrow> app_state \<Rightarrow> api_answer \<times> app_state" where
  "serve_secured ce rq p ListProducts st = list_products st"
| "serve_secured ce rq p (CreateProduct name description) st = create_product ce name description st"
| "serve_secured ce rq p (GetProduct pid) st = get_product pid st"
| "serve_secured ce rq p (ListProductComponents pid) st = product_components pid st"
| "serve_secured ce rq p (GetProductGraph pid) st = product_graph pid st"
| "serve_secured ce rq p (GetProductImpact pid component) st = get_product_impact pid component st"
| "serve_secured ce rq p (AddDependency pid f t) st = add_product_dependency ce pid f t st"
| "serve_secured ce rq p (RemoveDependency pid f t) st = remove_product_dependency pid f t st"
| "serve_secured ce rq p (CreateComponent pid name kind) st = create_component ce pid name kind st"
| "serve_secured ce rq p (ListComponentVersions cid) st = list_component_versions cid st"
| "serve_secured ce rq p (CreateVersion cid version prerelease) st = create_version ce cid version prerelease st"
| "serve_secured ce rq p (RollbackVersion vid) st = rollback_version vid st"
| "serve_secured ce rq p (GetTimeline pid) st = product_timeline pid st"
| "serve_secured ce rq p (CutRelease pid label notes) st =
     cut_product_release ce (dict_get (hr_headers rq) ''idempotency-key'') pid label notes st"
| "serve_secured ce rq p (ListProductReleases pid) st = list_product_releases pid st"
| "serve_secured ce rq p (GetRelease rid) st = get_release rid st"
| "serve_secured ce rq p (StreamProductEvents pid) st = stream_product_events pid st"
| "serve_secured ce rq p _ st = (json_response 200 (user_json (me p (app_db st))), st)"

definition dispatch :: "call_env \<Rightarrow> http_request \<Rightarrow> app_state \<Rightarrow> api_answer \<times> app_state" where
  "dispatch ce rq st =
     (if secured (hr_call rq)
      then (case require_principal (Some (app_resolver st)) (auth_env_of ce st) (auth_request_of rq) of
              Inl e \<Rightarrow> (answer_error e, st)
            | Inr p \<Rightarrow> serve_secured ce rq p (hr_call rq) st)
      else serve_open ce rq (hr_call rq) st)"

definition call_path :: "api_call \<Rightarrow> string" where
  "call_path c =
     (case c of
        GetRoot \<Rightarrow> ''/'' | GetHealth \<Rightarrow> ''/health'' | GetReady \<Rightarrow> ''/ready'' | GetMeta \<Rightarrow> ''/meta''
      | Signup _ _ \<Rightarrow> ''/auth/signup'' | Verify _ \<Rightarrow> ''/auth/verify'' | Login _ _ \<Rightarrow> ''/auth/login''
      | Me \<Rightarrow> ''/auth/me'' | Logout \<Rightarrow> ''/auth/logout''
      | ListProducts \<Rightarrow> ''/products'' | CreateProduct _ _ \<Rightarrow> ''/products''
      | GetProduct pid \<Rightarrow> ''/products/'' @ pid
      | ListProductComponents pid \<Rightarrow> ''/products/'' @ pid @ ''/components''
      | GetProductGraph pid \<Rightarrow> ''/products/'' @ pid @ ''/graph''
      | GetProductImpact pid _ \<Rightarrow> ''/products/'' @ pid @ ''/impact''
      | AddDependency pid _ _ \<Rightarrow> ''/products/'' @ pid @ ''/dependencies''
      | RemoveDependency pid _ _ \<Rightarrow> ''/products/'' @ pid @ ''/dependencies''
      | CreateComponent _ _ _ \<Rightarrow> ''/components''
      | ListComponentVersions cid \<Rightarrow> ''/components/'' @ cid @ ''/versions''
      | CreateVersion _ _ _ \<Rightarrow> ''/versions'' | RollbackVersion vid \<Rightarrow> ''/versions/'' @ vid @ ''/rollback''
      | GetTimeline pid \<Rightarrow> ''/products/'' @ pid @ ''/timeline''
      | CutRelease pid _ _ \<Rightarrow> ''/products/'' @ pid @ ''/releases''
      | ListProductReleases pid \<Rightarrow> ''/products/'' @ pid @ ''/releases''
      | GetRelease rid \<Rightarrow> ''/releases/'' @ rid
      | StreamProductEvents pid \<Rightarrow> ''/products/'' @ pid @ ''/events'')"

definition scope_of :: "http_request \<Rightarrow> asgi_scope" where
  "scope_of rq =
     \<lparr>scope_type = ''http'', scope_path = call_path (hr_call rq), scope_headers = hr_headers rq,
      scope_client = hr_client rq\<rparr>"

definition app_rate_settings :: rate_limit_settings where
  "app_rate_settings = rate_limit_settings_init None None None None"

definition serve :: "call_env \<Rightarrow> http_request \<Rightarrow> app_state \<Rightarrow> api_answer \<times> app_state" where
  "serve ce rq st =
     (case rate_limit_middleware app_rate_settings (ce_environ ce) (ce_clock ce) (scope_of rq) (app_limiter st) of
        None \<Rightarrow> (Unhandled IndexError, st)
      | Some (Refused r, l) \<Rightarrow> (JsonAnswer r, st\<lparr>app_limiter := l\<rparr>)
      | Some (Forwarded, l) \<Rightarrow> dispatch ce rq (st\<lparr>app_limiter := l\<rparr>))"

section \<open>The middleware never raises\<close>

definition buckets_filled :: "limiter \<Rightarrow> bool" where
  "buckets_filled l \<longleftrightarrow> distinct (keys (admissions l)) \<and> (\<forall>p\<in>set (admissions l). snd p \<noteq> [])"

end
