(* ===== verification/Route_Table.thy ===== *)
theory Route_Table
  imports Routes
begin

text \<open>
  The declared routes (the routers of \<open>src/app/routers/\<close> and the probes of
  \<open>src/app/main.py\<close>) with their dependency trees, and the OpenAPI customizer
  (\<open>src/app/openapi/openapi_customizer.py\<close>) that marks the operations guarded by
  \<open>require_principal\<close>. The document the framework generates is a parameter.
\<close>

section \<open>Dependency trees and routes\<close>

datatype callable = RequirePrincipal | GetDbConnection | GetEventBus | GetMailer | Endpoint string

datatype dependant = Dependant (dep_call: callable) (dep_dependencies: "dependant list")

record api_route =
  rt_path :: string
  rt_methods :: "string list"
  rt_dependant :: dependant

text \<open>The application's route list also holds the framework's own, which are not \<open>APIRoute\<close>s.\<close>

datatype mounted_route = ApiRoute api_route | PlainRoute string

text \<open>One decorated handler: method, path, function, and the dependencies of its parameters.\<close>

record handler_decl =
  hd_method :: string
  hd_path :: string
  hd_endpoint :: string
  hd_depends :: "callable list"

definition GET :: "string \<Rightarrow> string \<Rightarrow> callable list \<Rightarrow> handler_decl" where
  "GET path f ds = \<lparr>hd_method = ''GET'', hd_path = path, hd_endpoint = f, hd_depends = ds\<rparr>"

definition POST :: "string \<Rightarrow> string \<Rightarrow> callable list \<Rightarrow> handler_decl" where
  "POST path f ds = \<lparr>hd_method = ''POST'', hd_path = path, hd_endpoint = f, hd_depends = ds\<rparr>"

definition DELETE :: "string \<Rightarrow> string \<Rightarrow> callable list \<Rightarrow> handler_decl" where
  "DELETE path f ds = \<lparr>hd_method = ''DELETE'', hd_path = path, hd_endpoint = f, hd_depends = ds\<rparr>"

text \<open>
  \<open>APIRouter(prefix, dependencies)\<close>: each handler's path is prefixed and its dependency tree
  has the router's dependencies before those of the handler's own parameters.
\<close>

definition api_router :: "string \<Rightarrow> callable list \<Rightarrow> handler_decl list \<Rightarrow> mounted_route list" where
  "api_router path_prefix depends decls =
     map (\<lambda>h. ApiRoute
            \<lparr>rt_path = path_prefix @ hd_path h, rt_methods = [hd_method h],
             rt_dependant = Dependant (Endpoint (hd_endpoint h))
               (map (\<lambda>c. Dependant c []) (depends @ hd_depends h))\<rparr>) decls"

definition meta_router :: "mounted_route list" where
  "meta_router = api_router [] [] [GET ''/meta'' ''get_meta'' []]"

definition auth_router :: "mounted_route list" where
  "auth_router = api_router ''/auth'' []
     [POST ''/signup'' ''signup'' [GetDbConnection, GetMailer],
      POST ''/verify'' ''verify'' [GetDbConnection],
      POST ''/login'' ''login'' [GetDbConnection],
      GET ''/me'' ''me'' [GetDbConnection, RequirePrincipal],
      POST ''/logout'' ''logout'' [GetDbConnection]]"

definition products_router :: "mounted_route list" where
  "products_router = api_router ''/products'' [RequirePrincipal]
     [GET [] ''list_products'' [GetDbConnection],
      POST [] ''create_product'' [GetDbConnection],
      GET ''/{product_id}'' ''get_product'' [GetDbConnection],
      GET ''/{product_id}/components'' ''list_product_components'' [GetDbConnection],
      GET ''/{product_id}/graph'' ''get_product_graph'' [GetDbConnection],
      GET ''/{product_id}/impact'' ''get_product_impact'' [GetDbConnection],
      POST ''/{product_id}/dependencies'' ''add_product_dependency'' [GetDbConnection, GetEventBus],
      DELETE ''/{product_id}/dependencies'' ''remove_product_dependency'' [GetDbConnection, GetEventBus]]"

definition components_router :: "mounted_route list" where
  "components_router = api_router ''/components'' [RequirePrincipal]
     [POST [] ''create_component'' [GetDbConnection],
      GET ''/{component_id}/versions'' ''list_component_versions'' [GetDbConnection]]"

definition versions_router :: "mounted_route list" where
  "versions_router = api_router ''/versions'' [RequirePrincipal]
     [POST [] ''create_version'' [GetDbConnection, GetEventBus],
      POST ''/{version_id}/rollback'' ''rollback_version'' [GetDbConnection, GetEventBus]]"

definition timeline_router :: "mounted_route list" where
  "timeline_router = api_router ''/products'' [RequirePrincipal]
     [GET ''/{product_id}/timeline'' ''get_timeline'' [GetDbConnection]]"

definition releases_router :: "mounted_route list" where
  "releases_router = api_router [] [RequirePrincipal]
     [POST ''/products/{product_id}/releases'' ''cut_release'' [GetDbConnection, GetEventBus],
      GET ''/products/{product_id}/releases'' ''list_product_releases'' [GetDbConnection],
      GET ''/releases/{release_id}'' ''get_release'' [GetDbConnection]]"

definition events_router :: "mounted_route list" where
  "events_router = api_router [] [RequirePrincipal]
     [GET ''/products/{product_id}/events'' ''stream_product_events'' [GetEventBus]]"

definition main_routes :: "mounted_route list" where
  "main_routes = api_router [] []
     [GET ''/'' ''root'' [], GET ''/health'' ''health'' [], GET ''/ready'' ''ready'' []]"

text \<open>The order of \<open>app.include_router\<close>; \<open>builtin\<close> are the documentation routes of the framework.\<close>

definition application_routes :: "string list \<Rightarrow> mounted_route list" where
  "application_routes builtin =
     map PlainRoute builtin @ main_routes @ meta_router @ auth_router @ products_router
     @ components_router @ versions_router @ timeline_router @ releases_router @ events_router"

section \<open>The customizer\<close>

type_synonym operation = "(string, json) dict"
type_synonym path_item = "(string, operation) dict"

record openapi_document =
  doc_components :: "(string, json) dict option"
  doc_paths :: "(string, path_item) dict option"

definition API_KEY_SCHEME_NAME :: string where
  "API_KEY_SCHEME_NAME = ''apiKeyAuth''"

definition COOKIE_SCHEME_NAME :: string where
  "COOKIE_SCHEME_NAME = ''cookieAuth''"

text \<open>The prose of the two \<open>description\<close> fields is an argument.\<close>

definition security_schemes :: "string \<Rightarrow> string \<Rightarrow> json" where
  "security_schemes key_prose cookie_prose = JObj
     [(API_KEY_SCHEME_NAME, JObj
         [(''type'', JStr ''apiKey''), (''in'', JStr ''header''),
          (''name'', JStr (aks_header_name (api_key_settings_init None None))),
          (''description'', JStr key_prose)]),
      (COOKIE_SCHEME_NAME, JObj
         [(''type'', JStr ''apiKey''), (''in'', JStr ''cookie''), (''name'', JStr SESSION_COOKIE),
          (''description'', JStr cookie_prose)])]"

fun requires_principal :: "dependant \<Rightarrow> bool" where
  "requires_principal (Dependant c ds) \<longleftrightarrow> c = RequirePrincipal \<or> list_ex requires_principal ds"

definition security_requirement :: json where
  "security_requirement =
     JArr [JObj [(API_KEY_SCHEME_NAME, JArr [])], JObj [(COOKIE_SCHEME_NAME, JArr [])]]"

text \<open>\<open>paths.get(route.path, {})\<close> of an unlisted path is a fresh dictionary nobody keeps.\<close>

definition mark_method :: "string \<Rightarrow> string \<Rightarrow> (string, path_item) dict \<Rightarrow> (string, path_item) dict" where
  "mark_method path m paths =
     (case dict_get paths path of
        None \<Rightarrow> paths
      | Some item \<Rightarrow>
          (case dict_get item (lower m) of
             None \<Rightarrow> paths
           | Some op \<Rightarrow>
               dict_set path (dict_set (lower m) (dict_set ''security'' security_requirement op) item) paths))"

fun mark_route :: "mounted_route \<Rightarrow> (string, path_item) dict \<Rightarrow> (string, path_item) dict" where
  "mark_route (PlainRoute _) paths = paths"
| "mark_route (ApiRoute r) paths =
     (if requires_principal (rt_dependant r) then fold (mark_method (rt_path r)) (rt_methods r) paths
      else paths)"

definition mark_secured_operations :: "mounted_route list \<Rightarrow> openapi_document \<Rightarrow> openapi_document" where
  "mark_secured_operations routes doc =
     doc\<lparr>doc_paths := map_option (fold mark_route routes) (doc_paths doc)\<rparr>"

definition customize ::
  "string \<Rightarrow> string \<Rightarrow> mounted_route list \<Rightarrow> openapi_document \<Rightarrow> openapi_document" where
  "customize key_prose cookie_prose routes generated =
     (let components = (case doc_components generated of None \<Rightarrow> [] | Some c \<Rightarrow> c)
      in mark_secured_operations routes
           (generated\<lparr>doc_components :=
              Some (dict_set ''securitySchemes'' (security_schemes key_prose cookie_prose) components)\<rparr>))"

section \<open>What the customizer marks\<close>

definition operation_at :: "(string, path_item) dict \<Rightarrow> string \<Rightarrow> string \<Rightarrow> operation option" where
  "operation_at paths path m = Option.bind (dict_get paths path) (\<lambda>item. dict_get item m)"

definition document_operation :: "openapi_document \<Rightarrow> string \<Rightarrow> string \<Rightarrow> operation option" where
  "document_operation doc path m = Option.bind (doc_paths doc) (\<lambda>paths. operation_at paths path m)"

abbreviation mark_operation :: "operation \<Rightarrow> operation" where
  "mark_operation \<equiv> dict_set ''security'' security_requirement"

fun guards :: "mounted_route \<Rightarrow> string \<Rightarrow> string \<Rightarrow> bool" where
  "guards (PlainRoute _) path m = False"
| "guards (ApiRoute r) path m \<longleftrightarrow>
     requires_principal (rt_dependant r) \<and> rt_path r = path \<and> m \<in> lower ` set (rt_methods r)"

lemma mark_method_at:
  "operation_at (mark_method path m paths) q n =
     (if q = path \<and> n = lower m then map_option mark_operation (operation_at paths q n)
      else operation_at paths q n)"
  by (auto simp: mark_method_def operation_at_def split: option.splits)

lemma mark_methods_at:
  "operation_at (fold (mark_method path) ms paths) q n =
     (if q = path \<and> n \<in> lower ` set ms then map_option mark_operation (operation_at paths q n)
      else operation_at paths q n)"
proof (induction ms arbitrary: paths)
  case (Cons m ms)
  show ?case
    unfolding fold_simps Cons.IH mark_method_at by (cases "operation_at paths q n") auto
qed simp

lemma mark_route_at:
  "operation_at (mark_route r paths) q n =
     (if guards r q n then map_option mark_operation (operation_at paths q n) else operation_at paths q n)"
  by (cases r) (auto simp: mark_methods_at)

lemma mark_routes_at:
  "operation_at (fold mark_route rs paths) q n =
     (if \<exists>r\<in>set rs. guards r q n then map_option mark_operation (operation_at paths q n)
      else operation_at paths q n)"
proof (induction rs arbitrary: paths)
  case (Cons r rs)
  show ?case
    unfolding fold_simps Cons.IH mark_route_at by (cases "operation_at paths q n") auto
qed simp

lemma customize_operation:
  "document_operation (customize k c routes doc) q n =
     (if \<exists>r\<in>set routes. guards r q n then map_option mark_operation (document_operation doc q n)
      else document_operation doc q n)"
  by (cases "doc_paths doc")
    (simp_all add: customize_def mark_secured_operations_def document_operation_def mark_routes_at Let_def)

section \<open>The declared routes and the calls of the model\<close>

text \<open>The decorator that declares each call's handler: method and full path.\<close>

definition call_route :: "api_call \<Rightarrow> string \<times> string" where
  "call_route c =
     (case c of
        GetRoot \<Rightarrow> (''GET'', ''/'') | GetHealth \<Rightarrow> (''GET'', ''/health'') | GetReady \<Rightarrow> (''GET'', ''/ready'')
      | GetMeta \<Rightarrow> (''GET'', ''/meta'')
      | Signup _ _ \<Rightarrow> (''POST'', ''/auth/signup'') | Verify _ \<Rightarrow> (''POST'', ''/auth/verify'')
      | Login _ _ \<Rightarrow> (''POST'', ''/auth/login'') | Me \<Rightarrow> (''GET'', ''/auth/me'')
      | Logout \<Rightarrow> (''POST'', ''/auth/logout'')
      | ListProducts \<Rightarrow> (''GET'', ''/products'') | CreateProduct _ _ \<Rightarrow> (''POST'', ''/products'')
      | GetProduct _ \<Rightarrow> (''GET'', ''/products/{product_id}'')
      | ListProductComponents _ \<Rightarrow> (''GET'', ''/products/{product_id}/components'')
      | GetProductGraph _ \<Rightarrow> (''GET'', ''/products/{product_id}/graph'')
      | GetProductImpact _ _ \<Rightarrow> (''GET'', ''/products/{product_id}/impact'')
      | AddDependency _ _ _ \<Rightarrow> (''POST'', ''/products/{product_id}/dependencies'')
      | RemoveDependency _ _ _ \<Rightarrow> (''DELETE'', ''/products/{product_id}/dependencies'')
      | CreateComponent _ _ _ \<Rightarrow> (''POST'', ''/components'')
      | ListComponentVersions _ \<Rightarrow> (''GET'', ''/components/{component_id}/versions'')
      | CreateVersion _ _ _ \<Rightarrow> (''POST'', ''/versions'')
      | RollbackVersion _ \<Rightarrow> (''POST'', ''/versions/{version_id}/rollback'')
      | GetTimeline _ \<Rightarrow> (''GET'', ''/products/{product_id}/timeline'')
      | CutRelease _ _ _ \<Rightarrow> (''POST'', ''/products/{product_id}/releases'')
      | ListProductReleases _ \<Rightarrow> (''GET'', ''/products/{product_id}/releases'')
      | GetRelease _ \<Rightarrow> (''GET'', ''/releases/{release_id}'')
      | StreamProductEvents _ \<Rightarrow> (''GET'', ''/products/{product_id}/events''))"

lemmas router_defs =
  main_routes_def meta_router_def auth_router_def products_router_def components_router_def
  versions_router_def timeline_router_def releases_router_def events_router_def
  api_router_def GET_def POST_def DELETE_def

fun route_keys :: "mounted_route \<Rightarrow> (string \<times> string) list" where
  "route_keys (PlainRoute _) = []"
| "route_keys (ApiRoute r) = map (\<lambda>m. (m, rt_path r)) (rt_methods r)"

fun guarded_keys :: "mounted_route \<Rightarrow> (string \<times> string) list" where
  "guarded_keys (PlainRoute _) = []"
| "guarded_keys (ApiRoute r) =
     (if requires_principal (rt_dependant r) then map (\<lambda>m. (rt_path r, lower m)) (rt_methods r) else [])"

lemma guards_keys: "guards r q n \<longleftrightarrow> (q, n) \<in> set (guarded_keys r)"
  by (cases r) auto

lemma guarded_operations:
  "concat (map guarded_keys (application_routes builtin)) =
     [(''/auth/me'', ''get''), (''/products'', ''get''), (''/products'', ''post''),
      (''/products/{product_id}'', ''get''), (''/products/{product_id}/components'', ''get''),
      (''/products/{product_id}/graph'', ''get''), (''/products/{product_id}/impact'', ''get''),
      (''/products/{product_id}/dependencies'', ''post''), (''/products/{product_id}/dependencies'', ''delete''),
      (''/components'', ''post''), (''/components/{component_id}/versions'', ''get''), (''/versions'', ''post''),
      (''/versions/{version_id}/rollback'', ''post''), (''/products/{product_id}/timeline'', ''get''),
      (''/products/{product_id}/releases'', ''post''), (''/products/{product_id}/releases'', ''get''),
      (''/releases/{release_id}'', ''get''), (''/products/{product_id}/events'', ''get'')]"
proof -
  have plain: "concat (map (guarded_keys \<circ> PlainRoute) builtin) = []" by (induction builtin) simp_all
  have lowered: "lower ''GET'' = ''get''" "lower ''POST'' = ''post''" "lower ''DELETE'' = ''delete''" by code_simp+
  show ?thesis by (simp add: application_routes_def plain router_defs lowered)
qed

lemma call_guarded:
  "(\<exists>r\<in>set (application_routes builtin). guards r (snd (call_route c)) (lower (fst (call_route c)))) \<longleftrightarrow> secured c"
proof -
  have lowered: "lower ''GET'' = ''get''" "lower ''POST'' = ''post''" "lower ''DELETE'' = ''delete''" by code_simp+
  have "(\<exists>r\<in>set (application_routes builtin). guards r q n) \<longleftrightarrow>
        (q, n) \<in> set (concat (map guarded_keys (application_routes builtin)))" for q n
    by (simp add: guards_keys)
  then show ?thesis unfolding guarded_operations by (cases c) (simp_all add: call_route_def lowered)
qed

lemma one_route_per_operation: "distinct (concat (map route_keys (application_routes builtin)))"
proof -
  have plain: "concat (map (route_keys \<circ> PlainRoute) builtin) = []" by (induction builtin) simp_all
  show ?thesis by (simp add: application_routes_def plain router_defs)
qed

lemma every_call_declared: "call_route c \<in> set (concat (map route_keys (application_routes builtin)))"
proof -
  have plain: "concat (map (route_keys \<circ> PlainRoute) builtin) = []" by (induction builtin) simp_all
  show ?thesis by (cases c) (simp_all add: application_routes_def plain router_defs call_route_def)
qed

section \<open>Properties of the document\<close>

fun json_field :: "string \<Rightarrow> json \<Rightarrow> json option" where
  "json_field k (JObj members) = dict_get members k"
| "json_field k _ = None"

definition scheme_field :: "openapi_document \<Rightarrow> string \<Rightarrow> string \<Rightarrow> json option" where
  "scheme_field doc scheme f =
     Option.bind (doc_components doc) (\<lambda>components.
       Option.bind (dict_get components ''securitySchemes'') (\<lambda>schemes.
         Option.bind (json_field scheme schemes) (json_field f)))"

lemma customize_schemes:
  "scheme_field (customize k c routes doc) API_KEY_SCHEME_NAME ''name'' = Some (JStr API_KEY_HEADER)"
  "scheme_field (customize k c routes doc) COOKIE_SCHEME_NAME ''name'' = Some (JStr SESSION_COOKIE)"
  by (simp_all add: scheme_field_def customize_def Let_def mark_secured_operations_def security_schemes_def
      API_KEY_SCHEME_NAME_def COOKIE_SCHEME_NAME_def API_KEY_HEADER_def api_settings_def)

lemma open_calls_ignore_resolver:
  "\<not> secured c \<Longrightarrow> fst (serve_open ce rq c (st\<lparr>app_resolver := r\<rparr>)) = fst (serve_open ce rq c st)"
  by (cases c) (auto simp: read_answer_def signup_def verify_account_def login_account_def
      split: option.splits prod.splits)

text \<open>C28: the published document tells the truth about credentials. For every route, the operation
  the generated document lists without a security field is published either with the
  two-scheme requirement, and then the application refuses the call whenever no principal
  resolves, leaving its state untouched; or still without one, and then the answer does not
  depend on the installed resolver at all. All other fields stay as generated.
\<close>

theorem documented_security_enforced:
  assumes "document_operation generated (snd (call_route (hr_call rq))) (lower (fst (call_route (hr_call rq)))) = Some op"
    and "dict_get op ''security'' = None"
  shows "\<exists>op'. document_operation (customize key_prose cookie_prose (application_routes builtin) generated)
            (snd (call_route (hr_call rq))) (lower (fst (call_route (hr_call rq)))) = Some op' \<and>
          (\<forall>f. f \<noteq> ''security'' \<longrightarrow> dict_get op' f = dict_get op f) \<and>
          (dict_get op' ''security'' = Some security_requirement \<and>
             (\<forall>e. require_principal (Some (app_resolver st)) (auth_env_of ce st) (auth_request_of rq) = Inl e \<longrightarrow>
                  dispatch ce rq st = (answer_error e, st)) \<or>
           dict_get op' ''security'' = None \<and>
             (\<forall>r. fst (dispatch ce rq (st\<lparr>app_resolver := r\<rparr>)) = fst (dispatch ce rq st)))"
proof (cases "secured (hr_call rq)")
  case True
  then show ?thesis
    using assms by (simp add: customize_operation call_guarded dispatch_def)
next
  case False
  then show ?thesis
    using assms by (simp add: customize_operation call_guarded dispatch_def open_calls_ignore_resolver)
qed

definition generated_document :: openapi_document where
  "generated_document =
     \<lparr>doc_components = None,
      doc_paths = Some [(''/products'', [(''get'', [(''summary'', JStr ''List Products'')])]),
                        (''/health'', [(''get'', [(''summary'', JStr ''Health'')])])]\<rparr>"

definition listing_request :: http_request where
  "listing_request = \<lparr>hr_headers = [], hr_cookies = [], hr_client = None, hr_call = ListProducts\<rparr>"

theorem documented_security_enforced_witness:
  "\<exists>op'. document_operation (customize [] [] (application_routes [''/docs'']) generated_document)
       ''/products'' ''get'' = Some op' \<and> dict_get op' ''summary'' = Some (JStr ''List Products'')"
proof -
  have route: "snd (call_route (hr_call listing_request)) = ''/products''"
    "lower (fst (call_route (hr_call listing_request))) = ''get''"
    by (simp add: listing_request_def call_route_def)
      (simp only: listing_request_def http_request.simps call_route_def api_call.case fst_conv, code_simp)
  have op: "document_operation generated_document ''/products'' ''get'' = Some [(''summary'', JStr ''List Products'')]"
    by (simp add: document_operation_def operation_at_def generated_document_def)
  from documented_security_enforced[of generated_document listing_request, unfolded route, OF op, of "[]" "[]" "[''/docs'']"]
  show ?thesis by fastforce
qed

lemma try_providers_abstain:
  "\<forall>p\<in>set ps. p ae rq = Inr None \<Longrightarrow> try_providers ps ae rq = Inr None"
  by (induction ps) simp_all

text \<open>The schemes the document publishes are the ones the application honours. In a started
  application with an API key or a mode configured and no plugin, a request carrying neither the
  header nor the cookie that the published schemes name is refused as unauthorized; a
  request carrying the configured key in the header of the published name resolves to the API-key
  principal, whatever its cookies and whatever plugins are installed.
\<close>

theorem documented_credentials_decide:
  assumes "scheme_field (customize key_prose cookie_prose routes generated) API_KEY_SCHEME_NAME ''name'' = Some (JStr header)"
    and "scheme_field (customize key_prose cookie_prose routes generated) COOKIE_SCHEME_NAME ''name'' = Some (JStr cookie)"
    and "ae_environ ae = env"
    and "modes default_auth_settings env \<noteq> {} \<or> is_authentication_enabled env"
  shows "(dict_get (rq_headers rq) (lower header) = None \<longrightarrow> dict_get (rq_cookies rq) cookie = None \<longrightarrow>
            require_principal (Some (app_resolver (lifespan_start env [] [] stored))) ae rq =
              Inl (UnauthorizedError ''No valid credentials were provided.'' [])) \<and>
         (\<forall>k plugins. get_configured_api_key env = Some k \<longrightarrow> k \<noteq> [] \<longrightarrow> is_ascii k \<longrightarrow>
            dict_get (rq_headers rq) (lower header) = Some k \<longrightarrow>
            require_principal (Some (app_resolver (lifespan_start env plugins [] stored))) ae rq =
              Inr (key_principal (edition default_auth_settings env)))"
proof -
  have names: "header = API_KEY_HEADER" "cookie = SESSION_COOKIE" using assms(1,2) by (simp_all add: customize_schemes)
  have refused: "require_principal (Some (app_resolver (lifespan_start env [] [] stored))) ae rq =
        Inl (UnauthorizedError ''No valid credentials were provided.'' [])"
    if absent: "dict_get (rq_headers rq) (lower header) = None" "dict_get (rq_cookies rq) cookie = None"
  proof -
    have key: "api_key_provider ed ae rq = Inr None" for ed
      using absent(1) by (simp add: api_key_provider_def names split: option.splits)
    have session: "password_session_provider ed ae rq = Inr None" for ed
      using absent(2) by (simp add: password_session_provider_def session_cookie_token_def names)
    have "try_providers (app_registry default_auth_settings env []) ae rq = Inr None"
      by (intro try_providers_abstain) (auto simp: app_registry_def build_registry_def key session split: if_splits)
    then show ?thesis
      using assms(4) by (simp add: lifespan_start_def Let_def require_principal_def resolve_def build_resolver_def)
  qed
  have accepted: "require_principal (Some (app_resolver (lifespan_start env plugins [] stored))) ae rq =
        Inr (key_principal (edition default_auth_settings env))"
    if "get_configured_api_key env = Some k" "k \<noteq> []" "is_ascii k" "dict_get (rq_headers rq) (lower header) = Some k"
    for k plugins
    using that assms(3)
    by (simp add: lifespan_start_def Let_def require_principal_def resolve_def build_resolver_def app_registry_def
        build_registry_def is_authentication_enabled_def api_key_provider_def names compare_digest_def key_principal_def)
  show ?thesis using refused accepted by blast
qed

theorem documented_credentials_decide_witness:
  "require_principal (Some (app_resolver (lifespan_start [''LAVS_API_KEY'' \<mapsto> ''k''] [] [] empty_database)))
     \<lparr>ae_environ = [''LAVS_API_KEY'' \<mapsto> ''k''], ae_now = 0, ae_db = None, ae_sha = id\<rparr>
     \<lparr>rq_headers = [(lower API_KEY_HEADER, ''k'')], rq_cookies = []\<rparr> =
   Inr (key_principal (edition default_auth_settings [''LAVS_API_KEY'' \<mapsto> ''k'']))"
proof -
  have key: "get_configured_api_key [''LAVS_API_KEY'' \<mapsto> ''k''] = Some ''k''"
    by (simp add: get_configured_api_key_def configured_key_def api_settings_def api_key_settings_init_def or_default_def)
  then have enabled: "is_authentication_enabled [''LAVS_API_KEY'' \<mapsto> ''k'']"
    by (simp add: is_authentication_enabled_def)
  have ascii: "is_ascii ''k''" by (simp add: is_ascii_def code_def)
  show ?thesis
    using documented_credentials_decide[OF customize_schemes[of "[]" "[]" "[]" generated_document], of
        "\<lparr>ae_environ = [''LAVS_API_KEY'' \<mapsto> ''k''], ae_now = 0, ae_db = None, ae_sha = id\<rparr>"
        "[''LAVS_API_KEY'' \<mapsto> ''k'']" "\<lparr>rq_headers = [(lower API_KEY_HEADER, ''k'')], rq_cookies = []\<rparr>" empty_database]
      key enabled ascii by simp
qed

end
