(* ===== verification/System.thy ===== *)
theory System
  imports Routes
begin

text \<open>
  The running application: one database, one event bus and one mailer, and a step for every
  operation the routers expose that changes one of them. Every step is shown to keep the
  invariant of the whole store and to let the release tables only grow; the two facts
  discharge the laws of \<open>growing_system\<close>, interpreted here on the step relation.
\<close>

section \<open>The invariant of the store\<close>

definition db_inv :: "database \<Rightarrow> bool" where
  "db_inv db \<longleftrightarrow>
     schema_ok db \<and> names_unique (products db) \<and> one_active (versions db) \<and> all_nonneg (versions db) \<and>
     graph_ok (dependencies db) (components db) \<and> releases_ok db"

lemma db_inv_parts:
  assumes "db_inv db"
  shows "schema_ok db" "names_unique (products db)" "one_active (versions db)" "all_nonneg (versions db)"
    "graph_ok (dependencies db) (components db)" "releases_ok db" "all_parse db" "idem_unique (releases db)"
    "manifest_ok (release_components db) (components db) (versions db) (releases db)"
  using assms by (simp_all add: db_inv_def releases_ok_def)

lemma db_inv_empty: "db_inv empty_database"
  unfolding db_inv_def using schema_ok_empty
  by (simp add: empty_database_def names_unique_def one_active_def all_nonneg_def graph_ok_def
      product_edges_def releases_ok_def manifest_ok_def all_parse_def idem_unique_def acyclic_def)

lemma keeps_create_product:
  assumes run: "create_product_query i now data db = (res, db')" and inv: "db_inv db"
  shows "db_inv db' \<and> extends db db'"
  using run
proof (cases rule: create_product_cases)
  case refused
  with inv show ?thesis by (simp add: extends_refl)
next
  case created
  note p = db_inv_parts[OF inv]
  have "all_parse db'" using p(7) parses_default by (simp add: all_parse_def created(3) new_product_row_def)
  with create_product_keeps[OF run p(1,2)] p show ?thesis
    by (simp add: db_inv_def releases_ok_def created(3) extends_def)
qed

lemma keeps_create_component:
  assumes run: "create_component_query i data db = (res, db')" and inv: "db_inv db"
  shows "db_inv db' \<and> extends db db'"
  using run
proof (cases rule: create_component_cases)
  case refused
  with inv show ?thesis by (simp add: extends_refl)
next
  case (created c)
  note p = db_inv_parts[OF inv]
  have "graph_ok (dependencies db) (components db @ [c])"
    by (rule graph_ok_new_component[OF p(5)]) (use p(1) created(1,3) in \<open>simp_all add: schema_ok_def\<close>)
  moreover have "manifest_ok (release_components db) (components db @ [c]) (versions db) (releases db)"
    by (rule manifest_ok_extends[OF p(9)]) auto
  moreover note schema_ok_insert(2)[OF p(1) created(4)]
  ultimately show ?thesis using p
    by (simp add: db_inv_def releases_ok_def created(5) extends_def all_parse_def)
qed

lemma keeps_versions:
  assumes inv: "db_inv db" and db': "db' = db\<lparr>versions := vs\<rparr>"
    and keeps: "schema_ok db'" "one_active vs" "all_nonneg vs" "prefix (history (versions db)) (history vs)"
  shows "db_inv db' \<and> extends db db'"
proof -
  note p = db_inv_parts[OF inv]
  have "manifest_ok (release_components db) (components db) vs (releases db)"
    by (rule manifest_ok_extends[OF p(9)]) (use keeps(4) in auto)
  with p keeps show ?thesis by (simp add: db_inv_def releases_ok_def db' extends_def all_parse_def)
qed

lemma keeps_create_version:
  assumes run: "create_version_query i now data db bus = (res, db', bus')"
    and valid: "semver_match (cv_version data)" and inv: "db_inv db"
  shows "db_inv db' \<and> extends db db'"
proof -
  note p = db_inv_parts[OF inv]
  have "db' = db\<lparr>versions := versions db'\<rparr>"
    using run valid by (cases rule: create_version_cases) (simp_all add: supersede_active_def)
  from keeps_versions[OF inv this] create_version_keeps[OF run valid p(1,3,4)] show ?thesis by blast
qed

lemma keeps_rollback_version:
  assumes run: "rollback_version_query i db bus = (res, db', bus')" and inv: "db_inv db"
  shows "db_inv db' \<and> extends db db'"
proof -
  note p = db_inv_parts[OF inv]
  have "db' = db\<lparr>versions := versions db'\<rparr>"
    using run p(1,4) by (cases rule: rollback_version_cases) simp_all
  from keeps_versions[OF inv this] rollback_version_keeps[OF run p(1,3,4)] show ?thesis by simp
qed

lemma keeps_dependencies:
  assumes inv: "db_inv db" and db': "db' = db\<lparr>dependencies := ds\<rparr>"
    and keeps: "schema_ok db' \<and> graph_ok (dependencies db') (components db')"
  shows "db_inv db' \<and> extends db db'"
  using db_inv_parts[OF inv] keeps by (simp add: db_inv_def releases_ok_def db' extends_def all_parse_def)

lemma keeps_add_dependency:
  assumes run: "add_dependency_query i now data db bus = (res, db', bus')" and inv: "db_inv db"
  shows "db_inv db' \<and> extends db db'"
proof -
  note p = db_inv_parts[OF inv]
  have "db' = db\<lparr>dependencies := dependencies db'\<rparr>"
    using run by (cases rule: add_dependency_cases) simp_all
  from keeps_dependencies[OF inv this add_dependency_keeps[OF run p(1,5)]] show ?thesis .
qed

lemma keeps_remove_dependency:
  assumes run: "remove_dependency_query data db bus = (res, db', bus')" and inv: "db_inv db"
  shows "db_inv db' \<and> extends db db'"
proof -
  note p = db_inv_parts[OF inv]
  have "db' = db\<lparr>dependencies := dependencies db'\<rparr>"
    using run by (cases rule: remove_dependency_cases) (simp_all add: delete_edge_def)
  from keeps_dependencies[OF inv this remove_dependency_keeps[OF run p(1,5)]] show ?thesis .
qed

lemma keeps_cut_release:
  assumes run: "cut_release_query i now data db = (res, db')" and inv: "db_inv db"
  shows "db_inv db' \<and> extends db db'"
proof -
  note p = db_inv_parts[OF inv]
  have "extends db db'"
    using cut_release_query_frame[OF run p(1,3,7)]
    by (auto simp: extends_refl extends_def after_cut_def)
  with cut_release_query_keeps[OF run p(1,3,6)] p show ?thesis by (simp add: db_inv_def)
qed

text \<open>Sign-up, verification, login and logout touch only the three auth tables.\<close>

definition auth_only :: "database \<Rightarrow> database \<Rightarrow> bool" where
  "auth_only db db' \<longleftrightarrow>
     products db' = products db \<and> components db' = components db \<and> versions db' = versions db \<and>
     releases db' = releases db \<and> release_components db' = release_components db \<and>
     dependencies db' = dependencies db"

lemma keeps_auth_only:
  assumes "auth_only db db'" "schema_ok db'" "db_inv db"
  shows "db_inv db' \<and> extends db db'"
  using assms(1,2) db_inv_parts[OF assms(3)]
  by (simp add: auth_only_def db_inv_def releases_ok_def extends_def all_parse_def)

lemma keeps_auth:
  "(schema_ok db \<Longrightarrow> auth_only db db' \<and> schema_ok db') \<Longrightarrow> db_inv db \<Longrightarrow> db_inv db' \<and> extends db db'"
  using keeps_auth_only db_inv_parts(1) by blast

lemma auth_only_refl [simp]: "auth_only db db"
  by (simp add: auth_only_def)

lemma auth_only_trans: "auth_only a b \<Longrightarrow> auth_only b c \<Longrightarrow> auth_only a c"
  by (simp add: auth_only_def)

lemma auth_only_updates [simp]:
  "auth_only db (db\<lparr>users := us\<rparr>)" "auth_only db (db\<lparr>sessions := ss\<rparr>)" "auth_only db (db\<lparr>tokens := ts\<rparr>)"
  by (simp_all add: auth_only_def)

lemma auth_only_inserts:
  "insert_user u db = Inr db' \<Longrightarrow> auth_only db db'"
  "insert_session s db = Inr db' \<Longrightarrow> auth_only db db'"
  "insert_token t db = Inr db' \<Longrightarrow> auth_only db db'"
  by (auto dest!: insert_frame)

lemma signup_auth_only:
  assumes run: "register hash sha env s pin fresh model db mailer = (res, db', mailer')" and ok: "schema_ok db"
  shows "auth_only db db' \<and> schema_ok db'"
  using run
proof (cases rule: register_cases)
  case refused
  with ok show ?thesis by simp
next
  case stranded
  with auth_only_inserts(1) schema_ok_insert(7)[OF ok] show ?thesis by blast
next
  case (registered ttl db1)
  note db1 = schema_ok_insert(7)[OF ok registered(4)]
  from auth_only_trans[OF auth_only_inserts(1)[OF registered(4)] auth_only_inserts(3)[OF registered(5)]]
    schema_ok_insert(9)[OF db1 registered(5)]
  show ?thesis by simp
qed

lemma keeps_signup:
  "register hash sha env s pin fresh model db mailer = (res, db', mailer') \<Longrightarrow> db_inv db \<Longrightarrow>
     db_inv db' \<and> extends db db'"
  by (rule keeps_auth[OF signup_auth_only])

lemma auth_only_verified: "auth_only db (consume_token h now (activate_user i db))"
  by (simp add: auth_only_def consume_token_def activate_user_def)

lemma verify_auth_only:
  assumes "verify sha now token db = (res, db')" and ok: "schema_ok db"
  shows "auth_only db db' \<and> schema_ok db'"
  using assms(1) ok auth_only_verified by (cases rule: verify_cases) (auto intro: schema_ok_auth_ops)

lemma keeps_verify:
  "verify sha now token db = (res, db') \<Longrightarrow> db_inv db \<Longrightarrow> db_inv db' \<and> extends db db'"
  by (rule keeps_auth[OF verify_auth_only])

lemma login_auth_only:
  assumes "login pw_ok sha eq env s i token now email password db = (res, db')" and ok: "schema_ok db"
  shows "auth_only db db' \<and> schema_ok db'"
  using assms(1) ok auth_only_inserts(2) schema_ok_insert(8)[OF ok] by (cases rule: login_cases) auto

lemma keeps_login:
  "login pw_ok sha eq env s i token now email password db = (res, db') \<Longrightarrow> db_inv db \<Longrightarrow>
     db_inv db' \<and> extends db db'"
  by (rule keeps_auth[OF login_auth_only])

lemma logout_auth_only: "schema_ok db \<Longrightarrow> auth_only db (logout sha rq db) \<and> schema_ok (logout sha rq db)"
  using schema_ok_auth_ops(3)[of db] by (auto simp: logout_def delete_session_def split: option.splits)

lemma keeps_logout: "db_inv db \<Longrightarrow> db_inv (logout sha rq db) \<and> extends db (logout sha rq db)"
  by (rule keeps_auth[OF logout_auth_only])

section \<open>What one request does\<close>

text \<open>
  \<open>moves st st'\<close>: if the store and the bus are in order before, they are after, and the
  release history only grew; settings, resolver, extensions and limiter are untouched.
\<close>

definition wired_alike :: "app_state \<Rightarrow> app_state \<Rightarrow> bool" where
  "wired_alike st st' \<longleftrightarrow>
     app_settings st' = app_settings st \<and> app_resolver st' = app_resolver st \<and>
     app_extensions st' = app_extensions st \<and> app_limiter st' = app_limiter st"

definition moves :: "app_state \<Rightarrow> app_state \<Rightarrow> bool" where
  "moves st st' \<longleftrightarrow> wired_alike st st' \<and>
     (db_inv (app_db st) \<and> bus_ok (app_bus st) \<longrightarrow>
        db_inv (app_db st') \<and> extends (app_db st) (app_db st') \<and> bus_ok (app_bus st'))"

lemma moves_refl [simp]: "moves st st"
  by (simp add: moves_def wired_alike_def extends_refl)

lemma moves_read [simp]: "moves st (snd (read_answer st r))"
  by (simp add: read_answer_def)

lemma moves_db:
  "(db_inv (app_db st) \<Longrightarrow> db_inv db \<and> extends (app_db st) db) \<Longrightarrow> moves st (st\<lparr>app_db := db\<rparr>)"
  by (simp add: moves_def wired_alike_def)

lemma moves_mail:
  "moves st (st\<lparr>app_db := db\<rparr>) \<Longrightarrow> moves st (st\<lparr>app_db := db, app_mailer := m\<rparr>)"
  by (simp add: moves_def wired_alike_def)

lemma moves_bus:
  "(db_inv (app_db st) \<Longrightarrow> db_inv db \<and> extends (app_db st) db) \<Longrightarrow>
   (db_inv (app_db st) \<Longrightarrow> bus_ok (app_bus st) \<Longrightarrow> bus_ok bus) \<Longrightarrow>
     moves st (st\<lparr>app_db := db, app_bus := bus\<rparr>)"
  by (simp add: moves_def wired_alike_def)

lemma emitted_ok:
  "bus_ok b \<Longrightarrow> bus' = Some b \<or> (\<exists>ev. bus' = emit ev (Some b)) \<Longrightarrow> bus_ok (the bus')"
  by (auto simp: emit_def bus_ok_publish)

named_theorems handler_moves

lemma moves_create_product [handler_moves]: "moves st (snd (create_product ce name description st))"
proof (cases "validate_create_product name description")
  case (Some body)
  obtain r db where run: "create_product_query (ce_id ce) (ce_now ce) body (app_db st) = (r, db)"
    by (cases "create_product_query (ce_id ce) (ce_now ce) body (app_db st)")
  from moves_db[OF keeps_create_product[OF run]] show ?thesis by (simp add: create_product_def Some run)
qed (simp add: create_product_def)

lemma moves_create_component [handler_moves]: "moves st (snd (create_component ce pid name kind st))"
proof (cases "Option.bind (component_kind_of kind) (validate_create_component (ce_valid_ulid ce) pid name)")
  case (Some body)
  obtain r db where run: "create_component_query (ce_id ce) body (app_db st) = (r, db)"
    by (cases "create_component_query (ce_id ce) body (app_db st)")
  from moves_db[OF keeps_create_component[OF run]] show ?thesis by (simp add: create_component_def Some run)
qed (simp add: create_component_def)

lemma bus_create_version:
  assumes "create_version_query i now data db (Some b) = (r, db', bus')" "semver_match (cv_version data)" "bus_ok b"
  shows "bus_ok (the bus')"
  by (rule emitted_ok[OF assms(3)]) (use assms(1,2) in \<open>cases rule: create_version_cases\<close>, auto)

lemma moves_create_version [handler_moves]: "moves st (snd (create_version ce cid version prerelease st))"
proof (cases version)
  case (JStr v)
  show ?thesis
  proof (cases "validate_create_version (ce_valid_ulid ce) cid v prerelease")
    case (Some body)
    then have valid: "semver_match (cv_version body)" by (auto simp: validate_create_version_def split: if_splits)
    obtain r db bus where
      run: "create_version_query (ce_id ce) (ce_now ce) body (app_db st) (Some (app_bus st)) = (r, db, bus)"
      by (cases "create_version_query (ce_id ce) (ce_now ce) body (app_db st) (Some (app_bus st))") auto
    from moves_bus[OF keeps_create_version[OF run valid] bus_create_version[OF run valid]]
    show ?thesis by (simp add: create_version_def JStr Some run)
  qed (simp add: create_version_def JStr)
qed (simp_all add: create_version_def)

lemma bus_rollback_version:
  assumes "rollback_version_query i db (Some b) = (r, db', bus')" "db_inv db" "bus_ok b"
  shows "bus_ok (the bus')"
  by (rule emitted_ok[OF assms(3)])
     (use assms(1) db_inv_parts(1,4)[OF assms(2)] in \<open>cases rule: rollback_version_cases\<close>, auto)

lemma moves_rollback_version [handler_moves]: "moves st (snd (rollback_version vid st))"
proof -
  obtain r db bus where run: "rollback_version_query vid (app_db st) (Some (app_bus st)) = (r, db, bus)"
    by (cases "rollback_version_query vid (app_db st) (Some (app_bus st))") auto
  from moves_bus[OF keeps_rollback_version[OF run] bus_rollback_version[OF run]]
  show ?thesis by (simp add: rollback_version_def run)
qed

lemma moves_add_dependency [handler_moves]: "moves st (snd (add_product_dependency ce pid f t st))"
proof (cases "ce_valid_ulid ce f \<and> ce_valid_ulid ce t")
  case True
  let ?d = "\<lparr>cd_product_id = pid, cd_from = f, cd_to = t\<rparr>"
  obtain r db bus where
    run: "add_dependency_query (ce_id ce) (ce_now ce) ?d (app_db st) (Some (app_bus st)) = (r, db, bus)"
    by (cases "add_dependency_query (ce_id ce) (ce_now ce) ?d (app_db st) (Some (app_bus st))") auto
  have "bus_ok (the bus)" if "bus_ok (app_bus st)"
    by (rule emitted_ok[OF that]) (use run in \<open>cases rule: add_dependency_cases\<close>, auto)
  from moves_bus[OF keeps_add_dependency[OF run] this] True
  show ?thesis by (simp add: add_product_dependency_def run)
qed (auto simp: add_product_dependency_def)

lemma moves_remove_dependency [handler_moves]: "moves st (snd (remove_product_dependency pid f t st))"
proof -
  let ?d = "\<lparr>cd_product_id = pid, cd_from = f, cd_to = t\<rparr>"
  obtain r db bus where run: "remove_dependency_query ?d (app_db st) (Some (app_bus st)) = (r, db, bus)"
    by (cases "remove_dependency_query ?d (app_db st) (Some (app_bus st))") auto
  have "bus_ok (the bus)" if "bus_ok (app_bus st)"
    by (rule emitted_ok[OF that]) (use run in \<open>cases rule: remove_dependency_cases\<close>, auto)
  from moves_bus[OF keeps_remove_dependency[OF run] this]
  show ?thesis by (simp add: remove_product_dependency_def run)
qed

lemma moves_cut_release [handler_moves]: "moves st (snd (cut_product_release ce key pid label notes st))"
proof (cases "validate_cut_release label notes")
  case True
  let ?d = "\<lparr>cut_product_id = pid, cut_label = label, cut_notes = notes, cut_idempotency_key = key\<rparr>"
  obtain r db where run: "cut_release_query (ce_id ce) (ce_now ce) ?d (app_db st) = (r, db)"
    by (cases "cut_release_query (ce_id ce) (ce_now ce) ?d (app_db st)")
  define bus where "bus = snd (snd (cut_release (ce_id ce) (ce_now ce) ?d (app_db st) (app_bus st)))"
  obtain r' where cut: "cut_release (ce_id ce) (ce_now ce) ?d (app_db st) (app_bus st) = (r', db, bus)"
    by (cases r) (simp_all add: bus_def cut_release_def run)
  have bus: "bus = app_bus st \<or> (\<exists>ev. bus = publish ev (app_bus st))"
    by (cases r) (auto simp: bus_def cut_release_def run)
  from moves_bus[OF keeps_cut_release[OF run], of bus] bus bus_ok_publish
  show ?thesis by (auto simp: cut_product_release_def True cut)
qed (simp add: cut_product_release_def)

lemma moves_stream [handler_moves]: "moves st (snd (stream_product_events pid st))"
proof -
  have "stream_open pid (app_bus st) =
      (\<lparr>stream_product = pid, stream_queue = fst (subscribe pid (app_bus st))\<rparr>, snd (subscribe pid (app_bus st)))"
    by (simp add: stream_open_def split: prod.splits)
  then show ?thesis
    by (simp add: stream_product_events_def moves_def wired_alike_def extends_refl bus_ok_subscribe)
qed

lemma moves_signup [handler_moves]: "moves st (snd (signup ce email password st))"
proof (cases "validate_signup email password")
  case (Some body)
  let ?f = "\<lparr>fr_user_id = ce_id ce, fr_token = ce_token ce, fr_now = ce_now ce\<rparr>"
  obtain r db mailer where run: "register (ce_hash_password ce) (ce_sha ce) (ce_environ ce) (app_settings st) None ?f body
        (app_db st) (app_mailer st) = (r, db, mailer)"
    by (cases "register (ce_hash_password ce) (ce_sha ce) (ce_environ ce) (app_settings st) None ?f body
        (app_db st) (app_mailer st)") auto
  from moves_mail[OF moves_db[OF keeps_signup[OF run]]] show ?thesis by (simp add: signup_def Some run)
qed (simp add: signup_def)

lemma moves_verify [handler_moves]: "moves st (snd (verify_account ce token st))"
proof (cases "1 \<le> length token \<and> length token \<le> 256")
  case True
  obtain r db where run: "verify (ce_sha ce) (ce_now ce) token (app_db st) = (r, db)"
    by (cases "verify (ce_sha ce) (ce_now ce) token (app_db st)")
  from moves_db[OF keeps_verify[OF run]] True show ?thesis by (simp add: verify_account_def run)
qed (auto simp: verify_account_def)

lemma moves_login [handler_moves]: "moves st (snd (login_account ce email password st))"
proof (cases "validate_login email password")
  case (Some e)
  obtain r db where run: "login (ce_pw_ok ce) (ce_sha ce) (ce_equaliser ce) (ce_environ ce) (app_settings st)
        (ce_id ce) (ce_token ce) (ce_now ce) e password (app_db st) = (r, db)"
    by (cases "login (ce_pw_ok ce) (ce_sha ce) (ce_equaliser ce) (ce_environ ce) (app_settings st)
        (ce_id ce) (ce_token ce) (ce_now ce) e password (app_db st)")
  from moves_db[OF keeps_login[OF run]] show ?thesis by (simp add: login_account_def Some run)
qed (simp add: login_account_def)

lemmas read_route_defs = list_products_def get_product_def product_components_def product_graph_def
  get_product_impact_def list_component_versions_def product_timeline_def list_product_releases_def get_release_def

lemma moves_secured: "moves st (snd (serve_secured ce rq p c st))"
  by (cases c) (simp_all add: handler_moves read_route_defs)

lemma moves_open: "moves st (snd (serve_open ce rq c st))"
  by (cases c) (simp_all add: handler_moves moves_db keeps_logout)

lemma moves_dispatch: "moves st (snd (dispatch ce rq st))"
  by (simp add: dispatch_def moves_secured moves_open split: sum.split)

section \<open>Runs of the application\<close>

text \<open>
  A configuration is the reading of the monotonic clock at the last request and the state. A
  step is a request, the delivery of one event (or keep-alive) to an open stream, or the
  disconnection of a stream. A request is one step here: the handlers run on one event loop and await
  nothing that yields between their statements. Requests that wait between the middleware,
  their authentication and their handler are in \<open>Overlap\<close>.
\<close>

definition poll :: "sse_stream \<Rightarrow> app_state \<Rightarrow> app_state" where
  "poll stream st = st\<lparr>app_bus := snd (stream_poll stream (app_bus st))\<rparr>"

definition disconnect :: "sse_stream \<Rightarrow> app_state \<Rightarrow> app_state" where
  "disconnect stream st = st\<lparr>app_bus := stream_close stream (app_bus st)\<rparr>"

inductive api_step :: "int \<times> app_state \<Rightarrow> int \<times> app_state \<Rightarrow> bool" where
  request: "clock \<le> ce_clock ce \<Longrightarrow> serve ce rq st = (ans, st') \<Longrightarrow> api_step (clock, st) (ce_clock ce, st')"
| deliver: "api_step (clock, st) (clock, poll stream st)"
| leave: "api_step (clock, st) (clock, disconnect stream st)"

inductive_cases api_stepE: "api_step s s'"

definition app_inv :: "int \<times> app_state \<Rightarrow> bool" where
  "app_inv s \<longleftrightarrow>
     db_inv (app_db (snd s)) \<and> bus_ok (app_bus (snd s)) \<and> buckets_ok (fst s) (app_limiter (snd s))"

definition history_grows :: "int \<times> app_state \<Rightarrow> int \<times> app_state \<Rightarrow> bool" where
  "history_grows s s' \<longleftrightarrow> extends (app_db (snd s)) (app_db (snd s'))"

lemma serve_moves:
  assumes run: "serve ce rq st = (ans, st')" and ok: "buckets_ok clock (app_limiter st)" "clock \<le> ce_clock ce"
  shows "buckets_ok (ce_clock ce) (app_limiter st') \<and> moves (st\<lparr>app_limiter := app_limiter st'\<rparr>) st'"
proof -
  obtain fwd l where mid: "rate_limit_middleware app_rate_settings (ce_environ ce) (ce_clock ce) (scope_of rq)
      (app_limiter st) = Some (fwd, l)" "buckets_ok (ce_clock ce) l"
    using middleware_total[OF ok] by blast
  show ?thesis
  proof (cases fwd)
    case Forwarded
    with run mid(1) have "dispatch ce rq (st\<lparr>app_limiter := l\<rparr>) = (ans, st')" by (simp add: serve_def)
    with moves_dispatch[of "st\<lparr>app_limiter := l\<rparr>" ce rq] have m: "moves (st\<lparr>app_limiter := l\<rparr>) st'" by simp
    then have "app_limiter st' = l" by (simp add: moves_def wired_alike_def)
    with m mid(2) show ?thesis by simp
  next
    case (Refused r)
    with run mid show ?thesis by (auto simp: serve_def)
  qed
qed

lemma bus_ok_poll: "bus_ok bus \<Longrightarrow> bus_ok (snd (stream_poll stream bus))"
  by (auto simp: stream_poll_def intro: bus_ok_take split: option.splits)

lemma api_step_keeps:
  assumes "api_step s s'" "app_inv s"
  shows "app_inv s' \<and> history_grows s s' \<and> app_settings (snd s') = app_settings (snd s) \<and>
    app_resolver (snd s') = app_resolver (snd s)"
  using assms
proof cases
  case (request clock ce rq st ans st')
  with assms(2) have "buckets_ok clock (app_limiter st)" by (simp add: app_inv_def)
  from serve_moves[OF request(4) this request(3)] assms(2) request(1,2)
  show ?thesis by (simp add: app_inv_def history_grows_def moves_def wired_alike_def)
next
  case (deliver clock st stream)
  with assms(2) show ?thesis by (simp add: app_inv_def history_grows_def poll_def extends_refl bus_ok_poll)
next
  case (leave clock st stream)
  with assms(2) show ?thesis
    by (simp add: app_inv_def history_grows_def disconnect_def extends_refl stream_close_def bus_ok_unsubscribe)
qed

interpretation app: growing_system api_step app_inv history_grows
  by unfold_locales
     (use api_step_keeps in \<open>auto simp: history_grows_def intro: extends_refl extends_trans\<close>)

lemma start_inv: "db_inv stored \<Longrightarrow> app_inv (clock, lifespan_start env plugins extensions stored)"
  by (simp add: app_inv_def lifespan_start_def Let_def bus_ok_new middleware_limiter_def buckets_ok_new)

definition running ::
  "environ \<Rightarrow> provider list \<Rightarrow> meta_extension list \<Rightarrow> database \<Rightarrow> int \<Rightarrow> app_state \<Rightarrow> bool" where
  "running env plugins extensions stored clock st \<longleftrightarrow>
     db_inv stored \<and>
     (\<exists>clock0. api_step\<^sup>*\<^sup>* (clock0, lifespan_start env plugins extensions stored) (clock, st))"

lemma running_inv:
  assumes "running env plugins extensions stored clock st"
  shows "db_inv (app_db st)" "bus_ok (app_bus st)" "buckets_ok clock (app_limiter st)"
  using assms app.invariant[OF _ start_inv, of _ env plugins extensions stored "(clock, st)"]
  by (auto simp: running_def app_inv_def)

lemma wiring_kept:
  "api_step\<^sup>*\<^sup>* s s' \<Longrightarrow> app_inv s \<Longrightarrow>
     app_settings (snd s') = app_settings (snd s) \<and> app_resolver (snd s') = app_resolver (snd s)"
proof (induction rule: rtranclp_induct)
  case (step t u)
  with api_step_keeps[OF step.hyps(2) app.invariant[OF step.hyps(1) step.prems]] show ?case by simp
qed simp

lemma running_wiring:
  assumes "running env plugins extensions stored clock st"
  shows "app_resolver st = build_resolver default_auth_settings env
      (Some (app_registry default_auth_settings env plugins)) \<and> app_settings st = default_auth_settings"
proof -
  from assms obtain c0 where
    "api_step\<^sup>*\<^sup>* (c0, lifespan_start env plugins extensions stored) (clock, st)" "db_inv stored"
    by (auto simp: running_def)
  from wiring_kept[OF this(1) start_inv[OF this(2)]] show ?thesis by (simp add: lifespan_start_def Let_def)
qed

end
