(* ===== verification/Migration.thy ===== *)
theory Migration
  imports System
begin

text \<open>
  \<open>app/database/migration\<close>: the boot-time move of a legacy flat \<open>Versions\<close> table into the
  relational schema. Until the legacy table is archived its name occupies that of the
  relational \<open>versions\<close> table. Each statement commits by itself, so a failing insert leaves
  what went before. A legacy row has a product name, three numbers and a status: rows with a NULL among them, of
  which \<open>str(None)\<close> or \<open>int(None)\<close> would be taken, are outside the model.
\<close>

section \<open>The legacy table and the boot state\<close>

record legacy_row =
  lg_product_name :: string
  lg_major :: int
  lg_minor :: int
  lg_patch :: int
  lg_status :: string

text \<open>
  \<open>bs_source\<close> is the table named \<open>versions\<close> when it has the legacy columns, \<open>bs_archive\<close> the
  table \<open>legacy_versions\<close>; \<open>None\<close> is a table that is not there.
\<close>

record boot_state =
  bs_source :: "legacy_row list option"
  bs_archive :: "legacy_row list option"
  bs_db :: database

definition should_migrate :: "boot_state \<Rightarrow> bool" where
  "should_migrate st =
     (case bs_source st of
        None \<Rightarrow> False
      | Some rows \<Rightarrow> rows \<noteq> [] \<and> products (bs_db st) = [])"

definition legacy_key :: "legacy_row \<Rightarrow> string \<times> int \<times> int \<times> int" where
  "legacy_key r = (lg_product_name r, lg_major r, lg_minor r, lg_patch r)"

definition read_legacy_rows :: "boot_state \<Rightarrow> legacy_row list" where
  "read_legacy_rows st = order_by legacy_key (case bs_source st of None \<Rightarrow> [] | Some rows \<Rightarrow> rows)"

text \<open>Renaming onto a name already taken is refused by the database.\<close>

definition archive_source_table :: "boot_state \<Rightarrow> boot_state outcome" where
  "archive_source_table st =
     (if bs_archive st \<noteq> None then Inl ConstraintViolation
      else Inr (st\<lparr>bs_source := None, bs_archive := bs_source st\<rparr>))"

section \<open>Filling the relational tables\<close>

text \<open>\<open>fresh n\<close> is the n-th identifier minted; the columns the statements omit take their defaults.\<close>

definition migrated_product :: "ident \<Rightarrow> string \<Rightarrow> timestamp \<Rightarrow> product_row" where
  "migrated_product i name now =
     \<lparr>p_id = i, p_name = name, p_description = None, p_base_version = ''0.0.0'',
      p_bump_policy = bump_policy_value POLICY_LEGACY, p_created_at = now\<rparr>"

definition migrated_component :: "ident \<Rightarrow> ident \<Rightarrow> component_row" where
  "migrated_component i pid = \<lparr>c_id = i, c_product_id = pid, c_name = ''default'', c_kind = SERVICE\<rparr>"

definition create_product_and_component ::
  "(nat \<Rightarrow> ident) \<Rightarrow> nat \<Rightarrow> timestamp \<Rightarrow> string \<Rightarrow> database \<Rightarrow> ident outcome \<times> nat \<times> database" where
  "create_product_and_component fresh n now name db =
     (let product_id = fresh n
      in case insert_product (migrated_product product_id name now) db of
           Inl e \<Rightarrow> (Inl e, n + 1, db)
         | Inr db1 \<Rightarrow>
             let component_id = fresh (n + 1)
             in (case insert_component (migrated_component component_id product_id) db1 of
                   Inl e \<Rightarrow> (Inl e, n + 2, db1)
                 | Inr db2 \<Rightarrow> (Inr component_id, n + 2, db2)))"

text \<open>A status outside the three of the column's check is refused.\<close>

definition version_status_of :: "string \<Rightarrow> version_status option" where
  "version_status_of s = find (\<lambda>st. version_status_value st = s) [ACTIVE, SUPERSEDED, ROLLED_BACK]"

definition migrated_version :: "ident \<Rightarrow> ident \<Rightarrow> timestamp \<Rightarrow> legacy_row \<Rightarrow> version_status \<Rightarrow> version_row" where
  "migrated_version i cid now r st =
     \<lparr>v_id = i, v_component_id = cid, v_major = lg_major r, v_minor = lg_minor r, v_patch = lg_patch r,
      v_prerelease = None, v_status = st, v_created_at = now\<rparr>"

definition insert_legacy_version ::
  "ident \<Rightarrow> ident \<Rightarrow> timestamp \<Rightarrow> legacy_row \<Rightarrow> database \<Rightarrow> database outcome" where
  "insert_legacy_version i cid now r db =
     (case version_status_of (lg_status r) of
        None \<Rightarrow> Inl ConstraintViolation
      | Some st \<Rightarrow> insert_version (migrated_version i cid now r st) db)"

fun insert_relational ::
  "(nat \<Rightarrow> ident) \<Rightarrow> nat \<Rightarrow> timestamp \<Rightarrow> legacy_row list \<Rightarrow> (string, ident) dict \<Rightarrow> database \<Rightarrow>
     unit outcome \<times> database" where
  "insert_relational fresh n now [] by_product db = (Inr (), db)"
| "insert_relational fresh n now (r # rows) by_product db =
     (case (case dict_get by_product (lg_product_name r) of
              Some cid \<Rightarrow> (Inr cid, n, db)
            | None \<Rightarrow> create_product_and_component fresh n now (lg_product_name r) db) of
        (Inl e, n1, db1) \<Rightarrow> (Inl e, db1)
      | (Inr cid, n1, db1) \<Rightarrow>
          (case insert_legacy_version (fresh n1) cid now r db1 of
             Inl e \<Rightarrow> (Inl e, db1)
           | Inr db2 \<Rightarrow>
               insert_relational fresh (n1 + 1) now rows
                 (if dict_get by_product (lg_product_name r) = None
                  then dict_set (lg_product_name r) cid by_product else by_product) db2))"

definition run_migration :: "(nat \<Rightarrow> ident) \<Rightarrow> timestamp \<Rightarrow> boot_state \<Rightarrow> unit outcome \<times> boot_state" where
  "run_migration fresh now st =
     (if \<not> should_migrate st then (Inr (), st)
      else
        let legacy_rows = read_legacy_rows st
        in (case archive_source_table st of
              Inl e \<Rightarrow> (Inl e, st)
            | Inr st1 \<Rightarrow>
                let (res, db) = insert_relational fresh 0 now legacy_rows [] (bs_db st1)
                in (res, st1\<lparr>bs_db := db\<rparr>)))"

text \<open>The lifespan runs the migration before it serves; a failing migration stops the start.\<close>

definition lifespan_boot ::
  "environ \<Rightarrow> provider list \<Rightarrow> meta_extension list \<Rightarrow> (nat \<Rightarrow> ident) \<Rightarrow> timestamp \<Rightarrow> boot_state \<Rightarrow>
     app_state outcome \<times> boot_state" where
  "lifespan_boot env plugins extensions fresh now st =
     (case run_migration fresh now st of
        (Inl e, st') \<Rightarrow> (Inl e, st')
      | (Inr (), st') \<Rightarrow> (Inr (lifespan_start env plugins extensions (bs_db st')), st'))"

lemma booted_running:
  assumes "lifespan_boot env plugins extensions fresh now st = (Inr app, st')" "db_inv (bs_db st')"
  shows "running env plugins extensions (bs_db st') clock app"
  using assms by (auto simp: lifespan_boot_def running_def split: prod.splits sum.splits unit.splits)

section \<open>What the loop maintains\<close>

text \<open>The product a component belongs to, by name, and the flat reading of a version row.\<close>

definition product_name_of :: "database \<Rightarrow> ident \<Rightarrow> string option" where
  "product_name_of db cid =
     Option.bind (map_of (map (\<lambda>c. (c_id c, c_product_id c)) (components db)) cid)
       (map_of (map (\<lambda>p. (p_id p, p_name p)) (products db)))"

definition flat_row :: "database \<Rightarrow> version_row \<Rightarrow> string option \<times> (int \<times> int \<times> int) \<times> string" where
  "flat_row db v = (product_name_of db (v_component_id v), core_of v, version_status_value (v_status v))"

definition legacy_flat :: "legacy_row \<Rightarrow> string option \<times> (int \<times> int \<times> int) \<times> string" where
  "legacy_flat r = (Some (lg_product_name r), (lg_major r, lg_minor r, lg_patch r), lg_status r)"

definition minted :: "(nat \<Rightarrow> ident) \<Rightarrow> nat \<Rightarrow> database \<Rightarrow> bool" where
  "minted fresh n db \<longleftrightarrow>
     p_id ` set (products db) \<union> c_id ` set (components db) \<union> v_id ` set (versions db) \<subseteq> fresh ` {..<n}"

definition filling :: "(nat \<Rightarrow> ident) \<Rightarrow> nat \<Rightarrow> (string, ident) dict \<Rightarrow> database \<Rightarrow> bool" where
  "filling fresh n by_product db \<longleftrightarrow>
     schema_ok db \<and> minted fresh n db \<and> names_unique (products db) \<and>
     set (keys by_product) = p_name ` set (products db) \<and>
     (\<forall>name cid. dict_get by_product name = Some cid \<longrightarrow>
        cid \<in> c_id ` set (components db) \<and> product_name_of db cid = Some name) \<and>
     (\<forall>v\<in>set (versions db). \<exists>name. dict_get by_product name = Some (v_component_id v))"

definition storable :: "legacy_row \<Rightarrow> bool" where
  "storable r \<longleftrightarrow> version_status_of (lg_status r) \<noteq> None \<and>
     in_integer_range (lg_major r) \<and> in_integer_range (lg_minor r) \<and> in_integer_range (lg_patch r)"

lemma version_status_of_Some: "version_status_of s = Some st \<Longrightarrow> version_status_value st = s"
  by (auto simp: version_status_of_def split: if_splits)

lemma fresh_not_minted:
  assumes "inj fresh" "minted fresh n db" "n \<le> k"
  shows "fresh k \<notin> p_id ` set (products db)" "fresh k \<notin> c_id ` set (components db)"
    "fresh k \<notin> v_id ` set (versions db)"
proof -
  have "fresh k \<notin> fresh ` {..<n}" using assms(1,3) by (simp add: inj_image_mem_iff)
  with assms(2) show "fresh k \<notin> p_id ` set (products db)" "fresh k \<notin> c_id ` set (components db)"
    "fresh k \<notin> v_id ` set (versions db)" unfolding minted_def by blast+
qed

lemma minted_mono: "minted fresh n db \<Longrightarrow> n \<le> k \<Longrightarrow> minted fresh k db"
  unfolding minted_def by (meson image_mono lessThan_subset_iff order_trans)

lemma map_of_pairs_snoc:
  "k \<in> f ` set xs \<Longrightarrow> map_of (map (\<lambda>x. (f x, g x)) (xs @ [y])) k = map_of (map (\<lambda>x. (f x, g x)) xs) k"
  by (induction xs) auto

lemma map_of_pairs_new:
  "k \<notin> f ` set xs \<Longrightarrow> map_of (map (\<lambda>x. (f x, g x)) (xs @ [y])) k = (if f y = k then Some (g y) else None)"
  by (induction xs) auto

lemma map_of_pairs_in: "map_of (map (\<lambda>x. (f x, g x)) xs) k = Some v \<Longrightarrow> \<exists>x\<in>set xs. f x = k \<and> g x = v"
  by (induction xs) (auto split: if_splits)

text \<open>Filling in a product with its component changes no component's product.\<close>

lemma new_product_and_component:
  assumes fill: "filling fresh n by_product db" and inj: "inj fresh" and new: "dict_get by_product name = None"
  shows "\<exists>db'. create_product_and_component fresh n now name db = (Inr (fresh (n + 1)), n + 2, db') \<and>
    filling fresh (n + 2) (dict_set name (fresh (n + 1)) by_product) db' \<and> versions db' = versions db \<and>
    (\<forall>cid\<in>c_id ` set (components db). product_name_of db' cid = product_name_of db cid)"
proof -
  note f = fill[unfolded filling_def]
  let ?p = "migrated_product (fresh n) name now" and ?c = "migrated_component (fresh (n + 1)) (fresh n)"
  let ?db' = "db\<lparr>products := products db @ [?p], components := components db @ [?c]\<rparr>"
  have m: "minted fresh n db" and ok: "schema_ok db" using f by simp_all
  have pn: "fresh n \<notin> p_id ` set (products db)" and cn: "fresh (n + 1) \<notin> c_id ` set (components db)"
    using fresh_not_minted[OF inj m] by auto
  have ins1: "insert_product ?p db = Inr (db\<lparr>products := products db @ [?p]\<rparr>)"
    using pn by (simp add: insert_product_def migrated_product_def)
  have ins2: "insert_component ?c (db\<lparr>products := products db @ [?p]\<rparr>) = Inr ?db'"
    using cn by (simp add: insert_component_def migrated_component_def migrated_product_def)
  have run: "create_product_and_component fresh n now name db = (Inr (fresh (n + 1)), n + 2, ?db')"
    using ins2 by (simp add: create_product_and_component_def Let_def ins1)
  have ok': "schema_ok ?db'" by (rule schema_ok_insert(2)[OF schema_ok_insert(1)[OF ok ins1] ins2])
  have m': "minted fresh (n + 2) ?db'"
    using minted_mono[OF m, of "n + 2"] by (auto simp: minted_def migrated_product_def migrated_component_def)
  have old: "product_name_of ?db' cid = product_name_of db cid" if cid: "cid \<in> c_id ` set (components db)" for cid
  proof -
    have "map_of (map (\<lambda>p. (p_id p, p_name p)) (products db @ [?p])) pid =
        map_of (map (\<lambda>p. (p_id p, p_name p)) (products db)) pid"
      if "map_of (map (\<lambda>c. (c_id c, c_product_id c)) (components db)) cid = Some pid" for pid
    proof -
      from map_of_pairs_in[OF that] obtain c where "c \<in> set (components db)" "c_product_id c = pid" by blast
      then have "pid \<in> p_id ` set (products db)"
        using fkD[of c_product_id "components db" p_id "products db" c] ok
        by (auto simp: schema_ok_def intro: rev_image_eqI)
      then show ?thesis by (rule map_of_pairs_snoc)
    qed
    moreover have "components ?db' = components db @ [?c]" "products ?db' = products db @ [?p]" by simp_all
    ultimately show ?thesis
      unfolding product_name_of_def map_of_pairs_snoc[OF cid]
      by (cases "map_of (map (\<lambda>c. (c_id c, c_product_id c)) (components db)) cid")
         (simp_all only: map_of_pairs_snoc[OF cid] Option.bind.simps)
  qed
  have own: "product_name_of ?db' (fresh (n + 1)) = Some name"
    using map_of_pairs_new[OF cn, of c_product_id ?c] map_of_pairs_new[OF pn, of p_name ?p]
    by (simp add: product_name_of_def migrated_component_def migrated_product_def)
  have fresh_name: "name \<notin> p_name ` set (products db)" using new f by (metis map_of_None_keys)
  have key_set: "set (keys (dict_set name (fresh (n + 1)) by_product)) = insert name (set (keys by_product))"
    by (rule keys_dict_set)
  have names': "p_name ` set (products ?db') = insert name (p_name ` set (products db))"
    by (simp add: migrated_product_def)
  have "filling fresh (n + 2) (dict_set name (fresh (n + 1)) by_product) ?db'"
    unfolding filling_def
  proof (intro conjI allI impI ballI)
    show "names_unique (products ?db')" using f fresh_name by (simp add: names_unique_def migrated_product_def)
    show "set (keys (dict_set name (fresh (n + 1)) by_product)) = p_name ` set (products ?db')"
      using f key_set names' by metis
    fix nm cid assume get: "dict_get (dict_set name (fresh (n + 1)) by_product) nm = Some cid"
    show "cid \<in> c_id ` set (components ?db')" "product_name_of ?db' cid = Some nm"
      using get f old own by (auto simp: map_of_dict_set migrated_component_def split: if_splits)
  next
    fix v assume "v \<in> set (versions ?db')"
    then obtain nm where "dict_get by_product nm = Some (v_component_id v)" using f by auto
    moreover from this new have "nm \<noteq> name" by auto
    ultimately show "\<exists>nm. dict_get (dict_set name (fresh (n + 1)) by_product) nm = Some (v_component_id v)"
      by (intro exI[of _ nm]) (simp add: map_of_dict_set)
  qed (use ok' m' in simp_all)
  with run old show ?thesis by (intro exI[of _ ?db']) simp
qed

lemma new_legacy_version:
  assumes fill: "filling fresh n by_product db" and inj: "inj fresh"
    and cid: "dict_get by_product (lg_product_name r) = Some cid" and r: "storable r"
  shows "\<exists>db'. insert_legacy_version (fresh n) cid now r db = Inr db' \<and> filling fresh (n + 1) by_product db' \<and>
    (\<forall>c. product_name_of db' c = product_name_of db c) \<and> products db' = products db \<and> components db' = components db \<and>
    (\<exists>v. versions db' = versions db @ [v] \<and> v_component_id v = cid \<and> flat_row db' v = legacy_flat r)"
proof -
  note f = fill[unfolded filling_def]
  from r obtain st where st: "version_status_of (lg_status r) = Some st" by (auto simp: storable_def)
  let ?v = "migrated_version (fresh n) cid now r st"
  let ?db' = "db\<lparr>versions := versions db @ [?v]\<rparr>"
  have m: "minted fresh n db" and ok: "schema_ok db" using f by simp_all
  have inside: "cid \<in> c_id ` set (components db)" "product_name_of db cid = Some (lg_product_name r)" using f cid by auto
  have ins: "insert_version ?v db = Inr ?db'"
    using r fresh_not_minted(3)[OF inj m, of n] inside(1)
    by (simp add: insert_version_def migrated_version_def storable_def)
  then have run: "insert_legacy_version (fresh n) cid now r db = Inr ?db'" by (simp add: insert_legacy_version_def st)
  have same: "product_name_of ?db' c = product_name_of db c" for c by (simp add: product_name_of_def)
  have "minted fresh (n + 1) ?db'"
    using minted_mono[OF m, of "n + 1"] by (auto simp: minted_def migrated_version_def)
  moreover have "\<exists>nm. dict_get by_product nm = Some (v_component_id v)" if "v \<in> set (versions ?db')" for v
    using that f cid by (auto simp: migrated_version_def)
  ultimately have "filling fresh (n + 1) by_product ?db'"
    using f same schema_ok_insert(3)[OF ok ins] unfolding filling_def by simp
  moreover have "flat_row ?db' ?v = legacy_flat r"
    using inside(2) version_status_of_Some[OF st] by (simp add: flat_row_def legacy_flat_def same)
      (simp add: migrated_version_def core_of_def)
  ultimately show ?thesis using run same by (intro exI[of _ ?db']) (simp add: migrated_version_def)
qed

lemma flat_rows_kept:
  assumes "filling fresh n by_product db" "\<forall>cid\<in>c_id ` set (components db). product_name_of db' cid = product_name_of db cid"
  shows "map (flat_row db') (versions db) = map (flat_row db) (versions db)"
proof (rule map_cong[OF refl])
  fix v assume "v \<in> set (versions db)"
  with assms(1) obtain nm where "dict_get by_product nm = Some (v_component_id v)" unfolding filling_def by blast
  with assms(1) have "v_component_id v \<in> c_id ` set (components db)" unfolding filling_def by blast
  from bspec[OF assms(2) this] show "flat_row db' v = flat_row db v" by (simp add: flat_row_def)
qed

lemma insert_relational_total:
  assumes "filling fresh n by_product db" "inj fresh" "\<forall>r\<in>set rows. storable r"
  shows "\<exists>n' by' db'. insert_relational fresh n now rows by_product db = (Inr (), db') \<and> filling fresh n' by' db' \<and>
    map (flat_row db') (versions db') = map (flat_row db) (versions db) @ map legacy_flat rows"
  using assms(1,3)
proof (induction rows arbitrary: n by_product db)
  case Nil
  then show ?case by auto
next
  case (Cons r rows)
  let ?nm = "lg_product_name r"
  have "\<exists>cid n1 by1 db1. (case dict_get by_product ?nm of Some cid \<Rightarrow> (Inr cid, n, db)
        | None \<Rightarrow> create_product_and_component fresh n now ?nm db) = (Inr cid, n1, db1) \<and>
      by1 = (if dict_get by_product ?nm = None then dict_set ?nm cid by_product else by_product) \<and>
      filling fresh n1 by1 db1 \<and> dict_get by1 ?nm = Some cid \<and> versions db1 = versions db \<and>
      (\<forall>c\<in>c_id ` set (components db). product_name_of db1 c = product_name_of db c)"
  proof (cases "dict_get by_product ?nm")
    case None
    from new_product_and_component[OF Cons.prems(1) assms(2) None, of now] None show ?thesis
      by (auto simp: map_of_dict_set)
  qed (use Cons.prems(1) in auto)
  then obtain cid n1 by1 db1 where first: "(case dict_get by_product ?nm of Some cid \<Rightarrow> (Inr cid, n, db)
        | None \<Rightarrow> create_product_and_component fresh n now ?nm db) = (Inr cid, n1, db1)"
      "by1 = (if dict_get by_product ?nm = None then dict_set ?nm cid by_product else by_product)"
      "filling fresh n1 by1 db1" "dict_get by1 ?nm = Some cid" "versions db1 = versions db"
      "\<forall>c\<in>c_id ` set (components db). product_name_of db1 c = product_name_of db c" by blast
  from new_legacy_version[OF first(3) assms(2) first(4), of now] Cons.prems(2) obtain db2 v where second:
    "insert_legacy_version (fresh n1) cid now r db1 = Inr db2" "filling fresh (n1 + 1) by1 db2"
    "\<forall>c. product_name_of db2 c = product_name_of db1 c" "versions db2 = versions db1 @ [v]"
    "flat_row db2 v = legacy_flat r" by auto
  from Cons.IH[OF second(2)] Cons.prems(2) obtain n' by' db' where rest:
    "insert_relational fresh (n1 + 1) now rows by1 db2 = (Inr (), db')" "filling fresh n' by' db'"
    "map (flat_row db') (versions db') = map (flat_row db2) (versions db2) @ map legacy_flat rows" by auto
  have "map (flat_row db2) (versions db) = map (flat_row db) (versions db)"
    by (rule flat_rows_kept[OF Cons.prems(1)]) (use first(6) second(3) in simp)
  then have "map (flat_row db') (versions db') = map (flat_row db) (versions db) @ map legacy_flat (r # rows)"
    using rest(3) second(4,5) first(5) by simp
  moreover have "insert_relational fresh n now (r # rows) by_product db = (Inr (), db')"
    using first(1) second(1) rest(1) by (simp add: first(2)[symmetric])
  ultimately show ?case using rest(2) by blast
qed

lemma filling_start:
  assumes "schema_ok db" "products db = []" "versions db = []"
  shows "filling fresh 0 [] db"
proof -
  have "components db = []"
    using fkD[of c_product_id "components db" p_id "products db"] assms(1,2)
    by (cases "components db") (auto simp: schema_ok_def)
  with assms show ?thesis by (simp add: filling_def minted_def names_unique_def)
qed

text \<open>Whatever happens, only the three tables move and every new product has the default base.\<close>

definition other_tables_kept :: "database \<Rightarrow> database \<Rightarrow> bool" where
  "other_tables_kept db db' \<longleftrightarrow>
     releases db' = releases db \<and> release_components db' = release_components db \<and>
     dependencies db' = dependencies db \<and>
     (\<forall>p\<in>set (products db'). p \<in> set (products db) \<or> p_base_version p = ''0.0.0'')"

lemma other_tables_trans: "other_tables_kept a b \<Longrightarrow> other_tables_kept b c \<Longrightarrow> other_tables_kept a c"
  unfolding other_tables_kept_def by metis

lemma other_tables_refl [simp]: "other_tables_kept db db"
  by (simp add: other_tables_kept_def)

lemma create_product_and_component_frame:
  assumes "create_product_and_component fresh n now name db = (res, n', db')"
  shows "other_tables_kept db db'"
  using assms
  by (auto simp: create_product_and_component_def Let_def other_tables_kept_def migrated_product_def
      split: sum.splits dest!: insert_frame)

lemma insert_legacy_version_frame:
  "insert_legacy_version i cid now r db = Inr db' \<Longrightarrow> other_tables_kept db db'"
  by (auto simp: insert_legacy_version_def other_tables_kept_def split: option.splits dest!: insert_frame)

lemma insert_relational_frame:
  "insert_relational fresh n now rows by_product db = (res, db') \<Longrightarrow> other_tables_kept db db'"
proof (induction rows arbitrary: n by_product db)
  case (Cons r rows)
  obtain res1 n1 db1 where first: "(case dict_get by_product (lg_product_name r) of Some cid \<Rightarrow> (Inr cid, n, db)
      | None \<Rightarrow> create_product_and_component fresh n now (lg_product_name r) db) = (res1, n1, db1)"
    by (metis prod_cases3)
  then have k1: "other_tables_kept db db1"
    using create_product_and_component_frame by (auto split: option.splits)
  show ?case
  proof (cases res1)
    case (Inl e)
    with first Cons.prems k1 show ?thesis by simp
  next
    case (Inr cid)
    show ?thesis
    proof (cases "insert_legacy_version (fresh n1) cid now r db1")
      case (Inl e)
      with first Inr Cons.prems k1 show ?thesis by simp
    next
      case ok: (Inr db2)
      with first Inr Cons.prems have "other_tables_kept db2 db'" using Cons.IH by simp
      with k1 insert_legacy_version_frame[OF ok] show ?thesis by (blast intro: other_tables_trans)
    qed
  qed
qed simp

lemma empty_store_tables:
  assumes "schema_ok db" "products db = []"
  shows "releases db = []" "release_components db = []" "dependencies db = []"
proof -
  show r: "releases db = []"
    using fkD[of r_product_id "releases db" p_id "products db"] assms by (cases "releases db") (auto simp: schema_ok_def)
  show "release_components db = []"
    using fkD[of rc_release_id "release_components db" r_id "releases db"] assms r
    by (cases "release_components db") (auto simp: schema_ok_def)
  show "dependencies db = []"
    using fkD[of d_product_id "dependencies db" p_id "products db"] assms by (cases "dependencies db") (auto simp: schema_ok_def)
qed

definition active_rows :: "string \<Rightarrow> legacy_row list \<Rightarrow> legacy_row list" where
  "active_rows name rows = filter (\<lambda>r. lg_product_name r = name \<and> lg_status r = ''active'') rows"

definition flat_active :: "string \<Rightarrow> string option \<times> (int \<times> int \<times> int) \<times> string \<Rightarrow> bool" where
  "flat_active name f \<longleftrightarrow> fst f = Some name \<and> snd (snd f) = ''active''"

lemma status_active: "version_status_value st = ''active'' \<longleftrightarrow> st = ACTIVE"
  by (cases st) simp_all

lemma active_of_flat:
  assumes "filling fresh n by_product db" "v \<in> set (versions db)"
  shows "active_of cid v \<longleftrightarrow> (\<exists>name. dict_get by_product name = Some cid \<and> flat_active name (flat_row db v))"
proof -
  from assms obtain nm where nm: "dict_get by_product nm = Some (v_component_id v)" unfolding filling_def by blast
  with assms(1) have "product_name_of db (v_component_id v) = Some nm" unfolding filling_def by blast
  with nm show ?thesis by (auto simp: active_of_def flat_active_def flat_row_def status_active)
qed

lemma one_active_flat:
  assumes fill: "filling fresh n by_product db"
  shows "one_active (versions db) \<longleftrightarrow>
    (\<forall>name. length (filter (flat_active name) (map (flat_row db) (versions db))) \<le> 1)"
proof -
  have named: "name = name'" if "dict_get by_product name = Some cid" "dict_get by_product name' = Some cid" for name name' cid
    using fill that unfolding filling_def by (metis option.inject)
  have same: "filter (active_of cid) (versions db) = filter (\<lambda>v. flat_active name (flat_row db v)) (versions db)"
    if "dict_get by_product name = Some cid" for name cid
  proof (rule filter_cong[OF refl])
    fix v assume "v \<in> set (versions db)"
    from active_of_flat[OF fill this, of cid] named that
    show "active_of cid v = flat_active name (flat_row db v)" by blast
  qed
  have known: "\<exists>name. dict_get by_product name = Some cid" if "filter (active_of cid) (versions db) \<noteq> []" for cid
    using that active_of_flat[OF fill] by (auto simp: filter_empty_conv)
  have has: "\<exists>cid. dict_get by_product name = Some cid" if "filter (\<lambda>v. flat_active name (flat_row db v)) (versions db) \<noteq> []" for name
  proof -
    from that obtain v where v: "v \<in> set (versions db)" "flat_active name (flat_row db v)" by (auto simp: filter_empty_conv)
    with fill obtain nm where nm: "dict_get by_product nm = Some (v_component_id v)" unfolding filling_def by blast
    with fill have "product_name_of db (v_component_id v) = Some nm" unfolding filling_def by blast
    with v nm show ?thesis by (auto simp: flat_active_def flat_row_def)
  qed
  let ?F = "\<lambda>name. filter (\<lambda>v. flat_active name (flat_row db v)) (versions db)"
  have "one_active (versions db) \<longleftrightarrow> (\<forall>name. length (?F name) \<le> 1)"
    unfolding one_active_def
  proof (intro iffI allI)
    fix name assume one: "\<forall>cid. length (filter (active_of cid) (versions db)) \<le> 1"
    show "length (?F name) \<le> 1"
    proof (cases "?F name = []")
      case False
      with has obtain cid where "dict_get by_product name = Some cid" by blast
      from same[OF this] one show ?thesis by metis
    qed simp
  next
    fix cid assume one: "\<forall>name. length (?F name) \<le> 1"
    show "length (filter (active_of cid) (versions db)) \<le> 1"
    proof (cases "filter (active_of cid) (versions db) = []")
      case False
      with known obtain name where "dict_get by_product name = Some cid" by blast
      from same[OF this] one show ?thesis by metis
    qed simp
  qed
  then show ?thesis by (simp add: filter_map o_def)
qed

section \<open>Properties\<close>

lemma migration_core:
  assumes "bs_source st = Some rows" "rows \<noteq> []" "products (bs_db st) = []" "versions (bs_db st) = []"
    and "bs_archive st = None" "schema_ok (bs_db st)" "inj fresh" "\<forall>r\<in>set rows. storable r"
  shows "\<exists>db. run_migration fresh now st = (Inr (), \<lparr>bs_source = None, bs_archive = Some rows, bs_db = db\<rparr>) \<and>
    map (flat_row db) (versions db) = map legacy_flat (order_by legacy_key rows) \<and>
    (db_inv db \<longleftrightarrow> (\<forall>r\<in>set rows. 0 \<le> lg_major r \<and> 0 \<le> lg_minor r \<and> 0 \<le> lg_patch r) \<and>
       (\<forall>name. length (active_rows name rows) \<le> 1)) \<and>
    run_migration fresh' now' \<lparr>bs_source = None, bs_archive = Some rows, bs_db = db\<rparr>
      = (Inr (), \<lparr>bs_source = None, bs_archive = Some rows, bs_db = db\<rparr>)"
proof -
  let ?rows = "order_by legacy_key rows"
  have set_rows: "set ?rows = set rows" by (simp add: order_by_def)
  have start: "filling fresh 0 [] (bs_db st)" by (rule filling_start) (use assms in simp_all)
  from insert_relational_total[OF start assms(7), of ?rows now] assms(8) obtain n' by' db where run:
    "insert_relational fresh 0 now ?rows [] (bs_db st) = (Inr (), db)" "filling fresh n' by' db"
    "map (flat_row db) (versions db) = map legacy_flat ?rows" by (auto simp: set_rows assms(4))
  note frame = insert_relational_frame[OF run(1)] and empty = empty_store_tables[OF assms(6,3)]
  have migrated: "run_migration fresh now st = (Inr (), \<lparr>bs_source = None, bs_archive = Some rows, bs_db = db\<rparr>)"
    using assms(1-3,5) run(1)
    by (simp add: run_migration_def should_migrate_def archive_source_table_def read_legacy_rows_def Let_def)
  have nonneg: "all_nonneg (versions db) \<longleftrightarrow> (\<forall>r\<in>set rows. 0 \<le> lg_major r \<and> 0 \<le> lg_minor r \<and> 0 \<le> lg_patch r)"
  proof -
    let ?ok = "\<lambda>f :: string option \<times> (int \<times> int \<times> int) \<times> string. case f of (_, (a, b, c), _) \<Rightarrow> 0 \<le> a \<and> 0 \<le> b \<and> 0 \<le> c"
    have "all_nonneg (versions db) \<longleftrightarrow> list_all ?ok (map (flat_row db) (versions db))"
      by (simp add: all_nonneg_def list_all_iff flat_row_def core_of_def parts_nonneg_def)
    also have "\<dots> \<longleftrightarrow> (\<forall>r\<in>set rows. 0 \<le> lg_major r \<and> 0 \<le> lg_minor r \<and> 0 \<le> lg_patch r)"
      unfolding run(3) by (simp add: list_all_iff legacy_flat_def set_rows)
    finally show ?thesis .
  qed
  have "length (filter (flat_active name) (map legacy_flat ?rows)) = length (active_rows name rows)" for name
    by (simp add: filter_map o_def flat_active_def legacy_flat_def active_rows_def order_by_def filter_sort)
  then have active: "one_active (versions db) \<longleftrightarrow> (\<forall>name. length (active_rows name rows) \<le> 1)"
    unfolding one_active_flat[OF run(2)] run(3) by simp
  have "graph_ok (dependencies db) (components db)" "releases_ok db"
    using frame empty assms(3) parses_default
    by (simp_all add: other_tables_kept_def graph_ok_def product_edges_def releases_ok_def manifest_ok_def
        all_parse_def idem_unique_def)
  with run(2) nonneg active have "db_inv db \<longleftrightarrow> (\<forall>r\<in>set rows. 0 \<le> lg_major r \<and> 0 \<le> lg_minor r \<and> 0 \<le> lg_patch r) \<and>
       (\<forall>name. length (active_rows name rows) \<le> 1)"
    unfolding db_inv_def filling_def by blast
  moreover have "run_migration fresh' now' \<lparr>bs_source = None, bs_archive = Some rows, bs_db = db\<rparr>
      = (Inr (), \<lparr>bs_source = None, bs_archive = Some rows, bs_db = db\<rparr>)"
    by (simp add: run_migration_def should_migrate_def)
  ultimately show ?thesis using migrated run(3) by blast
qed

text \<open>C32: The migration loses nothing and adds nothing. On a boot with a legacy table of at least one row, no
  table \<open>legacy_versions\<close> yet (the archive's name has to be free), no product and no version in the relational
  tables, rows the columns accept and distinct fresh identifiers, it succeeds: the
  legacy table is archived unchanged, the new versions read flat (product name, numbers,
  status) are the legacy rows in the reader's order, and the resulting store satisfies the
  application's invariant exactly when the numbers are non-negative and no product has two
  active rows. Running it again changes nothing. (Legacy rows have a product name, three numbers and a
  status; NULLs are outside the model.)\<close>

theorem migration_faithful:
  assumes "bs_source st = Some rows" "rows \<noteq> []" "products (bs_db st) = []" "versions (bs_db st) = []"
    and "bs_archive st = None" "schema_ok (bs_db st)" "inj fresh" "\<forall>r\<in>set rows. storable r"
  shows "\<exists>db. run_migration fresh now st = (Inr (), \<lparr>bs_source = None, bs_archive = Some rows, bs_db = db\<rparr>) \<and>
    map (flat_row db) (versions db) = map legacy_flat (order_by legacy_key rows) \<and>
    (db_inv db \<longleftrightarrow> (\<forall>r\<in>set rows. 0 \<le> lg_major r \<and> 0 \<le> lg_minor r \<and> 0 \<le> lg_patch r) \<and>
       (\<forall>name. length (active_rows name rows) \<le> 1)) \<and>
    run_migration fresh' now' \<lparr>bs_source = None, bs_archive = Some rows, bs_db = db\<rparr>
      = (Inr (), \<lparr>bs_source = None, bs_archive = Some rows, bs_db = db\<rparr>)"
  using assms by (rule migration_core)

definition legacy :: "string \<Rightarrow> int \<Rightarrow> string \<Rightarrow> legacy_row" where
  "legacy name minor st =
     \<lparr>lg_product_name = name, lg_major = 1, lg_minor = minor, lg_patch = 0, lg_status = st\<rparr>"

definition legacy_boot :: "legacy_row list \<Rightarrow> boot_state" where
  "legacy_boot rows = \<lparr>bs_source = Some rows, bs_archive = None, bs_db = empty_database\<rparr>"

definition unary :: "nat \<Rightarrow> ident" where
  "unary n = replicate n (CHR ''a'')"

lemma inj_unary: "inj unary"
  by (rule injI) (metis unary_def length_replicate)

theorem migration_faithful_witness:
  "\<exists>db. run_migration unary 0 (legacy_boot [legacy ''P'' 1 ''active'', legacy ''P'' 0 ''superseded''])
      = (Inr (), \<lparr>bs_source = None, bs_archive = Some [legacy ''P'' 1 ''active'', legacy ''P'' 0 ''superseded''], bs_db = db\<rparr>) \<and>
    db_inv db \<and> length (versions db) = 2"
proof -
  let ?rows = "[legacy ''P'' 1 ''active'', legacy ''P'' 0 ''superseded'']"
  have "\<exists>db. run_migration unary 0 (legacy_boot ?rows)
      = (Inr (), \<lparr>bs_source = None, bs_archive = Some ?rows, bs_db = db\<rparr>) \<and>
    map (flat_row db) (versions db) = map legacy_flat (order_by legacy_key ?rows) \<and>
    (db_inv db \<longleftrightarrow> (\<forall>r\<in>set ?rows. 0 \<le> lg_major r \<and> 0 \<le> lg_minor r \<and> 0 \<le> lg_patch r) \<and>
       (\<forall>name. length (active_rows name ?rows) \<le> 1)) \<and>
    run_migration unary 0 \<lparr>bs_source = None, bs_archive = Some ?rows, bs_db = db\<rparr>
      = (Inr (), \<lparr>bs_source = None, bs_archive = Some ?rows, bs_db = db\<rparr>)"
    by (rule migration_faithful)
       (simp_all add: legacy_boot_def empty_database_def inj_unary schema_ok_empty[unfolded empty_database_def]
          legacy_def storable_def version_status_of_def in_integer_range_def)
  then obtain db where run: "run_migration unary 0 (legacy_boot ?rows)
      = (Inr (), \<lparr>bs_source = None, bs_archive = Some ?rows, bs_db = db\<rparr>)"
    "map (flat_row db) (versions db) = map legacy_flat (order_by legacy_key ?rows)"
    "db_inv db \<longleftrightarrow> (\<forall>r\<in>set ?rows. 0 \<le> lg_major r \<and> 0 \<le> lg_minor r \<and> 0 \<le> lg_patch r) \<and>
       (\<forall>name. length (active_rows name ?rows) \<le> 1)" by blast
  have "db_inv db" unfolding run(3) by (simp add: legacy_def active_rows_def)
  moreover have "length (versions db) = 2"
    using arg_cong[OF run(2), of length] by (simp add: order_by_def)
  ultimately show ?thesis using run(1) by blast
qed

text \<open>An interrupted migration is never taken up again. The legacy table is archived before the
  relational rows are written, each statement committing by itself; when an insert then fails
  (a status outside the three known ones, a number outside the column), the rows not yet
  written stay in the archive only, and every later boot finds nothing to migrate.\<close>

theorem interrupted_migration_abandoned:
  assumes "run_migration fresh now st = (Inl e, st')" and "bs_archive st = None"
  shows "bs_source st' = None \<and> bs_archive st' = bs_source st \<and>
    run_migration fresh' now' st' = (Inr (), st')"
proof -
  have "should_migrate st" using assms(1) by (auto simp: run_migration_def split: if_splits)
  moreover obtain res db where "insert_relational fresh 0 now (read_legacy_rows st) [] (bs_db st) = (res, db)"
    by (cases "insert_relational fresh 0 now (read_legacy_rows st) [] (bs_db st)")
  ultimately have "st' = \<lparr>bs_source = None, bs_archive = bs_source st, bs_db = db\<rparr>"
    using assms by (auto simp: run_migration_def archive_source_table_def Let_def)
  then show ?thesis by (simp add: run_migration_def should_migrate_def)
qed

theorem interrupted_migration_abandoned_witness:
  "\<exists>st'. run_migration unary 0 (legacy_boot [legacy ''P'' 0 ''released'']) = (Inl ConstraintViolation, st') \<and>
     versions (bs_db st') = [] \<and> length (products (bs_db st')) = 1 \<and> run_migration unary 1 st' = (Inr (), st')"
proof -
  let ?st = "legacy_boot [legacy ''P'' 0 ''released'']"
  have "read_legacy_rows ?st = [legacy ''P'' 0 ''released'']"
    by (simp add: read_legacy_rows_def legacy_boot_def order_by_def)
  then obtain st' where run: "run_migration unary 0 ?st = (Inl ConstraintViolation, st')"
    "versions (bs_db st') = []" "length (products (bs_db st')) = 1"
    by (simp add: run_migration_def should_migrate_def legacy_boot_def archive_source_table_def Let_def
        create_product_and_component_def insert_product_def insert_component_def empty_database_def
        migrated_product_def migrated_component_def insert_legacy_version_def legacy_def version_status_of_def)
  moreover have "bs_archive ?st = None" by (simp add: legacy_boot_def)
  ultimately show ?thesis using interrupted_migration_abandoned[OF run(1), of unary 1] by auto
qed

end
