(* ===== verification/Plugins.thy ===== *)
theory Plugins
  imports Route_Table Migration
begin

text \<open>
  The plugin seam: \<open>src/app/plugins/plugin_context.py\<close>, \<open>plugin_loader.py\<close> and the step of the
  lifespan in \<open>src/app/main.py\<close> that runs it over the provider registry
  (\<open>src/app/auth/auth_registry.py\<close>). A plugin is foreign code: a parameter that, given the context,
  makes calls on its capabilities and then returns or raises.
\<close>

section \<open>The context and the loader\<close>

record plugin_context =
  pc_app :: "mounted_route list"
  pc_auth_registry :: "provider list"
  pc_auth_settings :: auth_settings
  pc_meta_extensions :: "meta_extension list"

datatype capability_call =
    Register provider
  | AddMetaExtension meta_extension
  | IncludeRouter "mounted_route list"

text \<open>\<open>AuthRegistry.register\<close> and \<open>PluginContext.add_meta_extension\<close> append to the shared lists.\<close>

definition register_provider :: "provider \<Rightarrow> provider list \<Rightarrow> provider list" where
  "register_provider p registry = registry @ [p]"

definition add_meta_extension :: "meta_extension \<Rightarrow> plugin_context \<Rightarrow> plugin_context" where
  "add_meta_extension x ctx = ctx\<lparr>pc_meta_extensions := pc_meta_extensions ctx @ [x]\<rparr>"

fun perform :: "capability_call \<Rightarrow> plugin_context \<Rightarrow> plugin_context" where
  "perform (Register p) ctx = ctx\<lparr>pc_auth_registry := register_provider p (pc_auth_registry ctx)\<rparr>"
| "perform (AddMetaExtension x) ctx = add_meta_extension x ctx"
| "perform (IncludeRouter rs) ctx = ctx\<lparr>pc_app := pc_app ctx @ rs\<rparr>"

text \<open>
  The calls a plugin makes on a context, and how it ends after them. The loader's \<open>except Exception\<close>
  catches every exception but those derived from \<open>BaseException\<close> alone, such as \<open>SystemExit\<close>.
\<close>

datatype ending = Returned | RaisedException | RaisedBaseException

type_synonym plugin = "plugin_context \<Rightarrow> capability_call list \<times> ending"

text \<open>What \<open>entry_point.load()\<close> does.\<close>

datatype imported = Imported plugin | ImportException | ImportBaseException

record entry_point =
  ep_name :: string
  ep_load :: imported

datatype load_log = LoadedPlugin string | FailedPlugin string

text \<open>One round of the loop; \<open>None\<close> when an exception escapes it.\<close>

definition load_plugin :: "entry_point \<Rightarrow> plugin_context \<Rightarrow> load_log option \<times> plugin_context" where
  "load_plugin ep ctx =
     (case ep_load ep of
        ImportException \<Rightarrow> (Some (FailedPlugin (ep_name ep)), ctx)
      | ImportBaseException \<Rightarrow> (None, ctx)
      | Imported plugin \<Rightarrow>
          (let (calls, ending) = plugin ctx;
               ctx' = fold perform calls ctx
           in (case ending of
                 Returned \<Rightarrow> (Some (LoadedPlugin (ep_name ep)), ctx')
               | RaisedException \<Rightarrow> (Some (FailedPlugin (ep_name ep)), ctx')
               | RaisedBaseException \<Rightarrow> (None, ctx'))))"

fun load_plugins :: "entry_point list \<Rightarrow> plugin_context \<Rightarrow> load_log list option \<times> plugin_context" where
  "load_plugins [] ctx = (Some [], ctx)"
| "load_plugins (ep # eps) ctx =
     (case load_plugin ep ctx of
        (None, ctx') \<Rightarrow> (None, ctx')
      | (Some entry, ctx') \<Rightarrow>
          (let (log, ctx'') = load_plugins eps ctx' in (map_option (\<lambda>es. entry # es) log, ctx'')))"

text \<open>
  The wiring part of the lifespan: the resolver and the application state share the registry and
  the extension list with the context, so both see what the plugins added. An exception that escapes
  the loader ends the start-up: nothing is wired.
\<close>

definition core_context :: "environ \<Rightarrow> string list \<Rightarrow> plugin_context" where
  "core_context env builtin =
     \<lparr>pc_app = application_routes builtin, pc_auth_registry = app_registry default_auth_settings env [],
      pc_auth_settings = default_auth_settings, pc_meta_extensions = []\<rparr>"

definition lifespan_wire ::
  "environ \<Rightarrow> string list \<Rightarrow> entry_point list \<Rightarrow> database \<Rightarrow>
     (load_log list \<times> mounted_route list \<times> app_state) option" where
  "lifespan_wire env builtin eps stored =
     (case load_plugins eps (core_context env builtin) of
        (None, ctx) \<Rightarrow> None
      | (Some log, ctx) \<Rightarrow> Some (log, pc_app ctx,
          \<lparr>app_db = stored, app_bus = new_event_bus, app_settings = pc_auth_settings ctx,
           app_resolver = build_resolver (pc_auth_settings ctx) env (Some (pc_auth_registry ctx)),
           app_extensions = pc_meta_extensions ctx, app_mailer = new_mailer None,
           app_limiter = middleware_limiter (rate_limit_settings_init None None None None)\<rparr>))"

section \<open>What loading adds\<close>

text \<open>An entry point whose exceptions the loader catches, and one that raises none at all.\<close>

fun contained :: "imported \<Rightarrow> bool" where
  "contained ImportException \<longleftrightarrow> True"
| "contained ImportBaseException \<longleftrightarrow> False"
| "contained (Imported plugin) \<longleftrightarrow> (\<forall>ctx. snd (plugin ctx) \<noteq> RaisedBaseException)"

fun returning :: "imported \<Rightarrow> bool" where
  "returning (Imported plugin) \<longleftrightarrow> (\<forall>ctx. snd (plugin ctx) = Returned)"
| "returning _ \<longleftrightarrow> True"

fun calls_made :: "entry_point list \<Rightarrow> plugin_context \<Rightarrow> capability_call list" where
  "calls_made [] ctx = []"
| "calls_made (ep # eps) ctx =
     (case ep_load ep of
        Imported plugin \<Rightarrow> fst (plugin ctx) @ calls_made eps (fold perform (fst (plugin ctx)) ctx)
      | _ \<Rightarrow> calls_made eps ctx)"

fun provider_of :: "capability_call \<Rightarrow> provider list" where
  "provider_of (Register p) = [p]"
| "provider_of _ = []"

fun extension_of :: "capability_call \<Rightarrow> meta_extension list" where
  "extension_of (AddMetaExtension x) = [x]"
| "extension_of _ = []"

fun routes_of :: "capability_call \<Rightarrow> mounted_route list" where
  "routes_of (IncludeRouter rs) = rs"
| "routes_of _ = []"

fun logged_name :: "load_log \<Rightarrow> string" where
  "logged_name (LoadedPlugin n) = n"
| "logged_name (FailedPlugin n) = n"

lemma load_plugin_contained:
  assumes "contained (ep_load ep)"
  obtains entry where "load_plugin ep ctx = (Some entry, fold perform (calls_made [ep] ctx) ctx)" "logged_name entry = ep_name ep"
proof (cases "ep_load ep")
  case (Imported plugin)
  obtain calls ending where run: "plugin ctx = (calls, ending)" by fastforce
  have "ending \<noteq> RaisedBaseException" using assms Imported run by (metis contained.simps(3) snd_conv)
  then show thesis
    using Imported run by (cases ending) (auto intro: that simp: load_plugin_def)
qed (use assms that in \<open>simp_all add: load_plugin_def\<close>)

lemma calls_made_Cons:
  "calls_made (ep # eps) ctx = calls_made [ep] ctx @ calls_made eps (fold perform (calls_made [ep] ctx) ctx)"
  by (cases "ep_load ep") simp_all

lemma load_plugins_contained:
  "\<forall>ep\<in>set eps. contained (ep_load ep) \<Longrightarrow>
     \<exists>log. load_plugins eps ctx = (Some log, fold perform (calls_made eps ctx) ctx) \<and> map logged_name log = map ep_name eps"
proof (induction eps arbitrary: ctx)
  case (Cons ep eps)
  obtain entry where entry: "load_plugin ep ctx = (Some entry, fold perform (calls_made [ep] ctx) ctx)" "logged_name entry = ep_name ep"
    using load_plugin_contained[of ep ctx] Cons.prems by auto
  from Cons.IH[of "fold perform (calls_made [ep] ctx) ctx"] Cons.prems
  show ?case unfolding calls_made_Cons[of ep eps] using entry by (auto simp del: calls_made.simps)
qed simp

lemma perform_appends:
  "pc_auth_registry (fold perform calls ctx) = pc_auth_registry ctx @ concat (map provider_of calls)"
  "pc_meta_extensions (fold perform calls ctx) = pc_meta_extensions ctx @ concat (map extension_of calls)"
  "pc_app (fold perform calls ctx) = pc_app ctx @ concat (map routes_of calls)"
  "pc_auth_settings (fold perform calls ctx) = pc_auth_settings ctx"
proof (induction calls arbitrary: ctx)
  case (Cons c calls)
  { case 1 show ?case by (cases c) (simp_all add: Cons.IH register_provider_def add_meta_extension_def) next
    case 2 show ?case by (cases c) (simp_all add: Cons.IH register_provider_def add_meta_extension_def) next
    case 3 show ?case by (cases c) (simp_all add: Cons.IH register_provider_def add_meta_extension_def) next
    case 4 show ?case by (cases c) (simp_all add: Cons.IH register_provider_def add_meta_extension_def) }
qed simp_all

lemma app_registry_append: "app_registry s env plugins = app_registry s env [] @ plugins"
  by (simp add: app_registry_def)

lemma calls_made_loadable: "calls_made (filter (\<lambda>ep. ep_load ep \<noteq> ImportException) eps) ctx = calls_made eps ctx"
  by (induction eps ctx rule: calls_made.induct) (auto split: imported.splits)

lemma lifespan_wire_calls:
  assumes "\<forall>ep\<in>set eps. contained (ep_load ep)"
  obtains log where "lifespan_wire env builtin eps stored =
     Some (log, application_routes builtin @ concat (map routes_of (calls_made eps (core_context env builtin))),
       lifespan_start env (concat (map provider_of (calls_made eps (core_context env builtin))))
         (concat (map extension_of (calls_made eps (core_context env builtin)))) stored)"
    "map logged_name log = map ep_name eps"
proof -
  from load_plugins_contained[OF assms] obtain log where
    log: "load_plugins eps (core_context env builtin) =
      (Some log, fold perform (calls_made eps (core_context env builtin)) (core_context env builtin))"
    "map logged_name log = map ep_name eps" by blast
  show thesis
    by (rule that[OF _ log(2)])
       (simp add: lifespan_wire_def log(1) perform_appends lifespan_start_def Let_def
         core_context_def[of env builtin, THEN arg_cong[of _ _ pc_app]] core_context_def[of env builtin, THEN arg_cong[of _ _ pc_auth_registry]]
         core_context_def[of env builtin, THEN arg_cong[of _ _ pc_auth_settings]] core_context_def[of env builtin, THEN arg_cong[of _ _ pc_meta_extensions]]
         app_registry_append[of _ _ "concat _"])
qed

section \<open>Properties of the seam\<close>

text \<open>C29: Plugins extend the application and cannot take it down. Whatever the entry points do short of
  raising a bare \<open>BaseException\<close> (an exit request, which the loader does not catch), the start-up goes
  through: every entry point is reported once and in order, and the started application is the core one
  with further providers after the core providers, further \<open>/meta\<close> extensions, and further routes after the core
  routes. An entry point that cannot be imported is skipped without a trace, and when no plugin raises, what is added is
  exactly what the plugins asked for, in call order. With no plugin the application is the core one.\<close>

theorem plugins_only_extend:
  assumes "\<forall>ep\<in>set eps. contained (ep_load ep)"
  shows "\<exists>log rs ps xs. lifespan_wire env builtin eps stored =
       Some (log, application_routes builtin @ rs, lifespan_start env ps xs stored) \<and>
     map logged_name log = map ep_name eps \<and>
     map_option snd (lifespan_wire env builtin (filter (\<lambda>ep. ep_load ep \<noteq> ImportException) eps) stored) =
       map_option snd (lifespan_wire env builtin eps stored) \<and>
     ((\<forall>ep\<in>set eps. returning (ep_load ep)) \<longrightarrow>
        rs = concat (map routes_of (calls_made eps (core_context env builtin))) \<and>
        ps = concat (map provider_of (calls_made eps (core_context env builtin))) \<and>
        xs = concat (map extension_of (calls_made eps (core_context env builtin)))) \<and>
     lifespan_wire env builtin [] stored = Some ([], application_routes builtin, lifespan_start env [] [] stored)"
proof -
  obtain log where run: "lifespan_wire env builtin eps stored =
     Some (log, application_routes builtin @ concat (map routes_of (calls_made eps (core_context env builtin))),
       lifespan_start env (concat (map provider_of (calls_made eps (core_context env builtin))))
         (concat (map extension_of (calls_made eps (core_context env builtin)))) stored)"
    and log: "map logged_name log = map ep_name eps" by (rule lifespan_wire_calls[OF assms])
  have none: "lifespan_wire env builtin [] stored = Some ([], application_routes builtin, lifespan_start env [] [] stored)"
    by (rule lifespan_wire_calls[of "[]" env builtin stored]) simp_all
  let ?eps = "filter (\<lambda>ep. ep_load ep \<noteq> ImportException) eps"
  have "\<forall>ep\<in>set ?eps. contained (ep_load ep)" using assms by simp
  then have "map_option snd (lifespan_wire env builtin ?eps stored) = map_option snd (lifespan_wire env builtin eps stored)"
    by (rule lifespan_wire_calls[of ?eps env builtin stored]) (simp add: run calls_made_loadable)
  with run log none show ?thesis by blast
qed

definition abstaining_provider :: provider where
  "abstaining_provider ae rq = Inr None"

definition half_plugin :: entry_point where
  "half_plugin = \<lparr>ep_name = ''half'', ep_load = Imported (\<lambda>ctx. ([Register abstaining_provider], RaisedException))\<rparr>"

theorem plugins_only_extend_witness:
  "map_option fst (lifespan_wire (\<lambda>_. None) [] [half_plugin, \<lparr>ep_name = ''lost'', ep_load = ImportException\<rparr>] empty_database) \<noteq> None"
proof -
  have "\<forall>ep\<in>set [half_plugin, \<lparr>ep_name = ''lost'', ep_load = ImportException\<rparr>]. contained (ep_load ep)"
    by (simp add: half_plugin_def)
  from plugins_only_extend[OF this, of "\<lambda>_. None" "[]" empty_database] show ?thesis by auto
qed

text \<open>a plugin that fails half-way still changes who may enter. In a deployment with no
  authentication configured, if any plugin, loaded or failed, registered a provider and every
  registered provider abstains on a request, the request is refused as unauthorized, although
  without plugins the same request resolves to the anonymous principal.
\<close>

theorem registered_provider_closes_application:
  assumes "modes default_auth_settings env = {}" and "\<not> is_authentication_enabled env"
    and "lifespan_wire env builtin eps stored = Some (log, routes, st)" and "\<forall>ep\<in>set eps. contained (ep_load ep)"
    and "Register p \<in> set (calls_made eps (core_context env builtin))"
    and "\<forall>q. Register q \<in> set (calls_made eps (core_context env builtin)) \<longrightarrow> q ae rq = Inr None"
  shows "require_principal (Some (app_resolver st)) ae rq =
           Inl (UnauthorizedError ''No valid credentials were provided.'' []) \<and>
         require_principal (Some (app_resolver (lifespan_start env [] [] stored))) ae rq =
           Inr (anonymous_principal (edition default_auth_settings env))"
proof -
  let ?ps = "concat (map provider_of (calls_made eps (core_context env builtin)))"
  have "provider_of c = [q] \<and> c = Register q" if "q \<in> set (provider_of c)" for q c
    using that by (cases c) auto
  then have registered: "q \<in> set ?ps \<longleftrightarrow> Register q \<in> set (calls_made eps (core_context env builtin))" for q
    by (auto intro: rev_bexI)
  have core: "app_registry default_auth_settings env [] = []"
    using assms(1,2) by (simp add: app_registry_def build_registry_def apikey_mode_enabled_def password_enabled_def)
  have st: "st = lifespan_start env ?ps (concat (map extension_of (calls_made eps (core_context env builtin)))) stored"
    by (rule lifespan_wire_calls[OF assms(4), of env builtin stored]) (simp add: assms(3))
  have "?ps \<noteq> []" using registered assms(5) by (metis list.set(1) empty_iff)
  moreover have "try_providers ?ps ae rq = Inr None"
    using assms(6) registered by (intro try_providers_abstain) blast
  ultimately show ?thesis
    using assms(1,2)
    by (simp add: st lifespan_start_def Let_def require_principal_def resolve_def build_resolver_def
        app_registry_append[of _ _ ?ps] core)
qed

theorem registered_provider_closes_application_witness:
  "\<exists>routes st. lifespan_wire (\<lambda>_. None) [] [half_plugin] empty_database = Some ([FailedPlugin ''half''], routes, st) \<and>
     require_principal (Some (app_resolver st)) \<lparr>ae_environ = (\<lambda>_. None), ae_now = 0, ae_db = None, ae_sha = id\<rparr>
       \<lparr>rq_headers = [], rq_cookies = []\<rparr> = Inl (UnauthorizedError ''No valid credentials were provided.'' [])"
proof -
  let ?env = "\<lambda>_. None" and ?ae = "\<lparr>ae_environ = (\<lambda>_. None), ae_now = 0, ae_db = None, ae_sha = id\<rparr>"
  have modes: "modes default_auth_settings ?env = {}"
    by (simp add: modes_def default_auth_settings_def env_or_empty_def split_csv_def
        recognised_modes_def List.map_filter_def strip_def lstrip_def)
  have key: "\<not> is_authentication_enabled ?env"
    by (simp add: is_authentication_enabled_def get_configured_api_key_def configured_key_def)
  have contained: "\<forall>ep\<in>set [half_plugin]. contained (ep_load ep)" by (simp add: half_plugin_def)
  obtain log routes st where run: "lifespan_wire ?env [] [half_plugin] empty_database = Some (log, routes, st)"
    by (rule lifespan_wire_calls[OF contained]) blast
  have log: "log = [FailedPlugin ''half'']"
    using run by (auto simp: lifespan_wire_def load_plugin_def half_plugin_def Let_def)
  have calls: "calls_made [half_plugin] (core_context ?env []) = [Register abstaining_provider]"
    by (simp add: half_plugin_def)
  have "require_principal (Some (app_resolver st)) ?ae \<lparr>rq_headers = [], rq_cookies = []\<rparr>
      = Inl (UnauthorizedError ''No valid credentials were provided.'' [])"
    using registered_provider_closes_application[OF modes key run contained, of abstaining_provider ?ae "\<lparr>rq_headers = [], rq_cookies = []\<rparr>"]
    unfolding calls by (simp add: abstaining_provider_def)
  then show ?thesis using run log by blast
qed

end
