(* ===== verification/Lifespan.thy ===== *)
theory Lifespan
  imports Plugins
begin

text \<open>
  The whole lifespan of \<open>src/app/main.py\<close>: wiring and plugins first, then the schema and the migration,
  then serving, then the clearing of the application state.
\<close>

text \<open>
  A failing migration propagates, and so does an exception that escapes the plugin loader (\<open>None\<close>; the migration has
  not begun then): nothing is served. The application state then keeps what the
  wiring stored, which is why the failing branches return no state.
\<close>

definition lifespan_up ::
  "environ \<Rightarrow> string list \<Rightarrow> entry_point list \<Rightarrow> (nat \<Rightarrow> ident) \<Rightarrow> timestamp \<Rightarrow> boot_state \<Rightarrow>
     (load_log list \<times> mounted_route list \<times> app_state) outcome option \<times> boot_state" where
  "lifespan_up env builtin eps fresh now st =
     (case lifespan_wire env builtin eps (bs_db st) of
        None \<Rightarrow> (None, st)
      | Some (log, routes, app) \<Rightarrow>
          (case run_migration fresh now st of
             (Inl e, st') \<Rightarrow> (Some (Inl e), st')
           | (Inr (), st') \<Rightarrow> (Some (Inr (log, routes, app\<lparr>app_db := bs_db st'\<rparr>)), st')))"

text \<open>The \<open>finally\<close> of the lifespan sets every attribute of the application state to \<open>None\<close>.\<close>

definition lifespan_down :: "app_state option \<Rightarrow> app_state option" where
  "lifespan_down installed = None"

definition ready_probe :: "call_env \<Rightarrow> app_state option \<Rightarrow> http_response" where
  "ready_probe ce installed = ready (map_option (\<lambda>_. ce_db_answers ce) installed)"

lemma lifespan_up_migrated:
  assumes "run_migration fresh now st = (Inr (), st')" and "\<forall>ep\<in>set eps. contained (ep_load ep)"
  obtains log plugins extensions where
    "lifespan_up env builtin eps fresh now st =
      (Some (Inr (log, application_routes builtin @ concat (map routes_of (calls_made eps (core_context env builtin))),
        lifespan_start env plugins extensions (bs_db st'))), st')"
    "map logged_name log = map ep_name eps"
proof -
  let ?calls = "calls_made eps (core_context env builtin)"
  let ?ps = "concat (map provider_of ?calls)" and ?xs = "concat (map extension_of ?calls)"
  let ?routes = "application_routes builtin @ concat (map routes_of ?calls)"
  obtain log where wired: "lifespan_wire env builtin eps (bs_db st) = Some (log, ?routes, lifespan_start env ?ps ?xs (bs_db st))"
    "map logged_name log = map ep_name eps" by (rule lifespan_wire_calls[OF assms(2)])
  have "(lifespan_start env ?ps ?xs (bs_db st))\<lparr>app_db := bs_db st'\<rparr> = lifespan_start env ?ps ?xs (bs_db st')"
    by (simp add: lifespan_start_def Let_def)
  then have "lifespan_up env builtin eps fresh now st =
      (Some (Inr (log, ?routes, lifespan_start env ?ps ?xs (bs_db st'))), st')"
    by (simp only: lifespan_up_def wired assms(1) option.case prod.case sum.case unit.case)
  with wired(2) that show thesis by blast
qed

lemma kept_version:
  assumes "extends db db'" "v \<in> set (versions db)"
  obtains v' where "v' \<in> set (versions db')" "core_of v' = core_of v" "v_component_id v' = v_component_id v"
proof -
  from assms(1) have "prefix (history (versions db)) (history (versions db'))" by (simp add: extends_def)
  from history_row[OF this assms(2)] obtain v' where v': "v' \<in> set (versions db')"
    "set_status ACTIVE v' = set_status ACTIVE v" by blast
  have "core_of v' = core_of v" by (simp add: core_of_def same_history_fields[OF v'(2)])
  with v'(1) same_history_fields(2)[OF v'(2)] that show thesis by blast
qed

text \<open>C9: The service comes up from a legacy database and never loses it. Let the legacy table have at least one
  row, all rows fit the columns, have non-negative numbers and at most one active row per product; let the
  relational tables for products and versions be empty, no table \<open>legacy_versions\<close> exist yet, the identifiers minted be
  distinct, and no plugin raise a bare \<open>BaseException\<close>. Then the lifespan starts whatever else the plugins do, reporting each of
  them; every state reached from there by requests, deliveries and disconnections is valid and still holds, for
  every legacy row, a version with its numbers on the component the migration gave to its product;
  readiness is reported as long as the database answers, and refused once the lifespan has ended.\<close>

theorem lifespan_from_legacy:
  assumes "bs_source st = Some rows" "rows \<noteq> []" "products (bs_db st) = []" "versions (bs_db st) = []"
    and "bs_archive st = None" "schema_ok (bs_db st)" "inj fresh" "\<forall>r\<in>set rows. storable r"
    and "\<forall>r\<in>set rows. 0 \<le> lg_major r \<and> 0 \<le> lg_minor r \<and> 0 \<le> lg_patch r"
    and "\<forall>name. length (active_rows name rows) \<le> 1"
    and "\<forall>ep\<in>set eps. contained (ep_load ep)"
  shows "\<exists>log routes app db.
    lifespan_up env builtin eps fresh now st =
      (Some (Inr (log, routes, app)), \<lparr>bs_source = None, bs_archive = Some rows, bs_db = db\<rparr>) \<and>
    map logged_name log = map ep_name eps \<and>
    (\<forall>clock clock' app'. api_step\<^sup>*\<^sup>* (clock, app) (clock', app') \<longrightarrow>
       db_inv (app_db app') \<and>
       (\<forall>r\<in>set rows. \<exists>v\<in>set (versions (app_db app')).
          core_of v = (lg_major r, lg_minor r, lg_patch r) \<and>
          product_name_of db (v_component_id v) = Some (lg_product_name r)) \<and>
       resp_status (ready_probe ce (Some app')) = (if ce_db_answers ce then 200 else 503) \<and>
       resp_status (ready_probe ce (lifespan_down (Some app'))) = 503)"
proof -
  from migration_core[OF assms(1-8)] obtain db where
    run: "run_migration fresh now st = (Inr (), \<lparr>bs_source = None, bs_archive = Some rows, bs_db = db\<rparr>)"
    and flat: "map (flat_row db) (versions db) = map legacy_flat (order_by legacy_key rows)"
    and "db_inv db \<longleftrightarrow> (\<forall>r\<in>set rows. 0 \<le> lg_major r \<and> 0 \<le> lg_minor r \<and> 0 \<le> lg_patch r) \<and>
       (\<forall>name. length (active_rows name rows) \<le> 1)" by blast
  with assms(9,10) have inv: "db_inv db" by blast
  obtain log routes ps xs where up:
    "lifespan_up env builtin eps fresh now st = (Some (Inr (log, routes, lifespan_start env ps xs db)),
       \<lparr>bs_source = None, bs_archive = Some rows, bs_db = db\<rparr>)" "map logged_name log = map ep_name eps"
    by (rule lifespan_up_migrated[OF run assms(11), of env builtin]) auto
  have legacy_kept: "\<exists>v\<in>set (versions (app_db app')). core_of v = (lg_major r, lg_minor r, lg_patch r) \<and>
      product_name_of db (v_component_id v) = Some (lg_product_name r)"
    if "api_step\<^sup>*\<^sup>* (clock, lifespan_start env ps xs db) (clock', app')" "r \<in> set rows" for clock clock' app' r
  proof -
    have "legacy_flat r \<in> set (map (flat_row db) (versions db))" using that(2) by (simp add: flat order_by_def)
    then obtain v where v: "v \<in> set (versions db)" "flat_row db v = legacy_flat r" by auto
    from app.run_grows[OF that(1) start_inv[OF inv]] have "extends db (app_db app')"
      by (simp add: history_grows_def lifespan_start_def Let_def)
    from kept_version[OF this v(1)] v(2) show ?thesis
      by (metis flat_row_def legacy_flat_def prod.inject)
  qed
  have "db_inv (app_db app')" if "api_step\<^sup>*\<^sup>* (clock, lifespan_start env ps xs db) (clock', app')"
    for clock clock' app'
    using app.invariant[OF that start_inv[OF inv]] by (simp add: app_inv_def)
  moreover have "resp_status (ready_probe ce (Some app')) = (if ce_db_answers ce then 200 else 503)"
    "resp_status (ready_probe ce (lifespan_down (Some app'))) = 503" for app'
    by (simp_all add: ready_probe_def lifespan_down_def ready_def Let_def)
  ultimately show ?thesis using up legacy_kept by blast
qed

theorem lifespan_from_legacy_witness:
  "\<exists>log routes app db.
    lifespan_up (\<lambda>_. None) [''/docs''] [half_plugin] unary 0
        (legacy_boot [legacy ''P'' 1 ''active'', legacy ''P'' 0 ''superseded'']) =
      (Some (Inr (log, routes, app)), \<lparr>bs_source = None,
         bs_archive = Some [legacy ''P'' 1 ''active'', legacy ''P'' 0 ''superseded''], bs_db = db\<rparr>) \<and>
    map logged_name log = [''half''] \<and> db_inv (app_db app) \<and>
    (\<exists>v\<in>set (versions (app_db app)). core_of v = (1, 0, 0))"
proof -
  let ?rows = "[legacy ''P'' 1 ''active'', legacy ''P'' 0 ''superseded'']"
  have "\<exists>log routes app db.
    lifespan_up (\<lambda>_. None) [''/docs''] [half_plugin] unary 0 (legacy_boot ?rows) =
      (Some (Inr (log, routes, app)), \<lparr>bs_source = None, bs_archive = Some ?rows, bs_db = db\<rparr>) \<and>
    map logged_name log = map ep_name [half_plugin] \<and>
    (\<forall>clock clock' app'. api_step\<^sup>*\<^sup>* (clock, app) (clock', app') \<longrightarrow>
       db_inv (app_db app') \<and>
       (\<forall>r\<in>set ?rows. \<exists>v\<in>set (versions (app_db app')).
          core_of v = (lg_major r, lg_minor r, lg_patch r) \<and>
          product_name_of db (v_component_id v) = Some (lg_product_name r)) \<and>
       resp_status (ready_probe ce (Some app')) = (if ce_db_answers ce then 200 else 503) \<and>
       resp_status (ready_probe ce (lifespan_down (Some app'))) = 503)" for ce
    by (rule lifespan_from_legacy)
       (simp_all add: legacy_boot_def empty_database_def inj_unary schema_ok_empty[unfolded empty_database_def]
          legacy_def storable_def version_status_of_def in_integer_range_def active_rows_def half_plugin_def)
  from this[of undefined] obtain log routes app db where up:
    "lifespan_up (\<lambda>_. None) [''/docs''] [half_plugin] unary 0 (legacy_boot ?rows) =
      (Some (Inr (log, routes, app)), \<lparr>bs_source = None, bs_archive = Some ?rows, bs_db = db\<rparr>)"
    "map logged_name log = map ep_name [half_plugin]"
    and reached: "\<And>clock clock' app'. api_step\<^sup>*\<^sup>* (clock, app) (clock', app') \<Longrightarrow>
       db_inv (app_db app') \<and> (\<forall>r\<in>set ?rows. \<exists>v\<in>set (versions (app_db app')).
          core_of v = (lg_major r, lg_minor r, lg_patch r) \<and>
          product_name_of db (v_component_id v) = Some (lg_product_name r))" by blast
  from reached[OF rtranclp.rtrancl_refl] have "db_inv (app_db app)"
    "\<exists>v\<in>set (versions (app_db app)). core_of v = (1, 0, 0)" by (auto simp: legacy_def)
  with up show ?thesis by (simp add: half_plugin_def)
qed

end
