(* ===== verification/Backends.thy ===== *)
theory Backends
  imports Auth Catalog
begin

text \<open>
  \<open>app/backends\<close> and \<open>app/connections\<close>: which backend a deployment selects and with what
  connection arguments, how one portable statement is rendered for each driver, and how a DDL
  script is cut into statements. Drivers are not modelled; what their documentation promises about
  placeholders is the hypothesis \<open>documented_driver\<close>. \<open>urlsplit\<close> and
  \<open>unquote\<close> of the standard library are parameters.
\<close>

section \<open>Placeholder styles\<close>

datatype param_style = QMARK | PYFORMAT

definition replace_char :: "char \<Rightarrow> string \<Rightarrow> string \<Rightarrow> string" where
  "replace_char old new s = concat (map (\<lambda>c. if c = old then new else [c]) s)"

definition render_params :: "param_style \<Rightarrow> string \<Rightarrow> string" where
  "render_params style sql =
     (case style of
        QMARK \<Rightarrow> sql
      | PYFORMAT \<Rightarrow>
          let escaped = replace_char (CHR ''%'') ''%%'' sql
          in replace_char (CHR ''?'') ''%s'' escaped)"

section \<open>Statement dialects\<close>

datatype statement_dialect = ANSI | TSQL

text \<open>
  The match of the trailing-limit pattern: the text before it and the row digs. Read from the
  end: blanks, a maximal run of digits, blanks, the keyword, and all the blanks before it.
\<close>

definition trailing_limit :: "string \<Rightarrow> (string \<times> string) option" where
  "trailing_limit sql =
     (let r1 = dropWhile is_space (rev sql);
          digs = takeWhile is_digit r1;
          r2 = dropWhile is_digit r1;
          r3 = dropWhile is_space r2;
          r4 = drop 5 r3;
          r5 = dropWhile is_space r4
      in if digs \<noteq> [] \<and> r3 \<noteq> r2 \<and> lower (take 5 r3) = ''timil'' \<and> r5 \<noteq> r4
         then Some (rev r5, rev digs) else None)"

text \<open>The end of the match of the select-head pattern.\<close>

definition select_head_end :: "string \<Rightarrow> nat option" where
  "select_head_end sql =
     (let blanks = takeWhile is_space (drop 6 sql);
          n = 6 + length blanks;
          rest = drop n sql;
          blanks2 = takeWhile is_space (drop 8 rest)
      in if lower (take 6 sql) = ''select'' \<and> blanks \<noteq> []
         then Some (if lower (take 8 rest) = ''distinct'' \<and> blanks2 \<noteq> [] then n + 8 + length blanks2 else n)
         else None)"

definition render_dialect :: "statement_dialect \<Rightarrow> string \<Rightarrow> string" where
  "render_dialect dialect sql =
     (case dialect of
        ANSI \<Rightarrow> sql
      | TSQL \<Rightarrow>
          (case trailing_limit sql of
             None \<Rightarrow> sql
           | Some (body, digs) \<Rightarrow>
               (case select_head_end sql of
                  None \<Rightarrow> sql
                | Some h \<Rightarrow> take h body @ ''TOP '' @ digs @ '' '' @ drop h body)))"

text \<open>What \<open>DbSession.execute\<close> hands to the driver.\<close>

definition session_statement :: "param_style \<Rightarrow> statement_dialect \<Rightarrow> string \<Rightarrow> string" where
  "session_statement style dialect sql = render_params style (render_dialect dialect sql)"

section \<open>DDL scripts\<close>

definition is_line_break :: "char \<Rightarrow> bool" where
  "is_line_break c = (code c \<in> {10, 11, 12, 13, 28, 29, 30, 133})"

fun splitlines :: "string \<Rightarrow> string list" where
  "splitlines [] = []"
| "splitlines (c # cs) =
     (if code c = 13 \<and> cs \<noteq> [] \<and> code (hd cs) = 10 then [] # splitlines (tl cs)
      else if is_line_break c then [] # splitlines cs
      else (case splitlines cs of [] \<Rightarrow> [[c]] | l # ls \<Rightarrow> (c # l) # ls))"

definition ddl_statements :: "string \<Rightarrow> string list" where
  "ddl_statements script =
     (let code_lines = filter (\<lambda>line. \<not> startswith (strip line) ''--'') (splitlines script);
          joined = join [CHR 0x0A] code_lines
      in map strip (filter (\<lambda>st. strip st \<noteq> []) (split_on (CHR '';'') joined)))"

section \<open>Backend selection\<close>

datatype backend_kind = DUCKDB | POSTGRES | MYSQL | MSSQL

fun backend_kind_value :: "backend_kind \<Rightarrow> string" where
  "backend_kind_value DUCKDB = ''duckdb''"
| "backend_kind_value POSTGRES = ''postgres''"
| "backend_kind_value MYSQL = ''mysql''"
| "backend_kind_value MSSQL = ''mssql''"

definition backend_kind_of :: "string \<Rightarrow> backend_kind option" where
  "backend_kind_of token = find (\<lambda>k. backend_kind_value k = token) [DUCKDB, POSTGRES, MYSQL, MSSQL]"

record backend_settings =
  set_backend :: "backend_kind option"
  set_pg_dsn :: "string option"
  set_pg_host :: "string option"
  set_pg_port :: "int option"
  set_pg_db :: "string option"
  set_pg_user :: "string option"
  set_pg_password :: "string option"
  set_mysql_dsn :: "string option"
  set_mysql_host :: "string option"
  set_mysql_port :: "int option"
  set_mysql_db :: "string option"
  set_mysql_user :: "string option"
  set_mysql_password :: "string option"
  set_mssql_dsn :: "string option"
  set_mssql_host :: "string option"
  set_mssql_port :: "int option"
  set_mssql_db :: "string option"
  set_mssql_user :: "string option"
  set_mssql_password :: "string option"

definition backend :: "backend_settings \<Rightarrow> environ \<Rightarrow> backend_kind" where
  "backend s env =
     (case set_backend s of
        Some k \<Rightarrow> k
      | None \<Rightarrow>
          (case env ''LAVS_DB_BACKEND'' of
             None \<Rightarrow> DUCKDB
           | Some raw \<Rightarrow>
               if strip raw = [] then DUCKDB
               else (case backend_kind_of (lower (strip raw)) of None \<Rightarrow> DUCKDB | Some k \<Rightarrow> k)))"

text \<open>The four shapes of accessor: raw text, stripped text, stripped text with a default, integer.\<close>

definition env_raw :: "environ \<Rightarrow> string \<Rightarrow> string option" where
  "env_raw env name = (case env name of None \<Rightarrow> None | Some raw \<Rightarrow> if strip raw \<noteq> [] then Some raw else None)"

definition env_stripped :: "environ \<Rightarrow> string \<Rightarrow> string option" where
  "env_stripped env name = map_option strip (env_raw env name)"

definition or_env :: "'a option \<Rightarrow> 'a option \<Rightarrow> 'a option" where
  "or_env override v = (case override of Some x \<Rightarrow> Some x | None \<Rightarrow> v)"

definition or_text :: "string option \<Rightarrow> string option \<Rightarrow> string \<Rightarrow> string" where
  "or_text override v fallback = (case or_env override v of Some x \<Rightarrow> x | None \<Rightarrow> fallback)"

definition or_int :: "int option \<Rightarrow> int outcome \<Rightarrow> int outcome" where
  "or_int override v = (case override of Some n \<Rightarrow> Inr n | None \<Rightarrow> v)"

definition pg_dsn :: "backend_settings \<Rightarrow> environ \<Rightarrow> string option" where
  "pg_dsn s env = or_env (set_pg_dsn s) (env_raw env ''LAVS_PG_DSN'')"

definition pg_host :: "backend_settings \<Rightarrow> environ \<Rightarrow> string" where
  "pg_host s env = or_text (set_pg_host s) (env_stripped env ''LAVS_PG_HOST'') ''localhost''"

definition pg_port :: "backend_settings \<Rightarrow> environ \<Rightarrow> int outcome" where
  "pg_port s env = or_int (set_pg_port s) (env_int env ''LAVS_PG_PORT'' 5432)"

definition pg_db :: "backend_settings \<Rightarrow> environ \<Rightarrow> string option" where
  "pg_db s env = or_env (set_pg_db s) (env_stripped env ''LAVS_PG_DB'')"

definition pg_user :: "backend_settings \<Rightarrow> environ \<Rightarrow> string option" where
  "pg_user s env = or_env (set_pg_user s) (env_stripped env ''LAVS_PG_USER'')"

definition pg_password :: "backend_settings \<Rightarrow> environ \<Rightarrow> string option" where
  "pg_password s env = or_env (set_pg_password s) (env_raw env ''LAVS_PG_PASSWORD'')"

definition mysql_dsn :: "backend_settings \<Rightarrow> environ \<Rightarrow> string option" where
  "mysql_dsn s env = or_env (set_mysql_dsn s) (env_raw env ''LAVS_MYSQL_DSN'')"

definition mysql_host :: "backend_settings \<Rightarrow> environ \<Rightarrow> string" where
  "mysql_host s env = or_text (set_mysql_host s) (env_stripped env ''LAVS_MYSQL_HOST'') ''localhost''"

definition mysql_port :: "backend_settings \<Rightarrow> environ \<Rightarrow> int outcome" where
  "mysql_port s env = or_int (set_mysql_port s) (env_int env ''LAVS_MYSQL_PORT'' 3306)"

definition mysql_db :: "backend_settings \<Rightarrow> environ \<Rightarrow> string option" where
  "mysql_db s env = or_env (set_mysql_db s) (env_stripped env ''LAVS_MYSQL_DB'')"

definition mysql_user :: "backend_settings \<Rightarrow> environ \<Rightarrow> string option" where
  "mysql_user s env = or_env (set_mysql_user s) (env_stripped env ''LAVS_MYSQL_USER'')"

definition mysql_password :: "backend_settings \<Rightarrow> environ \<Rightarrow> string option" where
  "mysql_password s env = or_env (set_mysql_password s) (env_raw env ''LAVS_MYSQL_PASSWORD'')"

definition mssql_dsn :: "backend_settings \<Rightarrow> environ \<Rightarrow> string option" where
  "mssql_dsn s env = or_env (set_mssql_dsn s) (env_raw env ''LAVS_MSSQL_DSN'')"

definition mssql_host :: "backend_settings \<Rightarrow> environ \<Rightarrow> string" where
  "mssql_host s env = or_text (set_mssql_host s) (env_stripped env ''LAVS_MSSQL_HOST'') ''localhost''"

definition mssql_port :: "backend_settings \<Rightarrow> environ \<Rightarrow> int outcome" where
  "mssql_port s env = or_int (set_mssql_port s) (env_int env ''LAVS_MSSQL_PORT'' 1433)"

definition mssql_db :: "backend_settings \<Rightarrow> environ \<Rightarrow> string option" where
  "mssql_db s env = or_env (set_mssql_db s) (env_stripped env ''LAVS_MSSQL_DB'')"

definition mssql_user :: "backend_settings \<Rightarrow> environ \<Rightarrow> string option" where
  "mssql_user s env = or_env (set_mssql_user s) (env_stripped env ''LAVS_MSSQL_USER'')"

definition mssql_password :: "backend_settings \<Rightarrow> environ \<Rightarrow> string option" where
  "mssql_password s env = or_env (set_mssql_password s) (env_raw env ''LAVS_MSSQL_PASSWORD'')"

section \<open>Connection arguments\<close>

datatype kwarg = KText string | KInt int | KBool bool

type_synonym kwargs = "(string, kwarg) dict"

definition opt_kwarg :: "string \<Rightarrow> string option \<Rightarrow> kwargs" where
  "opt_kwarg name v = (case v of None \<Rightarrow> [] | Some x \<Rightarrow> [(name, KText x)])"

definition pg_connection_kwargs :: "backend_settings \<Rightarrow> environ \<Rightarrow> kwargs outcome" where
  "pg_connection_kwargs s env =
     (case pg_dsn s env of
        Some dsn \<Rightarrow> Inr [(''conninfo'', KText dsn)]
      | None \<Rightarrow>
          (case pg_port s env of
             Inl e \<Rightarrow> Inl e
           | Inr port \<Rightarrow>
               Inr ([(''host'', KText (pg_host s env)), (''port'', KInt port)]
                    @ opt_kwarg ''dbname'' (pg_db s env) @ opt_kwarg ''user'' (pg_user s env)
                    @ opt_kwarg ''password'' (pg_password s env))))"

text \<open>The DSN of the two drivers that take none: what \<open>urlsplit\<close> returns; reading the port of a malformed one is a \<open>ValueError\<close>.\<close>

record url_parts =
  up_hostname :: "string option"
  up_port :: "int option outcome"
  up_username :: "string option"
  up_password :: "string option"
  up_path :: string

definition truthy_text :: "string option \<Rightarrow> string option" where
  "truthy_text v = (case v of None \<Rightarrow> None | Some s \<Rightarrow> if s = [] then None else Some s)"

definition kwargs_from_dsn :: "(string \<Rightarrow> string) \<Rightarrow> string \<Rightarrow> url_parts \<Rightarrow> kwargs outcome" where
  "kwargs_from_dsn unquote host_key parts =
     (case up_port parts of
        Inl e \<Rightarrow> Inl e
      | Inr port \<Rightarrow>
          let database = dropWhile (\<lambda>c. c = CHR ''/'') (up_path parts)
          in Inr (opt_kwarg host_key (truthy_text (up_hostname parts))
                  @ (case port of None \<Rightarrow> [] | Some p \<Rightarrow> [(''port'', KInt p)])
                  @ opt_kwarg ''user'' (map_option unquote (truthy_text (up_username parts)))
                  @ opt_kwarg ''password'' (map_option unquote (truthy_text (up_password parts)))
                  @ opt_kwarg ''database'' (truthy_text (Some database))))"

definition mysql_kwargs_from_dsn :: "(string \<Rightarrow> string) \<Rightarrow> url_parts \<Rightarrow> kwargs outcome" where
  "mysql_kwargs_from_dsn unquote parts = kwargs_from_dsn unquote ''host'' parts"

definition mssql_kwargs_from_dsn :: "(string \<Rightarrow> string) \<Rightarrow> url_parts \<Rightarrow> kwargs outcome" where
  "mssql_kwargs_from_dsn unquote parts = kwargs_from_dsn unquote ''server'' parts"

definition mysql_connection_kwargs ::
  "(string \<Rightarrow> url_parts) \<Rightarrow> (string \<Rightarrow> string) \<Rightarrow> backend_settings \<Rightarrow> environ \<Rightarrow> kwargs outcome" where
  "mysql_connection_kwargs urlsplit unquote s env =
     (case mysql_dsn s env of
        Some dsn \<Rightarrow> mysql_kwargs_from_dsn unquote (urlsplit dsn)
      | None \<Rightarrow>
          (case mysql_port s env of
             Inl e \<Rightarrow> Inl e
           | Inr port \<Rightarrow>
               Inr ([(''host'', KText (mysql_host s env)), (''port'', KInt port)]
                    @ opt_kwarg ''database'' (mysql_db s env) @ opt_kwarg ''user'' (mysql_user s env)
                    @ opt_kwarg ''password'' (mysql_password s env))))"

definition mssql_connection_kwargs ::
  "(string \<Rightarrow> url_parts) \<Rightarrow> (string \<Rightarrow> string) \<Rightarrow> backend_settings \<Rightarrow> environ \<Rightarrow> kwargs outcome" where
  "mssql_connection_kwargs urlsplit unquote s env =
     (case (case mssql_dsn s env of
              Some dsn \<Rightarrow> mssql_kwargs_from_dsn unquote (urlsplit dsn)
            | None \<Rightarrow>
                (case mssql_port s env of
                   Inl e \<Rightarrow> Inl e
                 | Inr port \<Rightarrow>
                     Inr ([(''server'', KText (mssql_host s env)), (''port'', KInt port)]
                          @ opt_kwarg ''database'' (mssql_db s env) @ opt_kwarg ''user'' (mssql_user s env)
                          @ opt_kwarg ''password'' (mssql_password s env)))) of
        Inl e \<Rightarrow> Inl e
      | Inr kwargs \<Rightarrow> Inr (dict_set ''autocommit'' (KBool True) kwargs))"

section \<open>What differs per backend\<close>

fun backend_param_style :: "backend_kind \<Rightarrow> param_style" where
  "backend_param_style DUCKDB = QMARK"
| "backend_param_style _ = PYFORMAT"

fun backend_dialect :: "backend_kind \<Rightarrow> statement_dialect" where
  "backend_dialect MSSQL = TSQL"
| "backend_dialect _ = ANSI"

fun current_schema_expression :: "backend_kind \<Rightarrow> string" where
  "current_schema_expression MYSQL = ''DATABASE()''"
| "current_schema_expression MSSQL = ''SCHEMA_NAME()''"
| "current_schema_expression _ = ''current_schema()''"

fun rename_table :: "backend_kind \<Rightarrow> string \<Rightarrow> string \<Rightarrow> string \<times> string list option" where
  "rename_table MSSQL old new = (''EXEC sp_rename ?, ?'', Some [old, new])"
| "rename_table _ old new = (''ALTER TABLE '' @ old @ '' RENAME TO '' @ new, None)"

text \<open>The statements \<open>init_schema\<close> executes: the whole script at once on DuckDB, one by one elsewhere.\<close>

fun init_schema_statements :: "backend_kind \<Rightarrow> string \<Rightarrow> string list" where
  "init_schema_statements DUCKDB ddl = [ddl]"
| "init_schema_statements _ ddl = ddl_statements ddl"

text \<open>The factory's registry: a builder per kind, the last registration wins.\<close>

type_synonym 'b backend_registry = "(backend_kind, backend_settings \<Rightarrow> 'b) dict"

definition register_backend ::
  "backend_kind \<Rightarrow> (backend_settings \<Rightarrow> 'b) \<Rightarrow> 'b backend_registry \<Rightarrow> 'b backend_registry" where
  "register_backend kind builder registry = dict_set kind builder registry"

definition unsupported_message :: "backend_kind \<Rightarrow> backend_kind list \<Rightarrow> string" where
  "unsupported_message kind available =
     ''No builder registered for backend '' @ squoted (backend_kind_value kind) @ ''. Available: ''
     @ join '', '' (sort (map backend_kind_value available)) @ ''.''"

definition create_backend :: "'b backend_registry \<Rightarrow> backend_settings \<Rightarrow> environ \<Rightarrow> string + 'b" where
  "create_backend registry s env =
     (let kind = backend s env
      in case dict_get registry kind of
           None \<Rightarrow> Inl (unsupported_message kind (keys registry))
         | Some builder \<Rightarrow> Inr (builder s))"

definition package_registry :: "(backend_kind \<Rightarrow> backend_settings \<Rightarrow> 'b) \<Rightarrow> 'b backend_registry" where
  "package_registry build =
     register_backend MSSQL (build MSSQL) (register_backend MYSQL (build MYSQL)
       (register_backend POSTGRES (build POSTGRES) [(DUCKDB, build DUCKDB)]))"

section \<open>What the driver binds\<close>

text \<open>
  A statement with placeholders as the DB-API (PEP 249) describes it: text and slots. In the \<open>qmark\<close> style a slot is
  written \<open>?\<close>; in the \<open>pyformat\<close> style it is written \<open>%s\<close> and a percent sign of the text is
  doubled. Binding puts the literals of the values into the slots; there have to be as many.
\<close>

datatype piece = Text string | Slot

fun written :: "param_style \<Rightarrow> piece \<Rightarrow> string" where
  "written QMARK (Text t) = t"
| "written QMARK Slot = ''?''"
| "written PYFORMAT (Text t) = concat (map (\<lambda>c. if c = CHR ''%'' then ''%%'' else [c]) t)"
| "written PYFORMAT Slot = ''%s''"

fun bind_slots :: "('v \<Rightarrow> string) \<Rightarrow> piece list \<Rightarrow> 'v list \<Rightarrow> string option" where
  "bind_slots literal [] vs = (if vs = [] then Some [] else None)"
| "bind_slots literal (Text t # ps) vs = map_option (\<lambda>s. t @ s) (bind_slots literal ps vs)"
| "bind_slots literal (Slot # ps) [] = None"
| "bind_slots literal (Slot # ps) (v # vs) = map_option (\<lambda>s. literal v @ s) (bind_slots literal ps vs)"

fun unmarked :: "piece \<Rightarrow> bool" where
  "unmarked (Text t) \<longleftrightarrow> CHR ''?'' \<notin> set t"
| "unmarked Slot \<longleftrightarrow> True"

text \<open>
  What the four drivers document of \<open>execute\<close>: \<open>run sql vs\<close> is the statement the server is asked to run, or
  \<open>None\<close> when the driver refuses. Without parameters a text is sent as it is, percent signs included; with
  parameters (at least one) a statement in the driver's style is bound.
\<close>

definition documented_driver ::
  "param_style \<Rightarrow> ('v \<Rightarrow> string) \<Rightarrow> (string \<Rightarrow> 'v list option \<Rightarrow> string option) \<Rightarrow> bool" where
  "documented_driver style literal run \<longleftrightarrow>
     (\<forall>sql. run sql None = Some sql) \<and>
     (\<forall>pieces vs. list_all unmarked pieces \<longrightarrow> vs \<noteq> [] \<longrightarrow>
        run (concat (map (written style) pieces)) (Some vs) = bind_slots literal pieces vs)"

text \<open>How a portable statement is meant: its question marks are its slots.\<close>

definition pieces_of :: "string \<Rightarrow> piece list" where
  "pieces_of sql = map (\<lambda>c. if c = CHR ''?'' then Slot else Text [c]) sql"

lemma render_pyformat_Cons:
  "render_params PYFORMAT (c # s) =
     (if c = CHR ''%'' then ''%%'' else if c = CHR ''?'' then ''%s'' else [c]) @ render_params PYFORMAT s"
  by (simp add: render_params_def replace_char_def Let_def)

lemma render_is_written: "render_params style sql = concat (map (written style) (pieces_of sql))"
proof (cases style)
  case QMARK
  then show ?thesis by (induction sql) (simp_all add: render_params_def pieces_of_def)
next
  case PYFORMAT
  have "render_params PYFORMAT sql = concat (map (written PYFORMAT) (pieces_of sql))"
  proof (induction sql)
    case Nil
    then show ?case by (simp add: render_params_def replace_char_def pieces_of_def)
  next
    case (Cons c sql)
    then show ?case by (simp add: render_pyformat_Cons pieces_of_def)
  qed
  with PYFORMAT show ?thesis by simp
qed

lemma pieces_unmarked: "list_all unmarked (pieces_of sql)"
  by (induction sql) (simp_all add: pieces_of_def)

lemma bind_slots_defined:
  "bind_slots literal (pieces_of sql) vs \<noteq> None \<longleftrightarrow> length vs = length (filter (\<lambda>c. c = CHR ''?'') sql)"
proof (induction sql arbitrary: vs)
  case (Cons c sql)
  then show ?case by (cases vs) (simp_all add: pieces_of_def)
qed (simp add: pieces_of_def)

lemma no_mark_in_space: "is_space c \<Longrightarrow> c \<noteq> CHR ''?''"
  by (auto simp: is_space_def code_def)

lemma no_mark_in_digit: "is_digit c \<Longrightarrow> c \<noteq> CHR ''?''"
  by (auto simp: is_digit_def code_def)

lemma no_mark_filter: "(\<And>c. c \<in> set s \<Longrightarrow> P c) \<Longrightarrow> (\<And>c. P c \<Longrightarrow> c \<noteq> CHR ''?'') \<Longrightarrow> filter (\<lambda>c. c = CHR ''?'') s = []"
  by (auto simp: filter_empty_conv)

text \<open>The match of the trailing limit splits the statement into five pieces.\<close>

lemma trailing_limit_Some:
  assumes "trailing_limit sql = Some (body, digs)"
  obtains ws kw ws2 ws3 where "sql = body @ ws @ kw @ ws2 @ digs @ ws3" "lower kw = ''limit''"
    "\<forall>c\<in>set (ws @ ws2 @ ws3). is_space c" "\<forall>c\<in>set digs. is_digit c" "digs \<noteq> []" "ws \<noteq> []" "ws2 \<noteq> []"
proof -
  define r1 r2 r3 r4 r5 where r: "r1 = dropWhile is_space (rev sql)" "r2 = dropWhile is_digit r1"
    "r3 = dropWhile is_space r2" "r4 = drop 5 r3" "r5 = dropWhile is_space r4"
  have m: "takeWhile is_digit r1 \<noteq> []" "r3 \<noteq> r2" "lower (take 5 r3) = ''timil''" "r5 \<noteq> r4"
    "body = rev r5" "digs = rev (takeWhile is_digit r1)"
    using assms by (auto simp: trailing_limit_def Let_def r split: if_splits)
  have "rev sql = takeWhile is_space (rev sql) @ takeWhile is_digit r1 @ takeWhile is_space r2 @ take 5 r3 @
      takeWhile is_space r4 @ r5"
    by (simp add: r)
  then have "sql = rev (takeWhile is_space (rev sql) @ takeWhile is_digit r1 @ takeWhile is_space r2 @ take 5 r3 @
      takeWhile is_space r4 @ r5)" by (metis rev_rev_ident)
  then have eq: "sql = body @ rev (takeWhile is_space r4) @ rev (take 5 r3) @ rev (takeWhile is_space r2) @ digs @
      rev (takeWhile is_space (rev sql))"
    using m(5,6) by simp
  have kw: "lower (rev (take 5 r3)) = ''limit''" using arg_cong[OF m(3), of rev] by (simp add: lower_def rev_map)
  have ne: "takeWhile is_space r4 \<noteq> []" "takeWhile is_space r2 \<noteq> []"
    using m(2,4) r by (metis append_Nil takeWhile_dropWhile_id)+
  show thesis
    by (rule that[OF eq kw]) (use m(1,6) ne in \<open>auto dest: set_takeWhileD\<close>)
qed

lemma dialect_keeps_placeholders:
  "filter (\<lambda>c. c = CHR ''?'') (render_dialect d sql) = filter (\<lambda>c. c = CHR ''?'') sql"
proof (cases d)
  case TSQL
  show ?thesis
  proof (cases "trailing_limit sql")
    case (Some m)
    then obtain body digs where m: "trailing_limit sql = Some (body, digs)" by (cases m) simp
    obtain ws kw ws2 ws3 where p: "sql = body @ ws @ kw @ ws2 @ digs @ ws3" "lower kw = ''limit''"
      "\<forall>c\<in>set (ws @ ws2 @ ws3). is_space c" "\<forall>c\<in>set digs. is_digit c"
      using trailing_limit_Some[OF m] by metis
    have "CHR ''?'' \<notin> set kw"
    proof
      assume "CHR ''?'' \<in> set kw"
      then have "lower_char (CHR ''?'') \<in> set ''limit''" using p(2) unfolding lower_def by (metis image_eqI list.set_map)
      then show False by (simp add: lower_char_def code_def)
    qed
    then have kw: "filter (\<lambda>c. c = CHR ''?'') kw = []" by (auto simp: filter_empty_conv)
    have ds: "filter (\<lambda>c. c = CHR ''?'') digs = []" using p(4) no_mark_in_digit by (auto simp: filter_empty_conv)
    have ws: "filter (\<lambda>c. c = CHR ''?'') ws = []" "filter (\<lambda>c. c = CHR ''?'') ws2 = []" "filter (\<lambda>c. c = CHR ''?'') ws3 = []"
      using p(3) no_mark_in_space by (auto simp: filter_empty_conv)
    have whole: "filter (\<lambda>c. c = CHR ''?'') sql = filter (\<lambda>c. c = CHR ''?'') body"
      using kw ds ws by (simp add: p(1))
    have split: "filter (\<lambda>c. c = CHR ''?'') (take h body) @ filter (\<lambda>c. c = CHR ''?'') (drop h body)
        = filter (\<lambda>c. c = CHR ''?'') body" for h
      by (metis append_take_drop_id filter_append)
    show ?thesis using whole split ds by (auto simp: render_dialect_def TSQL m split: option.split)
  qed (simp add: render_dialect_def TSQL)
qed (simp add: render_dialect_def)

section \<open>A script and its statements\<close>

text \<open>A script as written: statements over one or more lines, comment lines, and blank lines between them.\<close>

datatype ddl_item = Statement "string list" | Comment string | Blank string

abbreviation newline :: char where
  "newline \<equiv> CHR 0x0A"

fun ddl_lines :: "ddl_item \<Rightarrow> string list" where
  "ddl_lines (Statement ls) = butlast ls @ [last ls @ '';'']"
| "ddl_lines (Comment c) = [''--'' @ c]"
| "ddl_lines (Blank w) = [w]"

definition script_of :: "ddl_item list \<Rightarrow> string" where
  "script_of items = concat (map (\<lambda>l. l @ [newline]) (concat (map ddl_lines items)))"

fun statement_text :: "ddl_item \<Rightarrow> string list" where
  "statement_text (Statement ls) = [join [newline] ls]"
| "statement_text (Comment c) = []"
| "statement_text (Blank w) = []"

fun item_ok :: "ddl_item \<Rightarrow> bool" where
  "item_ok (Statement ls) \<longleftrightarrow>
     ls \<noteq> [] \<and> list_all (\<lambda>l. \<not> startswith (strip l) ''--'') (ddl_lines (Statement ls)) \<and>
     list_all (\<lambda>l. list_all (\<lambda>c. \<not> is_line_break c \<and> c \<noteq> CHR '';'') l) ls \<and>
     join [newline] ls \<noteq> [] \<and> strip (join [newline] ls) = join [newline] ls"
| "item_ok (Comment c) \<longleftrightarrow> list_all (\<lambda>c. \<not> is_line_break c) c"
| "item_ok (Blank w) \<longleftrightarrow> list_all (\<lambda>c. is_space c \<and> \<not> is_line_break c) w"

fun code_item :: "ddl_item \<Rightarrow> bool" where
  "code_item (Comment c) \<longleftrightarrow> False"
| "code_item item \<longleftrightarrow> True"

lemma splitlines_line:
  "list_all (\<lambda>c. \<not> is_line_break c) l \<Longrightarrow> splitlines (l @ newline # s) = l # splitlines s"
proof (induction l)
  case (Cons c l)
  have "code c \<noteq> 13" using Cons.prems by (auto simp: is_line_break_def)
  with Cons show ?case by simp
qed (simp add: is_line_break_def code_def)

lemma splitlines_script:
  "list_all (list_all (\<lambda>c. \<not> is_line_break c)) ls \<Longrightarrow> splitlines (concat (map (\<lambda>l. l @ [newline]) ls)) = ls"
  by (induction ls) (simp_all add: splitlines_line)

lemma join_append: "ls \<noteq> [] \<Longrightarrow> ms \<noteq> [] \<Longrightarrow> join sep (ls @ ms) = join sep ls @ sep @ join sep ms"
proof (induction sep ls rule: join.induct)
  case (2 sep w)
  then show ?case by (cases ms) simp_all
qed simp_all

lemma join_last: "ls \<noteq> [] \<Longrightarrow> join sep (butlast ls @ [last ls @ t]) = join sep ls @ t"
proof (induction sep ls rule: join.induct)
  case (3 sep w v ws)
  then show ?case by (cases ws) simp_all
qed simp_all

definition clean_parts :: "string \<Rightarrow> string list" where
  "clean_parts s = map strip (filter (\<lambda>st. strip st \<noteq> []) (split_on (CHR '';'') s))"

lemma clean_parts_space: "is_space c \<Longrightarrow> clean_parts (c # s) = clean_parts s"
proof -
  assume c: "is_space c"
  then have "c \<noteq> CHR '';''" by (auto simp: is_space_def code_def)
  moreover have "strip (c # t) = strip t" for t using c by (simp add: strip_def lstrip_def)
  ultimately show ?thesis
    by (cases "split_on (CHR '';'') s") (simp_all add: clean_parts_def)
qed

lemma clean_parts_blank: "list_all is_space w \<Longrightarrow> clean_parts (w @ s) = clean_parts s"
  by (induction w) (simp_all add: clean_parts_space)

lemma space_newline: "is_space newline"
  by (simp add: is_space_def code_def)

lemma clean_parts_statement:
  "CHR '';'' \<notin> set t \<Longrightarrow> strip t = t \<Longrightarrow> t \<noteq> [] \<Longrightarrow> clean_parts (t @ CHR '';'' # s) = t # clean_parts s"
  by (simp add: clean_parts_def)

lemma set_joined_lines: "set (join sep ls) \<subseteq> set sep \<union> (\<Union>l\<in>set ls. set l)"
  by (induction sep ls rule: join.induct) auto

lemma ddl_lines_not_Nil [simp]: "ddl_lines item \<noteq> []"
  by (cases item) simp_all

lemma clean_parts_items:
  "list_all item_ok items \<Longrightarrow> list_all code_item items \<Longrightarrow>
     clean_parts (join [newline] (concat (map ddl_lines items))) = concat (map statement_text items)"
proof (induction items)
  case Nil
  then show ?case by (simp add: clean_parts_def strip_def lstrip_def)
next
  case (Cons item items)
  let ?rest = "concat (map ddl_lines items)"
  have IH: "clean_parts (join [newline] ?rest) = concat (map statement_text items)" using Cons by simp
  have rest: "?rest = [] \<longleftrightarrow> items = []" by (cases items) simp_all
  have glue: "join [newline] (ddl_lines item @ ?rest) =
      join [newline] (ddl_lines item) @ (if items = [] then [] else newline # join [newline] ?rest)"
    using join_append[of "ddl_lines item" ?rest "[newline]"] rest by auto
  have tail: "clean_parts (if items = [] then [] else newline # join [newline] ?rest) = concat (map statement_text items)"
    using IH by (cases items) (simp_all add: clean_parts_space[OF space_newline])
  show ?case
  proof (cases item)
    case (Statement ls)
    let ?t = "join [newline] ls"
    have ok: "ls \<noteq> []" "?t \<noteq> []" "strip ?t = ?t" using Cons.prems(1) by (simp_all add: Statement)
    have semi: "CHR '';'' \<notin> set ?t"
      using set_joined_lines[of "[newline]" ls] Cons.prems(1) by (auto simp: Statement list_all_iff)
    have "join [newline] (ddl_lines item) = ?t @ '';''"
      using join_last[OF ok(1), of "[newline]" "'';''"] by (simp add: Statement)
    with glue have "join [newline] (concat (map ddl_lines (item # items))) =
        ?t @ CHR '';'' # (if items = [] then [] else newline # join [newline] ?rest)" by simp
    with clean_parts_statement[OF semi ok(3,2)] tail show ?thesis by (simp add: Statement)
  next
    case (Comment c)
    with Cons.prems(2) show ?thesis by simp
  next
    case (Blank w)
    then have "list_all is_space w" using Cons.prems(1) by (auto simp: list_all_iff)
    with clean_parts_blank glue tail show ?thesis by (simp add: Blank)
  qed
qed

lemma strip_comment: "startswith (strip (''--'' @ c)) ''--''"
proof -
  have "lstrip (''--'' @ c) = ''--'' @ c" by (simp add: lstrip_def is_space_def code_def)
  moreover have "dropWhile is_space (rev c @ ''--'') = dropWhile is_space (rev c) @ ''--''"
    by (induction c rule: rev_induct) (simp_all add: is_space_def code_def)
  ultimately show ?thesis by (simp add: strip_def lstrip_def)
qed

lemma code_lines:
  "list_all item_ok items \<Longrightarrow>
     filter (\<lambda>line. \<not> startswith (strip line) ''--'') (concat (map ddl_lines items)) =
       concat (map ddl_lines (filter code_item items))"
proof (induction items)
  case (Cons item items)
  have "filter (\<lambda>line. \<not> startswith (strip line) ''--'') (ddl_lines item) = (if code_item item then ddl_lines item else [])"
  proof (cases item)
    case (Statement ls)
    then show ?thesis
      using Cons.prems by (simp add: filter_True list_all_iff)
  next
    case (Comment c)
    with strip_comment[of c] show ?thesis by simp
  next
    case (Blank w)
    then have "\<forall>c\<in>set w. is_space c" using Cons.prems by (auto simp: list_all_iff)
    then have "lstrip w = []" by (simp add: lstrip_def)
    then have "strip w = []" by (simp add: strip_def) (simp add: lstrip_def)
    with Blank show ?thesis by simp
  qed
  with Cons show ?case by simp
qed simp

lemma lines_unbroken: "item_ok item \<Longrightarrow> list_all (list_all (\<lambda>c. \<not> is_line_break c)) (ddl_lines item)"
proof (cases item)
  case (Statement ls)
  assume ok: "item_ok item"
  then have "\<forall>l\<in>set ls. \<forall>c\<in>set l. \<not> is_line_break c" and "ls \<noteq> []" by (auto simp: Statement list_all_iff)
  then show ?thesis
    by (auto simp: Statement list_all_iff is_line_break_def code_def dest: in_set_butlastD last_in_set)
next
  case (Comment c)
  assume "item_ok item"
  then show ?thesis by (simp add: Comment is_line_break_def code_def list_all_iff)
next
  case (Blank w)
  assume "item_ok item"
  then show ?thesis by (simp add: Blank list_all_iff)
qed

text \<open>
  A DDL script is cut into exactly its statements: the splitter returns the
  statements' texts in order, comments and blank lines gone.
\<close>

lemma ddl_statements_script:
  assumes "list_all item_ok items"
  shows "ddl_statements (script_of items) = concat (map statement_text items)"
proof -
  let ?code = "filter code_item items"
  have "list_all (list_all (\<lambda>c. \<not> is_line_break c)) (concat (map ddl_lines items))"
    using assms lines_unbroken by (induction items) auto
  then have "splitlines (script_of items) = concat (map ddl_lines items)"
    unfolding script_of_def by (rule splitlines_script)
  then have "ddl_statements (script_of items) = clean_parts (join [newline] (concat (map ddl_lines ?code)))"
    by (simp add: ddl_statements_def Let_def code_lines[OF assms] clean_parts_def)
  also have "\<dots> = concat (map statement_text ?code)"
    by (rule clean_parts_items) (use assms in \<open>simp_all add: list_all_iff\<close>)
  also have "\<dots> = concat (map statement_text items)"
  proof (induction items)
    case (Cons item items)
    then show ?case by (cases item) simp_all
  qed simp
  finally show ?thesis .
qed

section \<open>Properties\<close>

lemma render_dialect_chars: "set (render_dialect dialect sql) \<subseteq> set sql \<union> set ''TOP ''"
proof -
  have "set body \<union> set digs \<subseteq> set sql" if "trailing_limit sql = Some (body, digs)" for body digs
    using that by (rule trailing_limit_Some) auto
  then show ?thesis
    by (cases dialect; cases "trailing_limit sql"; cases "select_head_end sql")
       (fastforce simp: render_dialect_def dest: in_set_takeD in_set_dropD)+
qed

lemma render_plain: "CHR ''%'' \<notin> set sql \<Longrightarrow> CHR ''?'' \<notin> set sql \<Longrightarrow> render_params style sql = sql"
proof (cases style)
  case PYFORMAT
  assume "CHR ''%'' \<notin> set sql" "CHR ''?'' \<notin> set sql"
  then have "render_params PYFORMAT sql = sql"
  proof (induction sql)
    case Nil
    then show ?case by (simp add: render_params_def replace_char_def)
  next
    case (Cons c sql)
    then show ?case by (auto simp: render_pyformat_Cons)
  qed
  with PYFORMAT show ?thesis by simp
qed (simp add: render_params_def)

text \<open>A parameterless statement with a percent sign reaches a \<open>pyformat\<close> server with the sign doubled.\<close>

lemma percent_doubled:
  assumes "documented_driver PYFORMAT literal run"
  shows "run (session_statement PYFORMAT ANSI ''SELECT 1 % 2'') None = Some ''SELECT 1 %% 2''"
  using assms by (simp add: documented_driver_def session_statement_def render_dialect_def render_params_def
      replace_char_def Let_def)


text \<open>A driver that scans the text as the documentation says, over values that are already literals.\<close>

fun scan_pyformat :: "string \<Rightarrow> string list \<Rightarrow> string option" where
  "scan_pyformat [] vs = (if vs = [] then Some [] else None)"
| "scan_pyformat [c] vs = (if c = CHR ''%'' then None else map_option (\<lambda>t. c # t) (scan_pyformat [] vs))"
| "scan_pyformat (c # d # s) vs =
     (if c \<noteq> CHR ''%'' then map_option (\<lambda>t. c # t) (scan_pyformat (d # s) vs)
      else if d = CHR ''%'' then map_option (\<lambda>t. CHR ''%'' # t) (scan_pyformat s vs)
      else if d = CHR ''s''
      then (case vs of [] \<Rightarrow> None | v # vs' \<Rightarrow> map_option (\<lambda>t. v @ t) (scan_pyformat s vs'))
      else None)"

definition scanning_driver :: "string \<Rightarrow> string list option \<Rightarrow> string option" where
  "scanning_driver sql params = (case params of None \<Rightarrow> Some sql | Some vs \<Rightarrow> scan_pyformat sql vs)"

lemma scan_plain: "c \<noteq> CHR ''%'' \<Longrightarrow> scan_pyformat (c # s) vs = map_option (\<lambda>t. c # t) (scan_pyformat s vs)"
  by (cases s) simp_all

lemma scan_text: "scan_pyformat (written PYFORMAT (Text t) @ s) vs = map_option (\<lambda>u. t @ u) (scan_pyformat s vs)"
  by (induction t) (simp_all add: scan_plain option.map_comp o_def option.map_ident)

lemma scanning_documented: "documented_driver PYFORMAT id scanning_driver"
proof -
  have "scan_pyformat (concat (map (written PYFORMAT) pieces)) vs = bind_slots id pieces vs" for pieces vs
  proof (induction pieces arbitrary: vs)
    case (Cons p pieces)
    then show ?case
    proof (cases p)
      case Slot
      with Cons show ?thesis by (cases vs) simp_all
    qed (simp add: scan_text del: written.simps)
  qed simp
  then show ?thesis by (simp add: documented_driver_def scanning_driver_def)
qed


end
