(* ===== verification/Connections.thy ===== *)
theory Connections
  imports Backends
begin

text \<open>
  Sessions over a driver: the \<open>connect\<close> context managers of \<open>src/app/backends/\<close>,
  \<open>DbSession.execute\<close> with the two cursor adapters of \<open>src/app/connections/\<close>, the session
  policy of \<open>src/app/queries/query.py\<close> and \<open>src/app/connections/connection_factory.py\<close>.
  The driver is a parameter: a record of the calls the code
  makes on it, over its own state.
\<close>

section \<open>The driver and the session\<close>

record ('c, 'h, 's) driver =
  drv_connect :: "kwargs \<Rightarrow> 's \<Rightarrow> 'c outcome \<times> 's"
  drv_autocommit :: "'c \<Rightarrow> 's \<Rightarrow> unit outcome \<times> 's"
  drv_execute :: "'c \<Rightarrow> string \<Rightarrow> string list option \<Rightarrow> 's \<Rightarrow> 'h outcome \<times> 's"
  drv_cursor :: "'c \<Rightarrow> 's \<Rightarrow> 'h outcome \<times> 's"
  drv_cursor_execute :: "'h \<Rightarrow> string \<Rightarrow> string list option \<Rightarrow> 's \<Rightarrow> unit outcome \<times> 's"
  drv_close :: "'c \<Rightarrow> 's \<Rightarrow> unit outcome \<times> 's"

text \<open>\<open>ses_adapted\<close>: the raw connection is wrapped in one of the two cursor adapters.\<close>

record 'c db_session =
  ses_connection :: 'c
  ses_adapted :: bool
  ses_param_style :: param_style
  ses_dialect :: statement_dialect

definition adapter_execute ::
  "('c, 'h, 's) driver \<Rightarrow> 'c \<Rightarrow> string \<Rightarrow> string list option \<Rightarrow> 's \<Rightarrow> 'h outcome \<times> 's" where
  "adapter_execute drv c sql params s =
     (case drv_cursor drv c s of
        (Inl e, s1) \<Rightarrow> (Inl e, s1)
      | (Inr cursor, s1) \<Rightarrow>
          (case drv_cursor_execute drv cursor sql params s1 of
             (Inl e, s2) \<Rightarrow> (Inl e, s2)
           | (Inr _, s2) \<Rightarrow> (Inr cursor, s2)))"

definition session_execute ::
  "('c, 'h, 's) driver \<Rightarrow> 'c db_session \<Rightarrow> string \<Rightarrow> string list option \<Rightarrow> 's \<Rightarrow> 'h outcome \<times> 's" where
  "session_execute drv ses sql params s =
     (let rendered = session_statement (ses_param_style ses) (ses_dialect ses) sql
      in (if ses_adapted ses then adapter_execute drv (ses_connection ses) rendered params s
          else drv_execute drv (ses_connection ses) rendered params s))"

section \<open>Opening and closing\<close>

text \<open>PostgreSQL and MySQL switch autocommit on inside the guarded region, before yielding.\<close>

fun sets_autocommit :: "backend_kind \<Rightarrow> bool" where
  "sets_autocommit POSTGRES = True"
| "sets_autocommit MYSQL = True"
| "sets_autocommit _ = False"

fun wraps_connection :: "backend_kind \<Rightarrow> bool" where
  "wraps_connection MYSQL = True"
| "wraps_connection MSSQL = True"
| "wraps_connection _ = False"

definition session_of :: "backend_kind \<Rightarrow> 'c \<Rightarrow> 'c db_session" where
  "session_of kind c =
     \<lparr>ses_connection = c, ses_adapted = wraps_connection kind,
      ses_param_style = backend_param_style kind, ses_dialect = backend_dialect kind\<rparr>"

definition connection_args ::
  "backend_kind \<Rightarrow> (string \<Rightarrow> url_parts) \<Rightarrow> (string \<Rightarrow> string) \<Rightarrow> string \<Rightarrow> backend_settings \<Rightarrow> environ \<Rightarrow>
     kwargs outcome" where
  "connection_args kind urlsplit unquote database_path s env =
     (case kind of
        DUCKDB \<Rightarrow> Inr [(''database'', KText database_path)]
      | POSTGRES \<Rightarrow> pg_connection_kwargs s env
      | MYSQL \<Rightarrow> mysql_connection_kwargs urlsplit unquote s env
      | MSSQL \<Rightarrow> mssql_connection_kwargs urlsplit unquote s env)"

text \<open>
  \<open>with backend.connect() as session: body\<close>. An exception of \<open>close\<close> in the \<open>finally\<close> replaces the
  outcome of the body.
\<close>

definition with_connection ::
  "('c, 'h, 's) driver \<Rightarrow> backend_kind \<Rightarrow> kwargs outcome \<Rightarrow> ('c db_session \<Rightarrow> 's \<Rightarrow> 'b outcome \<times> 's) \<Rightarrow>
     's \<Rightarrow> 'b outcome \<times> 's" where
  "with_connection drv kind args body s =
     (case args of
        Inl e \<Rightarrow> (Inl e, s)
      | Inr kwargs \<Rightarrow>
          (case drv_connect drv kwargs s of
             (Inl e, s1) \<Rightarrow> (Inl e, s1)
           | (Inr c, s1) \<Rightarrow>
               let (ready, s2) = (if sets_autocommit kind then drv_autocommit drv c s1 else (Inr (), s1));
                   (result, s3) = (case ready of Inl e \<Rightarrow> (Inl e, s2) | Inr _ \<Rightarrow> body (session_of kind c) s2);
                   (closed, s4) = drv_close drv c s3
               in (case closed of Inl e \<Rightarrow> (Inl e, s4) | Inr _ \<Rightarrow> (result, s4))))"

text \<open>\<open>Query.execute\<close>: the given session is reused; without one, the configured backend opens its own.\<close>

definition run_query ::
  "('c, 'h, 's) driver \<Rightarrow> backend_kind \<Rightarrow> kwargs outcome \<Rightarrow> ('c db_session \<Rightarrow> 's \<Rightarrow> 'b outcome \<times> 's) \<Rightarrow>
     'c db_session option \<Rightarrow> 's \<Rightarrow> 'b outcome \<times> 's" where
  "run_query drv kind args apply_query connection s =
     (case connection of
        Some ses \<Rightarrow> apply_query ses s
      | None \<Rightarrow> with_connection drv kind args apply_query s)"

text \<open>\<open>init_schema\<close> runs its statements in order and stops at the first that raises.\<close>

fun execute_all ::
  "('c, 'h, 's) driver \<Rightarrow> 'c db_session \<Rightarrow> string list \<Rightarrow> 's \<Rightarrow> unit outcome \<times> 's" where
  "execute_all drv ses [] s = (Inr (), s)"
| "execute_all drv ses (sql # sqls) s =
     (case session_execute drv ses sql None s of
        (Inl e, s1) \<Rightarrow> (Inl e, s1)
      | (Inr _, s1) \<Rightarrow> execute_all drv ses sqls s1)"

definition init_schema ::
  "('c, 'h, 's) driver \<Rightarrow> backend_kind \<Rightarrow> string \<Rightarrow> 'c db_session \<Rightarrow> 's \<Rightarrow> unit outcome \<times> 's" where
  "init_schema drv kind ddl ses s = execute_all drv ses (init_schema_statements kind ddl) s"

section \<open>The older connection factory\<close>

text \<open>\<open>path\<close> is the outcome of \<open>Configuration.database_path\<close>.\<close>

definition duckdb_connection ::
  "('c, 'h, 's) driver \<Rightarrow> string outcome \<Rightarrow> ('c \<Rightarrow> 's \<Rightarrow> 'b outcome \<times> 's) \<Rightarrow> 's \<Rightarrow> 'b outcome \<times> 's" where
  "duckdb_connection drv path body s =
     (case path of
        Inl e \<Rightarrow> (Inl e, s)
      | Inr p \<Rightarrow>
          (case drv_connect drv [(''database'', KText p)] s of
             (Inl e, s1) \<Rightarrow> (Inl e, s1)
           | (Inr c, s1) \<Rightarrow>
               let (result, s2) = body c s1; (closed, s3) = drv_close drv c s2
               in (case closed of Inl e \<Rightarrow> (Inl e, s3) | Inr _ \<Rightarrow> (result, s3))))"

type_synonym ('c, 's, 'b) connection_class = "('c \<Rightarrow> 's \<Rightarrow> 'b outcome \<times> 's) \<Rightarrow> 's \<Rightarrow> 'b outcome \<times> 's"

definition register_connection_class ::
  "string \<Rightarrow> ('c, 's, 'b) connection_class \<Rightarrow> (string, ('c, 's, 'b) connection_class) dict \<Rightarrow>
     (string, ('c, 's, 'b) connection_class) dict" where
  "register_connection_class name cls registry = dict_set name cls registry"

definition retrieve ::
  "(string, ('c, 's, 'b) connection_class) dict \<Rightarrow> string \<Rightarrow> ('c \<Rightarrow> 's \<Rightarrow> 'b outcome \<times> 's) \<Rightarrow> 's \<Rightarrow> 'b outcome \<times> 's"
  where
  "retrieve registry key body s =
     (case dict_get registry key of
        None \<Rightarrow> (Inl ValueError, s)
      | Some cls \<Rightarrow> cls body s)"

section \<open>Every opened connection is closed\<close>

text \<open>
  What the code relies on of a driver, for a function \<open>live\<close> reading the open connections off its
  state: connecting adds one new connection or fails without one, closing removes it even when it
  raises, and no other call opens or closes any.
\<close>

definition driver_tracks :: "('c, 'h, 's) driver \<Rightarrow> ('s \<Rightarrow> 'c set) \<Rightarrow> bool" where
  "driver_tracks drv live \<longleftrightarrow>
     (\<forall>kwargs s. case drv_connect drv kwargs s of
        (Inl e, s') \<Rightarrow> live s' = live s
      | (Inr c, s') \<Rightarrow> c \<notin> live s \<and> live s' = insert c (live s)) \<and>
     (\<forall>c s. live (snd (drv_autocommit drv c s)) = live s) \<and>
     (\<forall>c sql ps s. live (snd (drv_execute drv c sql ps s)) = live s) \<and>
     (\<forall>c s. live (snd (drv_cursor drv c s)) = live s) \<and>
     (\<forall>h sql ps s. live (snd (drv_cursor_execute drv h sql ps s)) = live s) \<and>
     (\<forall>c s. live (snd (drv_close drv c s)) = live s - {c})"

lemma driver_tracksD:
  assumes "driver_tracks drv live"
  shows "drv_connect drv kwargs s = (Inl e, s') \<Longrightarrow> live s' = live s"
    and "drv_connect drv kwargs s = (Inr c, s') \<Longrightarrow> c \<notin> live s \<and> live s' = insert c (live s)"
    and "drv_autocommit drv c s = (u, s') \<Longrightarrow> live s' = live s"
    and "drv_execute drv c sql ps s = (r, s') \<Longrightarrow> live s' = live s"
    and "drv_cursor drv c s = (r, s') \<Longrightarrow> live s' = live s"
    and "drv_cursor_execute drv h sql ps s = (u, s') \<Longrightarrow> live s' = live s"
    and "drv_close drv c s = (u, s') \<Longrightarrow> live s' = live s - {c}"
proof -
  note t = assms[unfolded driver_tracks_def]
  show "drv_connect drv kwargs s = (Inl e, s') \<Longrightarrow> live s' = live s"
    using t[THEN conjunct1, rule_format, where kwargs = kwargs and s = s] by simp
  show "drv_connect drv kwargs s = (Inr c, s') \<Longrightarrow> c \<notin> live s \<and> live s' = insert c (live s)"
    using t[THEN conjunct1, rule_format, where kwargs = kwargs and s = s] by simp
  note u = t[THEN conjunct2]
  show "drv_autocommit drv c s = (u, s') \<Longrightarrow> live s' = live s" for u
    using u[THEN conjunct1, rule_format, of c s] by simp
  show "drv_execute drv c sql ps s = (r, s') \<Longrightarrow> live s' = live s"
    using u[THEN conjunct2, THEN conjunct1, rule_format, of c sql ps s] by simp
  show "drv_cursor drv c s = (r, s') \<Longrightarrow> live s' = live s"
    using u[THEN conjunct2, THEN conjunct2, THEN conjunct1, rule_format, of c s] by simp
  show "drv_cursor_execute drv h sql ps s = (u, s') \<Longrightarrow> live s' = live s" for u
    using u[THEN conjunct2, THEN conjunct2, THEN conjunct2, THEN conjunct1, rule_format, of h sql ps s] by simp
  show "drv_close drv c s = (u, s') \<Longrightarrow> live s' = live s - {c}" for u
    using u[THEN conjunct2, THEN conjunct2, THEN conjunct2, THEN conjunct2, rule_format, of c s] by simp
qed

lemma session_execute_live:
  assumes "driver_tracks drv live" and run: "session_execute drv ses sql params s = (r, s')"
  shows "live s' = live s"
proof (cases "ses_adapted ses")
  case False
  with run driver_tracksD(4)[OF assms(1)] show ?thesis by (auto simp: session_execute_def Let_def)
next
  case True
  obtain h s1 where cur: "drv_cursor drv (ses_connection ses) s = (h, s1)" by force
  from driver_tracksD(5)[OF assms(1) cur] True run show ?thesis
    by (auto simp: session_execute_def adapter_execute_def Let_def cur
        dest!: driver_tracksD(6)[OF assms(1)] split: sum.splits prod.splits)
qed

lemma execute_all_live:
  assumes "driver_tracks drv live"
  shows "execute_all drv ses sqls s = (r, s') \<Longrightarrow> live s' = live s"
proof (induction sqls arbitrary: s)
  case (Cons sql sqls)
  obtain h s1 where run: "session_execute drv ses sql None s = (h, s1)" by force
  from session_execute_live[OF assms run] Cons.prems Cons.IH[of s1] show ?case
    by (simp add: run split: sum.splits)
qed simp

lemma with_connection_live:
  assumes tracks: "driver_tracks drv live"
    and body: "\<And>ses s r s'. body ses s = (r, s') \<Longrightarrow> live s' = live s"
  shows "live (snd (with_connection drv kind args body s)) = live s"
proof (cases args)
  case (Inr kwargs)
  obtain r s1 where conn: "drv_connect drv kwargs s = (r, s1)" by force
  show ?thesis
  proof (cases r)
    case (Inl e)
    with driver_tracksD(1)[OF tracks] conn show ?thesis by (simp add: with_connection_def Inr)
  next
    case c: (Inr c)
    with driver_tracksD(2)[OF tracks] conn have opened: "c \<notin> live s \<and> live s1 = insert c (live s)" by blast
    obtain ready s2 where auto: "(if sets_autocommit kind then drv_autocommit drv c s1 else (Inr (), s1)) = (ready, s2)"
      by force
    then have l2: "live s2 = live s1" by (auto split: if_splits dest!: driver_tracksD(3)[OF tracks])
    obtain result s3 where ran: "(case ready of Inl e \<Rightarrow> (Inl e, s2) | Inr _ \<Rightarrow> body (session_of kind c) s2) = (result, s3)"
      by force
    then have l3: "live s3 = live s2" by (auto split: sum.splits dest!: body)
    obtain closed s4 where fin: "drv_close drv c s3 = (closed, s4)" by force
    from driver_tracksD(7)[OF tracks fin] l2 l3 opened have "live s4 = live s" by auto
    then show ?thesis
      by (simp add: with_connection_def Inr conn c auto ran fin split: sum.split)
  qed
qed (simp add: with_connection_def)

lemma duckdb_connection_live:
  assumes tracks: "driver_tracks drv live"
    and body: "\<And>c s r s'. body c s = (r, s') \<Longrightarrow> live s' = live s"
  shows "live (snd (duckdb_connection drv path body s)) = live s"
proof (cases path)
  case (Inr p)
  obtain r s1 where conn: "drv_connect drv [(''database'', KText p)] s = (r, s1)" by force
  show ?thesis
  proof (cases r)
    case (Inl e)
    with driver_tracksD(1)[OF tracks] conn show ?thesis by (simp add: duckdb_connection_def Inr)
  next
    case c: (Inr c)
    with driver_tracksD(2)[OF tracks] conn have opened: "c \<notin> live s \<and> live s1 = insert c (live s)" by blast
    obtain result s2 where ran: "body c s1 = (result, s2)" by force
    obtain closed s3 where fin: "drv_close drv c s2 = (closed, s3)" by force
    from driver_tracksD(7)[OF tracks fin] body[OF ran] opened have "live s3 = live s" by auto
    then show ?thesis by (simp add: duckdb_connection_def Inr conn c ran fin split: sum.split)
  qed
qed (simp add: duckdb_connection_def)

text \<open>C30: no query leaks a connection and every query runs against the right kind of session. Over any
  driver whose calls open and close connections as documented, running a query leaves the set of
  open connections as it was: on success, on a failing connect, on a failing autocommit switch, when
  the query raises, and when closing raises. A session passed in is used as it is and
  stays open; without one, a query whose connection opens, switches and closes without error
  has the outcome of its own run on a session with the backend's placeholder style, dialect
  and cursor adapter. The older factory's connections are closed in the same way, whatever key
  is asked for.\<close>

theorem run_query_closes_sessions:
  assumes "driver_tracks drv live"
    and "\<forall>ses s r s'. apply_query ses s = (r, s') \<longrightarrow> live s' = live s"
    and "\<forall>c s r s'. body c s = (r, s') \<longrightarrow> live s' = live s"
  shows "live (snd (run_query drv kind args apply_query connection s)) = live s \<and>
    run_query drv kind args apply_query (Some ses) s = apply_query ses s \<and>
    (\<forall>kwargs c s1 s2 r s3 s4.
       args = Inr kwargs \<longrightarrow> drv_connect drv kwargs s = (Inr c, s1) \<longrightarrow>
       (if sets_autocommit kind then drv_autocommit drv c s1 else (Inr (), s1)) = (Inr (), s2) \<longrightarrow>
       apply_query (session_of kind c) s2 = (r, s3) \<longrightarrow> drv_close drv c s3 = (Inr (), s4) \<longrightarrow>
       run_query drv kind args apply_query None s = (r, s4)) \<and>
    live (snd (retrieve [(''duckdb'', duckdb_connection drv path)] key body s)) = live s"
proof (intro conjI)
  show "live (snd (retrieve [(''duckdb'', duckdb_connection drv path)] key body s)) = live s"
    using duckdb_connection_live[OF assms(1), of body path s] assms(3) by (auto simp: retrieve_def)
  show "live (snd (run_query drv kind args apply_query connection s)) = live s"
  proof (cases connection)
    case None
    have "live (snd (with_connection drv kind args apply_query s)) = live s"
      by (rule with_connection_live[OF assms(1)]) (use assms(2) in blast)
    with None show ?thesis by (simp add: run_query_def)
  next
    case (Some ses)
    then show ?thesis
      using assms(2)[rule_format, of ses s "fst (apply_query ses s)" "snd (apply_query ses s)"]
      by (simp add: run_query_def)
  qed
  show "run_query drv kind args apply_query (Some ses) s = apply_query ses s" by (simp add: run_query_def)
  show "\<forall>kwargs c s1 s2 r s3 s4. args = Inr kwargs \<longrightarrow> drv_connect drv kwargs s = (Inr c, s1) \<longrightarrow>
       (if sets_autocommit kind then drv_autocommit drv c s1 else (Inr (), s1)) = (Inr (), s2) \<longrightarrow>
       apply_query (session_of kind c) s2 = (r, s3) \<longrightarrow> drv_close drv c s3 = (Inr (), s4) \<longrightarrow>
       run_query drv kind args apply_query None s = (r, s4)"
    by (simp add: run_query_def with_connection_def)
qed

text \<open>A driver that numbers its connections and logs the statements it is given.\<close>

record log_state =
  log_live :: "nat list"
  log_sql :: "string list"

definition logging_driver :: "(nat, nat, log_state) driver" where
  "logging_driver =
     \<lparr>drv_connect = (\<lambda>kwargs s. (Inr (Suc (sum_list (log_live s))), s\<lparr>log_live := Suc (sum_list (log_live s)) # log_live s\<rparr>)),
      drv_autocommit = (\<lambda>c s. (Inr (), s)),
      drv_execute = (\<lambda>c sql ps s. (Inr c, s\<lparr>log_sql := log_sql s @ [sql]\<rparr>)),
      drv_cursor = (\<lambda>c s. (Inr c, s)),
      drv_cursor_execute = (\<lambda>h sql ps s. (Inr (), s\<lparr>log_sql := log_sql s @ [sql]\<rparr>)),
      drv_close = (\<lambda>c s. (Inr (), s\<lparr>log_live := filter (\<lambda>x. x \<noteq> c) (log_live s)\<rparr>))\<rparr>"

lemma logging_driver_tracks: "driver_tracks logging_driver (\<lambda>s. set (log_live s))"
proof -
  have "Suc (sum_list xs) \<notin> set xs" for xs :: "nat list"
    using member_le_sum_list[of "Suc (sum_list xs)" xs] by auto
  then show ?thesis by (auto simp: driver_tracks_def logging_driver_def)
qed

theorem run_query_closes_sessions_witness:
  "log_live (snd (run_query logging_driver MYSQL (Inr [])
       (\<lambda>ses. session_execute logging_driver ses ''SELECT 1 WHERE ? = ?'' (Some [''a'', ''b'']))
       None \<lparr>log_live = [], log_sql = []\<rparr>)) = [] \<and>
   log_sql (snd (run_query logging_driver MYSQL (Inr [])
       (\<lambda>ses. session_execute logging_driver ses ''SELECT 1 WHERE ? = ?'' (Some [''a'', ''b'']))
       None \<lparr>log_live = [], log_sql = []\<rparr>)) = [''SELECT 1 WHERE %s = %s'']"
proof -
  let ?q = "\<lambda>ses. session_execute logging_driver ses ''SELECT 1 WHERE ? = ?'' (Some [''a'', ''b''])"
  let ?s = "\<lparr>log_live = [], log_sql = []\<rparr>"
  have q: "\<forall>ses s r s'. ?q ses s = (r, s') \<longrightarrow> set (log_live s') = set (log_live s)"
    by (intro allI impI) (rule session_execute_live[OF logging_driver_tracks])
  have body: "\<forall>c s r s'. (\<lambda>c s. (Inr c, s)) c s = (r, s') \<longrightarrow> set (log_live s') = set (log_live s)" by simp
  note result = run_query_closes_sessions[OF logging_driver_tracks q body, of MYSQL "Inr []" None ?s]
  have "log_live (snd (run_query logging_driver MYSQL (Inr []) ?q None ?s)) = []"
    using conjunct1[OF result] by simp
  moreover have "session_statement PYFORMAT ANSI ''SELECT 1 WHERE ? = ?'' = ''SELECT 1 WHERE %s = %s''" by code_simp
  then have "log_sql (snd (run_query logging_driver MYSQL (Inr []) ?q None ?s)) = [''SELECT 1 WHERE %s = %s'']"
    by (simp add: run_query_def with_connection_def logging_driver_def session_execute_def adapter_execute_def
        session_of_def)
  ultimately show ?thesis by blast
qed

end
