(* ===== verification/Configuration.thy ===== *)
theory Configuration
  imports Responses
begin

text \<open>
  The configuration of \<open>src/app/configurations/configuration.py\<close>: its models and their validation
  over the data of a YAML file, the cached load of \<open>database.yaml\<close>, the configured tables, the database name with its
  fallback, the database path, and the data the shipped file holds. The YAML parser is a
  parameter; of the data it returns only what the models look at is distinguished.
\<close>

section \<open>The data of a YAML file\<close>

text \<open>\<open>YOther\<close> stands for numbers, booleans, dates and null: the models accept none of them where text is due.\<close>

datatype yaml = YStr string | YList "yaml list" | YMap "(string, yaml) dict" | YOther

datatype config_error = FileNotFoundError | YAMLError | ValidationError

section \<open>The models\<close>

record table_field =
  tf_name :: string
  tf_type :: string

record table_definition =
  td_name :: string
  td_fields :: "table_field list"

record database_table_config =
  dt_tables :: "table_definition list"

record duckdb_config =
  dk_database :: string

record database_config =
  dc_database :: database_table_config
  dc_duck_db :: duckdb_config

record application_config =
  ac_version :: int
  ac_application_name :: string

definition default_application_config :: application_config where
  "default_application_config = \<lparr>ac_version = 0, ac_application_name = ''lavs-api''\<rparr>"

fun validate_text :: "yaml \<Rightarrow> string option" where
  "validate_text (YStr s) = Some s"
| "validate_text _ = None"

fun validate_list :: "(yaml \<Rightarrow> 'a option) \<Rightarrow> yaml \<Rightarrow> 'a list option" where
  "validate_list item (YList ys) = those (map item ys)"
| "validate_list item _ = None"

text \<open>A field without a default must be present; unknown keys are ignored.\<close>

fun required :: "string \<Rightarrow> (yaml \<Rightarrow> 'a option) \<Rightarrow> yaml \<Rightarrow> 'a option" where
  "required key item (YMap d) = Option.bind (dict_get d key) item"
| "required key item _ = None"

fun defaulted :: "string \<Rightarrow> 'a \<Rightarrow> (yaml \<Rightarrow> 'a option) \<Rightarrow> yaml \<Rightarrow> 'a option" where
  "defaulted key fallback item (YMap d) = (case dict_get d key of None \<Rightarrow> Some fallback | Some y \<Rightarrow> item y)"
| "defaulted key fallback item _ = None"

definition validate_table_field :: "yaml \<Rightarrow> table_field option" where
  "validate_table_field y =
     (case (required ''name'' validate_text y, required ''type'' validate_text y) of
        (Some n, Some t) \<Rightarrow> Some \<lparr>tf_name = n, tf_type = t\<rparr>
      | _ \<Rightarrow> None)"

definition validate_table_definition :: "yaml \<Rightarrow> table_definition option" where
  "validate_table_definition y =
     (case (required ''name'' validate_text y, required ''fields'' (validate_list validate_table_field) y) of
        (Some n, Some fs) \<Rightarrow> Some \<lparr>td_name = n, td_fields = fs\<rparr>
      | _ \<Rightarrow> None)"

definition validate_database_table_config :: "yaml \<Rightarrow> database_table_config option" where
  "validate_database_table_config y =
     map_option (\<lambda>ts. \<lparr>dt_tables = ts\<rparr>) (required ''tables'' (validate_list validate_table_definition) y)"

definition validate_duckdb_config :: "yaml \<Rightarrow> duckdb_config option" where
  "validate_duckdb_config y =
     map_option (\<lambda>s. \<lparr>dk_database = s\<rparr>) (defaulted ''database'' ''test.db'' validate_text y)"

definition validate_database_config :: "yaml \<Rightarrow> database_config option" where
  "validate_database_config y =
     (case (required ''database'' validate_database_table_config y, required ''duck_db'' validate_duckdb_config y) of
        (Some d, Some k) \<Rightarrow> Some \<lparr>dc_database = d, dc_duck_db = k\<rparr>
      | _ \<Rightarrow> None)"

section \<open>Loading\<close>

text \<open>\<open>os.path.isabs\<close> and \<open>os.path.join\<close> on POSIX.\<close>

definition isabs :: "string \<Rightarrow> bool" where
  "isabs p \<longleftrightarrow> take 1 p = ''/''"

definition path_join :: "string \<Rightarrow> string \<Rightarrow> string" where
  "path_join a b =
     (if isabs b then b else if a = [] \<or> last a = CHR ''/'' then a @ b else a @ ''/'' @ b)"

definition get_database_config_path :: "string \<Rightarrow> string" where
  "get_database_config_path root_dir = path_join (path_join root_dir ''configurations'') ''database.yaml''"

text \<open>
  \<open>disk\<close> maps a path to the contents of the file there, \<open>safe_load\<close> is the parser. The cache of
  \<open>lru_cache(maxsize=1)\<close> holds the result of the one successful call; an exception is not cached.
\<close>

type_synonym disk = "string \<Rightarrow> string option"

definition load_database_config ::
  "string \<Rightarrow> (string \<Rightarrow> yaml option) \<Rightarrow> disk \<Rightarrow> database_config option \<Rightarrow>
     (config_error + database_config) \<times> database_config option" where
  "load_database_config root_dir safe_load disk cache =
     (case cache of
        Some config \<Rightarrow> (Inr config, cache)
      | None \<Rightarrow>
          (case disk (get_database_config_path root_dir) of
             None \<Rightarrow> (Inl FileNotFoundError, None)
           | Some contents \<Rightarrow>
               (case safe_load contents of
                  None \<Rightarrow> (Inl YAMLError, None)
                | Some data \<Rightarrow>
                    (case validate_database_config data of
                       None \<Rightarrow> (Inl ValidationError, None)
                     | Some config \<Rightarrow> (Inr config, Some config)))))"

text \<open>The fallback catches a missing file only (the other class it names is never raised).\<close>

definition get_duckdb_database_name ::
  "string \<Rightarrow> (string \<Rightarrow> yaml option) \<Rightarrow> disk \<Rightarrow> database_config option \<Rightarrow>
     (config_error + string) \<times> database_config option" where
  "get_duckdb_database_name root_dir safe_load disk cache =
     (case load_database_config root_dir safe_load disk cache of
        (Inr config, c) \<Rightarrow> (Inr (dk_database (dc_duck_db config)), c)
      | (Inl FileNotFoundError, c) \<Rightarrow> (Inr ''test.db'', c)
      | (Inl e, c) \<Rightarrow> (Inl e, c))"

definition get_database_path ::
  "string \<Rightarrow> (string \<Rightarrow> yaml option) \<Rightarrow> disk \<Rightarrow> database_config option \<Rightarrow>
     (config_error + string) \<times> database_config option" where
  "get_database_path root_dir safe_load disk cache =
     (case get_duckdb_database_name root_dir safe_load disk cache of
        (Inl e, c) \<Rightarrow> (Inl e, c)
      | (Inr db_name, c) \<Rightarrow>
          (if isabs db_name then (Inr db_name, c) else (Inr (path_join root_dir db_name), c)))"

text \<open>\<open>DatabaseManager._table_names\<close>.\<close>

definition table_names ::
  "string \<Rightarrow> (string \<Rightarrow> yaml option) \<Rightarrow> disk \<Rightarrow> database_config option \<Rightarrow>
     (config_error + string list) \<times> database_config option" where
  "table_names root_dir safe_load disk cache =
     (case load_database_config root_dir safe_load disk cache of
        (Inl e, c) \<Rightarrow> (Inl e, c)
      | (Inr config, c) \<Rightarrow> (Inr (map td_name (dt_tables (dc_database config))), c))"

section \<open>The shipped file\<close>

definition yaml_field :: "string \<Rightarrow> string \<Rightarrow> yaml" where
  "yaml_field name type = YMap [(''name'', YStr name), (''type'', YStr type)]"

definition yaml_table :: "string \<Rightarrow> yaml list \<Rightarrow> yaml" where
  "yaml_table name flds = YMap [(''name'', YStr name), (''fields'', YList flds)]"

definition database_yaml :: yaml where
  "database_yaml = YMap
     [(''database'', YMap [(''tables'', YList
        [yaml_table ''products''
           [yaml_field ''id'' ''VARCHAR PRIMARY KEY'', yaml_field ''name'' ''VARCHAR'',
            yaml_field ''description'' ''VARCHAR'', yaml_field ''base_version'' ''VARCHAR'',
            yaml_field ''bump_policy'' ''VARCHAR'', yaml_field ''created_at'' ''TIMESTAMP''],
         yaml_table ''components''
           [yaml_field ''id'' ''VARCHAR PRIMARY KEY'', yaml_field ''product_id'' ''VARCHAR'',
            yaml_field ''name'' ''VARCHAR'', yaml_field ''kind'' ''VARCHAR''],
         yaml_table ''versions''
           [yaml_field ''id'' ''VARCHAR PRIMARY KEY'', yaml_field ''component_id'' ''VARCHAR'',
            yaml_field ''major'' ''INTEGER'', yaml_field ''minor'' ''INTEGER'',
            yaml_field ''patch'' ''INTEGER'', yaml_field ''prerelease'' ''VARCHAR'',
            yaml_field ''status'' ''VARCHAR'', yaml_field ''created_at'' ''TIMESTAMP''],
         yaml_table ''releases''
           [yaml_field ''id'' ''VARCHAR PRIMARY KEY'', yaml_field ''product_id'' ''VARCHAR'',
            yaml_field ''product_version'' ''VARCHAR'', yaml_field ''label'' ''VARCHAR'',
            yaml_field ''notes'' ''VARCHAR'', yaml_field ''idempotency_key'' ''VARCHAR'',
            yaml_field ''bump_level'' ''VARCHAR'', yaml_field ''bump_rationale'' ''VARCHAR'',
            yaml_field ''created_at'' ''TIMESTAMP''],
         yaml_table ''release_components''
           [yaml_field ''release_id'' ''VARCHAR'', yaml_field ''component_id'' ''VARCHAR'',
            yaml_field ''version_id'' ''VARCHAR'', yaml_field ''change_level'' ''VARCHAR''],
         yaml_table ''component_dependencies''
           [yaml_field ''id'' ''VARCHAR PRIMARY KEY'', yaml_field ''product_id'' ''VARCHAR'',
            yaml_field ''from_component_id'' ''VARCHAR'',
            yaml_field ''to_component_id'' ''VARCHAR'', yaml_field ''created_at'' ''TIMESTAMP''],
         yaml_table ''users''
           [yaml_field ''id'' ''VARCHAR PRIMARY KEY'', yaml_field ''email'' ''VARCHAR'',
            yaml_field ''password_hash'' ''VARCHAR'', yaml_field ''status'' ''VARCHAR'',
            yaml_field ''edition'' ''VARCHAR'', yaml_field ''created_at'' ''TIMESTAMP''],
         yaml_table ''sessions''
           [yaml_field ''id'' ''VARCHAR PRIMARY KEY'', yaml_field ''user_id'' ''VARCHAR'',
            yaml_field ''token_hash'' ''VARCHAR'', yaml_field ''created_at'' ''TIMESTAMP'',
            yaml_field ''expires_at'' ''TIMESTAMP''],
         yaml_table ''email_verification_tokens''
           [yaml_field ''token_hash'' ''VARCHAR PRIMARY KEY'',
            yaml_field ''user_id'' ''VARCHAR'', yaml_field ''expires_at'' ''TIMESTAMP'',
            yaml_field ''consumed_at'' ''TIMESTAMP'']])]),
      (''duck_db'', YMap [(''database'', YStr ''test.db'')])]"

text \<open>It satisfies the models: nine tables, in the order of the script, and the default file name.\<close>

definition configured_tables :: "string list" where
  "configured_tables =
     [''products'', ''components'', ''versions'', ''releases'', ''release_components'',
      ''component_dependencies'', ''users'', ''sessions'', ''email_verification_tokens'']"

lemma validate_yaml_field [simp]: "validate_table_field (yaml_field n t) = Some \<lparr>tf_name = n, tf_type = t\<rparr>"
  by (simp add: validate_table_field_def yaml_field_def)

lemma validate_yaml_table [simp]:
  "validate_table_definition (yaml_table n flds) =
     map_option (\<lambda>fs. \<lparr>td_name = n, td_fields = fs\<rparr>) (those (map validate_table_field flds))"
  by (simp add: validate_table_definition_def yaml_table_def split: option.split)

lemma shipped_configuration:
  "\<exists>config. validate_database_config database_yaml = Some config \<and>
     map td_name (dt_tables (dc_database config)) = configured_tables \<and> dk_database (dc_duck_db config) = ''test.db''"
  by (simp add: validate_database_config_def validate_database_table_config_def validate_duckdb_config_def
      database_yaml_def configured_tables_def)

lemma shipped_table_names:
  assumes "disk (get_database_config_path root) = Some contents" "safe contents = Some database_yaml"
  shows "fst (table_names root safe disk None) = Inr configured_tables \<and>
    fst (get_duckdb_database_name root safe disk None) = Inr ''test.db''"
proof -
  obtain config where c: "validate_database_config database_yaml = Some config"
    "map td_name (dt_tables (dc_database config)) = configured_tables" "dk_database (dc_duck_db config) = ''test.db''"
    using shipped_configuration by blast
  have "load_database_config root safe disk None = (Inr config, Some config)"
    by (simp add: load_database_config_def assms c(1))
  then show ?thesis by (simp add: table_names_def get_duckdb_database_name_def c)
qed

section \<open>Loads in sequence\<close>

text \<open>One load after another, each meeting the disk as it is by then.\<close>

fun load_all ::
  "string \<Rightarrow> (string \<Rightarrow> yaml option) \<Rightarrow> disk list \<Rightarrow> database_config option \<Rightarrow> (config_error + database_config) list" where
  "load_all root_dir safe_load [] cache = []"
| "load_all root_dir safe_load (disk # disks) cache =
     (let (r, c) = load_database_config root_dir safe_load disk cache
      in r # load_all root_dir safe_load disks c)"

definition read_config :: "string \<Rightarrow> (string \<Rightarrow> yaml option) \<Rightarrow> disk \<Rightarrow> config_error + database_config" where
  "read_config root_dir safe_load disk = fst (load_database_config root_dir safe_load disk None)"

lemma load_uncached:
  "load_database_config root safe disk None =
     (case read_config root safe disk of Inl e \<Rightarrow> (Inl e, None) | Inr config \<Rightarrow> (Inr config, Some config))"
  by (simp add: read_config_def load_database_config_def split: option.split)

lemma load_all_cached: "load_all root safe disks (Some config) = replicate (length disks) (Inr config)"
  by (induction disks) (simp_all add: load_database_config_def)

section \<open>Properties\<close>

text \<open>The configuration is read once. However \<open>database.yaml\<close> changes between loads, the answer of
  each load is the first configuration that could be read so far; until then every load reads the
  file again and reports its own failure, so a missing or malformed file can be repaired without
  a restart and a loaded one cannot be changed without it.\<close>

theorem configuration_read_once:
  "load_all root safe disks None =
     map (\<lambda>i. case find (\<lambda>r. \<not> isl r) (map (read_config root safe) (take (Suc i) disks)) of
                None \<Rightarrow> read_config root safe (disks ! i)
              | Some r \<Rightarrow> r) [0..<length disks]"
proof (induction disks)
  case (Cons disk disks)
  have upt: "[0..<length (disk # disks)] = 0 # map Suc [0..<length disks]"
    by (simp add: upt_conv_Cons map_Suc_upt del: upt_Suc)
  show ?case
  proof (cases "read_config root safe disk")
    case (Inl e)
    then have "load_all root safe (disk # disks) None = Inl e # load_all root safe disks None"
      by (simp add: load_uncached)
    with Cons.IH Inl show ?thesis unfolding upt by (simp add: o_def cong: option.case_cong)
  next
    case (Inr config)
    then have "load_all root safe (disk # disks) None = Inr config # replicate (length disks) (Inr config)"
      by (simp add: load_uncached load_all_cached)
    with Inr show ?thesis unfolding upt by (simp add: o_def map_replicate_const)
  qed
qed simp

end
