(* ===== verification/Schema_Admin.thy ===== *)
theory Schema_Admin
  imports Connections Configuration
begin

text \<open>
  The life-cycle of the tables: \<open>src/app/database/database_manager.py\<close> over a catalog of the tables
  present (columns, keys and the tables their foreign keys reference), the script
  \<open>src/app/database/duckdb/ddl.sql\<close>, and the configured tables of \<open>Configuration\<close>. The rows are in \<open>Schema_Upgrade\<close>.
  Names are compared without regard to case, as the engine does.
\<close>

section \<open>The script\<close>

datatype sql_value = SNull | SText string | SInt int

text \<open>
  A table as declared: its columns, its keys (the primary key and the unique constraints), and the tables its
  foreign keys reference, always by \<open>id\<close>.
\<close>

record table_declaration =
  td_name :: string
  td_columns :: "string list"
  td_keys :: "string list list"
  td_refs :: "string list"

text \<open>\<open>CREATE TABLE IF NOT EXISTS\<close> and \<open>ALTER TABLE ... ADD COLUMN IF NOT EXISTS ... DEFAULT\<close>.\<close>

datatype ddl_statement =
    CreateTable table_declaration
  | AddColumn string string sql_value

definition duckdb_script :: "ddl_statement list" where
  "duckdb_script =
     [CreateTable \<lparr>td_name = ''products'',
        td_columns = [''id'', ''name'', ''description'', ''base_version'', ''bump_policy'', ''created_at''],
        td_keys = [[''id'']], td_refs = []\<rparr>,
      AddColumn ''products'' ''base_version'' (SText ''0.0.0''),
      AddColumn ''products'' ''bump_policy'' (SText ''legacy''),
      CreateTable \<lparr>td_name = ''components'', td_columns = [''id'', ''product_id'', ''name'', ''kind''],
        td_keys = [[''id'']], td_refs = [''products'']\<rparr>,
      CreateTable \<lparr>td_name = ''versions'',
        td_columns = [''id'', ''component_id'', ''major'', ''minor'', ''patch'', ''prerelease'', ''status'', ''created_at''],
        td_keys = [[''id'']], td_refs = [''components'']\<rparr>,
      CreateTable \<lparr>td_name = ''releases'',
        td_columns = [''id'', ''product_id'', ''product_version'', ''label'', ''notes'', ''idempotency_key'', ''bump_level'',
          ''bump_rationale'', ''created_at''],
        td_keys = [[''id'']], td_refs = [''products'']\<rparr>,
      AddColumn ''releases'' ''bump_level'' SNull,
      AddColumn ''releases'' ''bump_rationale'' SNull,
      CreateTable \<lparr>td_name = ''release_components'',
        td_columns = [''release_id'', ''component_id'', ''version_id'', ''change_level''],
        td_keys = [[''release_id'', ''component_id'']], td_refs = [''releases'']\<rparr>,
      AddColumn ''release_components'' ''change_level'' SNull,
      CreateTable \<lparr>td_name = ''component_dependencies'',
        td_columns = [''id'', ''product_id'', ''from_component_id'', ''to_component_id'', ''created_at''],
        td_keys = [[''id''], [''product_id'', ''from_component_id'', ''to_component_id'']],
        td_refs = [''products'', ''components'', ''components'']\<rparr>,
      CreateTable \<lparr>td_name = ''users'',
        td_columns = [''id'', ''email'', ''password_hash'', ''status'', ''edition'', ''created_at''],
        td_keys = [[''id''], [''email'']], td_refs = []\<rparr>,
      CreateTable \<lparr>td_name = ''sessions'', td_columns = [''id'', ''user_id'', ''token_hash'', ''created_at'', ''expires_at''],
        td_keys = [[''id'']], td_refs = [''users'']\<rparr>,
      CreateTable \<lparr>td_name = ''email_verification_tokens'',
        td_columns = [''token_hash'', ''user_id'', ''expires_at'', ''consumed_at''],
        td_keys = [[''token_hash'']], td_refs = [''users'']\<rparr>]"

fun declarations :: "ddl_statement list \<Rightarrow> table_declaration list" where
  "declarations [] = []"
| "declarations (CreateTable d # ds) = d # declarations ds"
| "declarations (AddColumn t c v # ds) = declarations ds"

definition ddl_tables :: "table_declaration list" where
  "ddl_tables = declarations duckdb_script"

definition referenced_tables :: "string list" where
  "referenced_tables = concat (map td_refs ddl_tables)"

section \<open>The catalog\<close>

type_synonym catalog = "table_declaration list"

definition existing_tables :: "catalog \<Rightarrow> string list" where
  "existing_tables cat = map (\<lambda>d. lower (td_name d)) cat"

definition id_key :: "table_declaration \<Rightarrow> bool" where
  "id_key d \<longleftrightarrow> [''id''] \<in> set (map (map lower) (td_keys d))"

definition has_column :: "string \<Rightarrow> table_declaration \<Rightarrow> bool" where
  "has_column c d \<longleftrightarrow> lower c \<in> set (map lower (td_columns d))"

text \<open>
  A table is created unless its name is taken; a reference to a table that is absent or has no key \<open>id\<close> is refused. A column is
  added unless it is there; whether the engine lets a table be altered that is as the catalog shows it (other
  tables may refer to it) is the parameter \<open>alterable\<close>.
\<close>

definition create_if_absent :: "table_declaration \<Rightarrow> catalog \<Rightarrow> catalog outcome" where
  "create_if_absent d cat =
     (if lower (td_name d) \<in> set (existing_tables cat) then Inr cat
      else if list_all (\<lambda>t. list_ex (\<lambda>u. lower (td_name u) = lower t \<and> id_key u) cat) (td_refs d) then Inr (cat @ [d])
      else Inl ConstraintViolation)"

definition add_column_if_absent :: "(catalog \<Rightarrow> string \<Rightarrow> bool) \<Rightarrow> string \<Rightarrow> string \<Rightarrow> catalog \<Rightarrow> catalog outcome" where
  "add_column_if_absent alterable t c cat =
     (if lower t \<notin> set (existing_tables cat) then Inl ConstraintViolation
      else if list_all (\<lambda>u. lower (td_name u) = lower t \<longrightarrow> has_column c u) cat then Inr cat
      else if alterable cat t
      then Inr (map (\<lambda>u. if lower (td_name u) = lower t then u\<lparr>td_columns := td_columns u @ [c]\<rparr> else u) cat)
      else Inl ConstraintViolation)"

fun run_ddl :: "(catalog \<Rightarrow> string \<Rightarrow> bool) \<Rightarrow> ddl_statement list \<Rightarrow> catalog \<Rightarrow> unit outcome \<times> catalog" where
  "run_ddl alterable [] cat = (Inr (), cat)"
| "run_ddl alterable (CreateTable d # ds) cat =
     (case create_if_absent d cat of Inl e \<Rightarrow> (Inl e, cat) | Inr cat' \<Rightarrow> run_ddl alterable ds cat')"
| "run_ddl alterable (AddColumn t c v # ds) cat =
     (case add_column_if_absent alterable t c cat of Inl e \<Rightarrow> (Inl e, cat) | Inr cat' \<Rightarrow> run_ddl alterable ds cat')"

definition create_tables ::
  "(catalog \<Rightarrow> string \<Rightarrow> bool) \<Rightarrow> string list \<Rightarrow> catalog \<Rightarrow> unit outcome \<times> catalog" where
  "create_tables alterable configured cat =
     (case run_ddl alterable duckdb_script cat of
        (Inl e, cat') \<Rightarrow> (Inl e, cat')
      | (Inr _, cat') \<Rightarrow>
          if list_all (\<lambda>t. t \<in> set (existing_tables cat')) configured then (Inr (), cat')
          else (Inl AssertionFailed, cat'))"

text \<open>\<open>DROP TABLE\<close> is refused while another table references it, and of an absent table.\<close>

definition drop_table :: "string \<Rightarrow> catalog \<Rightarrow> catalog outcome" where
  "drop_table t cat =
     (if t \<notin> set (existing_tables cat) then Inl ConstraintViolation
      else if list_ex (\<lambda>d. lower (td_name d) \<noteq> t \<and> t \<in> set (map lower (td_refs d))) cat then Inl ConstraintViolation
      else Inr (filter (\<lambda>d. lower (td_name d) \<noteq> t) cat))"

text \<open>The list of present tables is read once, before the loop.\<close>

fun drop_each :: "string list \<Rightarrow> string list \<Rightarrow> catalog \<Rightarrow> unit outcome \<times> catalog" where
  "drop_each existing [] cat = (Inr (), cat)"
| "drop_each existing (t # ts) cat =
     (if t \<in> set existing
      then (case drop_table t cat of Inl e \<Rightarrow> (Inl e, cat) | Inr cat' \<Rightarrow> drop_each existing ts cat')
      else drop_each existing ts cat)"

definition drop_tables :: "string list \<Rightarrow> catalog \<Rightarrow> unit outcome \<times> catalog" where
  "drop_tables configured cat = drop_each (existing_tables cat) (rev configured) cat"

section \<open>Dropping children first\<close>

text \<open>\<open>references cat a b\<close>: a present table named \<open>a\<close> has a foreign key to \<open>b\<close>.\<close>

definition references :: "catalog \<Rightarrow> string \<Rightarrow> string \<Rightarrow> bool" where
  "references cat a b \<longleftrightarrow> (\<exists>d\<in>set cat. lower (td_name d) = a \<and> b \<in> set (map lower (td_refs d)))"

definition without :: "string list \<Rightarrow> catalog \<Rightarrow> catalog" where
  "without ts cat = filter (\<lambda>d. lower (td_name d) \<notin> set ts) cat"

lemma existing_iff: "t \<in> set (existing_tables cat) \<longleftrightarrow> (\<exists>d\<in>set cat. lower (td_name d) = t)"
  by (force simp: existing_tables_def)

lemma references_without: "references (without ts cat) a b \<longleftrightarrow> a \<notin> set ts \<and> references cat a b"
  by (auto simp: references_def without_def)

lemma existing_without: "t \<in> set (existing_tables (without ts cat)) \<longleftrightarrow> t \<notin> set ts \<and> t \<in> set (existing_tables cat)"
  unfolding existing_iff by (auto simp: without_def)

lemma without_without: "without ts (without us cat) = without (us @ ts) cat"
  by (auto simp: without_def intro!: filter_cong)

lemma drop_each_children_first:
  assumes "distinct ts"
    and "\<forall>a b. b \<in> set ts \<longrightarrow> references cat a b \<longrightarrow> a \<in> set ts"
    and "sorted_wrt (\<lambda>a b. \<not> references cat b a) ts"
    and "\<forall>t\<in>set ts. t \<in> set existing \<longleftrightarrow> t \<in> set (existing_tables cat)"
  shows "drop_each existing ts cat = (Inr (), without ts cat)"
  using assms
proof (induction ts arbitrary: cat)
  case Nil
  then show ?case by (simp add: without_def case_prod_unfold)
next
  case (Cons t ts)
  have next_cat: "drop_each existing ts (without [t] cat) = (Inr (), without (t # ts) cat)"
  proof -
    have "drop_each existing ts (without [t] cat) = (Inr (), without ts (without [t] cat))"
    proof (rule Cons.IH)
      show "\<forall>a b. b \<in> set ts \<longrightarrow> references (without [t] cat) a b \<longrightarrow> a \<in> set ts"
        using Cons.prems(2) by (auto simp: references_without)
      show "sorted_wrt (\<lambda>a b. \<not> references (without [t] cat) b a) ts"
        using Cons.prems(3) by (auto simp: references_without elim: sorted_wrt_mono_rel[rotated])
      show "\<forall>u\<in>set ts. u \<in> set existing \<longleftrightarrow> u \<in> set (existing_tables (without [t] cat))"
        using Cons.prems(1,4) by (auto simp: existing_without)
    qed (use Cons.prems(1) in simp)
    then show ?thesis by (simp add: without_without)
  qed
  have unreferenced: "\<not> list_ex (\<lambda>d. lower (td_name d) \<noteq> t \<and> t \<in> lower ` set (td_refs d)) cat"
    using Cons.prems(2,3) by (fastforce simp: list_ex_iff references_def)
  have single: "filter (\<lambda>d. lower (td_name d) \<noteq> t) cat = without [t] cat" by (simp add: without_def)
  have absent: "without [t] cat = cat" if "t \<notin> set (existing_tables cat)"
    using that by (auto simp: without_def existing_iff intro!: filter_True)
  show ?case
    using next_cat Cons.prems(4) absent
    by (cases "t \<in> set (existing_tables cat)") (simp_all add: drop_table_def unreferenced single)
qed

section \<open>Creating parents first\<close>

fun in_order :: "string set \<Rightarrow> ddl_statement list \<Rightarrow> bool" where
  "in_order seen [] \<longleftrightarrow> True"
| "in_order seen (CreateTable d # ds) \<longleftrightarrow>
     set (map lower (td_refs d)) \<subseteq> seen \<and> in_order (insert (lower (td_name d)) seen) ds"
| "in_order seen (AddColumn t c v # ds) \<longleftrightarrow> lower t \<in> seen \<and> in_order seen ds"

text \<open>
  A table that a script can build on: if the script's foreign keys reference it, it has a key \<open>id\<close>, and it has the columns
  the script would add. Of a table the script neither references nor upgrades nothing is asked.
\<close>

fun adds_to :: "table_declaration \<Rightarrow> ddl_statement \<Rightarrow> bool" where
  "adds_to u (CreateTable d) \<longleftrightarrow> False"
| "adds_to u (AddColumn t c v) \<longleftrightarrow> lower t = lower (td_name u) \<and> \<not> has_column c u"

definition usable_table :: "table_declaration \<Rightarrow> bool" where
  "usable_table u \<longleftrightarrow>
     (lower (td_name u) \<in> set referenced_tables \<longrightarrow> id_key u) \<and> \<not> list_ex (adds_to u) duckdb_script"

definition missing :: "catalog \<Rightarrow> catalog \<Rightarrow> catalog" where
  "missing cat ts = filter (\<lambda>t. lower (td_name t) \<notin> set (existing_tables cat)) ts"

lemma existing_append [simp]: "existing_tables (cat @ cat') = existing_tables cat @ existing_tables cat'"
  by (simp add: existing_tables_def)

lemma existing_Cons [simp]: "existing_tables (t # ts) = lower (td_name t) # existing_tables ts"
  by (simp add: existing_tables_def)

lemma existing_Nil [simp]: "existing_tables [] = []"
  by (simp add: existing_tables_def)

lemma existing_lower: "t \<in> set ts \<Longrightarrow> lower (td_name t) \<in> set (existing_tables ts)"
  by (simp add: existing_tables_def)

text \<open>The names of the schema are in lower case.\<close>

lemma lower_letters:
  "lower_char CHR ''a'' = CHR ''a''" "lower_char CHR ''b'' = CHR ''b''" "lower_char CHR ''c'' = CHR ''c''"
  "lower_char CHR ''d'' = CHR ''d''" "lower_char CHR ''e'' = CHR ''e''" "lower_char CHR ''f'' = CHR ''f''"
  "lower_char CHR ''g'' = CHR ''g''" "lower_char CHR ''h'' = CHR ''h''" "lower_char CHR ''i'' = CHR ''i''"
  "lower_char CHR ''j'' = CHR ''j''" "lower_char CHR ''k'' = CHR ''k''" "lower_char CHR ''l'' = CHR ''l''"
  "lower_char CHR ''m'' = CHR ''m''" "lower_char CHR ''n'' = CHR ''n''" "lower_char CHR ''o'' = CHR ''o''"
  "lower_char CHR ''p'' = CHR ''p''" "lower_char CHR ''q'' = CHR ''q''" "lower_char CHR ''r'' = CHR ''r''"
  "lower_char CHR ''s'' = CHR ''s''" "lower_char CHR ''t'' = CHR ''t''" "lower_char CHR ''u'' = CHR ''u''"
  "lower_char CHR ''v'' = CHR ''v''" "lower_char CHR ''w'' = CHR ''w''" "lower_char CHR ''x'' = CHR ''x''"
  "lower_char CHR ''y'' = CHR ''y''" "lower_char CHR ''z'' = CHR ''z''" "lower_char CHR ''_'' = CHR ''_''"
  by (simp_all add: lower_char_def code_def)

lemmas lower_name = lower_def lower_letters

lemma script_facts:
  "list_all usable_table ddl_tables" "list_all (\<lambda>d. list_all (\<lambda>t. lower t = t) (td_refs d)) ddl_tables"
  "in_order {} duckdb_script"
  by (simp_all add: usable_table_def referenced_tables_def id_key_def has_column_def ddl_tables_def duckdb_script_def lower_name)

lemma declarations_set: "CreateTable d \<in> set ds \<longleftrightarrow> d \<in> set (declarations ds)"
  by (induction ds rule: declarations.induct) auto

lemma run_ddl_in_order:
  assumes "in_order seen ds" "seen \<subseteq> set (existing_tables cat)" "list_all usable_table cat"
    and "set ds \<subseteq> set duckdb_script" "distinct (existing_tables (declarations ds))"
  shows "run_ddl alterable ds cat = (Inr (), cat @ missing cat (declarations ds))"
  using assms
proof (induction ds arbitrary: seen cat)
  case (Cons s ds)
  show ?case
  proof (cases s)
    case (CreateTable d)
    then have d: "d \<in> set ddl_tables" using Cons.prems(4) declarations_set by (auto simp: ddl_tables_def)
    show ?thesis
    proof (cases "lower (td_name d) \<in> set (existing_tables cat)")
      case True
      have "run_ddl alterable ds cat = (Inr (), cat @ missing cat (declarations ds))"
        by (rule Cons.IH[of "insert (lower (td_name d)) seen"]) (use Cons.prems True in \<open>auto simp: CreateTable\<close>)
      with True show ?thesis by (simp add: CreateTable create_if_absent_def missing_def)
    next
      case False
      have "list_ex (\<lambda>u. lower (td_name u) = lower t \<and> id_key u) cat" if t: "t \<in> set (td_refs d)" for t
      proof -
        have "lower t \<in> set (existing_tables cat)" using Cons.prems(1,2) t by (auto simp: CreateTable)
        then obtain u where u: "u \<in> set cat" "lower (td_name u) = lower t" by (auto simp: existing_tables_def)
        have "lower t \<in> set referenced_tables"
          using t d script_facts(2) by (fastforce simp: referenced_tables_def list_all_iff)
        with u Cons.prems(3) show ?thesis by (auto simp: list_ex_iff list_all_iff usable_table_def)
      qed
      then have created: "create_if_absent d cat = Inr (cat @ [d])"
        using False by (simp add: create_if_absent_def list_all_iff)
      have "usable_table d" using d script_facts(1) by (simp add: list_all_iff)
      then have "run_ddl alterable ds (cat @ [d]) = (Inr (), (cat @ [d]) @ missing (cat @ [d]) (declarations ds))"
        by (intro Cons.IH[of "insert (lower (td_name d)) seen"]) (use Cons.prems in \<open>auto simp: CreateTable\<close>)
      moreover have "missing (cat @ [d]) (declarations ds) = missing cat (declarations ds)"
        using Cons.prems(5) existing_lower unfolding missing_def CreateTable by (intro filter_cong) force+
      ultimately show ?thesis using False by (simp add: CreateTable created missing_def)
    qed
  next
    case (AddColumn t c v)
    have "s \<in> set duckdb_script" using Cons.prems(4) by simp
    then have "list_all (\<lambda>u. lower (td_name u) = lower t \<longrightarrow> has_column c u) cat"
      using Cons.prems(3) by (fastforce simp: AddColumn usable_table_def list_all_iff list_ex_iff)
    then have "add_column_if_absent alterable t c cat = Inr cat"
      using Cons.prems(1,2) by (auto simp: AddColumn add_column_if_absent_def)
    moreover have "run_ddl alterable ds cat = (Inr (), cat @ missing cat (declarations ds))"
      by (rule Cons.IH[of seen]) (use Cons.prems in \<open>auto simp: AddColumn\<close>)
    ultimately show ?thesis by (simp add: AddColumn)
  qed
qed (simp add: missing_def)

lemma ddl_order: "existing_tables ddl_tables = configured_tables" "distinct configured_tables"
proof -
  show "existing_tables ddl_tables = configured_tables"
    by (simp add: ddl_tables_def duckdb_script_def configured_tables_def lower_name)
  show "distinct configured_tables" by (simp add: configured_tables_def)
qed

definition declared_refs :: "string \<Rightarrow> string list" where
  "declared_refs t = concat (map (\<lambda>d. if td_name d = t then td_refs d else []) ddl_tables)"

text \<open>A catalog whose foreign keys into the configured tables are the script's own.\<close>

definition foreign_keys_declared :: "catalog \<Rightarrow> bool" where
  "foreign_keys_declared cat \<longleftrightarrow>
     (\<forall>a b. b \<in> set configured_tables \<longrightarrow> references cat a b \<longrightarrow>
        a \<in> set configured_tables \<and> b \<in> set (declared_refs a))"

lemma references_append: "references (cat @ cat') a b \<longleftrightarrow> references cat a b \<or> references cat' a b"
  by (auto simp: references_def)

lemma ddl_keys_declared: "foreign_keys_declared ddl_tables"
proof -
  have "list_all (\<lambda>d. lower (td_name d) = td_name d \<and> td_name d \<in> set configured_tables \<and>
      list_all (\<lambda>t. lower t = t) (td_refs d)) ddl_tables"
    by (simp add: ddl_tables_def duckdb_script_def configured_tables_def lower_name)
  then show ?thesis
    by (fastforce simp: foreign_keys_declared_def references_def list_all_iff declared_refs_def)
qed

lemma missing_keys_declared:
  assumes "foreign_keys_declared cat" shows "foreign_keys_declared (cat @ missing cat ddl_tables)"
proof -
  have "references (missing cat ddl_tables) a b \<Longrightarrow> references ddl_tables a b" for a b
    by (auto simp: references_def missing_def)
  with assms ddl_keys_declared show ?thesis
    unfolding foreign_keys_declared_def references_append by blast
qed

lemma declared_order: "sorted_wrt (\<lambda>a b. a \<notin> set (declared_refs b)) (rev configured_tables)"
  by code_simp

lemma drop_configured:
  assumes "foreign_keys_declared cat"
  shows "drop_tables configured_tables cat = (Inr (), without configured_tables cat)"
proof -
  have "drop_tables configured_tables cat = (Inr (), without (rev configured_tables) cat)"
    unfolding drop_tables_def
  proof (rule drop_each_children_first)
    show "distinct (rev configured_tables)" using ddl_order(2) by simp
    show "\<forall>a b. b \<in> set (rev configured_tables) \<longrightarrow> references cat a b \<longrightarrow> a \<in> set (rev configured_tables)"
      using assms by (simp add: foreign_keys_declared_def)
    have "sorted_wrt (\<lambda>a b. \<not> references cat b a \<or> a \<notin> set configured_tables) (rev configured_tables)"
      by (rule sorted_wrt_mono_rel[OF _ declared_order]) (use assms in \<open>auto simp: foreign_keys_declared_def\<close>)
    then show "sorted_wrt (\<lambda>a b. \<not> references cat b a) (rev configured_tables)"
      by (rule sorted_wrt_mono_rel[rotated]) simp
  qed simp
  then show ?thesis by (simp add: without_def)
qed

lemma create_configured:
  assumes "list_all usable_table cat"
  shows "create_tables alterable configured_tables cat = (Inr (), cat @ missing cat ddl_tables)"
proof -
  have run: "run_ddl alterable duckdb_script cat = (Inr (), cat @ missing cat ddl_tables)"
    unfolding ddl_tables_def
    by (rule run_ddl_in_order[OF script_facts(3) _ assms]) (use ddl_order in \<open>simp_all add: ddl_tables_def\<close>)
  have "t \<in> set (existing_tables cat) \<or> t \<in> set (existing_tables (missing cat ddl_tables))"
    if "t \<in> set configured_tables" for t
    using that unfolding ddl_order(1)[symmetric] by (auto simp: existing_tables_def missing_def)
  then show ?thesis by (simp add: create_tables_def run list_all_iff)
qed

text \<open>C31: The schema can be created next to what is there and dropped again without harm. Take any catalog in which
  every foreign key into the configured tables is one the DuckDB script declares, every present table the script's foreign
  keys reference has a key \<open>id\<close>, and every present table the script upgrades has the columns it adds (so nothing is altered).
  Then creating succeeds, keeps every present table, adds exactly the missing ones, so that every configured table exists
  afterwards, and is idempotent; dropping then never meets a foreign key, since children go before their
  parents, removes every configured table and keeps all others: create then drop is drop.\<close>

theorem create_drop_tables:
  assumes "foreign_keys_declared cat" and "list_all usable_table cat"
  shows "create_tables alterable configured_tables cat = (Inr (), cat @ missing cat ddl_tables) \<and>
    set configured_tables \<subseteq> set (existing_tables (cat @ missing cat ddl_tables)) \<and>
    create_tables alterable configured_tables (cat @ missing cat ddl_tables) = (Inr (), cat @ missing cat ddl_tables) \<and>
    drop_tables configured_tables (cat @ missing cat ddl_tables) = (Inr (), without configured_tables cat) \<and>
    drop_tables configured_tables cat = (Inr (), without configured_tables cat)"
proof -
  let ?cat' = "cat @ missing cat ddl_tables"
  have all: "set configured_tables \<subseteq> set (existing_tables ?cat')"
    unfolding ddl_order(1)[symmetric] by (auto simp: existing_tables_def missing_def)
  have usable: "list_all usable_table ?cat'"
    using assms(2) script_facts(1) by (auto simp: list_all_iff missing_def)
  have "missing ?cat' ddl_tables = []"
    using all unfolding ddl_order(1)[symmetric] by (auto simp: missing_def filter_empty_conv dest: existing_lower)
  then have again: "create_tables alterable configured_tables ?cat' = (Inr (), ?cat')"
    by (simp add: create_configured[OF usable])
  have "without configured_tables (missing cat ddl_tables) = []"
    using existing_lower[of _ ddl_tables] unfolding ddl_order(1)
    by (auto simp: without_def missing_def filter_empty_conv)
  then have "without configured_tables ?cat' = without configured_tables cat" by (simp add: without_def)
  then show ?thesis
    using create_configured[OF assms(2)] all again drop_configured[OF assms(1)]
      drop_configured[OF missing_keys_declared[OF assms(1)]]
    by simp
qed

text \<open>A legacy \<open>Versions\<close> table, the tables of accounts, and one that is not the service's.\<close>

definition mixed_catalog :: catalog where
  "mixed_catalog =
     [\<lparr>td_name = ''Versions'', td_columns = [''product_name'', ''major'', ''minor'', ''patch'', ''status''], td_keys = [], td_refs = []\<rparr>,
      \<lparr>td_name = ''users'', td_columns = [''ID'', ''email''], td_keys = [[''ID'']], td_refs = []\<rparr>,
      \<lparr>td_name = ''sessions'', td_columns = [''id'', ''user_id''], td_keys = [[''id'']], td_refs = [''users'']\<rparr>,
      \<lparr>td_name = ''audit'', td_columns = [''line''], td_keys = [], td_refs = []\<rparr>]"

lemma lower_capitals:
  "lower_char CHR ''V'' = CHR ''v''" "lower_char CHR ''I'' = CHR ''i''" "lower_char CHR ''D'' = CHR ''d''"
  by code_simp+

lemmas mixed_defs = mixed_catalog_def lower_name lower_capitals ddl_tables_def duckdb_script_def

theorem create_drop_tables_witness:
  "map td_name (snd (drop_tables configured_tables (snd (create_tables (\<lambda>_ _. False) configured_tables mixed_catalog))))
     = [''audit'']"
proof -
  have "list_all usable_table mixed_catalog"
    by (simp add: usable_table_def referenced_tables_def id_key_def has_column_def mixed_defs)
  moreover have "foreign_keys_declared mixed_catalog"
  proof -
    have "list_all (\<lambda>d. list_all (\<lambda>b. td_name d = ''sessions'' \<and> b = ''users'') (td_refs d)) mixed_catalog"
      by (simp add: mixed_catalog_def)
    moreover have "lower ''sessions'' = ''sessions''" "lower ''users'' = ''users''" "''users'' \<in> set (declared_refs ''sessions'')"
      "''sessions'' \<in> set configured_tables"
      by (simp_all add: declared_refs_def configured_tables_def mixed_defs)
    ultimately show ?thesis by (fastforce simp: foreign_keys_declared_def references_def list_all_iff)
  qed
  ultimately have "drop_tables configured_tables (snd (create_tables (\<lambda>_ _. False) configured_tables mixed_catalog))
     = (Inr (), without configured_tables mixed_catalog)"
    using create_drop_tables by simp
  moreover have "map td_name (without configured_tables mixed_catalog) = [''audit'']"
    by (simp add: without_def configured_tables_def mixed_defs)
  ultimately show ?thesis by simp
qed

end
