(* ===== verification/Guarantees.thy ===== *)
theory Guarantees
  imports System
begin

text \<open>
  What holds of every state a started application can reach: the store is valid, releases never
  change, no request without credentials gets through, and no handler of a secured route ends
  in an unexpected exception. The first sections hold the configuration the witnesses run and
  the error analysis of each query.
\<close>

section \<open>A configuration to run\<close>

definition sample_env :: "environ \<Rightarrow> ident \<Rightarrow> call_env" where
  "sample_env env i =
     \<lparr>ce_environ = env, ce_now = 0, ce_clock = 0, ce_id = i, ce_token = ''t'', ce_hash_password = id,
      ce_pw_ok = (=), ce_sha = id, ce_equaliser = ''x'', ce_valid_ulid = (\<lambda>_. True), ce_errors = [],
      ce_db_answers = True\<rparr>"

definition bare_request :: "api_call \<Rightarrow> http_request" where
  "bare_request c = \<lparr>hr_headers = [], hr_cookies = [], hr_client = None, hr_call = c\<rparr>"

definition no_env :: environ where
  "no_env = (\<lambda>_. None)"

lemma open_when_unconfigured:
  "\<not> is_authentication_enabled no_env" "modes default_auth_settings no_env = {}"
  by (simp_all add: is_authentication_enabled_def get_configured_api_key_def configured_key_def no_env_def
      modes_def default_auth_settings_def env_or_empty_def split_csv_def split_on.simps recognised_modes_def
      strip_def lstrip_def)

lemma serve_outside_auth:
  assumes "\<not> startswith (call_path (hr_call rq)) ''/auth/''"
  shows "serve ce rq st = dispatch ce rq st"
proof -
  have "\<not> under_auth (scope_of rq)" using assms by (simp add: under_auth_def scope_of_def)
  from middleware_inert[OF disjI1[OF this]] show ?thesis by (simp add: serve_def)
qed

lemma start_db: "app_db (lifespan_start env plugins extensions stored) = stored"
  by (simp add: lifespan_start_def Let_def)

lemma running_start: "db_inv stored \<Longrightarrow> running env plugins extensions stored clock (lifespan_start env plugins extensions stored)"
  by (auto simp: running_def)

lemma unconfigured_principal:
  "require_principal (Some (app_resolver (lifespan_start no_env [] exts stored))) ae rq = Inr (anonymous_principal ''oss'')"
proof -
  have "app_registry default_auth_settings no_env [] = []"
    by (simp add: app_registry_def build_registry_def open_when_unconfigured apikey_mode_enabled_def password_enabled_def)
  moreover have "edition default_auth_settings no_env = ''oss''"
    by (simp add: edition_def default_auth_settings_def no_env_def)
  ultimately show ?thesis
    by (simp add: lifespan_start_def Let_def require_principal_def resolve_def build_resolver_def open_when_unconfigured)
qed

lemma sample_run_step:
  assumes "db_inv stored" "\<not> startswith (call_path c) ''/auth/''" "secured c"
  shows "serve (sample_env no_env i) (bare_request c) (lifespan_start no_env [] [] stored) =
      serve_secured (sample_env no_env i) (bare_request c) (anonymous_principal ''oss'') c
        (lifespan_start no_env [] [] stored)"
    and "running no_env [] [] stored 0 (snd (serve (sample_env no_env i) (bare_request c)
        (lifespan_start no_env [] [] stored)))"
proof -
  let ?st = "lifespan_start no_env [] [] stored"
  show "serve (sample_env no_env i) (bare_request c) ?st =
      serve_secured (sample_env no_env i) (bare_request c) (anonymous_principal ''oss'') c ?st"
    using assms(2,3) by (subst serve_outside_auth) (simp_all add: bare_request_def dispatch_def unconfigured_principal)
  obtain ans st' where run: "serve (sample_env no_env i) (bare_request c) ?st = (ans, st')"
    by (cases "serve (sample_env no_env i) (bare_request c) ?st")
  have "api_step (0, ?st) (ce_clock (sample_env no_env i), st')"
    by (rule api_step.request[OF _ run]) (simp add: sample_env_def)
  then have "api_step (0, ?st) (0, st')" by (simp add: sample_env_def)
  then show "running no_env [] [] stored 0 (snd (serve (sample_env no_env i) (bare_request c) ?st))"
    using assms(1) by (auto simp: running_def run)
qed

lemma db_inv_sample: "db_inv sample_database"
  using schema_ok_sample valid_versions_sample graph_ok_sample cut_ready_sample sample_names_unique
  by (simp add: db_inv_def valid_versions_def cut_ready_def)

section \<open>No unexpected failure\<close>

definition client_error :: "error \<Rightarrow> bool" where
  "client_error e \<longleftrightarrow> (\<exists>msg details. e = NotFoundError msg details \<or> e = ConflictError msg details)"

definition handled :: "api_answer \<Rightarrow> bool" where
  "handled a =
     (case a of
        JsonAnswer r \<Rightarrow> resp_status r \<in> set [200, 201, 404, 409, 422]
      | NoContent \<Rightarrow> True
      | EventStream _ _ \<Rightarrow> True
      | _ \<Rightarrow> False)"

lemma client_errors [simp]: "client_error (NotFoundError m d)" "client_error (ConflictError m d)"
  by (auto simp: client_error_def)

lemma handled_error: "client_error e \<Longrightarrow> handled (answer_error e)"
  by (auto simp: client_error_def handled_def answer_error_def error_defs handle_domain_error_def envelope_response_def)

lemma handled_unprocessable [simp]: "handled (unprocessable ce)"
  by (simp add: handled_def unprocessable_def handle_validation_error_def envelope_response_def)

lemma handled_json [simp]: "handled (json_response st body) \<longleftrightarrow> st \<in> set [200, 201, 404, 409, 422]"
  by (simp add: handled_def json_response_def)

lemma handled_with: "(\<And>e. r = Inl e \<Longrightarrow> client_error e) \<Longrightarrow> (\<And>x. handled (ok x)) \<Longrightarrow> handled (answer_with ok r)"
  by (cases r) (simp_all add: answer_with_def handled_error)

lemma handled_ok_read [simp]: "handled (fst (read_answer st (Inr j)))"
  by (simp add: read_answer_def answer_with_def)

lemma handled_read: "(\<And>e. r = Inl e \<Longrightarrow> client_error e) \<Longrightarrow> handled (fst (read_answer st (outcome_map f r)))"
  by (cases r) (simp_all add: read_answer_def outcome_map_def answer_with_def handled_error)

definition fresh_id :: "ident \<Rightarrow> database \<Rightarrow> bool" where
  "fresh_id i db \<longleftrightarrow>
     i \<notin> p_id ` set (products db) \<and> i \<notin> c_id ` set (components db) \<and> i \<notin> v_id ` set (versions db) \<and>
     i \<notin> r_id ` set (releases db) \<and> i \<notin> d_id ` set (dependencies db)"

definition storable_version :: "string \<Rightarrow> bool" where
  "storable_version s \<longleftrightarrow>
     (\<forall>a b c. parse_core s = Inr (a, b, c) \<longrightarrow> in_integer_range a \<and> in_integer_range b \<and> in_integer_range c)"

lemma create_product_errors:
  assumes "create_product_query i now data db = (Inl e, db')" "fresh_id i db"
  shows "client_error e"
  using assms
  by (auto simp: create_product_query_def insert_product_def new_product_row_def fresh_id_def split: option.splits if_splits)

lemma create_component_errors:
  assumes "create_component_query i data db = (Inl e, db')" "fresh_id i db"
  shows "client_error e"
proof (cases "select_products_by_id (cc_product_id data) db")
  case Nil
  with assms(1) show ?thesis by (auto simp: create_component_query_def fetchone_def)
next
  case (Cons p rest)
  then have "cc_product_id data \<in> p_id ` set (products db)"
    using select_product_None[of "cc_product_id data" db] by (simp add: fetchone_def)
  with Cons assms show ?thesis
    by (auto simp: create_component_query_def fetchone_def insert_component_def fresh_id_def split: if_splits)
qed

lemma create_version_errors:
  assumes run: "create_version_query i now data db bus = (Inl e, db', bus')"
    and valid: "semver_match (cv_version data)" "storable_version (cv_version data)" and fresh: "fresh_id i db"
  shows "client_error e"
proof (cases "select_components_by_id (cv_component_id data) db")
  case Nil
  with run show ?thesis by (auto simp: create_version_query_def)
next
  case (Cons comp rest)
  then have comp: "comp \<in> set (components db)" "c_id comp = cv_component_id data"
    using select_component_Some[of "cv_component_id data" db comp] by simp_all
  from create_version_parts[OF valid(1)] obtain a b c where parts: "cv_major data = Some a"
    "cv_minor data = Some b" "cv_patch data = Some c" "parse_core (cv_version data) = Inr (a, b, c)" by blast
  let ?row = "created_row i now data a b c" and ?db1 = "supersede_active (cv_component_id data) db"
  have "insert_version ?row ?db1 = Inr (?db1\<lparr>versions := versions ?db1 @ [?row]\<rparr>)"
    using valid(2) parts(4) fresh imageI[OF comp(1), of c_id] comp(2)
    by (simp add: insert_version_def created_row_def storable_version_def fresh_id_def)
  then obtain db2 where ins: "insert_version ?row ?db1 = Inr db2" by blast
  from run valid(1) show ?thesis
  proof (cases rule: create_version_cases)
    case (refused e')
    with fresh have "e = OutOfRange" by (auto simp: fresh_id_def)
    with run Cons parts ins show ?thesis
      by (auto simp: create_version_query_def created_row_def[symmetric] Let_def to_version_response_def
          validate_version_response_def split: list.splits sum.splits if_splits)
  qed (use comp(2) imageI[OF comp(1), of c_id] in simp_all)
qed

lemma rollback_version_errors:
  assumes run: "rollback_version_query i db bus = (Inl e, db', bus')" and inv: "db_inv db"
  shows "client_error e"
  using run db_inv_parts(1,4)[OF inv]
proof (cases rule: rollback_version_cases)
  case (unknown e')
  then have "select_versions_by_id i db = []" by (auto simp: select_versions_by_id_def filter_empty_conv image_iff)
  with run show ?thesis by (auto simp: rollback_version_query_def)
qed (auto simp: no_prior_error_def)

lemma add_dependency_errors:
  assumes run: "add_dependency_query i now data db bus = (Inl e, db', bus')" and fresh: "fresh_id i db"
  shows "client_error e"
  using run
proof (cases rule: add_dependency_cases)
  case (guarded e')
  then show ?thesis
    by (auto simp: add_dependency_guard_def assert_component_def split: option.splits if_splits)
next
  case (refused e')
  have inside: "i \<in> c_id ` set (components db)" if "fetchone (select_components_by_id i db) = Some c" for i c
    using select_component_None[of i db] that by (metis option.distinct(1))
  have d: "select_products_by_id (cd_product_id data) db \<noteq> []" "cd_from data \<in> c_id ` set (components db)"
    "cd_to data \<in> c_id ` set (components db)" "select_edge (cd_product_id data) (cd_from data) (cd_to data) db = []"
    using refused(5) inside
    by (auto simp: add_dependency_guard_def assert_component_def fetchone_None split: option.splits if_splits)
  then have "cd_product_id data \<in> p_id ` set (products db)"
    using select_product_None[of "cd_product_id data" db] by (auto simp: fetchone_None)
  moreover have "d_key (new_dependency_row i now data) \<notin> d_key ` set (dependencies db)"
    using d(4) by (auto simp: select_edge_def d_key_def new_dependency_row_def filter_empty_conv)
  ultimately show ?thesis using refused(1) d fresh
    by (simp add: insert_dependency_def new_dependency_row_def fresh_id_def)
qed simp

lemma remove_dependency_errors:
  "remove_dependency_query data db bus = (Inl e, db', bus') \<Longrightarrow> client_error e"
  by (auto simp: remove_dependency_query_def Let_def split: option.splits)

lemma cut_release_errors:
  assumes run: "cut_release i now data db bus = (Inl e, db', bus')" and inv: "db_inv db" and fresh: "fresh_id i db"
  shows "client_error e"
proof -
  note ok = db_inv_parts(1,3,7)[OF inv]
  have q: "cut_release_query i now data db = (Inl e, db')"
    using run by (auto simp: cut_release_def split: prod.splits sum.splits if_splits)
  from q ok show ?thesis
  proof (cases rule: cut_release_query_cases)
    case (unknown e')
    then have "select_products_by_id (cut_product_id data) db = []"
      by (auto simp: select_products_by_id_def filter_empty_conv image_iff)
    with q show ?thesis by (auto simp: cut_release_query_def)
  next
    case (fresh p)
    have pp: "parses (p_base_version p)" "cut_product_id data \<in> p_id ` set (products db)"
      using fresh(1,2) ok(3) imageI[OF fresh(1), of p_id] by (auto simp: all_parse_def)
    from fresh(4) ok pp show ?thesis
      by (cases rule: fresh_cut_cases) (use assms(3) in \<open>auto simp: nothing_to_release_def fresh_id_def\<close>)
  qed simp
qed

lemma read_errors:
  "get_product_by_id_query pid db = Inl e \<Longrightarrow> client_error e"
  "list_product_components pid db = Inl e \<Longrightarrow> client_error e"
  "get_product_graph pid db = Inl e \<Longrightarrow> client_error e"
  "get_release_by_id_query rid db = Inl e \<Longrightarrow> client_error e"
  "list_releases_by_product_query pid db = Inl e \<Longrightarrow> client_error e"
  by (auto simp: get_product_by_id_query_def list_product_components_def get_product_graph_def
      get_release_by_id_query_def list_releases_by_product_query_def Let_def split: option.splits sum.splits if_splits)

lemma impact_errors:
  assumes "impact_query pid t db = Inl e" "db_inv db"
  shows "client_error e"
proof (cases "fetchone (select_products_by_id pid db) = None \<or> fetchone (select_component_in_product t pid db) = None")
  case True
  with assms(1) show ?thesis by (auto simp: impact_query_def split: if_splits)
next
  case False
  then have "pid \<in> p_id ` set (products db)" using select_product_None[of pid db] by simp
  moreover have "\<exists>c\<in>set (components db). c_id c = t \<and> c_product_id c = pid"
    using False by (auto simp: select_component_in_product_def fetchone_None filter_empty_conv)
  ultimately show ?thesis
    using impact_query_result[OF db_inv_parts(1,5)[OF assms(2)]] assms(1) by fastforce
qed

lemma list_versions_errors:
  assumes "list_component_versions_query cid db = Inl e" "db_inv db"
  shows "client_error e"
proof -
  have "map_outcome to_version_response (select_versions_of_component cid db) =
      Inr (map version_fields (select_versions_of_component cid db))"
    using db_inv_parts(4)[OF assms(2)]
    by (intro map_outcome_Inr to_version_response_ok) (auto simp: select_versions_of_component_def all_nonneg_def)
  with assms(1) show ?thesis by (auto simp: list_component_versions_query_def split: option.splits)
qed

lemma timeline_errors:
  assumes "get_timeline pid db = Inl e" "db_inv db"
  shows "client_error e"
proof (cases "pid \<in> p_id ` set (products db)")
  case True
  then obtain p where "p \<in> set (products db)" "p_id p = pid" by auto
  with assms get_timeline_result[of db p] db_inv_parts(1,4)[OF assms(2)] show ?thesis
    by (simp add: all_nonneg_def)
next
  case False
  then have "read_product pid db = None" by (auto simp: read_product_def fetchone_None filter_empty_conv select_products_by_id_def image_iff)
  with assms(1) show ?thesis by (auto simp: get_timeline_def timeline_query_def)
qed

lemma handled_stream [simp]: "handled (fst (stream_product_events pid st))"
  by (simp add: stream_product_events_def handled_def split: prod.split)

lemma handled_create_product:
  "fresh_id (ce_id ce) (app_db st) \<Longrightarrow> handled (fst (create_product ce name description st))"
  by (auto simp: create_product_def split: option.split prod.split intro!: handled_with dest: create_product_errors)

lemma handled_create_component:
  "fresh_id (ce_id ce) (app_db st) \<Longrightarrow> handled (fst (create_component ce pid name kind st))"
  by (auto simp: create_component_def split: option.split prod.split intro!: handled_with dest: create_component_errors)

lemma handled_create_version:
  "fresh_id (ce_id ce) (app_db st) \<Longrightarrow> storable_version s \<Longrightarrow>
     handled (fst (create_version ce cid (JStr s) prerelease st))"
  by (auto simp: create_version_def validate_create_version_def split: option.split prod.split
      intro!: handled_with dest: create_version_errors)

lemma handled_rollback: "db_inv (app_db st) \<Longrightarrow> handled (fst (rollback_version vid st))"
  by (auto simp: rollback_version_def split: prod.split intro!: handled_with dest: rollback_version_errors)

lemma handled_add: "fresh_id (ce_id ce) (app_db st) \<Longrightarrow> handled (fst (add_product_dependency ce pid f t st))"
  by (auto simp: add_product_dependency_def split: prod.split intro!: handled_with dest: add_dependency_errors)

lemma handled_remove: "handled (fst (remove_product_dependency pid f t st))"
  by (auto simp: remove_product_dependency_def handled_def[of NoContent] split: prod.split
      intro!: handled_with dest: remove_dependency_errors)

lemma handled_cut:
  "db_inv (app_db st) \<Longrightarrow> fresh_id (ce_id ce) (app_db st) \<Longrightarrow>
     handled (fst (cut_product_release ce key pid label notes st))"
  by (auto simp: cut_product_release_def split: prod.split intro!: handled_with dest: cut_release_errors)

lemma handled_secured:
  assumes inv: "db_inv (app_db st)" and fresh: "fresh_id (ce_id ce) (app_db st)"
    and "\<And>cid v pre. c = CreateVersion cid v pre \<Longrightarrow> \<exists>s. v = JStr s \<and> storable_version s"
  shows "handled (fst (serve_secured ce rq p c st))"
proof (cases c)
  case (CreateVersion cid v pre)
  with assms show ?thesis by (auto simp: handled_create_version)
qed (auto simp: read_route_defs handled_create_product[OF fresh] handled_create_component[OF fresh]
      handled_rollback[OF inv] handled_add[OF fresh] handled_remove handled_cut[OF inv fresh]
      intro!: handled_read dest: read_errors impact_errors[OF _ inv] list_versions_errors[OF _ inv]
      timeline_errors[OF _ inv])

section \<open>Properties\<close>

text \<open>A release reads the same in every later store.\<close>

lemma release_kept:
  assumes "db_inv (app_db st)" "db_inv (app_db st')" and grows: "extends (app_db st) (app_db st')"
    and "r \<in> set (releases (app_db st))"
  shows "r \<in> set (releases (app_db st')) \<and>
    fst (get_release (r_id r) st) = json_response 200 (release_json (release_view r (app_db st))) \<and>
    get_release (r_id r) st' = (fst (get_release (r_id r) st), st')"
proof -
  note ok = db_inv_parts(1)[OF assms(1)] db_inv_parts(1)[OF assms(2)]
  have there: "r \<in> set (releases (app_db st'))"
    using grows assms(4) set_mono_prefix by (auto simp: extends_def)
  note same = release_view_extends[OF ok grows assms(4) db_inv_parts(9)[OF assms(1)]]
  have "get_release (r_id r) x = (json_response 200 (release_json (release_view r (app_db x))), x)"
    if "schema_ok (app_db x)" "r \<in> set (releases (app_db x))" for x
    using get_release_view[OF _ that(2)] that(1)
    by (simp add: get_release_def read_answer_def outcome_map_def answer_with_def schema_ok_def)
  from this[OF ok(1) assms(4)] this[OF ok(2) there] there same show ?thesis by simp
qed

text \<open>A release is immutable. Once a release exists in a running application, no later
  sequence of steps removes it or changes what reading it answers: \<open>GET /releases/{id}\<close>
  keeps answering 200 with the same body, whatever happens to the versions and components it
  pins.\<close>

theorem releases_immutable:
  assumes "running env plugins extensions stored clock st" and "api_step\<^sup>*\<^sup>* (clock, st) (clock', st')"
    and "r \<in> set (releases (app_db st))"
  shows "r \<in> set (releases (app_db st')) \<and>
    fst (get_release (r_id r) st) = json_response 200 (release_json (release_view r (app_db st))) \<and>
    get_release (r_id r) st' = (fst (get_release (r_id r) st), st')"
proof -
  have inv: "app_inv (clock, st)" using running_inv[OF assms(1)] by (simp add: app_inv_def)
  have "extends (app_db st) (app_db st')"
    using app.run_grows[OF assms(2) inv] by (simp add: history_grows_def)
  moreover have "db_inv (app_db st)" "db_inv (app_db st')"
    using inv app.invariant[OF assms(2) inv] by (auto simp: app_inv_def)
  ultimately show ?thesis using release_kept[OF _ _ _ assms(3)] by blast
qed

lemma sample_released:
  obtains db row where "db_inv db" "row \<in> set (releases db)"
proof -
  obtain result db where run: "cut_release_query ''r1'' 5 (cut_request None) sample_database = (Inr result, db)"
    "releases db \<noteq> []" using sample_cut by blast
  from run(2) obtain row where "row \<in> set (releases db)" by (meson list.set_sel(1))
  with that keeps_cut_release[OF run(1) db_inv_sample] show thesis by blast
qed

theorem releases_immutable_witness:
  "\<exists>db row st. db_inv db \<and> row \<in> set (releases db) \<and> st = lifespan_start no_env [] [] db \<and>
     fst (get_release (r_id row) (snd (serve (sample_env no_env ''i'') (bare_request (RollbackVersion ''a2'')) st)))
       = json_response 200 (release_json (release_view row db))"
proof -
  let ?c = "RollbackVersion ''a2''"
  obtain db row where db: "db_inv db" "row \<in> set (releases db)" by (rule sample_released)
  define st where "st = lifespan_start no_env [] [] db"
  have st: "app_db st = db" by (simp add: st_def lifespan_start_def Let_def)
  have c: "\<not> startswith (call_path ?c) ''/auth/''" "secured ?c" by (simp_all add: call_path_def)
  note start = running_start[OF db(1), of no_env "[]" "[]" 0, folded st_def]
  obtain ans st' where run: "serve (sample_env no_env ''i'') (bare_request ?c) st = (ans, st')"
    by (cases "serve (sample_env no_env ''i'') (bare_request ?c) st")
  have "api_step (0, st) (ce_clock (sample_env no_env ''i''), st')"
    by (rule api_step.request[OF _ run]) (simp add: sample_env_def)
  then have "api_step\<^sup>*\<^sup>* (0, st) (ce_clock (sample_env no_env ''i''), st')" by blast
  from releases_immutable[OF start this, of row] db st run
  have "fst (get_release (r_id row) (snd (serve (sample_env no_env ''i'') (bare_request ?c) st)))
      = json_response 200 (release_json (release_view row db))" by simp
  with db st_def show ?thesis by blast
qed

section \<open>Refusals\<close>

definition non_ascii_key :: "environ \<Rightarrow> auth_request \<Rightarrow> bool" where
  "non_ascii_key env arq \<longleftrightarrow>
     (\<exists>configured presented. get_configured_api_key env = Some configured \<and>
        dict_get (rq_headers arq) (lower API_KEY_HEADER) = Some presented \<and>
        \<not> (is_ascii presented \<and> is_ascii configured))"

lemma api_key_provider_Inl:
  "api_key_provider ed ae rq = Inl e \<Longrightarrow> e = TypeError \<and> non_ascii_key (ae_environ ae) rq"
  by (auto simp: api_key_provider_def compare_digest_def non_ascii_key_def split: option.splits if_splits sum.splits)

lemma session_provider_not_Inl: "password_session_provider ed ae rq \<noteq> Inl e"
  by (auto simp: password_session_provider_def split: option.splits)

lemma try_providers_Inl: "try_providers ps ae rq = Inl e \<Longrightarrow> \<exists>q\<in>set ps. q ae rq = Inl e"
  by (induction ps) (auto split: sum.splits option.splits)

definition no_credentials_error :: error where
  "no_credentials_error = UnauthorizedError ''No valid credentials were provided.'' []"

lemma configured_resolution:
  assumes conf: "modes s env \<noteq> {} \<or> is_authentication_enabled env"
    and none: "\<not> presents_api_key (ae_environ ae) rq" "\<forall>u. \<not> presents_session ae rq u"
  shows "require_principal (Some (build_resolver s env (Some (app_registry s env [])))) ae rq = Inl no_credentials_error \<or>
    require_principal (Some (build_resolver s env (Some (app_registry s env [])))) ae rq = Inl TypeError \<and>
      non_ascii_key (ae_environ ae) rq"
proof -
  let ?reg = "app_registry s env []"
  have reg: "q = api_key_provider (edition s env) \<or> q = password_session_provider (edition s env)" if "q \<in> set ?reg" for q
    using that by (auto simp: app_registry_def build_registry_def split: if_splits)
  have "try_providers ?reg ae rq \<noteq> Inr (Some p)" for p
  proof
    assume "try_providers ?reg ae rq = Inr (Some p)"
    from try_providers_Some[OF this] reg none show False
      using api_key_provider_Some[of _ ae rq p] session_provider_Some[of _ ae rq p] by metis
  qed
  moreover have "e = TypeError \<and> non_ascii_key (ae_environ ae) rq" if "try_providers ?reg ae rq = Inl e" for e
    using try_providers_Inl[OF that] reg api_key_provider_Inl session_provider_not_Inl by metis
  ultimately show ?thesis using conf
    by (cases "try_providers ?reg ae rq")
       (auto simp: require_principal_def resolve_def build_resolver_def no_credentials_error_def split: option.splits)
qed



text \<open>C27: No handler of a secured route fails unexpectedly. In every state a started application
  can reach, an authenticated request that mints a fresh identifier (and, when it creates a
  version, gives one whose numbers fit the columns) is answered with a success, a not-found, a
  conflict or a validation error; never with an unhandled exception (CPython's recursion limit aside).\<close>

theorem authenticated_requests_handled:
  assumes "running env plugins extensions stored clock st" and "secured (hr_call rq)"
    and "require_principal (Some (app_resolver st)) (auth_env_of ce st) (auth_request_of rq) = Inr p"
    and "fresh_id (ce_id ce) (app_db st)"
    and "\<And>cid v pre. hr_call rq = CreateVersion cid v pre \<Longrightarrow> \<exists>s. v = JStr s \<and> storable_version s"
  shows "handled (fst (dispatch ce rq st))"
  using handled_secured[OF running_inv(1)[OF assms(1)] assms(4,5)] assms(2,3) by (simp add: dispatch_def)

theorem authenticated_requests_handled_witness:
  "handled (fst (dispatch (sample_env no_env ''n'') (bare_request (CutRelease ''p'' None None))
     (lifespan_start no_env [] [] sample_database)))"
proof -
  have "fresh_id ''n'' sample_database" by (simp add: fresh_id_def sample_defs)
  then show ?thesis
    by (intro authenticated_requests_handled[OF running_start[OF db_inv_sample, of no_env "[]" "[]" 0] _ unconfigured_principal])
       (simp_all add: bare_request_def sample_env_def start_db)
qed

end
