(* ===== verification/Schema_Upgrade.thy ===== *)
theory Schema_Upgrade
  imports Schema_Admin Guarantees
begin

text \<open>
  The script of \<open>src/app/database/duckdb/ddl.sql\<close> (\<open>duckdb_script\<close> of \<open>Schema_Admin\<close>) on a database that an earlier version
  of the service left: tables with their columns, keys and rows, \<open>CREATE TABLE IF NOT EXISTS\<close>, and the guarded
  \<open>ALTER TABLE ... ADD COLUMN IF NOT EXISTS\<close> upgrades. The constraints of the finished schema are in \<open>Database\<close>. The PostgreSQL
  script is the same in this respect; those of MySQL and SQL Server have no upgrades. Whether the engine lets a
  table be altered (other tables refer to \<open>products\<close> and \<open>releases\<close>) is the parameter \<open>alterable\<close>.
\<close>

section \<open>Stored tables\<close>

type_synonym sql_row = "(string, sql_value) dict"

record stored_table =
  tb_columns :: "string list"
  tb_keys :: "string list list"
  tb_rows :: "sql_row list"

type_synonym stored_schema = "(string, stored_table) dict"

definition add_column :: "string \<Rightarrow> sql_value \<Rightarrow> stored_table \<Rightarrow> stored_table" where
  "add_column c default_value tb =
     (if c \<in> set (tb_columns tb) then tb
      else tb\<lparr>tb_columns := tb_columns tb @ [c], tb_rows := map (\<lambda>r. r @ [(c, default_value)]) (tb_rows tb)\<rparr>)"

definition created :: "table_declaration \<Rightarrow> stored_table" where
  "created d = \<lparr>tb_columns = td_columns d, tb_keys = td_keys d, tb_rows = []\<rparr>"

definition can_refer :: "stored_schema \<Rightarrow> string \<Rightarrow> bool" where
  "can_refer s t = (case dict_get s t of None \<Rightarrow> False | Some tb \<Rightarrow> [''id''] \<in> set (tb_keys tb))"

fun run_ddl_statement ::
  "(stored_schema \<Rightarrow> string \<Rightarrow> bool) \<Rightarrow> ddl_statement \<Rightarrow> stored_schema \<Rightarrow> stored_schema outcome" where
  "run_ddl_statement alterable (CreateTable d) s =
     (if td_name d \<in> set (keys s) then Inr s
      else if list_all (can_refer s) (td_refs d) then Inr (s @ [(td_name d, created d)])
      else Inl ConstraintViolation)"
| "run_ddl_statement alterable (AddColumn t c default_value) s =
     (case dict_get s t of
        None \<Rightarrow> Inl ConstraintViolation
      | Some tb \<Rightarrow>
          if c \<in> set (tb_columns tb) \<or> alterable s t then Inr (dict_set t (add_column c default_value tb) s)
          else Inl ConstraintViolation)"

fun run_ddl_script ::
  "(stored_schema \<Rightarrow> string \<Rightarrow> bool) \<Rightarrow> ddl_statement list \<Rightarrow> stored_schema \<Rightarrow> stored_schema outcome" where
  "run_ddl_script alterable [] s = Inr s"
| "run_ddl_script alterable (d # ds) s =
     (case run_ddl_statement alterable d s of Inl e \<Rightarrow> Inl e | Inr s' \<Rightarrow> run_ddl_script alterable ds s')"

section \<open>Reading rows by column name\<close>

fun text_of :: "sql_value option \<Rightarrow> string option" where
  "text_of (Some (SText s)) = Some s"
| "text_of _ = None"

fun nullable_text_of :: "sql_value option \<Rightarrow> string option option" where
  "nullable_text_of (Some (SText s)) = Some (Some s)"
| "nullable_text_of (Some SNull) = Some None"
| "nullable_text_of _ = None"

fun time_of :: "sql_value option \<Rightarrow> timestamp option" where
  "time_of (Some (SInt t)) = Some t"
| "time_of _ = None"

definition read_product_row :: "sql_row \<Rightarrow> product_row option" where
  "read_product_row r =
     (case (text_of (dict_get r ''id''), text_of (dict_get r ''name''), nullable_text_of (dict_get r ''description''),
            text_of (dict_get r ''base_version''), text_of (dict_get r ''bump_policy''), time_of (dict_get r ''created_at'')) of
        (Some i, Some n, Some d, Some b, Some p, Some t) \<Rightarrow>
          Some \<lparr>p_id = i, p_name = n, p_description = d, p_base_version = b, p_bump_policy = p, p_created_at = t\<rparr>
      | _ \<Rightarrow> None)"

definition read_release_row :: "sql_row \<Rightarrow> release_row option" where
  "read_release_row r =
     (case (text_of (dict_get r ''id''), text_of (dict_get r ''product_id''), text_of (dict_get r ''product_version''),
            nullable_text_of (dict_get r ''label''), nullable_text_of (dict_get r ''notes''),
            nullable_text_of (dict_get r ''idempotency_key''), nullable_text_of (dict_get r ''bump_level''),
            nullable_text_of (dict_get r ''bump_rationale''), time_of (dict_get r ''created_at'')) of
        (Some i, Some p, Some v, Some l, Some n, Some k, Some bl, Some br, Some t) \<Rightarrow>
          Some \<lparr>r_id = i, r_product_id = p, r_product_version = v, r_label = l, r_notes = n, r_idempotency_key = k,
                r_bump_level = bl, r_bump_rationale = br, r_created_at = t\<rparr>
      | _ \<Rightarrow> None)"

definition read_release_component_row :: "sql_row \<Rightarrow> release_component_row option" where
  "read_release_component_row r =
     (case (text_of (dict_get r ''release_id''), text_of (dict_get r ''component_id''), text_of (dict_get r ''version_id''),
            nullable_text_of (dict_get r ''change_level'')) of
        (Some i, Some c, Some v, Some l) \<Rightarrow>
          Some \<lparr>rc_release_id = i, rc_component_id = c, rc_version_id = v, rc_change_level = l\<rparr>
      | _ \<Rightarrow> None)"

definition read_table :: "(sql_row \<Rightarrow> 'r option) \<Rightarrow> string \<Rightarrow> stored_schema \<Rightarrow> 'r list option" where
  "read_table read t s = Option.bind (dict_get s t) (\<lambda>tb. those (map read (tb_rows tb)))"

section \<open>Databases of earlier versions\<close>

fun sql_nullable :: "string option \<Rightarrow> sql_value" where
  "sql_nullable None = SNull"
| "sql_nullable (Some s) = SText s"

definition product_columns :: "product_row \<Rightarrow> sql_row" where
  "product_columns p =
     [(''id'', SText (p_id p)), (''name'', SText (p_name p)), (''description'', sql_nullable (p_description p)),
      (''base_version'', SText (p_base_version p)), (''bump_policy'', SText (p_bump_policy p)),
      (''created_at'', SInt (p_created_at p))]"

definition release_columns :: "release_row \<Rightarrow> sql_row" where
  "release_columns r =
     [(''id'', SText (r_id r)), (''product_id'', SText (r_product_id r)), (''product_version'', SText (r_product_version r)),
      (''label'', sql_nullable (r_label r)), (''notes'', sql_nullable (r_notes r)),
      (''idempotency_key'', sql_nullable (r_idempotency_key r)), (''bump_level'', sql_nullable (r_bump_level r)),
      (''bump_rationale'', sql_nullable (r_bump_rationale r)), (''created_at'', SInt (r_created_at r))]"

definition release_component_columns :: "release_component_row \<Rightarrow> sql_row" where
  "release_component_columns rc =
     [(''release_id'', SText (rc_release_id rc)), (''component_id'', SText (rc_component_id rc)),
      (''version_id'', SText (rc_version_id rc)), (''change_level'', sql_nullable (rc_change_level rc))]"

text \<open>
  \<open>older lacking absent others db\<close>: the content of \<open>db\<close> as a version stored it that did not know the columns
  \<open>lacking\<close> nor the tables \<open>absent\<close>; \<open>others\<close> is whatever the six tables without upgrades hold.
\<close>

definition older_table :: "string set \<Rightarrow> string list \<Rightarrow> string list list \<Rightarrow> sql_row list \<Rightarrow> stored_table" where
  "older_table lacking columns ks rows =
     \<lparr>tb_columns = filter (\<lambda>c. c \<notin> lacking) columns, tb_keys = ks, tb_rows = map (filter (\<lambda>(c, v). c \<notin> lacking)) rows\<rparr>"

definition older :: "string set \<Rightarrow> string set \<Rightarrow> (string \<Rightarrow> stored_table) \<Rightarrow> database \<Rightarrow> stored_schema" where
  "older lacking absent others db =
     filter (\<lambda>(t, tb). t \<notin> absent)
       ([(''products'', older_table lacking
            [''id'', ''name'', ''description'', ''base_version'', ''bump_policy'', ''created_at''] [[''id'']]
            (map product_columns (products db))),
         (''releases'', older_table lacking
            [''id'', ''product_id'', ''product_version'', ''label'', ''notes'', ''idempotency_key'', ''bump_level'',
             ''bump_rationale'', ''created_at''] [[''id'']] (map release_columns (releases db))),
         (''release_components'', older_table lacking
            [''release_id'', ''component_id'', ''version_id'', ''change_level''] [[''release_id'', ''component_id'']]
            (map release_component_columns (release_components db)))]
       @ map (\<lambda>t. (t, others t))
           [''components'', ''versions'', ''component_dependencies'', ''users'', ''sessions'', ''email_verification_tokens''])"

definition upgrade_columns :: "string set" where
  "upgrade_columns = {''base_version'', ''bump_policy'', ''bump_level'', ''bump_rationale'', ''change_level''}"

text \<open>What the columns hold after the upgrade.\<close>

definition upgraded :: "string set \<Rightarrow> database \<Rightarrow> database" where
  "upgraded lacking db = db\<lparr>
     products := map (\<lambda>p. p\<lparr>p_base_version := (if ''base_version'' \<in> lacking then ''0.0.0'' else p_base_version p),
                            p_bump_policy := (if ''bump_policy'' \<in> lacking then ''legacy'' else p_bump_policy p)\<rparr>) (products db),
     releases := map (\<lambda>r. r\<lparr>r_bump_level := (if ''bump_level'' \<in> lacking then None else r_bump_level r),
                            r_bump_rationale := (if ''bump_rationale'' \<in> lacking then None else r_bump_rationale r)\<rparr>) (releases db),
     release_components := map (\<lambda>rc. rc\<lparr>rc_change_level := (if ''change_level'' \<in> lacking then None else rc_change_level rc)\<rparr>)
                             (release_components db)\<rparr>"

section \<open>Table by table\<close>

fun run_on :: "ddl_statement list \<Rightarrow> string \<Rightarrow> stored_table option \<Rightarrow> stored_table option" where
  "run_on [] t tb = tb"
| "run_on (CreateTable d # ds) t tb = run_on ds t (if t = td_name d \<and> tb = None then Some (created d) else tb)"
| "run_on (AddColumn t' c d # ds) t tb = run_on ds t (if t = t' then map_option (add_column c d) tb else tb)"

lemma run_script_on:
  "run_ddl_script alterable ds s = Inr s' \<Longrightarrow> dict_get s' t = run_on ds t (dict_get s t)"
proof (induction ds arbitrary: s)
  case (Cons d ds)
  show ?case
  proof (cases d)
    case (CreateTable d')
    show ?thesis
    proof (cases "td_name d' \<in> set (keys s)")
      case True
      then have "dict_get s (td_name d') \<noteq> None" by (simp add: map_of_eq_None_iff)
      with True Cons show ?thesis by (auto simp: CreateTable)
    next
      case False
      then have none: "dict_get s (td_name d') = None" by (simp add: map_of_eq_None_iff)
      from False Cons.prems have "run_ddl_script alterable ds (s @ [(td_name d', created d')]) = Inr s'"
        by (auto simp: CreateTable split: if_splits)
      from Cons.IH[OF this] none show ?thesis by (auto simp: CreateTable map_add_def split: option.split)
    qed
  next
    case (AddColumn t' c v)
    with Cons.prems obtain tb where tb: "dict_get s t' = Some tb"
      "run_ddl_script alterable ds (dict_set t' (add_column c v tb) s) = Inr s'"
      by (auto split: option.splits if_splits)
    from Cons.IH[OF tb(2)] tb(1) show ?thesis by (simp add: AddColumn)
  qed
qed simp

text \<open>
  The script runs through on a schema whose tables it can refer to have a key \<open>id\<close>, if the engine alters the
  tables that lack a column.
\<close>

fun creates_first :: "string set \<Rightarrow> ddl_statement list \<Rightarrow> bool" where
  "creates_first present [] = True"
| "creates_first present (CreateTable d # ds) = (set (td_refs d) \<subseteq> present \<and> creates_first (insert (td_name d) present) ds)"
| "creates_first present (AddColumn t c d # ds) = (t \<in> present \<and> creates_first present ds)"

definition id_keyed :: "stored_schema \<Rightarrow> bool" where
  "id_keyed s \<longleftrightarrow> (\<forall>t\<in>set referenced_tables. \<forall>tb. dict_get s t = Some tb \<longrightarrow> [''id''] \<in> set (tb_keys tb))"

definition alters_lacking :: "(stored_schema \<Rightarrow> string \<Rightarrow> bool) \<Rightarrow> ddl_statement list \<Rightarrow> stored_schema \<Rightarrow> bool" where
  "alters_lacking alterable ds s \<longleftrightarrow>
     (\<forall>t c v tb. AddColumn t c v \<in> set ds \<longrightarrow> dict_get s t = Some tb \<longrightarrow> c \<notin> set (tb_columns tb) \<longrightarrow> (\<forall>s'. alterable s' t))"

fun adds_declared :: "ddl_statement \<Rightarrow> bool" where
  "adds_declared (CreateTable d) \<longleftrightarrow> True"
| "adds_declared (AddColumn t c v) \<longleftrightarrow> list_all (\<lambda>d. td_name d = t \<longrightarrow> c \<in> set (td_columns d)) ddl_tables"

lemma script_shape:
  "list_all adds_declared duckdb_script"
  "list_all (\<lambda>d. td_name d \<in> set referenced_tables \<longrightarrow> [''id''] \<in> set (td_keys d)) ddl_tables"
  by (simp_all add: referenced_tables_def ddl_tables_def duckdb_script_def)

lemma declared_in_script: "CreateTable d \<in> set duckdb_script \<Longrightarrow> d \<in> set ddl_tables"
  by (simp add: ddl_tables_def declarations_set)

lemma created_kept:
  assumes d: "CreateTable d \<in> set duckdb_script" and ds: "set ds \<subseteq> set duckdb_script"
    and absent: "dict_get s (td_name d) = None"
    and "id_keyed s" "alters_lacking alterable ds s"
  shows "id_keyed (s @ [(td_name d, created d)])" "alters_lacking alterable ds (s @ [(td_name d, created d)])"
proof -
  have get: "dict_get (s @ [(td_name d, created d)]) t = (if t = td_name d then Some (created d) else dict_get s t)" for t
    using absent by (simp add: map_add_def split: option.split)
  have "td_name d \<in> set referenced_tables \<Longrightarrow> [''id''] \<in> set (td_keys d)"
    using script_shape(2) declared_in_script[OF d] by (simp add: list_all_iff)
  with assms(4) show "id_keyed (s @ [(td_name d, created d)])" unfolding id_keyed_def get by (auto simp: created_def)
  have "c \<in> set (td_columns d)" if "AddColumn (td_name d) c v \<in> set ds" for c v
    using script_shape(1) declared_in_script[OF d] ds that by (fastforce simp: list_all_iff)
  with assms(5) show "alters_lacking alterable ds (s @ [(td_name d, created d)])"
    unfolding alters_lacking_def get by (auto simp: created_def split: if_splits)
qed

lemma altered_kept:
  assumes "dict_get s t = Some tb" and "id_keyed s" "alters_lacking alterable ds s"
  shows "id_keyed (dict_set t (add_column c v tb) s)" "alters_lacking alterable ds (dict_set t (add_column c v tb) s)"
proof -
  have "tb_keys (add_column c v tb) = tb_keys tb" by (simp add: add_column_def)
  with assms(1,2) show "id_keyed (dict_set t (add_column c v tb) s)" by (auto simp: id_keyed_def)
  have "set (tb_columns tb) \<subseteq> set (tb_columns (add_column c v tb))" by (auto simp: add_column_def)
  with assms(1,3) show "alters_lacking alterable ds (dict_set t (add_column c v tb) s)"
    unfolding alters_lacking_def by (auto split: if_splits)
qed

lemma script_runs:
  assumes "creates_first present ds" "present \<subseteq> set (keys s)" "id_keyed s" "alters_lacking alterable ds s"
    and "set ds \<subseteq> set duckdb_script"
  shows "\<exists>s'. run_ddl_script alterable ds s = Inr s'"
  using assms
proof (induction ds arbitrary: present s)
  case (Cons d ds)
  have later: "alters_lacking alterable ds s" "set ds \<subseteq> set duckdb_script"
    using Cons.prems(4,5) by (auto simp: alters_lacking_def)
  show ?case
  proof (cases d)
    case (CreateTable d')
    show ?thesis
    proof (cases "td_name d' \<in> set (keys s)")
      case True
      have "\<exists>s'. run_ddl_script alterable ds s = Inr s'"
        by (rule Cons.IH[of "insert (td_name d') present"]) (use Cons.prems later True in \<open>auto simp: CreateTable\<close>)
      with True show ?thesis by (simp add: CreateTable)
    next
      case False
      then have none: "dict_get s (td_name d') = None" by (simp add: map_of_eq_None_iff)
      have d': "CreateTable d' \<in> set duckdb_script" using Cons.prems(5) by (simp add: CreateTable)
      have "can_refer s t" if t: "t \<in> set (td_refs d')" for t
      proof -
        have "t \<in> set (keys s)" using Cons.prems(1,2) t by (auto simp: CreateTable)
        then obtain tb where "dict_get s t = Some tb" by (cases "dict_get s t") (simp_all add: map_of_eq_None_iff)
        moreover have "t \<in> set referenced_tables"
          using t declared_in_script[OF d'] by (auto simp: referenced_tables_def)
        ultimately show ?thesis using Cons.prems(3) by (simp add: can_refer_def id_keyed_def)
      qed
      moreover have "\<exists>s'. run_ddl_script alterable ds (s @ [(td_name d', created d')]) = Inr s'"
        by (rule Cons.IH[of "insert (td_name d') present"])
           (use Cons.prems created_kept[OF d' later(2) none Cons.prems(3) later(1)] later in \<open>auto simp: CreateTable\<close>)
      ultimately show ?thesis using False by (simp add: CreateTable list_all_iff)
    qed
  next
    case (AddColumn t c v)
    with Cons.prems have "t \<in> set (keys s)" by auto
    then obtain tb where tb: "dict_get s t = Some tb"
      by (cases "dict_get s t") (simp_all add: map_of_eq_None_iff)
    have "present \<subseteq> set (keys (dict_set t (add_column c v tb) s))"
      using Cons.prems(2) unfolding keys_dict_set by blast
    with Cons.IH[of present, OF _ _ altered_kept[OF tb Cons.prems(3) later(1)] later(2)] Cons.prems(1)
    have "\<exists>s'. run_ddl_script alterable ds (dict_set t (add_column c v tb) s) = Inr s'"
      by (simp add: AddColumn)
    moreover have "c \<in> set (tb_columns tb) \<or> alterable s t"
      using Cons.prems(4) tb unfolding alters_lacking_def AddColumn by (meson list.set_intros(1))
    ultimately show ?thesis by (auto simp: AddColumn tb)
  qed
qed simp

text \<open>And changes nothing where everything is already there.\<close>

fun in_place :: "stored_schema \<Rightarrow> ddl_statement \<Rightarrow> bool" where
  "in_place s (CreateTable d) = (td_name d \<in> set (keys s))"
| "in_place s (AddColumn t c d) = (\<exists>tb. dict_get s t = Some tb \<and> c \<in> set (tb_columns tb))"

lemma dict_set_same: "dict_get d k = Some v \<Longrightarrow> dict_set k v d = d"
  by (induction d) (auto split: if_splits)

lemma script_in_place: "list_all (in_place s) ds \<Longrightarrow> run_ddl_script alterable ds s = Inr s"
proof (induction ds)
  case (Cons d ds)
  then show ?case by (cases d) (auto simp: add_column_def dict_set_same)
qed simp

text \<open>Nothing is taken back once it is there, so a finished run is in place.\<close>

lemma run_on_None: "run_on ds t tb = None \<Longrightarrow> tb = None"
  by (induction ds t tb rule: run_on.induct) (auto split: if_splits)

lemma run_on_columns: "run_on ds t (Some tb) = Some tb' \<Longrightarrow> set (tb_columns tb) \<subseteq> set (tb_columns tb')"
proof (induction ds arbitrary: tb)
  case (Cons d ds)
  then show ?case by (cases d) (fastforce simp: add_column_def split: if_splits)+
qed simp

lemma run_on_Some: "run_on ds t (Some tb) \<noteq> None"
  using run_on_None[of ds t "Some tb"] by auto

lemma in_place_kept:
  assumes "run_ddl_script alterable ds s = Inr s'" "in_place s d"
  shows "in_place s' d"
proof (cases d)
  case (CreateTable d')
  with assms(2) have "dict_get s (td_name d') \<noteq> None" by (simp add: map_of_eq_None_iff)
  then have "dict_get s' (td_name d') \<noteq> None" using run_script_on[OF assms(1), of "td_name d'"] run_on_Some by auto
  then show ?thesis by (simp add: CreateTable map_of_eq_None_iff)
next
  case (AddColumn t c v)
  with assms(2) obtain tb where tb: "dict_get s t = Some tb" "c \<in> set (tb_columns tb)" by auto
  obtain tb' where tb': "run_on ds t (Some tb) = Some tb'"
    by (cases "run_on ds t (Some tb)") (simp_all add: run_on_Some)
  with run_on_columns[OF tb'] tb run_script_on[OF assms(1), of t] show ?thesis by (auto simp: AddColumn)
qed

lemma run_script_in_place: "run_ddl_script alterable ds s = Inr s' \<Longrightarrow> list_all (in_place s') ds"
proof (induction ds arbitrary: s)
  case (Cons d ds)
  from Cons.prems obtain s1 where s1: "run_ddl_statement alterable d s = Inr s1" "run_ddl_script alterable ds s1 = Inr s'"
    by (auto split: sum.splits)
  have "in_place s1 d"
    using s1(1) by (cases d) (auto simp: add_column_def split: if_splits option.splits)
  with in_place_kept[OF s1(2)] Cons.IH[OF s1(2)] show ?case by simp
qed simp

section \<open>The upgraded rows\<close>

lemma duckdb_creates_first: "creates_first {} duckdb_script"
  by (simp add: duckdb_script_def)

lemma nullable_text [simp]: "nullable_text_of (Some (sql_nullable x)) = Some x"
  by (cases x) simp_all

text \<open>A row without the lacking columns, with a default appended for each of them, reads as the upgraded row.\<close>

definition fill :: "string set \<Rightarrow> (string \<times> sql_value) list \<Rightarrow> sql_row \<Rightarrow> sql_row" where
  "fill lacking added r = filter (\<lambda>(c, v). c \<notin> lacking) r @ filter (\<lambda>(c, v). c \<in> lacking) added"

definition filled_table :: "string set \<Rightarrow> string list \<Rightarrow> string list list \<Rightarrow> (string \<times> sql_value) list \<Rightarrow> sql_row list \<Rightarrow> stored_table" where
  "filled_table lacking columns ks added rows =
     \<lparr>tb_columns = filter (\<lambda>c. c \<notin> lacking) columns @ filter (\<lambda>c. c \<in> lacking) (map fst added), tb_keys = ks,
      tb_rows = map (fill lacking added) rows\<rparr>"

lemma add_column_filled:
  "c \<in> set columns \<Longrightarrow> c \<notin> set (map fst added) \<Longrightarrow>
     add_column c v (filled_table lacking columns ks added rows) = filled_table lacking columns ks (added @ [(c, v)]) rows"
  by (auto simp: filled_table_def add_column_def fill_def)

lemma older_table_filled: "older_table lacking columns ks rows = filled_table lacking columns ks [] rows"
  by (simp add: older_table_def filled_table_def fill_def fun_eq_iff)

lemma kept_columns:
  assumes "lacking \<subseteq> upgrade_columns"
  shows "''id'' \<notin> lacking" "''name'' \<notin> lacking" "''description'' \<notin> lacking" "''created_at'' \<notin> lacking"
    "''product_id'' \<notin> lacking" "''product_version'' \<notin> lacking" "''label'' \<notin> lacking" "''notes'' \<notin> lacking"
    "''idempotency_key'' \<notin> lacking" "''release_id'' \<notin> lacking" "''component_id'' \<notin> lacking" "''version_id'' \<notin> lacking"
  using assms by (auto simp: upgrade_columns_def)

lemma read_filled_product:
  assumes "lacking \<subseteq> upgrade_columns"
  shows "read_product_row (fill lacking [(''base_version'', SText ''0.0.0''), (''bump_policy'', SText ''legacy'')] (product_columns p)) =
    Some (p\<lparr>p_base_version := (if ''base_version'' \<in> lacking then ''0.0.0'' else p_base_version p),
            p_bump_policy := (if ''bump_policy'' \<in> lacking then ''legacy'' else p_bump_policy p)\<rparr>)"
  by (cases "''base_version'' \<in> lacking"; cases "''bump_policy'' \<in> lacking")
     (simp_all add: fill_def product_columns_def read_product_row_def kept_columns[OF assms])

lemma read_filled_release:
  assumes "lacking \<subseteq> upgrade_columns"
  shows "read_release_row (fill lacking [(''bump_level'', SNull), (''bump_rationale'', SNull)] (release_columns r)) =
    Some (r\<lparr>r_bump_level := (if ''bump_level'' \<in> lacking then None else r_bump_level r),
            r_bump_rationale := (if ''bump_rationale'' \<in> lacking then None else r_bump_rationale r)\<rparr>)"
  by (cases "''bump_level'' \<in> lacking"; cases "''bump_rationale'' \<in> lacking")
     (simp_all add: fill_def release_columns_def read_release_row_def kept_columns[OF assms])

lemma read_filled_entry:
  assumes "lacking \<subseteq> upgrade_columns"
  shows "read_release_component_row (fill lacking [(''change_level'', SNull)] (release_component_columns rc)) =
    Some (rc\<lparr>rc_change_level := (if ''change_level'' \<in> lacking then None else rc_change_level rc)\<rparr>)"
  by (cases "''change_level'' \<in> lacking")
     (simp_all add: fill_def release_component_columns_def read_release_component_row_def kept_columns[OF assms])

lemma script_adds:
  "run_on duckdb_script ''products'' (Some (older_table lacking
      [''id'', ''name'', ''description'', ''base_version'', ''bump_policy'', ''created_at''] ks rows)) =
    Some (filled_table lacking [''id'', ''name'', ''description'', ''base_version'', ''bump_policy'', ''created_at''] ks
      [(''base_version'', SText ''0.0.0''), (''bump_policy'', SText ''legacy'')] rows)"
  "run_on duckdb_script ''releases'' (Some (older_table lacking
      [''id'', ''product_id'', ''product_version'', ''label'', ''notes'', ''idempotency_key'', ''bump_level'',
       ''bump_rationale'', ''created_at''] ks rows)) =
    Some (filled_table lacking [''id'', ''product_id'', ''product_version'', ''label'', ''notes'', ''idempotency_key'',
       ''bump_level'', ''bump_rationale'', ''created_at''] ks [(''bump_level'', SNull), (''bump_rationale'', SNull)] rows)"
  "run_on duckdb_script ''release_components'' (Some (older_table lacking
      [''release_id'', ''component_id'', ''version_id'', ''change_level''] ks rows)) =
    Some (filled_table lacking [''release_id'', ''component_id'', ''version_id'', ''change_level''] ks [(''change_level'', SNull)] rows)"
  by (simp_all add: duckdb_script_def older_table_filled add_column_filled)

lemma script_creates:
  "t \<in> {''products'', ''releases'', ''release_components''} \<Longrightarrow> \<exists>tb. run_on duckdb_script t None = Some tb \<and> tb_rows tb = []"
  by (elim insertE emptyE; simp add: duckdb_script_def add_column_def created_def)

lemma dict_get_filter: "dict_get (filter (\<lambda>(k, v). P k) d) k = (if P k then dict_get d k else None)"
  by (induction d) auto

lemma older_tables:
  "dict_get (older lacking absent others db) ''products'' =
     (if ''products'' \<in> absent then None else Some (older_table lacking
        [''id'', ''name'', ''description'', ''base_version'', ''bump_policy'', ''created_at''] [[''id'']] (map product_columns (products db))))"
  "dict_get (older lacking absent others db) ''releases'' =
     (if ''releases'' \<in> absent then None else Some (older_table lacking
        [''id'', ''product_id'', ''product_version'', ''label'', ''notes'', ''idempotency_key'', ''bump_level'',
         ''bump_rationale'', ''created_at''] [[''id'']] (map release_columns (releases db))))"
  "dict_get (older lacking absent others db) ''release_components'' =
     (if ''release_components'' \<in> absent then None else Some (older_table lacking
        [''release_id'', ''component_id'', ''version_id'', ''change_level''] [[''release_id'', ''component_id'']] (map release_component_columns (release_components db))))"
  unfolding older_def dict_get_filter by simp_all

lemma older_unaltered:
  "dict_get (older lacking absent others db) ''components'' = (if ''components'' \<in> absent then None else Some (others ''components''))"
  "dict_get (older lacking absent others db) ''users'' = (if ''users'' \<in> absent then None else Some (others ''users''))"
  unfolding older_def dict_get_filter by simp_all

definition unknown_empty :: "string set \<Rightarrow> database \<Rightarrow> bool" where
  "unknown_empty absent db \<longleftrightarrow>
     (''products'' \<in> absent \<longrightarrow> products db = []) \<and> (''releases'' \<in> absent \<longrightarrow> releases db = []) \<and>
     (''release_components'' \<in> absent \<longrightarrow> release_components db = [])"

lemma upgrade_reads:
  assumes lacking: "lacking \<subseteq> upgrade_columns" and absent: "unknown_empty absent db"
    and run: "run_ddl_script alterable duckdb_script (older lacking absent others db) = Inr s"
  shows "read_table read_product_row ''products'' s = Some (products (upgraded lacking db))"
    "read_table read_release_row ''releases'' s = Some (releases (upgraded lacking db))"
    "read_table read_release_component_row ''release_components'' s = Some (release_components (upgraded lacking db))"
proof -
  note on = run_script_on[OF run] and made = script_creates[of "''products''"] script_creates[of "''releases''"]
    script_creates[of "''release_components''"]
  show "read_table read_product_row ''products'' s = Some (products (upgraded lacking db))"
    using absent made(1)
    by (cases "''products'' \<in> absent")
       (auto simp: read_table_def on older_tables unknown_empty_def upgraded_def script_adds filled_table_def comp_def
         read_filled_product[OF lacking] intro!: those_map_Some)
  show "read_table read_release_row ''releases'' s = Some (releases (upgraded lacking db))"
    using absent made(2)
    by (cases "''releases'' \<in> absent")
       (auto simp: read_table_def on older_tables unknown_empty_def upgraded_def script_adds filled_table_def comp_def
         read_filled_release[OF lacking] intro!: those_map_Some)
  show "read_table read_release_component_row ''release_components'' s = Some (release_components (upgraded lacking db))"
    using absent made(3)
    by (cases "''release_components'' \<in> absent")
       (auto simp: read_table_def on older_tables unknown_empty_def upgraded_def script_adds filled_table_def comp_def
         read_filled_entry[OF lacking] intro!: those_map_Some)
qed

text \<open>
  The engine alters the tables that lack a column. (This is asked of the DuckDB engine, which other tables' foreign keys could
  make refuse it; PostgreSQL does not.)
\<close>

definition upgrade_allowed :: "(stored_schema \<Rightarrow> string \<Rightarrow> bool) \<Rightarrow> string set \<Rightarrow> string set \<Rightarrow> bool" where
  "upgrade_allowed alterable lacking absent \<longleftrightarrow>
     (\<forall>t c v. AddColumn t c v \<in> set duckdb_script \<longrightarrow> c \<in> lacking \<longrightarrow> t \<notin> absent \<longrightarrow> (\<forall>s. alterable s t))"

lemma older_table_facts:
  "set (tb_columns (older_table lacking columns ks rows)) = set columns - lacking" "tb_keys (older_table lacking columns ks rows) = ks"
  by (auto simp: older_table_def)

lemma older_keys:
  "dict_get (older lacking absent others db) ''products'' = Some tb \<Longrightarrow> [''id''] \<in> set (tb_keys tb)"
  "dict_get (older lacking absent others db) ''releases'' = Some tb \<Longrightarrow> [''id''] \<in> set (tb_keys tb)"
  "dict_get (older lacking absent others db) ''components'' = Some tb \<Longrightarrow> tb = others ''components''"
  "dict_get (older lacking absent others db) ''users'' = Some tb \<Longrightarrow> tb = others ''users''"
  by (auto simp: older_tables older_unaltered older_table_facts split: if_splits)

lemma older_id_keyed:
  assumes "\<forall>t\<in>{''components'', ''users''}. [''id''] \<in> set (tb_keys (others t))"
  shows "id_keyed (older lacking absent others db)"
proof -
  have "[''id''] \<in> set (tb_keys tb)"
    if "t \<in> set referenced_tables" and get: "dict_get (older lacking absent others db) t = Some tb" for t tb
  proof -
    from that(1) consider "t = ''products''" | "t = ''components''" | "t = ''releases''" | "t = ''users''"
      by (auto simp: referenced_tables_def ddl_tables_def duckdb_script_def)
    then show ?thesis by cases (use get assms in \<open>auto dest: older_keys\<close>)
  qed
  then show ?thesis by (simp add: id_keyed_def)
qed

lemma older_lacks:
  "dict_get (older lacking absent others db) ''products'' = Some tb \<Longrightarrow> c \<in> {''base_version'', ''bump_policy''} \<Longrightarrow>
     c \<notin> set (tb_columns tb) \<Longrightarrow> c \<in> lacking \<and> ''products'' \<notin> absent"
  "dict_get (older lacking absent others db) ''releases'' = Some tb \<Longrightarrow> c \<in> {''bump_level'', ''bump_rationale''} \<Longrightarrow>
     c \<notin> set (tb_columns tb) \<Longrightarrow> c \<in> lacking \<and> ''releases'' \<notin> absent"
  "dict_get (older lacking absent others db) ''release_components'' = Some tb \<Longrightarrow> c = ''change_level'' \<Longrightarrow>
     c \<notin> set (tb_columns tb) \<Longrightarrow> c \<in> lacking \<and> ''release_components'' \<notin> absent"
  by (auto simp: older_tables older_table_facts split: if_splits)

lemma script_columns:
  "AddColumn t c v \<in> set duckdb_script \<Longrightarrow>
     t = ''products'' \<and> c \<in> {''base_version'', ''bump_policy''} \<or> t = ''releases'' \<and> c \<in> {''bump_level'', ''bump_rationale''} \<or>
     t = ''release_components'' \<and> c = ''change_level''"
  by (auto simp: duckdb_script_def)

lemma older_alters:
  assumes "upgrade_allowed alterable lacking absent"
  shows "alters_lacking alterable duckdb_script (older lacking absent others db)"
proof -
  have "c \<in> lacking \<and> t \<notin> absent"
    if "AddColumn t c v \<in> set duckdb_script" and get: "dict_get (older lacking absent others db) t = Some tb"
      and c: "c \<notin> set (tb_columns tb)"
    for t c v tb
    using script_columns[OF that(1)]
  proof (elim disjE conjE)
    assume "t = ''products''" "c \<in> {''base_version'', ''bump_policy''}"
    with older_lacks(1)[OF _ _ c] get show ?thesis by blast
  next
    assume "t = ''releases''" "c \<in> {''bump_level'', ''bump_rationale''}"
    with older_lacks(2)[OF _ _ c] get show ?thesis by blast
  next
    assume "t = ''release_components''" "c = ''change_level''"
    with older_lacks(3)[OF _ _ c] get show ?thesis by blast
  qed
  with assms show ?thesis unfolding alters_lacking_def upgrade_allowed_def by blast
qed

section \<open>The upgraded database\<close>

lemma upgraded_inv:
  assumes inv: "db_inv db"
  shows "db_inv (upgraded lacking db)"
proof -
  note p = db_inv_parts[OF inv]
  have "rc_key (rc\<lparr>rc_change_level := x\<rparr>) = rc_key rc" for rc x by (simp add: rc_key_def)
  then have "schema_ok (upgraded lacking db)"
    using p(1) by (simp add: upgraded_def schema_ok_def pk_def fk_def comp_def image_image)
  moreover have "names_unique (products (upgraded lacking db))"
    using p(2) by (simp add: upgraded_def names_unique_def pk_def comp_def)
  moreover have "all_parse (upgraded lacking db)"
    using p(7) parses_default by (simp add: upgraded_def all_parse_def)
  moreover have "idem_unique (releases (upgraded lacking db))"
    using p(8) unfolding upgraded_def idem_unique_def by auto
  moreover have "manifest_ok (release_components (upgraded lacking db)) (components db) (versions db) (releases (upgraded lacking db))"
    using p(9) by (simp add: upgraded_def manifest_ok_def)
  ultimately show ?thesis using p by (simp add: db_inv_def releases_ok_def upgraded_def)
qed

definition last_version :: "ident \<Rightarrow> database \<Rightarrow> string option" where
  "last_version pid db = map_option r_product_version (fetchone (select_latest_release pid db))"

lemma current_version_last: "current_version (select_latest_release pid db) base = (case last_version pid db of None \<Rightarrow> base | Some v \<Rightarrow> v)"
  by (simp add: current_version_def last_version_def fetchone_def split: list.split)

lemma last_version_upgraded: "last_version pid (upgraded lacking db) = last_version pid db"
proof -
  let ?g = "\<lambda>r. r\<lparr>r_bump_level := (if ''bump_level'' \<in> lacking then None else r_bump_level r),
      r_bump_rationale := (if ''bump_rationale'' \<in> lacking then None else r_bump_rationale r)\<rparr>"
  have "select_latest_release pid (upgraded lacking db) = map ?g (select_latest_release pid db)"
    by (simp add: select_latest_release_def upgraded_def filter_map comp_def order_by_desc_map take_map)
  then show ?thesis by (cases "select_latest_release pid db") (simp_all add: last_version_def fetchone_def)
qed

lemma legacy_cut:
  assumes inv: "db_inv db" and policy: "\<forall>p\<in>set (products db). p_id p = cut_product_id data \<longrightarrow> p_bump_policy p = ''legacy''"
    and run: "cut_release_query i now data db = (Inr result, db')" and created: "crr_created result"
  shows "\<exists>p\<in>set (products db). p_id p = cut_product_id data \<and>
    next_product_version (last_version (cut_product_id data) db) (p_base_version p) = Inr (rr_product_version (crr_release result))"
proof -
  note ok = db_inv_parts(1,3,7)[OF inv]
  from run ok show ?thesis
  proof (cases rule: cut_release_query_cases)
    case (fresh p)
    have pp: "parses (p_base_version p)" "cut_product_id data \<in> p_id ` set (products db)"
      using fresh(1,2) ok(3) imageI[OF fresh(1), of p_id] by (auto simp: all_parse_def)
    have legacy: "p_bump_policy p \<noteq> bump_policy_value POLICY_DEFAULT" using policy fresh(1,2) by simp
    from fresh(4) ok pp show ?thesis
    proof (cases rule: fresh_cut_cases)
      case (cut bump rationale change version)
      have "bump = BL_MINOR" using cut(2) legacy by (simp add: derive_def)
      with cut(3,7) fresh(1,2) show ?thesis
        by (intro bexI[of _ p]) (simp_all add: apply_bump_def next_product_version_def current_version_last cut_result_def
            cut_row_def to_release_response_def)
    qed simp_all
  qed (use created in simp_all)
qed

section \<open>Properties\<close>

text \<open>C33: An upgrade keeps everything and changes no behaviour. Take the database an earlier version left, without any of
  the five columns added later and without any of the tables it did not know, and run the DuckDB script on it
  (PostgreSQL's has the same upgrades; MySQL's and SQL Server's scripts have none, so this is not said of them). If the engine
  alters the tables that lack a column even though others refer to them, and the components and users tables have their
  key \<open>id\<close>, then the script succeeds, and running
  it again changes nothing, whether or not the engine still alters tables; every product, release and manifest entry is still there and reads as
  before, with the declared default in each new column; the store is valid; and a product that had no
  \<open>bump_policy\<close> column keeps being released by the rule of the earlier version: each new cut gives it
  \<open>next_product_version\<close> of its last release. A database that lacks no column needs nothing of the engine.\<close>

theorem schema_upgrade_faithful:
  assumes "db_inv db" and "lacking \<subseteq> upgrade_columns" and "unknown_empty absent db"
    and "upgrade_allowed alterable lacking absent"
    and "\<forall>t\<in>{''components'', ''users''}. [''id''] \<in> set (tb_keys (others t))"
  shows "\<exists>s. run_ddl_script alterable duckdb_script (older lacking absent others db) = Inr s \<and>
    (\<forall>alterable'. run_ddl_script alterable' duckdb_script s = Inr s) \<and>
    read_table read_product_row ''products'' s = Some (products (upgraded lacking db)) \<and>
    read_table read_release_row ''releases'' s = Some (releases (upgraded lacking db)) \<and>
    read_table read_release_component_row ''release_components'' s = Some (release_components (upgraded lacking db)) \<and>
    db_inv (upgraded lacking db) \<and>
    (''bump_policy'' \<in> lacking \<longrightarrow>
      (\<forall>i now data result db'. cut_release_query i now data (upgraded lacking db) = (Inr result, db') \<longrightarrow> crr_created result \<longrightarrow>
        (\<exists>p\<in>set (products (upgraded lacking db)). p_id p = cut_product_id data \<and>
          next_product_version (last_version (cut_product_id data) db) (p_base_version p) =
            Inr (rr_product_version (crr_release result)))))"
proof -
  obtain s where s: "run_ddl_script alterable duckdb_script (older lacking absent others db) = Inr s"
    using script_runs[OF duckdb_creates_first _ older_id_keyed[OF assms(5)] older_alters[OF assms(4)]] by auto
  note again = script_in_place[OF run_script_in_place[OF s]]
  have "\<forall>p\<in>set (products (upgraded lacking db)). p_bump_policy p = ''legacy''" if "''bump_policy'' \<in> lacking"
    using that by (auto simp: upgraded_def)
  then have "\<exists>p\<in>set (products (upgraded lacking db)). p_id p = cut_product_id data \<and>
      next_product_version (last_version (cut_product_id data) db) (p_base_version p) = Inr (rr_product_version (crr_release result))"
    if "''bump_policy'' \<in> lacking" "cut_release_query i now data (upgraded lacking db) = (Inr result, db')" "crr_created result"
    for i now data result db'
    using legacy_cut[OF upgraded_inv[OF assms(1)] _ that(2,3)] that(1) unfolding last_version_upgraded by blast
  with s again upgrade_reads[OF assms(2,3) s] upgraded_inv[OF assms(1)] show ?thesis by (intro exI[of _ s]) blast
qed

text \<open>An engine that alters every table but those of the accounts.\<close>

definition other_tables :: "string \<Rightarrow> stored_table" where
  "other_tables t = \<lparr>tb_columns = [''id''], tb_keys = [[''id'']], tb_rows = []\<rparr>"

theorem schema_upgrade_faithful_witness:
  "\<exists>s. run_ddl_script (\<lambda>s t. t \<noteq> ''users'') duckdb_script
       (older upgrade_columns {''component_dependencies'', ''users''} other_tables sample_database) = Inr s \<and>
     map_option (map p_bump_policy) (read_table read_product_row ''products'' s) = Some [''legacy'']"
proof -
  let ?run = "\<lambda>s. run_ddl_script (\<lambda>s t. t \<noteq> ''users'') duckdb_script
    (older upgrade_columns {''component_dependencies'', ''users''} other_tables sample_database) = Inr s"
  have "unknown_empty {''component_dependencies'', ''users''} sample_database" by (simp add: unknown_empty_def)
  moreover have "upgrade_allowed (\<lambda>s t. t \<noteq> ''users'') upgrade_columns {''component_dependencies'', ''users''}"
    by (auto simp: upgrade_allowed_def)
  moreover have "\<forall>t\<in>{''components'', ''users''}. [''id''] \<in> set (tb_keys (other_tables t))" by (simp add: other_tables_def)
  ultimately have "\<exists>s. ?run s \<and> read_table read_product_row ''products'' s = Some (products (upgraded upgrade_columns sample_database))"
    using schema_upgrade_faithful[OF db_inv_sample order_refl] by blast
  then show ?thesis by (auto simp: upgraded_def upgrade_columns_def sample_defs)
qed

end
