(* ===== verification/Contract.thy ===== *)
theory Contract
  imports System
begin

text \<open>
  What the service promises, as a small state machine, and the proof that the application
  implements it: products and components appear, versions are published and rolled back, edges
  are linked and unlinked, releases freeze the active versions. Tables, statuses, statements,
  queues, sessions and limits do not occur in it.
\<close>

section \<open>The contract\<close>

text \<open>
  Versions carry their component and their three numbers; \<open>k_retired\<close> holds the versions that were rolled
  back; an edge names its product; a release names its product and version, \<open>k_pins\<close> what it
  froze, and \<open>k_keys\<close> the idempotency keys spent on it.
\<close>

record contract =
  k_products :: "(ident \<times> string) set"
  k_components :: "(ident \<times> ident) set"
  k_versions :: "(ident \<times> ident \<times> int \<times> int \<times> int) set"
  k_active :: "ident \<Rightarrow> ident option"
  k_retired :: "ident set"
  k_edges :: "(ident \<times> ident \<times> ident) set"
  k_releases :: "(ident \<times> ident \<times> string) set"
  k_pins :: "(ident \<times> ident \<times> ident) set"
  k_keys :: "(ident \<times> string \<times> ident) set"

datatype contract_event =
    ProductAdded ident string
  | ComponentAdded ident ident
  | Published ident ident "int \<times> int \<times> int"
  | Withdrawn ident
  | RolledBack ident ident
  | Linked ident ident ident
  | Unlinked ident ident ident
  | Cut ident ident "string option" string

definition edges_of :: "contract \<Rightarrow> ident \<Rightarrow> (ident \<times> ident) set" where
  "edges_of k pid = {(a, b). (pid, a, b) \<in> k_edges k}"

text \<open>The components of a product that have an active version, with it.\<close>

definition active_pins :: "contract \<Rightarrow> ident \<Rightarrow> (ident \<times> ident) set" where
  "active_pins k pid = {(c, v). (c, pid) \<in> k_components k \<and> k_active k c = Some v}"

definition spent :: "contract \<Rightarrow> ident \<Rightarrow> string option \<Rightarrow> bool" where
  "spent k pid key \<longleftrightarrow> (\<exists>x i. key = Some x \<and> (pid, x, i) \<in> k_keys k)"

inductive contract_step :: "contract \<Rightarrow> contract_event \<Rightarrow> contract \<Rightarrow> bool" where
  product_added:
    "i \<notin> fst ` k_products k \<Longrightarrow> name \<notin> snd ` k_products k \<Longrightarrow>
     contract_step k (ProductAdded i name) (k\<lparr>k_products := insert (i, name) (k_products k)\<rparr>)"
| component_added:
    "i \<notin> fst ` k_components k \<Longrightarrow> pid \<in> fst ` k_products k \<Longrightarrow>
     contract_step k (ComponentAdded i pid) (k\<lparr>k_components := insert (i, pid) (k_components k)\<rparr>)"
| published:
    "c \<in> fst ` k_components k \<Longrightarrow> i \<notin> fst ` k_versions k \<Longrightarrow>
     contract_step k (Published i c core)
       (k\<lparr>k_versions := insert (i, c, core) (k_versions k), k_active := (k_active k)(c := Some i)\<rparr>)"
| withdrawn:
    "c \<in> fst ` k_components k \<Longrightarrow>
     contract_step k (Withdrawn c) (k\<lparr>k_active := (k_active k)(c := None)\<rparr>)"
| rolled_back:
    "(t, c, core) \<in> k_versions k \<Longrightarrow> (p, c, prior) \<in> k_versions k \<Longrightarrow> p \<notin> k_retired k \<Longrightarrow> prior < core \<Longrightarrow>
     \<forall>q other. (q, c, other) \<in> k_versions k \<longrightarrow> q \<notin> k_retired k \<longrightarrow> other < core \<longrightarrow> other \<le> prior \<Longrightarrow>
     contract_step k (RolledBack t p)
       (k\<lparr>k_active := (k_active k)(c := Some p), k_retired := insert t (k_retired k)\<rparr>)"
| linked:
    "(a, pid) \<in> k_components k \<Longrightarrow> (b, pid) \<in> k_components k \<Longrightarrow> (pid, a, b) \<notin> k_edges k \<Longrightarrow>
     (b, a) \<notin> (edges_of k pid)\<^sup>* \<Longrightarrow>
     contract_step k (Linked pid a b) (k\<lparr>k_edges := insert (pid, a, b) (k_edges k)\<rparr>)"
| unlinked:
    "(pid, a, b) \<in> k_edges k \<Longrightarrow>
     contract_step k (Unlinked pid a b) (k\<lparr>k_edges := k_edges k - {(pid, a, b)}\<rparr>)"
| cut:
    "i \<notin> fst ` k_releases k \<Longrightarrow> pid \<in> fst ` k_products k \<Longrightarrow> active_pins k pid \<noteq> {} \<Longrightarrow> \<not> spent k pid key \<Longrightarrow>
     contract_step k (Cut i pid key version)
       (k\<lparr>k_releases := insert (i, pid, version) (k_releases k),
          k_pins := k_pins k \<union> {i} \<times> active_pins k pid,
          k_keys := k_keys k \<union> (case key of None \<Rightarrow> {} | Some x \<Rightarrow> {(pid, x, i)})\<rparr>)"

inductive_cases contract_stepE: "contract_step k e k'"

definition contract_moves :: "contract \<Rightarrow> contract \<Rightarrow> bool" where
  "contract_moves k k' \<longleftrightarrow> (\<exists>e. contract_step k e k')"

section \<open>What the contract alone guarantees\<close>

definition contract_sound :: "contract \<Rightarrow> bool" where
  "contract_sound k \<longleftrightarrow>
     (\<forall>c v. k_active k c = Some v \<longrightarrow> v \<notin> k_retired k \<and> (\<exists>core. (v, c, core) \<in> k_versions k)) \<and>
     (\<forall>i c c' core core'. (i, c, core) \<in> k_versions k \<longrightarrow> (i, c', core') \<in> k_versions k \<longrightarrow> c = c' \<and> core = core') \<and>
     (\<forall>x\<in>k_retired k. \<exists>c core. (x, c, core) \<in> k_versions k) \<and>
     (\<forall>pid. acyclic (edges_of k pid)) \<and>
     (\<forall>r c v. (r, c, v) \<in> k_pins k \<longrightarrow>
        (\<exists>p w. (r, p, w) \<in> k_releases k) \<and> (\<exists>core. (v, c, core) \<in> k_versions k))"

definition all_pinned :: "contract \<Rightarrow> bool" where
  "all_pinned k \<longleftrightarrow> (\<forall>r p w. (r, p, w) \<in> k_releases k \<longrightarrow> (\<exists>c v. (r, c, v) \<in> k_pins k))"

definition contract_ok :: "contract \<Rightarrow> bool" where
  "contract_ok k \<longleftrightarrow> contract_sound k \<and> all_pinned k"

text \<open>Nothing published, retired or released is ever taken back, and no release gains or loses a pin.\<close>

definition contract_grows :: "contract \<Rightarrow> contract \<Rightarrow> bool" where
  "contract_grows k k' \<longleftrightarrow>
     k_products k \<subseteq> k_products k' \<and> k_components k \<subseteq> k_components k' \<and> k_versions k \<subseteq> k_versions k' \<and>
     k_retired k \<subseteq> k_retired k' \<and> k_releases k \<subseteq> k_releases k' \<and> k_keys k \<subseteq> k_keys k' \<and>
     (\<forall>r p w c v. (r, p, w) \<in> k_releases k \<longrightarrow> (r, c, v) \<in> k_pins k' \<longleftrightarrow> (r, c, v) \<in> k_pins k)"

lemma edges_of_insert [simp]:
  "edges_of (k\<lparr>k_edges := insert (pid, a, b) (k_edges k)\<rparr>) q =
     (if q = pid then insert (a, b) (edges_of k q) else edges_of k q)"
  by (auto simp: edges_of_def)

lemma edges_of_updates [simp]:
  "edges_of (k\<lparr>k_products := a\<rparr>) = edges_of k" "edges_of (k\<lparr>k_components := b\<rparr>) = edges_of k"
  "edges_of (k\<lparr>k_versions := c\<rparr>) = edges_of k" "edges_of (k\<lparr>k_active := d\<rparr>) = edges_of k"
  "edges_of (k\<lparr>k_retired := e\<rparr>) = edges_of k" "edges_of (k\<lparr>k_releases := f\<rparr>) = edges_of k"
  "edges_of (k\<lparr>k_pins := g\<rparr>) = edges_of k" "edges_of (k\<lparr>k_keys := h\<rparr>) = edges_of k"
  by (simp_all add: edges_of_def fun_eq_iff)

lemma contract_soundD:
  assumes "contract_sound k"
  shows "k_active k c = Some v \<Longrightarrow> v \<notin> k_retired k" "k_active k c = Some v \<Longrightarrow> \<exists>core. (v, c, core) \<in> k_versions k"
    "(i, c, core) \<in> k_versions k \<Longrightarrow> (i, c', core') \<in> k_versions k \<Longrightarrow> c = c' \<and> core = core'"
    "x \<in> k_retired k \<Longrightarrow> \<exists>c core. (x, c, core) \<in> k_versions k" "acyclic (edges_of k pid)"
    "(r, c, v) \<in> k_pins k \<Longrightarrow> \<exists>p w. (r, p, w) \<in> k_releases k" "(r, c, v) \<in> k_pins k \<Longrightarrow> \<exists>core. (v, c, core) \<in> k_versions k"
  using assms unfolding contract_sound_def by blast+

lemma contract_soundI:
  assumes "\<And>c v. k_active k c = Some v \<Longrightarrow> v \<notin> k_retired k" "\<And>c v. k_active k c = Some v \<Longrightarrow> \<exists>core. (v, c, core) \<in> k_versions k"
    "\<And>i c c' core core'. (i, c, core) \<in> k_versions k \<Longrightarrow> (i, c', core') \<in> k_versions k \<Longrightarrow> c = c' \<and> core = core'"
    "\<And>x. x \<in> k_retired k \<Longrightarrow> \<exists>c core. (x, c, core) \<in> k_versions k" "\<And>pid. acyclic (edges_of k pid)"
    "\<And>r c v. (r, c, v) \<in> k_pins k \<Longrightarrow> \<exists>p w. (r, p, w) \<in> k_releases k"
    "\<And>r c v. (r, c, v) \<in> k_pins k \<Longrightarrow> \<exists>core. (v, c, core) \<in> k_versions k"
  shows "contract_sound k"
  unfolding contract_sound_def
proof (intro conjI allI impI ballI)
  show "c = c'" "core = core'" if "(i, c, core) \<in> k_versions k" "(i, c', core') \<in> k_versions k" for i c c' core core'
    using assms(3)[OF that] by simp_all
qed (simp_all add: assms del: split_paired_Ex split_paired_All)

lemma contract_step_sound:
  assumes "contract_step k e k'" and ok: "contract_sound k"
  shows "contract_sound k'"
  using assms(1)
proof cases
  case (product_added i name)
  show ?thesis using ok by (simp add: product_added(2) contract_sound_def)
next
  case (component_added i pid)
  show ?thesis using ok by (simp add: component_added(2) contract_sound_def)
next
  case (published c i core)
  note d = contract_soundD[OF ok]
  have i: "i \<notin> k_retired k" "\<And>c core. (i, c, core) \<notin> k_versions k" using d(4) published(4) by force+
  show ?thesis unfolding published(2)
    by (rule contract_soundI; (simp add: d(5) del: split_paired_Ex split: if_splits)?; metis i d(1-4,6,7))
next
  case (withdrawn c)
  show ?thesis using ok by (simp add: withdrawn(2) contract_sound_def)
next
  case (rolled_back t c core p prior)
  note d = contract_soundD[OF ok]
  have t: "t \<noteq> p"
  proof
    assume "t = p"
    with d(3)[OF rolled_back(3), of c prior] rolled_back(4,6) show False by simp
  qed
  have "v \<notin> insert t (k_retired k) \<and> (\<exists>core. (v, c', core) \<in> k_versions k)"
    if "((k_active k)(c := Some p)) c' = Some v" for c' v
  proof (cases "c' = c")
    case True
    with that rolled_back(4,5) t show ?thesis by (auto simp del: split_paired_Ex)
  next
    case False
    with that have v: "k_active k c' = Some v" by simp
    obtain core' where core': "(v, c', core') \<in> k_versions k" using d(2)[OF v] ..
    with d(3)[OF rolled_back(3), of c' core'] False have "v \<noteq> t" by blast
    with core' d(1)[OF v] show ?thesis by blast
  qed
  moreover have "\<exists>c core. (x, c, core) \<in> k_versions k" if "x \<in> insert t (k_retired k)" for x
    using that d(4) rolled_back(3) by blast
  ultimately show ?thesis
    using ok unfolding rolled_back(2) contract_sound_def edges_of_updates by (simp del: split_paired_Ex)
next
  case (linked a pid b)
  have "acyclic (insert (a, b) (edges_of k pid))"
    using contract_soundD(5)[OF ok] linked(6) by (simp add: acyclic_insert)
  then show ?thesis using ok unfolding linked(2) contract_sound_def edges_of_insert by simp
next
  case (unlinked pid a b)
  have "edges_of k' q \<subseteq> edges_of k q" for q unfolding unlinked(2) edges_of_def by auto
  then have "acyclic (edges_of k' q)" for q using contract_soundD(5)[OF ok] acyclic_subset by blast
  then show ?thesis using ok unfolding unlinked(2) contract_sound_def by simp
next
  case (cut i pid key version)
  note d = contract_soundD[OF ok]
  have pins: "\<exists>core. (v, c, core) \<in> k_versions k" if "(c, v) \<in> active_pins k pid" for c v
    using d(2) that by (auto simp: active_pins_def)
  show ?thesis unfolding cut(2)
    by (rule contract_soundI; (simp add: d(5) del: split_paired_Ex)?; metis d(1-4,6,7) pins)
qed

lemma contract_step_pinned:
  assumes "contract_step k e k'" "all_pinned k"
  shows "all_pinned k'"
  using assms(1)
proof cases
  case (cut i pid key version)
  then have "\<exists>c v. (c, v) \<in> active_pins k pid" by auto
  with assms(2) show ?thesis unfolding cut(2) all_pinned_def by simp metis
qed (use assms(2) in \<open>simp_all add: all_pinned_def\<close>)

lemma contract_step_ok: "contract_step k e k' \<Longrightarrow> contract_ok k \<Longrightarrow> contract_ok k'"
  by (simp add: contract_ok_def contract_step_sound contract_step_pinned)

lemma contract_step_grows:
  assumes "contract_step k e k'"
  shows "contract_grows k k'"
  using assms by cases (auto simp: contract_grows_def image_iff)

lemma contract_moves_keeps: "contract_ok k \<Longrightarrow> contract_moves k k' \<Longrightarrow> contract_ok k' \<and> contract_grows k k'"
  unfolding contract_moves_def using contract_step_ok contract_step_grows by blast

interpretation obligations: growing_system contract_moves contract_ok contract_grows
proof
  show "contract_grows s s" for s by (simp add: contract_grows_def)
  show "contract_grows s u" if grows: "contract_grows s t" "contract_grows t u" for s t u
  proof -
    have "(r, c, v) \<in> k_pins u \<longleftrightarrow> (r, c, v) \<in> k_pins s" if "(r, p, w) \<in> k_releases s" for r p w c v
      using grows that unfolding contract_grows_def by blast
    with grows show ?thesis unfolding contract_grows_def by (meson subset_trans)
  qed
qed (simp_all add: contract_moves_keeps)

section \<open>What the store means\<close>

text \<open>
  The contract state a database stands for. Only the first active row of a component counts;
  in a valid store there is at most one.
\<close>

definition contract_of :: "database \<Rightarrow> contract" where
  "contract_of db =
     \<lparr>k_products = (\<lambda>p. (p_id p, p_name p)) ` set (products db),
      k_components = (\<lambda>c. (c_id c, c_product_id c)) ` set (components db),
      k_versions = (\<lambda>v. (v_id v, v_component_id v, core_of v)) ` set (versions db),
      k_active = (\<lambda>cid. map_option v_id (fetchone (filter (active_of cid) (versions db)))),
      k_retired = v_id ` {v \<in> set (versions db). v_status v = ROLLED_BACK},
      k_edges = d_key ` set (dependencies db),
      k_releases = (\<lambda>r. (r_id r, r_product_id r, r_product_version r)) ` set (releases db),
      k_pins = (\<lambda>rc. (rc_release_id rc, rc_component_id rc, rc_version_id rc)) ` set (release_components db),
      k_keys = {(r_product_id r, key, r_id r) | r key. r \<in> set (releases db) \<and> r_idempotency_key r = Some key}\<rparr>"

lemma contract_of_sel [simp]:
  "k_products (contract_of db) = (\<lambda>p. (p_id p, p_name p)) ` set (products db)"
  "k_components (contract_of db) = (\<lambda>c. (c_id c, c_product_id c)) ` set (components db)"
  "k_versions (contract_of db) = (\<lambda>v. (v_id v, v_component_id v, core_of v)) ` set (versions db)"
  "k_active (contract_of db) cid = map_option v_id (fetchone (filter (active_of cid) (versions db)))"
  "k_retired (contract_of db) = v_id ` {v \<in> set (versions db). v_status v = ROLLED_BACK}"
  "k_edges (contract_of db) = d_key ` set (dependencies db)"
  "k_releases (contract_of db) = (\<lambda>r. (r_id r, r_product_id r, r_product_version r)) ` set (releases db)"
  "k_pins (contract_of db) = (\<lambda>rc. (rc_release_id rc, rc_component_id rc, rc_version_id rc)) ` set (release_components db)"
  "k_keys (contract_of db) = {(r_product_id r, key, r_id r) | r key. r \<in> set (releases db) \<and> r_idempotency_key r = Some key}"
  by (simp_all add: contract_of_def)

lemma contract_of_auth_only: "auth_only db db' \<Longrightarrow> contract_of db' = contract_of db"
  by (simp add: auth_only_def contract_of_def)

lemma edges_of_contract: "edges_of (contract_of db) pid = set (product_edges pid (dependencies db))"
  by (auto simp: edges_of_def product_edges_def d_key_def intro: rev_image_eqI)

lemma filter_active_one:
  assumes "one_active vs" "v \<in> set vs" "active_of cid v"
  shows "filter (active_of cid) vs = [v]"
proof -
  have "v \<in> set (filter (active_of cid) vs)" "length (filter (active_of cid) vs) \<le> 1"
    using assms by (simp_all add: one_active_def)
  then show ?thesis by (cases "filter (active_of cid) vs") auto
qed

lemma active_iff:
  assumes "one_active (versions db)"
  shows "k_active (contract_of db) cid = Some i \<longleftrightarrow> (\<exists>v\<in>set (versions db). active_of cid v \<and> v_id v = i)"
proof
  assume "k_active (contract_of db) cid = Some i"
  then obtain v where "fetchone (filter (active_of cid) (versions db)) = Some v" "v_id v = i" by auto
  with fetchone_Some_in[OF this(1)] show "\<exists>v\<in>set (versions db). active_of cid v \<and> v_id v = i" by auto
next
  assume "\<exists>v\<in>set (versions db). active_of cid v \<and> v_id v = i"
  with filter_active_one[OF assms] show "k_active (contract_of db) cid = Some i" by (auto simp: fetchone_def)
qed

text \<open>A valid store stands for a valid contract state.\<close>

lemma contract_sound_of:
  assumes inv: "db_inv db"
  shows "contract_sound (contract_of db)"
proof -
  note p = db_inv_parts[OF inv]
  have pkv: "pk v_id (versions db)" using p(1) by (simp add: schema_ok_def)
  have same: "v = w" if "v \<in> set (versions db)" "w \<in> set (versions db)" "v_id v = v_id w" for v w
    by (rule pkD[OF pkv that])
  show ?thesis
  proof (rule contract_soundI)
    fix c i assume "k_active (contract_of db) c = Some i"
    then obtain v where v: "v \<in> set (versions db)" "active_of c v" "v_id v = i" unfolding active_iff[OF p(3)] by blast
    have "v_status w \<noteq> ROLLED_BACK" if "w \<in> set (versions db)" "v_id w = i" for w
      using same[OF that(1) v(1)] that(2) v(2,3) by (simp add: active_of_def)
    then show "i \<notin> k_retired (contract_of db)" by auto
    from v show "\<exists>core. (i, c, core) \<in> k_versions (contract_of db)"
      by (intro exI[of _ "core_of v"]) (auto simp: active_of_def)
  next
    show "acyclic (edges_of (contract_of db) pid)" for pid using p(5) by (simp add: edges_of_contract graph_ok_def)
  next
    fix r c v assume "(r, c, v) \<in> k_pins (contract_of db)"
    then obtain rc where rc: "rc \<in> set (release_components db)" "r = rc_release_id rc" "c = rc_component_id rc"
      "v = rc_version_id rc" by auto
    with p(9) obtain row vrow where "row \<in> set (releases db)" "r_id row = r" "vrow \<in> set (versions db)"
      "v_id vrow = v" "v_component_id vrow = c" unfolding manifest_ok_def by fastforce
    then show "\<exists>p w. (r, p, w) \<in> k_releases (contract_of db)" "\<exists>core. (v, c, core) \<in> k_versions (contract_of db)"
      by (auto simp del: split_paired_Ex)
  next
    fix i c c' core core'
    assume "(i, c, core) \<in> k_versions (contract_of db)" "(i, c', core') \<in> k_versions (contract_of db)"
    then obtain v w where "v \<in> set (versions db)" "w \<in> set (versions db)" "v_id v = i" "v_id w = i"
      "c = v_component_id v" "c' = v_component_id w" "core = core_of v" "core' = core_of w" by auto
    with same[of v w] show "c = c' \<and> core = core'" by simp
  next
    fix x assume "x \<in> k_retired (contract_of db)"
    then show "\<exists>c core. (x, c, core) \<in> k_versions (contract_of db)" by (auto simp del: split_paired_Ex)
  qed
qed

lemma contract_ok_of:
  assumes "db_inv db"
    and covered: "\<forall>r\<in>set (releases db). \<exists>rc\<in>set (release_components db). rc_release_id rc = r_id r"
  shows "contract_ok (contract_of db)"
proof -
  have "\<exists>c v. (r, c, v) \<in> k_pins (contract_of db)" if "(r, p, w) \<in> k_releases (contract_of db)" for r p w
  proof -
    from that obtain row where "row \<in> set (releases db)" "r_id row = r" by auto
    with covered obtain rc where "rc \<in> set (release_components db)" "rc_release_id rc = r" by blast
    then show ?thesis by auto
  qed
  then show ?thesis using contract_sound_of[OF assms(1)] unfolding contract_ok_def all_pinned_def by blast
qed

section \<open>Every query performs the contract step it was asked for\<close>

lemma means_create_product:
  assumes "create_product_query i now data db = (res, db')"
  shows "(\<exists>e. res = Inl e \<and> db' = db) \<or>
    (\<exists>x. res = Inr x \<and> contract_step (contract_of db) (ProductAdded i (cp_name data)) (contract_of db'))"
  using assms
proof (cases rule: create_product_cases)
  case created
  have "contract_of db' = contract_of db\<lparr>k_products := insert (i, cp_name data) (k_products (contract_of db))\<rparr>"
    by (simp add: created(3) contract_of_def new_product_row_def)
  moreover have "i \<notin> fst ` k_products (contract_of db)" "cp_name data \<notin> snd ` k_products (contract_of db)"
    using created(1,2) by (simp_all add: image_image)
  note contract_step.product_added[OF this]
  ultimately show ?thesis using created(4) by simp
qed simp

lemma means_create_component:
  assumes "create_component_query i data db = (res, db')"
  shows "(\<exists>e. res = Inl e \<and> db' = db) \<or>
    (\<exists>x. res = Inr x \<and> contract_step (contract_of db) (ComponentAdded i (cc_product_id data)) (contract_of db'))"
  using assms
proof (cases rule: create_component_cases)
  case (created c)
  have "contract_of db' = contract_of db\<lparr>k_components := insert (i, cc_product_id data) (k_components (contract_of db))\<rparr>"
    by (simp add: created(1,5) contract_of_def)
  moreover have "i \<notin> fst ` k_components (contract_of db)" "cc_product_id data \<in> fst ` k_products (contract_of db)"
    using created(2,3) by (simp_all add: image_image)
  note contract_step.component_added[OF this]
  ultimately show ?thesis using created(6) by simp
qed simp

lemma contract_of_superseded:
  "contract_of (supersede_active cid db) = contract_of db\<lparr>k_active := (k_active (contract_of db))(cid := None)\<rparr>"
proof -
  let ?vs = "sql_update (active_of cid) (set_status SUPERSEDED) (versions db)"
  have "filter (active_of c) ?vs = (if c = cid then [] else filter (active_of c) (versions db))" for c
    by (simp add: no_active_after_supersede other_active_after_supersede)
  then have act: "(\<lambda>c. map_option v_id (fetchone (filter (active_of c) ?vs))) =
      (\<lambda>c. map_option v_id (fetchone (filter (active_of c) (versions db))))(cid := None)"
    by (auto simp: fun_eq_iff fetchone_def)
  have vers: "(\<lambda>v. (v_id v, v_component_id v, core_of v)) ` set ?vs =
      (\<lambda>v. (v_id v, v_component_id v, core_of v)) ` set (versions db)"
    by (rule image_sql_update) (simp add: core_of_def)
  have ret: "{v \<in> set ?vs. v_status v = ROLLED_BACK} = {v \<in> set (versions db). v_status v = ROLLED_BACK}"
    by (auto simp: sql_update_def active_of_def split: if_splits)
  show ?thesis by (simp add: contract_of_def act vers ret) (simp add: supersede_active_def)
qed

lemma means_create_version:
  assumes run: "create_version_query i now data db (Some bus) = (res, db', bus')"
    and valid: "semver_match (cv_version data)"
  shows "(\<exists>e. res = Inl e \<and> bus' = Some bus \<and>
      (db' = db \<or> contract_step (contract_of db) (Withdrawn (cv_component_id data)) (contract_of db'))) \<or>
    (\<exists>x core pid ev. res = Inr x \<and> parse_core (cv_version data) = Inr core \<and>
      contract_step (contract_of db) (Published i (cv_component_id data) core) (contract_of db') \<and>
      (cv_component_id data, pid) \<in> k_components (contract_of db) \<and>
      bus' = Some (publish ev bus) \<and> event_type ev = VERSION_CREATED \<and> event_product_id ev = pid)"
  using run valid
proof (cases rule: create_version_cases)
  case (refused e)
  show ?thesis
  proof (cases "cv_component_id data \<in> c_id ` set (components db)")
    case True
    then have "cv_component_id data \<in> fst ` k_components (contract_of db)" by (simp add: image_image)
    note contract_step.withdrawn[OF this]
    then show ?thesis using refused(1-3) by (simp add: contract_of_superseded)
  next
    case False
    then have "db' = db" using run select_component_None[of "cv_component_id data" db]
      by (auto simp: create_version_query_def fetchone_def split: list.splits)
    with refused(1,3) show ?thesis by simp
  qed
next
  case (created a b c comp)
  let ?cid = "cv_component_id data" and ?row = "created_row i now data a b c"
  let ?db1 = "supersede_active ?cid db"
  have row: "v_id ?row = i" "v_component_id ?row = ?cid" "core_of ?row = (a, b, c)" "v_status ?row = ACTIVE"
    by (simp_all add: created_row_def core_of_def)
  have db': "db' = ?db1\<lparr>versions := versions ?db1 @ [?row]\<rparr>" using insert_frame(3)[OF created(4)] .
  have act: "filter (active_of q) (versions db') = (if q = ?cid then [?row] else filter (active_of q) (versions ?db1))" for q
    unfolding db' by (simp add: no_active_after_supersede) (simp add: active_of_def row)
  have fetch: "fetchone (filter (active_of q) (versions db')) =
      (if q = ?cid then Some ?row else fetchone (filter (active_of q) (versions ?db1)))" for q
    unfolding act by (simp add: fetchone_def)
  have "contract_of db' = contract_of ?db1\<lparr>k_versions := insert (i, ?cid, a, b, c) (k_versions (contract_of ?db1)),
      k_active := (k_active (contract_of ?db1))(?cid := Some i)\<rparr>"
  proof -
    have "k_active (contract_of db') = (k_active (contract_of ?db1))(?cid := Some i)"
      by (simp only: contract_of_sel fetch fun_eq_iff) (simp add: row)
    moreover have "{v \<in> set (versions db'). v_status v = ROLLED_BACK} = {v \<in> set (versions ?db1). v_status v = ROLLED_BACK}"
      unfolding db' by (auto simp: row)
    ultimately show ?thesis unfolding db' by (simp add: contract_of_def row)
  qed
  also have "\<dots> = contract_of db\<lparr>k_versions := insert (i, ?cid, a, b, c) (k_versions (contract_of db)),
      k_active := (k_active (contract_of db))(?cid := Some i)\<rparr>"
    unfolding contract_of_superseded by simp
  finally have eq: "contract_of db' = \<dots>" .
  have comp: "(?cid, c_product_id comp) \<in> k_components (contract_of db)"
    unfolding contract_of_sel using created(2,3) by (auto intro: rev_image_eqI)
  then have "?cid \<in> fst ` k_components (contract_of db)" by force
  moreover have "i \<notin> fst ` k_versions (contract_of db)" using created(7) by (simp add: image_image)
  ultimately have "contract_step (contract_of db) (Published i ?cid (a, b, c)) (contract_of db')"
    unfolding eq by (rule contract_step.published)
  with created(1,9,10) comp show ?thesis
    by (intro disjI2 exI[of _ "version_fields ?row"] exI[of _ "(a, b, c)"] exI[of _ "c_product_id comp"]
        exI[of _ "version_created_event (c_product_id comp) (version_fields ?row)"])
       (simp add: emit_def version_created_event_def)
qed simp

lemma means_rollback:
  assumes run: "rollback_version_query i db (Some bus) = (res, db', bus')" and inv: "db_inv db"
  shows "(\<exists>e. res = Inl e \<and> db' = db \<and> bus' = Some bus) \<or>
    (\<exists>x p c core pid ev. res = Inr x \<and> contract_step (contract_of db) (RolledBack i p) (contract_of db') \<and>
      (i, c, core) \<in> k_versions (contract_of db) \<and> (c, pid) \<in> k_components (contract_of db) \<and>
      bus' = Some (publish ev bus) \<and> event_type ev = VERSION_ROLLED_BACK \<and> event_product_id ev = pid)"
  using run db_inv_parts(1,4)[OF inv]
proof (cases rule: rollback_version_cases)
  case (rolled t p comp)
  let ?g = "\<lambda>v. set_status (rollback_status t p v) v"
  have pkv: "pk v_id (versions db)" using db_inv_parts(1)[OF inv] by (simp add: schema_ok_def)
  have tp: "v_id p \<noteq> v_id t" "v_component_id p = v_component_id t" "v_status p \<noteq> ROLLED_BACK" "core_of p < core_of t"
    using rolled(4) by (simp_all add: prior_candidate_def)
  have ids: "v = p" if "v \<in> set (versions db)" "v_id v = v_id p" for v using pkD[OF pkv that(1) rolled(3) that(2)] .
  have fetch: "fetchone (filter (active_of c) (versions db')) =
      (if c = v_component_id t then Some (set_status ACTIVE p) else fetchone (filter (active_of c) (versions db)))" for c
    unfolding rolled(6) rolled_active_filter[OF pkv rolled(1,3,4)] by (simp add: fetchone_def)
  have act: "k_active (contract_of db') = (k_active (contract_of db))(v_component_id t := Some (v_id p))"
    by (simp only: contract_of_sel fetch fun_eq_iff) simp
  have vers: "k_versions (contract_of db') = k_versions (contract_of db)"
    by (simp add: rolled(6) image_image core_of_def)
  have status: "rollback_status t p v = ROLLED_BACK \<longleftrightarrow> v_id v = v_id t \<or> v_status v = ROLLED_BACK"
    if "v \<in> set (versions db)" for v
    using ids[OF that] tp by (auto simp: rollback_status_def active_of_def)
  have "{v \<in> set (versions db'). v_status v = ROLLED_BACK} =
      ?g ` {v \<in> set (versions db). v_id v = v_id t \<or> v_status v = ROLLED_BACK}"
    unfolding rolled(6) using status by auto
  then have ret: "k_retired (contract_of db') = insert i (k_retired (contract_of db))"
    using rolled(1,2) by (auto simp: image_image)
  have eq: "contract_of db' = contract_of db\<lparr>k_active := (k_active (contract_of db))(v_component_id t := Some (v_id p)),
      k_retired := insert i (k_retired (contract_of db))\<rparr>"
  proof -
    have "products db' = products db \<and> components db' = components db \<and> dependencies db' = dependencies db \<and>
        releases db' = releases db \<and> release_components db' = release_components db"
      by (subst (1 2 3 4 5) rolled(7)) simp
    with act vers ret show ?thesis by (simp add: contract_of_def)
  qed
  have t: "(i, v_component_id t, core_of t) \<in> k_versions (contract_of db)" using rolled(1,2) by auto
  have "contract_step (contract_of db) (RolledBack i (v_id p)) (contract_of db')"
    unfolding eq
  proof (rule contract_step.rolled_back[OF t])
    show "(v_id p, v_component_id t, core_of p) \<in> k_versions (contract_of db)" using rolled(3) tp(2) by auto
    show "v_id p \<notin> k_retired (contract_of db)" using ids tp(3) by auto
    show "\<forall>q other. (q, v_component_id t, other) \<in> k_versions (contract_of db) \<longrightarrow> q \<notin> k_retired (contract_of db) \<longrightarrow>
        other < core_of t \<longrightarrow> other \<le> core_of p"
    proof (intro allI impI)
      fix q other
      assume q: "(q, v_component_id t, other) \<in> k_versions (contract_of db)" "q \<notin> k_retired (contract_of db)"
        "other < core_of t"
      then obtain v where v: "v \<in> set (versions db)" "v_id v = q" "v_component_id v = v_component_id t" "core_of v = other"
        by auto
      with q(3) pkD[OF pkv v(1) rolled(1)] have "v_id v \<noteq> v_id t" by auto
      moreover have "v_status v \<noteq> ROLLED_BACK" using q(2) v(1,2) by auto
      ultimately have "prior_candidate t v" using v(3,4) q(3) by (simp add: prior_candidate_def)
      with rolled(5) v show "other \<le> core_of p" by blast
    qed
  qed (rule tp(4))
  moreover have "(v_component_id t, c_product_id comp) \<in> k_components (contract_of db)"
    unfolding contract_of_sel using rolled(9,10) by (auto intro: rev_image_eqI)
  ultimately show ?thesis using rolled(8,11) t
    by (intro disjI2 exI[of _ "version_fields (set_status ACTIVE p)"] exI[of _ "v_id p"] exI[of _ "v_component_id t"]
        exI[of _ "core_of t"] exI[of _ "c_product_id comp"]
        exI[of _ "version_rolled_back_event (c_product_id comp) (v_component_id t) i (v_id p)"])
       (simp add: emit_def version_rolled_back_event_def)
qed simp_all

lemma contract_of_dependencies:
  "contract_of (db\<lparr>dependencies := ds\<rparr>) = contract_of db\<lparr>k_edges := d_key ` set ds\<rparr>"
  by (simp add: contract_of_def)

lemma means_add_dependency:
  assumes run: "add_dependency_query i now data db (Some bus) = (res, db', bus')" and inv: "db_inv db"
  shows "(\<exists>e. res = Inl e \<and> db' = db \<and> bus' = Some bus) \<or>
    (\<exists>x ev. res = Inr x \<and>
      contract_step (contract_of db) (Linked (cd_product_id data) (cd_from data) (cd_to data)) (contract_of db') \<and>
      bus' = Some (publish ev bus) \<and> event_type ev = DEPENDENCY_ADDED \<and> event_product_id ev = cd_product_id data)"
  using run
proof (cases rule: add_dependency_cases)
  case added
  let ?pid = "cd_product_id data" and ?f = "cd_from data" and ?t = "cd_to data"
  note g = added(1)[unfolded guard_None_iff]
  have ends: "(?f, ?pid) \<in> k_components (contract_of db)" "(?t, ?pid) \<in> k_components (contract_of db)"
    unfolding contract_of_sel using g by (auto dest!: assert_component_None intro: rev_image_eqI)
  have new: "(?pid, ?f, ?t) \<notin> k_edges (contract_of db)"
    using g by (auto simp: select_edge_def d_key_def filter_empty_conv)
  have "acyclic (insert (?f, ?t) (edges_of (contract_of db) ?pid))"
    using g would_create_cycle_exact[OF graph_ok_acyclic[OF db_inv_parts(5)[OF inv], of ?pid], of ?f ?t]
    by (simp only: edges_of_contract select_edges_product) simp
  then have path: "(?t, ?f) \<notin> (edges_of (contract_of db) ?pid)\<^sup>*" by (simp add: acyclic_insert)
  have eq: "contract_of db' = contract_of db\<lparr>k_edges := insert (?pid, ?f, ?t) (k_edges (contract_of db))\<rparr>"
    by (simp add: added(3) contract_of_dependencies d_key_def new_dependency_row_def)
  from contract_step.linked[OF ends new path, folded eq] added(5,6) show ?thesis
    by (simp add: emit_def) (auto simp: dependency_added_event_def)
qed simp_all

lemma means_remove_dependency:
  assumes run: "remove_dependency_query data db (Some bus) = (res, db', bus')" and inv: "db_inv db"
  shows "(\<exists>e. res = Inl e \<and> db' = db \<and> bus' = Some bus) \<or>
    (\<exists>x ev. res = Inr x \<and>
      contract_step (contract_of db) (Unlinked (cd_product_id data) (cd_from data) (cd_to data)) (contract_of db') \<and>
      bus' = Some (publish ev bus) \<and> event_type ev = DEPENDENCY_REMOVED \<and> event_product_id ev = cd_product_id data)"
  using run
proof (cases rule: remove_dependency_cases)
  case (removed d)
  let ?key = "(cd_product_id data, cd_from data, cd_to data)"
  have s: "pk d_id (dependencies db)" "pk d_key (dependencies db)"
    using db_inv_parts(1)[OF inv] by (simp_all add: schema_ok_def)
  have "d_id e = d_id d \<longleftrightarrow> d_key e = ?key" if "e \<in> set (dependencies db)" for e
    using pkD[OF s(1) that removed(1)] pkD[OF s(2) that removed(1)] removed(2) by auto
  then have "d_key ` set (sql_delete (\<lambda>e. d_id e = d_id d) (dependencies db)) = d_key ` set (dependencies db) - {?key}"
    by (auto simp: sql_delete_def)
  then have eq: "contract_of db' = contract_of db\<lparr>k_edges := k_edges (contract_of db) - {?key}\<rparr>"
    by (simp add: removed(4) delete_edge_def contract_of_dependencies)
  have "?key \<in> k_edges (contract_of db)" using removed(1,2) by (auto intro: rev_image_eqI)
  from contract_step.unlinked[OF this, folded eq] removed(3,5) show ?thesis
    by (simp add: emit_def) (auto simp: dependency_removed_event_def)
qed simp

lemma active_records_iff:
  "r \<in> set (select_active_components pid db) \<longleftrightarrow>
     (\<exists>c\<in>set (components db). \<exists>v\<in>set (versions db). c_product_id c = pid \<and> active_of (c_id c) v \<and> r = active_record_of c v)"
  by (auto simp: select_active_components_def active_of_def)

lemma active_pins_of:
  assumes "one_active (versions db)"
  shows "active_pins (contract_of db) pid =
    (\<lambda>r. (ar_component_id r, ar_version_id r)) ` set (select_active_components pid db)"
proof (intro equalityI subsetI)
  fix x assume "x \<in> active_pins (contract_of db) pid"
  then obtain c v where "x = (c, v)" "(c, pid) \<in> k_components (contract_of db)" "k_active (contract_of db) c = Some v"
    by (auto simp: active_pins_def simp del: contract_of_sel)
  then obtain comp row where c: "comp \<in> set (components db)" "c_product_id comp = pid" "row \<in> set (versions db)"
    "active_of (c_id comp) row" "x = (c_id comp, v_id row)"
    unfolding active_iff[OF assms] by auto
  then have "active_record_of comp row \<in> set (select_active_components pid db)" unfolding active_records_iff by blast
  with c(5) show "x \<in> (\<lambda>r. (ar_component_id r, ar_version_id r)) ` set (select_active_components pid db)"
    by (auto intro: rev_image_eqI)
next
  fix x assume "x \<in> (\<lambda>r. (ar_component_id r, ar_version_id r)) ` set (select_active_components pid db)"
  then obtain comp row where c: "comp \<in> set (components db)" "c_product_id comp = pid" "row \<in> set (versions db)"
    "active_of (c_id comp) row" "x = (c_id comp, v_id row)" by (auto simp: active_records_iff)
  then have "k_active (contract_of db) (c_id comp) = Some (v_id row)" unfolding active_iff[OF assms] by blast
  moreover have "(c_id comp, pid) \<in> k_components (contract_of db)" using c(1,2) by auto
  ultimately show "x \<in> active_pins (contract_of db) pid" using c(5) by (simp add: active_pins_def del: contract_of_sel)
qed

lemma spent_keys_snoc:
  "{(r_product_id r, x, r_id r) | r x. r \<in> set (rs @ [row]) \<and> r_idempotency_key r = Some x} =
     {(r_product_id r, x, r_id r) | r x. r \<in> set rs \<and> r_idempotency_key r = Some x} \<union>
     (case r_idempotency_key row of None \<Rightarrow> {} | Some x \<Rightarrow> {(r_product_id row, x, r_id row)})"
  by (cases "r_idempotency_key row") auto

lemma contract_of_after_cut:
  "contract_of (after_cut row change rs db) = contract_of db\<lparr>
     k_releases := insert (r_id row, r_product_id row, r_product_version row) (k_releases (contract_of db)),
     k_pins := k_pins (contract_of db) \<union> {r_id row} \<times> (\<lambda>r. (ar_component_id r, ar_version_id r)) ` set rs,
     k_keys := k_keys (contract_of db) \<union>
       (case r_idempotency_key row of None \<Rightarrow> {} | Some x \<Rightarrow> {(r_product_id row, x, r_id row)})\<rparr>"
proof -
  have "(\<lambda>rc. (rc_release_id rc, rc_component_id rc, rc_version_id rc)) ` set (map (pin_row (r_id row) change) rs) =
      {r_id row} \<times> (\<lambda>r. (ar_component_id r, ar_version_id r)) ` set rs"
    by (auto simp: image_image)
  moreover have "{(r_product_id r, x, r_id r) | r x. r \<in> set (releases db @ [row]) \<and> r_idempotency_key r = Some x} =
      k_keys (contract_of db) \<union> (case r_idempotency_key row of None \<Rightarrow> {} | Some x \<Rightarrow> {(r_product_id row, x, r_id row)})"
    unfolding spent_keys_snoc by simp
  ultimately show ?thesis
    unfolding after_cut_def by (simp add: contract_of_def image_Un)
qed

lemma means_cut:
  assumes run: "cut_release i now data db bus = (res, db', bus')" and inv: "db_inv db"
  shows "(\<exists>e. res = Inl e \<and> db' = db \<and> bus' = bus) \<or>
    (\<exists>x key. res = Inr x \<and> cut_idempotency_key data = Some key \<and> db' = db \<and> bus' = bus \<and>
       spent (contract_of db) (cut_product_id data) (Some key)) \<or>
    (\<exists>x version ev. res = Inr x \<and>
       contract_step (contract_of db) (Cut i (cut_product_id data) (cut_idempotency_key data) version) (contract_of db') \<and>
       bus' = publish ev bus \<and> event_type ev = RELEASE_CUT \<and> event_product_id ev = cut_product_id data)"
proof -
  let ?pid = "cut_product_id data" and ?key = "cut_idempotency_key data"
  note ok = db_inv_parts(1,3,7)[OF inv]
  obtain r where q: "cut_release_query i now data db = (r, db')"
    using run by (cases "cut_release_query i now data db") (auto simp: cut_release_def split: sum.splits)
  from q ok show ?thesis
  proof (cases rule: cut_release_query_cases)
    case (unknown e)
    with run q show ?thesis by (auto simp: cut_release_def)
  next
    case (replay key row release)
    have "(?pid, key, r_id row) \<in> k_keys (contract_of db)"
      unfolding contract_of_sel using replay(2-4) by (intro CollectI exI[of _ row] exI[of _ key]) simp
    then have "spent (contract_of db) ?pid (Some key)" by (auto simp: spent_def simp del: contract_of_sel)
    moreover have "res = Inr release \<and> bus' = bus" using run q[unfolded replay(6)] by (simp add: cut_release_def)
    ultimately show ?thesis using replay(1,7) by blast
  next
    case (fresh p)
    have pp: "parses (p_base_version p)" "?pid \<in> p_id ` set (products db)"
      using fresh(1,2) ok(3) imageI[OF fresh(1), of p_id] by (auto simp: all_parse_def)
    from fresh(4) ok pp show ?thesis
    proof (cases rule: fresh_cut_cases)
      case (cut bump rationale change version)
      let ?rs = "select_active_components ?pid db" and ?row = "cut_row i now data version bump rationale"
      have eq: "contract_of db' = contract_of db\<lparr>
          k_releases := insert (i, ?pid, version) (k_releases (contract_of db)),
          k_pins := k_pins (contract_of db) \<union> {i} \<times> active_pins (contract_of db) ?pid,
          k_keys := k_keys (contract_of db) \<union> (case ?key of None \<Rightarrow> {} | Some x \<Rightarrow> {(?pid, x, i)})\<rparr>"
        unfolding cut(6) contract_of_after_cut active_pins_of[OF ok(2)] by (simp add: cut_row_def cong: option.case_cong del: contract_of_sel)
      have "i \<notin> fst ` k_releases (contract_of db)" "?pid \<in> fst ` k_products (contract_of db)"
        using cut(5) pp(2) by (simp_all add: image_image)
      moreover have "active_pins (contract_of db) ?pid \<noteq> {}"
        unfolding active_pins_of[OF ok(2)] using cut(1) by simp
      moreover have "\<not> spent (contract_of db) ?pid ?key"
        using fresh(3) by (auto simp: spent_def)
      ultimately have "contract_step (contract_of db) (Cut i ?pid ?key version) (contract_of db')"
        unfolding eq by (rule contract_step.cut)
      with run q cut(7) show ?thesis
        by (auto simp: cut_release_def cut_result_def release_cut_event_def)
    qed (use run q in \<open>auto simp: cut_release_def\<close>)
  qed
qed

end
