(* ===== verification/Refinement.thy ===== *)
theory Refinement
  imports Contract Guarantees
begin

text \<open>
  The application implements its contract: every request performs exactly the contract step it
  asks for, or none, and announces it; so every run of the application is a run of the contract
  and inherits what the contract alone guarantees.
\<close>

section \<open>What a request asks for\<close>

fun asks :: "call_env \<Rightarrow> http_request \<Rightarrow> contract_event \<Rightarrow> bool" where
  "asks ce rq (ProductAdded i name) \<longleftrightarrow> i = ce_id ce \<and> (\<exists>d. hr_call rq = CreateProduct name d)"
| "asks ce rq (ComponentAdded i pid) \<longleftrightarrow> i = ce_id ce \<and> (\<exists>name kind. hr_call rq = CreateComponent pid name kind)"
| "asks ce rq (Published i c core) \<longleftrightarrow>
     i = ce_id ce \<and> (\<exists>v pre. hr_call rq = CreateVersion c (JStr v) pre \<and> parse_core v = Inr core)"
| "asks ce rq (Withdrawn c) \<longleftrightarrow> (\<exists>v pre. hr_call rq = CreateVersion c v pre)"
| "asks ce rq (RolledBack t p) \<longleftrightarrow> hr_call rq = RollbackVersion t"
| "asks ce rq (Linked pid a b) \<longleftrightarrow> hr_call rq = AddDependency pid a b"
| "asks ce rq (Unlinked pid a b) \<longleftrightarrow> hr_call rq = RemoveDependency pid a b"
| "asks ce rq (Cut i pid key version) \<longleftrightarrow>
     i = ce_id ce \<and> key = dict_get (hr_headers rq) ''idempotency-key'' \<and> (\<exists>l n. hr_call rq = CutRelease pid l n)"

text \<open>The requests that may change what the contract speaks of.\<close>

fun mutating :: "api_call \<Rightarrow> bool" where
  "mutating (CreateProduct _ _) = True"
| "mutating (CreateComponent _ _ _) = True"
| "mutating (CreateVersion _ _ _) = True"
| "mutating (RollbackVersion _) = True"
| "mutating (AddDependency _ _ _) = True"
| "mutating (RemoveDependency _ _ _) = True"
| "mutating (CutRelease _ _ _) = True"
| "mutating _ = False"

text \<open>The event a contract step owes to the streams of its product.\<close>

fun announces :: "contract \<Rightarrow> contract_event \<Rightarrow> domain_event \<Rightarrow> bool" where
  "announces k (Published i c core) ev \<longleftrightarrow>
     event_type ev = VERSION_CREATED \<and> (c, event_product_id ev) \<in> k_components k"
| "announces k (RolledBack t p) ev \<longleftrightarrow>
     event_type ev = VERSION_ROLLED_BACK \<and>
     (\<exists>c core. (t, c, core) \<in> k_versions k \<and> (c, event_product_id ev) \<in> k_components k)"
| "announces k (Linked pid a b) ev \<longleftrightarrow> event_type ev = DEPENDENCY_ADDED \<and> event_product_id ev = pid"
| "announces k (Unlinked pid a b) ev \<longleftrightarrow> event_type ev = DEPENDENCY_REMOVED \<and> event_product_id ev = pid"
| "announces k (Cut i pid key version) ev \<longleftrightarrow> event_type ev = RELEASE_CUT \<and> event_product_id ev = pid"
| "announces k _ ev \<longleftrightarrow> False"

fun silent :: "contract_event \<Rightarrow> bool" where
  "silent (ProductAdded _ _) = True"
| "silent (ComponentAdded _ _) = True"
| "silent (Withdrawn _) = True"
| "silent _ = False"

definition told :: "contract \<Rightarrow> contract_event \<Rightarrow> event_bus \<Rightarrow> event_bus \<Rightarrow> bool" where
  "told k e bus bus' \<longleftrightarrow>
     (if silent e then bus' = bus else \<exists>ev. announces k e ev \<and> bus' = publish ev bus)"

definition accepted :: "api_answer \<Rightarrow> bool" where
  "accepted a = (case a of JsonAnswer r \<Rightarrow> resp_status r < 400 | Unhandled e \<Rightarrow> False | _ \<Rightarrow> True)"

text \<open>A cut whose idempotency key is already spent answers the earlier release again.\<close>

definition replays :: "http_request \<Rightarrow> contract \<Rightarrow> bool" where
  "replays rq k \<longleftrightarrow>
     (\<exists>pid l n. hr_call rq = CutRelease pid l n \<and>
        dict_get (hr_headers rq) ''idempotency-key'' \<noteq> None \<and>
        spent k pid (dict_get (hr_headers rq) ''idempotency-key''))"

definition honours :: "call_env \<Rightarrow> http_request \<Rightarrow> app_state \<Rightarrow> api_answer \<times> app_state \<Rightarrow> bool" where
  "honours ce rq st out \<longleftrightarrow>
     (let k = contract_of (app_db st); k' = contract_of (app_db (snd out));
          bus = app_bus st; bus' = app_bus (snd out)
      in (\<exists>e. asks ce rq e \<and> contract_step k e k' \<and> told k e bus bus' \<and>
            (accepted (fst out) \<longleftrightarrow> (\<forall>c. e \<noteq> Withdrawn c))) \<or>
         (k' = k \<and> (mutating (hr_call rq) \<longrightarrow> bus' = bus \<and> (accepted (fst out) \<longrightarrow> replays rq k))))"

lemma honours_step:
  "asks ce rq e \<Longrightarrow> contract_step (contract_of (app_db st)) e (contract_of (app_db (snd out))) \<Longrightarrow>
   told (contract_of (app_db st)) e (app_bus st) (app_bus (snd out)) \<Longrightarrow>
   accepted (fst out) \<longleftrightarrow> (\<forall>c. e \<noteq> Withdrawn c) \<Longrightarrow> honours ce rq st out"
  unfolding honours_def Let_def by blast

lemma honours_refused:
  "contract_of (app_db (snd out)) = contract_of (app_db st) \<Longrightarrow> app_bus (snd out) = app_bus st \<Longrightarrow>
   \<not> accepted (fst out) \<or> replays rq (contract_of (app_db st)) \<Longrightarrow> honours ce rq st out"
  unfolding honours_def Let_def by blast

lemma honours_other:
  "contract_of (app_db (snd out)) = contract_of (app_db st) \<Longrightarrow> \<not> mutating (hr_call rq) \<Longrightarrow> honours ce rq st out"
  unfolding honours_def Let_def by blast

lemma accepted_simps [simp]:
  "\<not> accepted (answer_error e)" "\<not> accepted (unprocessable ce)" "\<not> accepted (Unhandled e)"
  "accepted (json_response n j) \<longleftrightarrow> n < 400" "accepted NoContent"
proof -
  have "400 \<le> http_status c" for c by (cases c) simp_all
  then show "\<not> accepted (answer_error e)"
    by (cases e) (auto simp: accepted_def answer_error_def handle_domain_error_def envelope_response_def not_less)
qed (simp_all add: accepted_def unprocessable_def handle_validation_error_def envelope_response_def json_response_def)

lemma answer_with_simps [simp]:
  "answer_with f (Inl e) = answer_error e" "answer_with f (Inr x) = f x"
  by (simp_all add: answer_with_def)

section \<open>Every handler honours its request\<close>

lemma honours_create_product:
  assumes "hr_call rq = CreateProduct name d"
  shows "honours ce rq st (create_product ce name d st)"
proof (cases "validate_create_product name d")
  case (Some body)
  have body: "cp_name body = name" using Some by (auto simp: validate_create_product_def split: if_splits)
  obtain r db where run: "create_product_query (ce_id ce) (ce_now ce) body (app_db st) = (r, db)"
    by (cases "create_product_query (ce_id ce) (ce_now ce) body (app_db st)")
  have out: "create_product ce name d st =
      (answer_with (\<lambda>p. json_response 201 (product_json p)) r, st\<lparr>app_db := db\<rparr>)"
    by (simp add: create_product_def Some run)
  from means_create_product[OF run] show ?thesis unfolding out
  proof (elim disjE exE conjE)
    fix x assume "r = Inr x" "contract_step (contract_of (app_db st)) (ProductAdded (ce_id ce) (cp_name body)) (contract_of db)"
    then show "honours ce rq st (answer_with (\<lambda>p. json_response 201 (product_json p)) r, st\<lparr>app_db := db\<rparr>)"
      by (intro honours_step) (auto simp: assms body told_def)
  qed (simp add: honours_refused)
qed (simp add: create_product_def honours_refused)

lemma honours_create_component:
  assumes "hr_call rq = CreateComponent pid name kind"
  shows "honours ce rq st (create_component ce pid name kind st)"
proof (cases "Option.bind (component_kind_of kind) (validate_create_component (ce_valid_ulid ce) pid name)")
  case (Some body)
  have body: "cc_product_id body = pid"
    using Some by (auto simp: validate_create_component_def bind_eq_Some_conv split: if_splits)
  obtain r db where run: "create_component_query (ce_id ce) body (app_db st) = (r, db)"
    by (cases "create_component_query (ce_id ce) body (app_db st)")
  have out: "create_component ce pid name kind st =
      (answer_with (\<lambda>c. json_response 201 (component_json c)) r, st\<lparr>app_db := db\<rparr>)"
    by (simp add: create_component_def Some run)
  from means_create_component[OF run] show ?thesis unfolding out
  proof (elim disjE exE conjE)
    fix x assume "r = Inr x"
      "contract_step (contract_of (app_db st)) (ComponentAdded (ce_id ce) (cc_product_id body)) (contract_of db)"
    then show "honours ce rq st (answer_with (\<lambda>c. json_response 201 (component_json c)) r, st\<lparr>app_db := db\<rparr>)"
      by (intro honours_step) (auto simp: assms body told_def)
  qed (simp add: honours_refused)
qed (simp add: create_component_def honours_refused)

lemma honours_create_version:
  assumes "hr_call rq = CreateVersion cid version pre"
  shows "honours ce rq st (create_version ce cid version pre st)"
proof (cases "\<exists>v body. version = JStr v \<and> validate_create_version (ce_valid_ulid ce) cid v pre = Some body")
  case True
  then obtain v body where v: "version = JStr v" "validate_create_version (ce_valid_ulid ce) cid v pre = Some body"
    by blast
  then have body: "cv_component_id body = cid" "cv_version body = v" "semver_match (cv_version body)"
    by (auto simp: validate_create_version_def split: if_splits)
  obtain r db bus where
    run: "create_version_query (ce_id ce) (ce_now ce) body (app_db st) (Some (app_bus st)) = (r, db, bus)"
    by (cases "create_version_query (ce_id ce) (ce_now ce) body (app_db st) (Some (app_bus st))") auto
  have out: "create_version ce cid version pre st =
      (answer_with (\<lambda>v. json_response 200 (version_json v)) r, st\<lparr>app_db := db, app_bus := the bus\<rparr>)"
    by (simp add: create_version_def v run)
  from means_create_version[OF run body(3)] show ?thesis unfolding out
  proof (elim disjE exE conjE)
    fix e assume "r = Inl e" "bus = Some (app_bus st)" "db = app_db st"
    then show "honours ce rq st (answer_with (\<lambda>v. json_response 200 (version_json v)) r, st\<lparr>app_db := db, app_bus := the bus\<rparr>)"
      by (simp add: honours_refused)
  next
    fix e assume "r = Inl e" "bus = Some (app_bus st)"
      "contract_step (contract_of (app_db st)) (Withdrawn (cv_component_id body)) (contract_of db)"
    then show "honours ce rq st (answer_with (\<lambda>v. json_response 200 (version_json v)) r, st\<lparr>app_db := db, app_bus := the bus\<rparr>)"
      by (intro honours_step) (auto simp: assms body told_def)
  next
    fix x core pid ev
    assume "r = Inr x" "parse_core (cv_version body) = Inr core"
      "contract_step (contract_of (app_db st)) (Published (ce_id ce) (cv_component_id body) core) (contract_of db)"
      "(cv_component_id body, pid) \<in> k_components (contract_of (app_db st))" "bus = Some (publish ev (app_bus st))"
      "event_type ev = VERSION_CREATED" "event_product_id ev = pid"
    then show "honours ce rq st (answer_with (\<lambda>v. json_response 200 (version_json v)) r, st\<lparr>app_db := db, app_bus := the bus\<rparr>)"
      by (intro honours_step) (auto simp: assms v body told_def simp del: contract_of_sel)
  qed
next
  case False
  then have "\<exists>a. create_version ce cid version pre st = (a, st) \<and> \<not> accepted a"
    by (cases version) (auto simp: create_version_def split: option.split)
  then show ?thesis by (auto intro!: honours_refused)
qed

lemma honours_rollback:
  assumes "hr_call rq = RollbackVersion vid" and inv: "db_inv (app_db st)"
  shows "honours ce rq st (rollback_version vid st)"
proof -
  obtain r db bus where run: "rollback_version_query vid (app_db st) (Some (app_bus st)) = (r, db, bus)"
    by (cases "rollback_version_query vid (app_db st) (Some (app_bus st))") auto
  have out: "rollback_version vid st =
      (answer_with (\<lambda>v. json_response 200 (version_json v)) r, st\<lparr>app_db := db, app_bus := the bus\<rparr>)"
    by (simp add: rollback_version_def run)
  from means_rollback[OF run inv] show ?thesis unfolding out
  proof (elim disjE exE conjE)
    fix x p c core pid ev
    assume "r = Inr x" "contract_step (contract_of (app_db st)) (RolledBack vid p) (contract_of db)"
      "(vid, c, core) \<in> k_versions (contract_of (app_db st))" "(c, pid) \<in> k_components (contract_of (app_db st))"
      "bus = Some (publish ev (app_bus st))" "event_type ev = VERSION_ROLLED_BACK" "event_product_id ev = pid"
    then show "honours ce rq st (answer_with (\<lambda>v. json_response 200 (version_json v)) r, st\<lparr>app_db := db, app_bus := the bus\<rparr>)"
      by (intro honours_step[of _ _ "RolledBack vid p"])
         (auto simp: assms told_def simp del: contract_of_sel split_paired_Ex)
  qed (simp add: honours_refused)
qed

lemma honours_add_dependency:
  assumes "hr_call rq = AddDependency pid f t" and inv: "db_inv (app_db st)"
  shows "honours ce rq st (add_product_dependency ce pid f t st)"
proof (cases "ce_valid_ulid ce f \<and> ce_valid_ulid ce t")
  case True
  let ?d = "\<lparr>cd_product_id = pid, cd_from = f, cd_to = t\<rparr>"
  obtain r db bus where
    run: "add_dependency_query (ce_id ce) (ce_now ce) ?d (app_db st) (Some (app_bus st)) = (r, db, bus)"
    by (cases "add_dependency_query (ce_id ce) (ce_now ce) ?d (app_db st) (Some (app_bus st))") auto
  have out: "add_product_dependency ce pid f t st =
      (answer_with (\<lambda>d. json_response 201 (dependency_json d)) r, st\<lparr>app_db := db, app_bus := the bus\<rparr>)"
    using True by (simp add: add_product_dependency_def run)
  from means_add_dependency[OF run inv] show ?thesis unfolding out
  proof (elim disjE exE conjE)
    fix x ev
    assume "r = Inr x" "contract_step (contract_of (app_db st)) (Linked (cd_product_id ?d) (cd_from ?d) (cd_to ?d)) (contract_of db)"
      "bus = Some (publish ev (app_bus st))" "event_type ev = DEPENDENCY_ADDED" "event_product_id ev = cd_product_id ?d"
    then show "honours ce rq st (answer_with (\<lambda>d. json_response 201 (dependency_json d)) r, st\<lparr>app_db := db, app_bus := the bus\<rparr>)"
      by (intro honours_step[of _ _ "Linked pid f t"]) (auto simp: assms told_def)
  qed (simp add: honours_refused)
next
  case False
  then have "add_product_dependency ce pid f t st = (unprocessable ce, st)" by (auto simp: add_product_dependency_def)
  then show ?thesis by (simp add: honours_refused)
qed

lemma honours_remove_dependency:
  assumes "hr_call rq = RemoveDependency pid f t" and inv: "db_inv (app_db st)"
  shows "honours ce rq st (remove_product_dependency pid f t st)"
proof -
  let ?d = "\<lparr>cd_product_id = pid, cd_from = f, cd_to = t\<rparr>"
  obtain r db bus where run: "remove_dependency_query ?d (app_db st) (Some (app_bus st)) = (r, db, bus)"
    by (cases "remove_dependency_query ?d (app_db st) (Some (app_bus st))") auto
  have out: "remove_product_dependency pid f t st =
      (answer_with (\<lambda>_. NoContent) r, st\<lparr>app_db := db, app_bus := the bus\<rparr>)"
    by (simp add: remove_product_dependency_def run)
  from means_remove_dependency[OF run inv] show ?thesis unfolding out
  proof (elim disjE exE conjE)
    fix x ev
    assume "r = Inr x" "contract_step (contract_of (app_db st)) (Unlinked (cd_product_id ?d) (cd_from ?d) (cd_to ?d)) (contract_of db)"
      "bus = Some (publish ev (app_bus st))" "event_type ev = DEPENDENCY_REMOVED" "event_product_id ev = cd_product_id ?d"
    then show "honours ce rq st (answer_with (\<lambda>_. NoContent) r, st\<lparr>app_db := db, app_bus := the bus\<rparr>)"
      by (intro honours_step[of _ _ "Unlinked pid f t"]) (auto simp: assms told_def)
  qed (simp add: honours_refused)
qed

lemma honours_cut:
  assumes "hr_call rq = CutRelease pid label notes" and inv: "db_inv (app_db st)"
  shows "honours ce rq st (cut_product_release ce (dict_get (hr_headers rq) ''idempotency-key'') pid label notes st)"
proof (cases "validate_cut_release label notes")
  case True
  let ?key = "dict_get (hr_headers rq) ''idempotency-key''"
  let ?d = "\<lparr>cut_product_id = pid, cut_label = label, cut_notes = notes, cut_idempotency_key = ?key\<rparr>"
  obtain r db bus where run: "cut_release (ce_id ce) (ce_now ce) ?d (app_db st) (app_bus st) = (r, db, bus)"
    by (cases "cut_release (ce_id ce) (ce_now ce) ?d (app_db st) (app_bus st)") auto
  have out: "cut_product_release ce ?key pid label notes st =
      (answer_with (\<lambda>rel. json_response 201 (release_json rel)) r, st\<lparr>app_db := db, app_bus := bus\<rparr>)"
    by (simp add: cut_product_release_def True run)
  from means_cut[OF run inv] show ?thesis unfolding out
  proof (elim disjE exE conjE)
    fix x key assume "r = Inr x" "cut_idempotency_key ?d = Some key" "db = app_db st" "bus = app_bus st"
      "spent (contract_of (app_db st)) (cut_product_id ?d) (Some key)"
    then have "replays rq (contract_of (app_db st))" by (simp add: replays_def assms(1))
    with \<open>db = app_db st\<close> \<open>bus = app_bus st\<close>
    show "honours ce rq st (answer_with (\<lambda>rel. json_response 201 (release_json rel)) r, st\<lparr>app_db := db, app_bus := bus\<rparr>)"
      by (simp add: honours_refused)
  next
    fix x version ev
    assume "r = Inr x" "contract_step (contract_of (app_db st))
        (Cut (ce_id ce) (cut_product_id ?d) (cut_idempotency_key ?d) version) (contract_of db)"
      "bus = publish ev (app_bus st)" "event_type ev = RELEASE_CUT" "event_product_id ev = cut_product_id ?d"
    then show "honours ce rq st (answer_with (\<lambda>rel. json_response 201 (release_json rel)) r, st\<lparr>app_db := db, app_bus := bus\<rparr>)"
      by (intro honours_step[of _ _ "Cut (ce_id ce) pid ?key version"]) (auto simp: assms told_def)
  qed (simp add: honours_refused)
qed (simp add: cut_product_release_def honours_refused)

text \<open>Reads, streams and the account routes leave the contract state alone.\<close>

lemma contract_untouched:
  assumes "\<not> mutating (hr_call rq)" and ok: "schema_ok (app_db st)"
  shows "contract_of (app_db (snd (serve_secured ce rq p (hr_call rq) st))) = contract_of (app_db st)"
    and "contract_of (app_db (snd (serve_open ce rq (hr_call rq) st))) = contract_of (app_db st)"
proof -
  show "contract_of (app_db (snd (serve_secured ce rq p (hr_call rq) st))) = contract_of (app_db st)"
    using assms(1)
    by (cases "hr_call rq") (simp_all add: read_route_defs read_answer_def stream_product_events_def case_prod_unfold Let_def)
  have "auth_only (app_db st) (app_db (snd (signup ce email password st)))" for email password
    by (auto simp: signup_def split: option.split prod.split dest!: signup_auth_only[OF _ ok])
  moreover have "auth_only (app_db st) (app_db (snd (verify_account ce token st)))" for token
    by (auto simp: verify_account_def split: prod.split dest!: verify_auth_only[OF _ ok])
  moreover have "auth_only (app_db st) (app_db (snd (login_account ce email password st)))" for email password
    by (auto simp: login_account_def split: option.split prod.split dest!: login_auth_only[OF _ ok])
  ultimately show "contract_of (app_db (snd (serve_open ce rq (hr_call rq) st))) = contract_of (app_db st)"
    by (cases "hr_call rq") (simp_all add: contract_of_auth_only logout_auth_only[OF ok] read_answer_def)
qed

lemma mutating_secured: "mutating c \<Longrightarrow> secured c"
  by (cases c) simp_all

lemma honours_secured:
  assumes inv: "db_inv (app_db st)"
  shows "honours ce rq st (serve_secured ce rq p (hr_call rq) st)"
proof (cases "mutating (hr_call rq)")
  case False
  from contract_untouched(1)[OF False db_inv_parts(1)[OF inv]] False show ?thesis by (rule honours_other)
next
  case True
  then show ?thesis
    using inv
    by (cases "hr_call rq") (simp_all add: honours_create_product honours_create_component honours_create_version
        honours_rollback honours_add_dependency honours_remove_dependency honours_cut)
qed

lemma honours_open:
  assumes inv: "db_inv (app_db st)" and "\<not> secured (hr_call rq)"
  shows "honours ce rq st (serve_open ce rq (hr_call rq) st)"
proof -
  have "\<not> mutating (hr_call rq)" using mutating_secured assms(2) by blast
  from contract_untouched(2)[OF this db_inv_parts(1)[OF inv]] this show ?thesis by (rule honours_other)
qed

lemma honours_dispatch:
  assumes inv: "db_inv (app_db st)"
  shows "honours ce rq st (dispatch ce rq st)"
proof (cases "secured (hr_call rq)")
  case False
  with honours_open[OF inv False] show ?thesis by (simp add: dispatch_def)
next
  case True
  show ?thesis
  proof (cases "require_principal (Some (app_resolver st)) (auth_env_of ce st) (auth_request_of rq)")
    case (Inl e)
    then show ?thesis using True by (simp add: dispatch_def honours_refused)
  next
    case (Inr p)
    then show ?thesis using True honours_secured[OF inv] by (simp add: dispatch_def)
  qed
qed

lemma honours_cong: "app_db st = app_db st' \<Longrightarrow> app_bus st = app_bus st' \<Longrightarrow> honours ce rq st out = honours ce rq st' out"
  by (simp add: honours_def)

lemma honours_serve:
  assumes inv: "db_inv (app_db st)"
  shows "honours ce rq st (serve ce rq st)"
proof (cases "rate_limit_middleware app_rate_settings (ce_environ ce) (ce_clock ce) (scope_of rq) (app_limiter st)")
  case None
  then show ?thesis by (simp add: serve_def honours_refused)
next
  case (Some a)
  obtain fwd l where a: "a = (fwd, l)" by force
  show ?thesis
  proof (cases fwd)
    case Forwarded
    from honours_dispatch[of "st\<lparr>app_limiter := l\<rparr>" ce rq] inv show ?thesis
      by (simp add: serve_def Some a Forwarded honours_cong[of "st\<lparr>app_limiter := l\<rparr>" st])
  next
    case (Refused r)
    have "r = rate_limited_response (rl_window_seconds app_rate_settings (ce_environ ce))"
      using Some unfolding a Refused rate_limit_middleware_def by (auto split: if_splits)
    then have "\<not> accepted (JsonAnswer r)"
      by (simp add: accepted_def rate_limited_response_def handle_domain_error_def envelope_response_def Let_def error_defs)
    then show ?thesis by (simp add: serve_def Some a Refused honours_refused)
  qed
qed

section \<open>Runs\<close>

lemma honours_moves:
  "honours ce rq st (ans, st') \<Longrightarrow> contract_of (app_db st') = contract_of (app_db st) \<or>
     contract_moves (contract_of (app_db st)) (contract_of (app_db st'))"
  by (auto simp: honours_def contract_moves_def Let_def simp del: contract_of_sel)

lemma step_simulates:
  assumes "app_inv s" "api_step s s'"
  shows "contract_of (app_db (snd s')) = contract_of (app_db (snd s)) \<or>
    contract_moves (contract_of (app_db (snd s))) (contract_of (app_db (snd s')))"
  using assms(2)
proof cases
  case (request clock ce rq st ans st')
  with assms(1) have "db_inv (app_db st)" by (simp add: app_inv_def)
  from honours_serve[OF this, of ce rq] request show ?thesis by (simp add: honours_moves del: contract_of_sel)
qed (simp_all add: poll_def disconnect_def)

interpretation service: simulation api_step app_inv "\<lambda>s. contract_of (app_db (snd s))" contract_moves
  by unfold_locales (rule step_simulates)

section \<open>Properties\<close>

text \<open>C1: The service refines its contract. Serving a request in a state a started application can reach
  either performs one contract step, the one the request asks for with the identifier it minted,
  and announces it with exactly the event that step owes (publishing, rolling back, linking,
  unlinking and cutting owe one to the product concerned, adding a product or a component none),
  or leaves the contract state and, for a request that mutates, the event bus as they were. A
  mutating request is answered with a success exactly when its step was performed, or when it
  replays a spent idempotency key; the one exception is a failing \<open>POST /versions\<close>, which may
  withdraw the active version and still be refused.\<close>

theorem requests_refine_contract:
  assumes "running env plugins extensions stored clock st" and "serve ce rq st = (ans, st')"
  shows "let k = contract_of (app_db st); k' = contract_of (app_db st') in
    (\<exists>e. asks ce rq e \<and> contract_step k e k' \<and> told k e (app_bus st) (app_bus st') \<and>
       (accepted ans \<longleftrightarrow> (\<forall>c. e \<noteq> Withdrawn c))) \<or>
    (k' = k \<and> (mutating (hr_call rq) \<longrightarrow> app_bus st' = app_bus st \<and> (accepted ans \<longrightarrow> replays rq k)))"
  using honours_serve[OF running_inv(1)[OF assms(1)], of ce rq] by (simp only: assms(2) honours_def fst_conv snd_conv Let_def)

lemma sample_new_product:
  obtains ans st' where "serve (sample_env no_env ''n'') (bare_request (CreateProduct ''New'' None))
      (lifespan_start no_env [] [] sample_database) = (ans, st')"
    "running no_env [] [] sample_database 0 st'"
    "(''n'', ''New'') \<in> k_products (contract_of (app_db st'))"
    "(''n'', ''New'') \<notin> k_products (contract_of sample_database)"
proof -
  let ?c = "CreateProduct ''New'' None" and ?st = "lifespan_start no_env [] [] sample_database"
  have c: "\<not> startswith (call_path ?c) ''/auth/''" "secured ?c" by (simp_all add: call_path_def)
  note run = sample_run_step[OF db_inv_sample c, of "''n''"]
  obtain ans st' where s: "serve (sample_env no_env ''n'') (bare_request ?c) ?st = (ans, st')" by force
  have "(''n'', ''New'') \<in> k_products (contract_of (app_db (snd (serve (sample_env no_env ''n'') (bare_request ?c) ?st))))"
    unfolding run(1)
    by (simp add: create_product_def validate_create_product_def create_product_query_def lifespan_start_def
        select_products_by_name_def sample_defs sample_env_def fetchone_def insert_product_def new_product_row_def
        select_products_by_id_def)
  moreover have "(''n'', ''New'') \<notin> k_products (contract_of sample_database)" by (simp add: sample_defs)
  ultimately show thesis using that[OF s] run(2) s by simp
qed

theorem requests_refine_contract_witness:
  "\<exists>ans st'. serve (sample_env no_env ''n'') (bare_request (CreateProduct ''New'' None))
       (lifespan_start no_env [] [] sample_database) = (ans, st') \<and> accepted ans \<and>
     contract_step (contract_of sample_database) (ProductAdded ''n'' ''New'') (contract_of (app_db st'))"
proof -
  obtain ans st' where s: "serve (sample_env no_env ''n'') (bare_request (CreateProduct ''New'' None))
      (lifespan_start no_env [] [] sample_database) = (ans, st')"
    "(''n'', ''New'') \<in> k_products (contract_of (app_db st'))" "(''n'', ''New'') \<notin> k_products (contract_of sample_database)"
    by (rule sample_new_product)
  then have "contract_of (app_db st') \<noteq> contract_of sample_database" by metis
  with requests_refine_contract[OF running_start[OF db_inv_sample, of no_env "[]" "[]" 0] s(1)]
  obtain e where e: "asks (sample_env no_env ''n'') (bare_request (CreateProduct ''New'' None)) e"
    "contract_step (contract_of sample_database) e (contract_of (app_db st'))" "accepted ans \<longleftrightarrow> (\<forall>c. e \<noteq> Withdrawn c)"
    by (auto simp: Let_def start_db simp del: contract_of_sel)
  from e(1) have "e = ProductAdded ''n'' ''New''" by (cases e) (simp_all add: bare_request_def sample_env_def)
  with e s(1) show ?thesis by blast
qed

end
