(* ===== verification/Completeness.thy ===== *)
theory Completeness
  imports Refinement
begin

text \<open>
  The other direction of the refinement: the application refuses nothing its contract allows. A
  well-formed, authenticated request that mutates is accepted exactly when the contract enables the
  step it asks for (or its idempotency key is spent and the release is answered again).
\<close>

section \<open>Well-formed requests\<close>

text \<open>The bodies the request models accept; a version must also fit the integer columns.\<close>

fun well_formed :: "call_env \<Rightarrow> api_call \<Rightarrow> bool" where
  "well_formed ce (CreateProduct name description) \<longleftrightarrow> validate_create_product name description \<noteq> None"
| "well_formed ce (CreateComponent pid name kind) \<longleftrightarrow>
     Option.bind (component_kind_of kind) (validate_create_component (ce_valid_ulid ce) pid name) \<noteq> None"
| "well_formed ce (CreateVersion cid (JStr v) pre) \<longleftrightarrow>
     validate_create_version (ce_valid_ulid ce) cid v pre \<noteq> None"
| "well_formed ce (CreateVersion cid _ pre) \<longleftrightarrow> False"
| "well_formed ce (AddDependency pid f t) \<longleftrightarrow> ce_valid_ulid ce f \<and> ce_valid_ulid ce t"
| "well_formed ce (CutRelease pid label notes) \<longleftrightarrow> validate_cut_release label notes"
| "well_formed ce _ \<longleftrightarrow> True"

text \<open>The request models bound no version number, the INTEGER columns do.\<close>

fun fits_columns :: "api_call \<Rightarrow> bool" where
  "fits_columns (CreateVersion cid (JStr v) pre) \<longleftrightarrow> storable_version v"
| "fits_columns _ \<longleftrightarrow> True"

definition enabled :: "call_env \<Rightarrow> http_request \<Rightarrow> contract \<Rightarrow> bool" where
  "enabled ce rq k \<longleftrightarrow> (\<exists>e k'. asks ce rq e \<and> (\<forall>c. e \<noteq> Withdrawn c) \<and> contract_step k e k')"

section \<open>An enabled query succeeds\<close>

lemma enabled_product:
  assumes "contract_step (contract_of db) (ProductAdded i name) k'" "cp_name data = name"
  obtains x db' where "create_product_query i now data db = (Inr x, db')"
proof -
  have "i \<notin> p_id ` set (products db)" "name \<notin> p_name ` set (products db)"
    using assms(1) by (auto elim!: contract_stepE simp: image_image)
  then have empty: "filter (\<lambda>p. p_id p = i) (products db) = []" "filter (\<lambda>p. p_name p = name) (products db) = []"
    by (auto simp: filter_empty_conv)
  with assms(2) \<open>i \<notin> p_id ` set (products db)\<close> have "\<exists>x db'. create_product_query i now data db = (Inr x, db')"
    by (simp add: create_product_query_def select_products_by_name_def insert_product_def new_product_row_def
        select_products_by_id_def fetchone_def)
  then show thesis using that by blast
qed

lemma enabled_component:
  assumes "contract_step (contract_of db) (ComponentAdded i pid) k'" "cc_product_id data = pid"
  obtains x db' where "create_component_query i data db = (Inr x, db')"
proof -
  have new: "i \<notin> c_id ` set (components db)" and prod: "pid \<in> p_id ` set (products db)"
    using assms(1) by (auto elim!: contract_stepE simp: image_image)
  obtain res db' where run: "create_component_query i data db = (res, db')" by force
  then show thesis
  proof (cases rule: create_component_cases)
    case (refused e)
    obtain p rest where "select_products_by_id pid db = p # rest"
      using prod select_product_None[of pid db] by (cases "select_products_by_id pid db") (auto simp: fetchone_def)
    with run refused new prod assms(2) show thesis
      by (auto simp: create_component_query_def fetchone_def insert_component_def)
  next
    case (created c)
    with run that show thesis by blast
  qed
qed

lemma enabled_version:
  assumes "contract_step (contract_of db) (Published i cid core) k'" "cv_component_id data = cid"
    and valid: "semver_match (cv_version data)" "storable_version (cv_version data)" "fresh_id i db"
  obtains x db' bus' where "create_version_query i now data db bus = (Inr x, db', bus')"
proof -
  have comp: "cid \<in> c_id ` set (components db)" using assms(1) by (auto elim!: contract_stepE simp: image_image)
  obtain res db' bus' where run: "create_version_query i now data db bus = (res, db', bus')"
    by (cases "create_version_query i now data db bus") auto
  from run valid(1) show thesis
  proof (cases rule: create_version_cases)
    case (refused e)
    from create_version_errors[OF run[unfolded refused(1)] valid] refused(4) show thesis by (auto simp: client_error_def error_defs)
  qed (use comp assms(2) run that in auto)
qed

lemma enabled_rollback:
  assumes "contract_step (contract_of db) (RolledBack i p) k'" and inv: "db_inv db"
  obtains x db' bus' where "rollback_version_query i db bus = (Inr x, db', bus')"
proof -
  from assms(1) obtain c core prior where k: "(i, c, core) \<in> k_versions (contract_of db)"
    "(p, c, prior) \<in> k_versions (contract_of db)" "p \<notin> k_retired (contract_of db)" "prior < core"
    by (auto elim!: contract_stepE simp del: contract_of_sel)
  obtain t where t: "t \<in> set (versions db)" "v_id t = i" "v_component_id t = c" "core_of t = core"
    using k(1) by auto
  obtain q where q: "q \<in> set (versions db)" "v_id q = p" "v_component_id q = c" "core_of q = prior" using k(2) by auto
  have pkv: "pk v_id (versions db)" using db_inv_parts(1)[OF inv] by (simp add: schema_ok_def)
  have "v_id q \<noteq> v_id t" using pkD[OF pkv q(1) t(1)] q(4) t(4) k(4) by auto
  moreover have "v_status q \<noteq> ROLLED_BACK" using k(3) q(1,2) by auto
  ultimately have cand: "prior_candidate t q" using q(3,4) t(3,4) k(4) by (simp add: prior_candidate_def)
  obtain res db' bus' where run: "rollback_version_query i db bus = (res, db', bus')"
    by (cases "rollback_version_query i db bus") auto
  from run db_inv_parts(1,4)[OF inv] show thesis
  proof (cases rule: rollback_version_cases)
    case (unknown e)
    with imageI[OF t(1), of v_id] t(2) show thesis by simp
  next
    case (no_prior t')
    then have "t' = t" using pkD[OF pkv no_prior(1) t(1)] t(2) by simp
    with no_prior(3) cand q(1) show thesis by blast
  qed (use run that in auto)
qed

lemma enabled_link:
  assumes "contract_step (contract_of db) (Linked pid f t) k'" and inv: "db_inv db" and fresh: "fresh_id i db"
    and data: "data = \<lparr>cd_product_id = pid, cd_from = f, cd_to = t\<rparr>"
  obtains x db' bus' where "add_dependency_query i now data db bus = (Inr x, db', bus')"
proof -
  from assms(1) have k: "(f, pid) \<in> k_components (contract_of db)" "(t, pid) \<in> k_components (contract_of db)"
    "(pid, f, t) \<notin> k_edges (contract_of db)" "(t, f) \<notin> (edges_of (contract_of db) pid)\<^sup>*"
    by (auto elim!: contract_stepE simp del: contract_of_sel)
  note p = db_inv_parts[OF inv]
  have pk: "pk c_id (components db)" using p(1) by (simp add: schema_ok_def)
  have ends: "\<exists>c\<in>set (components db). c_id c = f \<and> c_product_id c = pid"
    "\<exists>c\<in>set (components db). c_id c = t \<and> c_product_id c = pid" using k(1,2) by auto
  then have "pid \<in> p_id ` set (products db)" using p(1) by (auto simp: schema_ok_def fk_def)
  moreover have "f \<noteq> t" using k(4) by auto
  moreover have "select_edge pid f t db = []" using k(3) by (auto simp: select_edge_def d_key_def filter_empty_conv)
  moreover have "\<not> would_create_cycle (select_edges pid db) f t"
    using k(4) would_create_cycle_exact[OF graph_ok_acyclic[OF p(5), of pid], of f t] graph_ok_acyclic[OF p(5), of pid]
    by (simp add: edges_of_contract select_edges_product acyclic_insert)
  ultimately have guard: "add_dependency_guard data db = None"
    unfolding guard_None_iff assert_component_iff[OF pk] using ends by (simp add: data)
  obtain res db' bus' where run: "add_dependency_query i now data db bus = (res, db', bus')"
    by (cases "add_dependency_query i now data db bus") auto
  from run show thesis
  proof (cases rule: add_dependency_cases)
    case (refused e)
    from add_dependency_errors[OF run[unfolded refused(2)] fresh] refused(1) show thesis
      by (auto simp: insert_dependency_def client_error_def error_defs split: if_splits)
  qed (use guard run that in auto)
qed

lemma enabled_unlink:
  assumes "contract_step (contract_of db) (Unlinked pid f t) k'"
    and data: "data = \<lparr>cd_product_id = pid, cd_from = f, cd_to = t\<rparr>"
  obtains x db' bus' where "remove_dependency_query data db bus = (Inr x, db', bus')"
proof -
  have edge: "(pid, f, t) \<in> d_key ` set (dependencies db)" using assms(1) by (auto elim!: contract_stepE)
  obtain res db' bus' where run: "remove_dependency_query data db bus = (res, db', bus')"
    by (cases "remove_dependency_query data db bus") auto
  from run show thesis
  proof (cases rule: remove_dependency_cases)
    case (absent e)
    with edge show thesis by (auto simp: data select_edge_def d_key_def filter_empty_conv)
  qed (use run that in auto)
qed

lemma enabled_cut:
  assumes "(\<exists>version k'. contract_step (contract_of db) (Cut i pid (cut_idempotency_key data) version) k') \<or>
      (cut_idempotency_key data \<noteq> None \<and> spent (contract_of db) pid (cut_idempotency_key data))"
    and inv: "db_inv db" and fresh: "fresh_id i db" and pid: "cut_product_id data = pid"
  obtains x db' bus' where "cut_release i now data db bus = (Inr x, db', bus')"
proof -
  note p = db_inv_parts[OF inv]
  have prod: "pid \<in> p_id ` set (products db)"
    using assms(1) p(1) by (auto elim!: contract_stepE simp: image_image spent_def schema_ok_def fk_def)
  have go: "spent (contract_of db) pid (cut_idempotency_key data) \<or> select_active_components pid db \<noteq> []"
    using assms(1) active_pins_of[OF p(3), of pid] by (auto elim!: contract_stepE simp del: contract_of_sel)
  obtain res db' where q: "cut_release_query i now data db = (res, db')" by force
  have "\<exists>x. res = Inr x"
    using q p(1,3,7)
  proof (cases rule: cut_release_query_cases)
    case (fresh q)
    have unspent: "\<not> spent (contract_of db) pid (cut_idempotency_key data)"
      using fresh(3) pid by (auto simp: spent_def)
    have pp: "parses (p_base_version q)" "cut_product_id data \<in> p_id ` set (products db)"
      using fresh(1,2) p(7) imageI[OF fresh(1), of p_id] by (auto simp: all_parse_def)
    from fresh(4) p(1,3,7) pp show ?thesis
      by (cases rule: fresh_cut_cases) (use go unspent pid \<open>fresh_id i db\<close> in \<open>auto simp: fresh_id_def\<close>)
  qed (use prod pid in auto)
  then show thesis using that q by (auto simp: cut_release_def)
qed

section \<open>An enabled request is accepted\<close>

lemma enabled_cases:
  assumes "enabled ce rq k"
  obtains (product) name d k' where "hr_call rq = CreateProduct name d" "contract_step k (ProductAdded (ce_id ce) name) k'"
  | (component) pid name kind k' where "hr_call rq = CreateComponent pid name kind"
      "contract_step k (ComponentAdded (ce_id ce) pid) k'"
  | (version) c v pre core k' where "hr_call rq = CreateVersion c (JStr v) pre"
      "contract_step k (Published (ce_id ce) c core) k'"
  | (rollback) t p k' where "hr_call rq = RollbackVersion t" "contract_step k (RolledBack t p) k'"
  | (link) pid a b k' where "hr_call rq = AddDependency pid a b" "contract_step k (Linked pid a b) k'"
  | (unlink) pid a b k' where "hr_call rq = RemoveDependency pid a b" "contract_step k (Unlinked pid a b) k'"
  | (cut) pid l n version k' where "hr_call rq = CutRelease pid l n"
      "contract_step k (Cut (ce_id ce) pid (dict_get (hr_headers rq) ''idempotency-key'') version) k'"
proof -
  from assms obtain e k' where e: "asks ce rq e" "\<forall>c. e \<noteq> Withdrawn c" "contract_step k e k'"
    by (auto simp: enabled_def)
  show thesis
  proof (cases e)
    case (Withdrawn c)
    with e(2) show thesis by simp
  qed (use e that in auto)
qed

lemma serve_version_accepted:
  assumes "contract_step (contract_of (app_db st)) (Published (ce_id ce) cid core) k'"
    and "well_formed ce (CreateVersion cid (JStr v) pre)" "fresh_id (ce_id ce) (app_db st)" "storable_version v"
  shows "accepted (fst (create_version ce cid (JStr v) pre st))"
proof -
  obtain body where body: "validate_create_version (ce_valid_ulid ce) cid v pre = Some body"
    using assms(2) by auto
  then have b: "cv_component_id body = cid" "cv_version body = v" "semver_match (cv_version body)"
    by (auto simp: validate_create_version_def split: if_splits)
  obtain x db bus where "create_version_query (ce_id ce) (ce_now ce) body (app_db st) (Some (app_bus st)) = (Inr x, db, bus)"
    by (rule enabled_version[OF assms(1) b(1,3) _ assms(3)]) (use b(2) assms(4) in simp_all)
  with body show ?thesis by (simp add: create_version_def)
qed

lemma serve_cut_accepted:
  assumes "hr_call rq = CutRelease pid l n" "well_formed ce (hr_call rq)" "db_inv (app_db st)" "fresh_id (ce_id ce) (app_db st)"
    and go: "(\<exists>version k'. contract_step (contract_of (app_db st)) (Cut (ce_id ce) pid key version) k') \<or>
      (key \<noteq> None \<and> spent (contract_of (app_db st)) pid key)"
  shows "accepted (fst (cut_product_release ce key pid l n st))"
proof -
  let ?d = "\<lparr>cut_product_id = pid, cut_label = l, cut_notes = n, cut_idempotency_key = key\<rparr>"
  obtain x db bus where "cut_release (ce_id ce) (ce_now ce) ?d (app_db st) (app_bus st) = (Inr x, db, bus)"
    by (rule enabled_cut[of "app_db st" "ce_id ce" pid ?d]) (use assms in simp_all)
  with assms(1,2) show ?thesis by (simp add: cut_product_release_def)
qed

lemma enabled_accepted:
  assumes "enabled ce rq (contract_of (app_db st)) \<or> replays rq (contract_of (app_db st))"
    and wf: "well_formed ce (hr_call rq)" "fits_columns (hr_call rq)" and inv: "db_inv (app_db st)"
    and fresh: "fresh_id (ce_id ce) (app_db st)"
  shows "accepted (fst (serve_secured ce rq p (hr_call rq) st))"
  using assms(1)
proof
  assume "replays rq (contract_of (app_db st))"
  then obtain pid l n where "hr_call rq = CutRelease pid l n" "dict_get (hr_headers rq) ''idempotency-key'' \<noteq> None"
    "spent (contract_of (app_db st)) pid (dict_get (hr_headers rq) ''idempotency-key'')" by (auto simp: replays_def)
  with serve_cut_accepted[OF this(1) wf(1) inv fresh] show ?thesis by simp
next
  assume "enabled ce rq (contract_of (app_db st))"
  then show ?thesis
  proof (cases rule: enabled_cases)
    case (product name d k')
    then obtain body where body: "validate_create_product name d = Some body" using wf(1) by auto
    then have "cp_name body = name" by (auto simp: validate_create_product_def split: if_splits)
    from enabled_product[OF product(2) this, of "ce_now ce"] obtain x db where
      "create_product_query (ce_id ce) (ce_now ce) body (app_db st) = (Inr x, db)" .
    with product(1) body show ?thesis by (simp add: create_product_def)
  next
    case (component pid name kind k')
    then obtain body where
      body: "Option.bind (component_kind_of kind) (validate_create_component (ce_valid_ulid ce) pid name) = Some body"
      using wf(1) by auto
    then have "cc_product_id body = pid"
      by (auto simp: validate_create_component_def bind_eq_Some_conv split: if_splits)
    from enabled_component[OF component(2) this] obtain x db where
      "create_component_query (ce_id ce) body (app_db st) = (Inr x, db)" .
    with component(1) body show ?thesis by (simp add: create_component_def)
  next
    case (version c v pre core k')
    with serve_version_accepted[OF version(2) wf(1)[unfolded version(1)] fresh] wf(2)[unfolded version(1)] show ?thesis by simp
  next
    case (rollback t q k')
    from enabled_rollback[OF rollback(2) inv, of "Some (app_bus st)"] obtain x db bus where
      "rollback_version_query t (app_db st) (Some (app_bus st)) = (Inr x, db, bus)" .
    with rollback(1) show ?thesis by (simp add: rollback_version_def)
  next
    case (link pid a b k')
    from enabled_link[OF link(2) inv fresh refl, of "ce_now ce" "Some (app_bus st)"] obtain x db bus where
      "add_dependency_query (ce_id ce) (ce_now ce) \<lparr>cd_product_id = pid, cd_from = a, cd_to = b\<rparr> (app_db st)
         (Some (app_bus st)) = (Inr x, db, bus)" .
    with link(1) wf(1) show ?thesis by (simp add: add_product_dependency_def)
  next
    case (unlink pid a b k')
    from enabled_unlink[OF unlink(2) refl, of "Some (app_bus st)"] obtain x db bus where
      "remove_dependency_query \<lparr>cd_product_id = pid, cd_from = a, cd_to = b\<rparr> (app_db st)
         (Some (app_bus st)) = (Inr x, db, bus)" .
    with unlink(1) show ?thesis by (simp add: remove_product_dependency_def)
  next
    case (cut pid l n version k')
    with serve_cut_accepted[OF cut(1) wf(1) inv fresh] show ?thesis by auto
  qed
qed

lemma accepted_enabled:
  assumes "honours ce rq st out" "mutating (hr_call rq)" "accepted (fst out)"
  shows "enabled ce rq (contract_of (app_db st)) \<or> replays rq (contract_of (app_db st))"
  using assms unfolding honours_def enabled_def Let_def by blast

lemma accepted_fits:
  assumes "accepted (fst (create_version ce cid (JStr v) pre st))"
  shows "storable_version v"
proof -
  from assms obtain body x db bus where body: "validate_create_version (ce_valid_ulid ce) cid v pre = Some body"
    and run: "create_version_query (ce_id ce) (ce_now ce) body (app_db st) (Some (app_bus st)) = (Inr x, db, bus)"
    by (auto simp: create_version_def answer_with_def split: prod.splits option.splits sum.splits)
  from body have b: "cv_version body = v" "semver_match (cv_version body)"
    by (auto simp: validate_create_version_def split: if_splits)
  from run b(2) show ?thesis
  proof (cases rule: create_version_cases)
    case (created a b' c comp)
    then show ?thesis using b(1) by (auto simp: storable_version_def insert_version_def created_row_def split: if_splits)
  qed simp_all
qed

lemma accepted_call_fits:
  "well_formed ce c \<Longrightarrow> accepted (fst (serve_secured ce rq p c st)) \<Longrightarrow> fits_columns c"
  by (cases "(ce, c)" rule: well_formed.cases) (auto dest: accepted_fits)

lemma mutating_path: "mutating c \<Longrightarrow> \<not> startswith (call_path c) ''/auth/''"
  by (cases c) (simp_all add: call_path_def)

section \<open>Properties\<close>

text \<open>C2: The service decides by its contract and the width of its columns alone. In a state a started application
  can reach, a request that mutates, whose caller is authenticated, whose body the request models accept and
  whose minted identifier is unused, is accepted exactly when the contract enables the step it asks
  for and, for a new version, its three numbers fit the INTEGER columns (the request model does not bound
  them, and beyond 32 bits the INSERT fails), or when it is a cut whose idempotency key is already spent.
  Nothing else in the tables, and no earlier request, can make the service refuse what the
  contract allows.\<close>

theorem service_decides_by_contract:
  assumes "running env plugins extensions stored clock st" and "serve ce rq st = (ans, st')"
    and "mutating (hr_call rq)" "well_formed ce (hr_call rq)" "fresh_id (ce_id ce) (app_db st)"
    and "require_principal (Some (app_resolver st)) (auth_env_of ce st) (auth_request_of rq) = Inr p"
  shows "accepted ans \<longleftrightarrow>
    fits_columns (hr_call rq) \<and>
    (enabled ce rq (contract_of (app_db st)) \<or> replays rq (contract_of (app_db st)))"
proof -
  note inv = running_inv(1)[OF assms(1)]
  have "fst (serve_secured ce rq p (hr_call rq) st) = ans"
    using assms(2,6) serve_outside_auth[OF mutating_path[OF assms(3)], of ce st] mutating_secured[OF assms(3)]
    by (simp add: dispatch_def)
  moreover note enabled_accepted[OF _ assms(4) _ inv assms(5), of p] accepted_call_fits[OF assms(4), of rq p st]
  ultimately have "?thesis \<or> \<not> ?thesis \<and> accepted ans \<and> fits_columns (hr_call rq)" by auto
  with accepted_enabled[OF honours_serve[OF inv] assms(3), of ce] show ?thesis by (auto simp: assms(2))
qed

theorem service_decides_by_contract_witness:
  "\<exists>ans st'. serve (sample_env no_env ''n'') (bare_request (CreateProduct ''New'' None))
       (lifespan_start no_env [] [] sample_database) = (ans, st') \<and> accepted ans"
proof -
  let ?ce = "sample_env no_env ''n''" and ?rq = "bare_request (CreateProduct ''New'' None)"
  let ?st = "lifespan_start no_env [] [] sample_database"
  obtain ans st' where s: "serve ?ce ?rq ?st = (ans, st')" by force
  have rq: "hr_call ?rq = CreateProduct ''New'' None" by (simp add: bare_request_def)
  have "require_principal (Some (app_resolver ?st)) (auth_env_of ?ce ?st) (auth_request_of ?rq)
      = Inr (anonymous_principal ''oss'')" by (rule unconfigured_principal)
  moreover have "well_formed ?ce (hr_call ?rq)" by (simp add: rq validate_create_product_def)
  moreover have "fresh_id (ce_id ?ce) (app_db ?st)" by (simp add: fresh_id_def start_db sample_env_def sample_defs)
  moreover have "\<exists>k'. contract_step (contract_of sample_database) (ProductAdded ''n'' ''New'') k'"
    by (rule exI, rule contract_step.product_added) (simp_all add: sample_defs)
  then have "enabled ?ce ?rq (contract_of (app_db ?st))"
    unfolding enabled_def by (intro exI[of _ "ProductAdded ''n'' ''New''"]) (simp add: rq start_db sample_env_def)
  ultimately have "accepted ans"
    using service_decides_by_contract[OF running_start[OF db_inv_sample, of no_env "[]" "[]" 0] s] by (simp add: rq)
  with s show ?thesis by blast
qed

end
