(* ===== verification/Interruption.thy ===== *)
theory Interruption
  imports Refinement
begin

text \<open>
  Requests that stop half-way. Every statement commits by itself, so when the process dies or
  the connection breaks between two statements of a query, the statements already run stay.
  This theory lists the writes of every query that issues more than one, in order, shows that
  running all of them is what the query does, and that whatever prefix was run the store stays
  valid and no release is lost or changed. It also shows what can be
  repaired by sending the request again, and the one request where that is not so.
\<close>

section \<open>The writes of a query\<close>

type_synonym db_write = "database \<Rightarrow> database outcome"

fun issue_writes :: "db_write list \<Rightarrow> database \<Rightarrow> database outcome" where
  "issue_writes [] db = Inr db"
| "issue_writes (w # ws) db = (case w db of Inl e \<Rightarrow> Inl e | Inr db' \<Rightarrow> issue_writes ws db')"

definition publish_writes :: "version_row \<Rightarrow> db_write list" where
  "publish_writes row = [\<lambda>db. Inr (supersede_active (v_component_id row) db), insert_version row]"

definition rollback_writes :: "version_row \<Rightarrow> version_row \<Rightarrow> db_write list" where
  "rollback_writes target previous =
     [\<lambda>db. Inr (mark_status ROLLED_BACK (v_id target) db),
      \<lambda>db. Inr (supersede_active (v_component_id target) db),
      \<lambda>db. Inr (mark_status ACTIVE (v_id previous) db)]"

definition cut_writes :: "release_row \<Rightarrow> (ident, string) dict \<Rightarrow> active_record list \<Rightarrow> db_write list" where
  "cut_writes row change records =
     insert_release row # map (\<lambda>r. insert_release_component (pin_row (r_id row) change r)) records"

definition signup_writes :: "user_row \<Rightarrow> token_row \<Rightarrow> db_write list" where
  "signup_writes u t = [insert_user u, insert_token t]"

definition verify_writes :: "string \<Rightarrow> timestamp \<Rightarrow> ident \<Rightarrow> db_write list" where
  "verify_writes token_hash now user_id =
     [\<lambda>db. Inr (activate_user user_id db), \<lambda>db. Inr (consume_token token_hash now db)]"

text \<open>
  \<open>in_flight db ws full\<close>: a request that meets the store \<open>db\<close> issues the writes \<open>ws\<close> and, when it
  is not interrupted, leaves the store \<open>full\<close>. Queries with a single write cannot be torn.
\<close>

inductive in_flight :: "database \<Rightarrow> db_write list \<Rightarrow> database \<Rightarrow> bool" where
  publishing:
    "create_version_query i now data db bus = (Inr v, full, bus') \<Longrightarrow> semver_match (cv_version data) \<Longrightarrow>
     parse_core (cv_version data) = Inr (a, b, c) \<Longrightarrow> in_flight db (publish_writes (created_row i now data a b c)) full"
| rolling:
    "rollback_version_query i db bus = (Inr v, full, bus') \<Longrightarrow> select_versions_by_id i db = [t] \<Longrightarrow>
     select_previous (v_component_id t) (v_id t) (v_major t) (v_minor t) (v_patch t) db = [p] \<Longrightarrow>
     in_flight db (rollback_writes t p) full"
| cutting:
    "cut_release_query i now data db = (Inr result, full) \<Longrightarrow> crr_created result \<Longrightarrow>
     full = after_cut row change (select_active_components (cut_product_id data) db) db \<Longrightarrow>
     in_flight db (cut_writes row change (select_active_components (cut_product_id data) db)) full"
| registering:
    "register hash sha env s pin fresh model db mailer = (Inr (), full, mailer') \<Longrightarrow> verification_ttl_seconds pin env = Inr ttl \<Longrightarrow>
     in_flight db (signup_writes (pending_user hash fresh model (edition s env)) (fresh_token sha fresh ttl)) full"
| verifying:
    "verify sha now token db = (Inr u, full) \<Longrightarrow> find_active_token (sha token) now db = Some row \<Longrightarrow>
     in_flight db (verify_writes (sha token) now (t_user_id row)) full"

lemma perform_manifest:
  "r_id row \<in> r_id ` set (releases db) \<Longrightarrow> distinct (map ar_component_id rs) \<Longrightarrow>
   \<forall>r\<in>set rs. (r_id row, ar_component_id r) \<notin> rc_key ` set (release_components db) \<Longrightarrow>
   issue_writes (map (\<lambda>r. insert_release_component (pin_row (r_id row) change r)) rs) db =
     Inr (db\<lparr>release_components := release_components db @ map (pin_row (r_id row) change) rs\<rparr>)"
proof (induction rs arbitrary: db)
  case (Cons r rs)
  let ?db' = "db\<lparr>release_components := release_components db @ [pin_row (r_id row) change r]\<rparr>"
  have "insert_release_component (pin_row (r_id row) change r) db = Inr ?db'"
    using Cons.prems by (simp add: insert_release_component_def)
  moreover have "issue_writes (map (\<lambda>r. insert_release_component (pin_row (r_id row) change r)) rs) ?db' =
      Inr (?db'\<lparr>release_components := release_components ?db' @ map (pin_row (r_id row) change) rs\<rparr>)"
    by (rule Cons.IH) (use Cons.prems in \<open>auto simp: image_iff\<close>)
  ultimately show ?case by simp
qed simp

lemma perform_cut:
  assumes "schema_ok db" "one_active (versions db)" "r_id row \<notin> r_id ` set (releases db)"
    and "r_product_id row \<in> p_id ` set (products db)" and "prefix rs (select_active_components pid db)"
  shows "issue_writes (cut_writes row change rs) db = Inr (after_cut row change rs db)"
proof -
  let ?db1 = "db\<lparr>releases := releases db @ [row]\<rparr>"
  have "insert_release row db = Inr ?db1" using assms(3,4) by (simp add: insert_release_def)
  then show ?thesis
    using perform_manifest[of row ?db1 rs change] manifest_fits[OF assms(1-3,5)]
    by (simp add: cut_writes_def after_cut_def)
qed

lemma after_cut_inject:
  assumes "after_cut row change rs db = after_cut row' change' rs' db"
  shows "row = row'" "map (pin_row (r_id row) change) rs = map (pin_row (r_id row') change') rs'"
  using arg_cong[OF assms, of releases] arg_cong[OF assms, of release_components] by (simp_all add: after_cut_def)

text \<open>What a cut under way looks like: it has found active versions and a free identifier.\<close>

lemma cut_in_flight:
  assumes run: "cut_release_query i now data db = (Inr result, full)" and created: "crr_created result"
    and full: "full = after_cut row change (select_active_components (cut_product_id data) db) db"
    and inv: "db_inv db"
  shows "r_id row = i" "i \<notin> r_id ` set (releases db)" "r_product_id row = cut_product_id data"
    "cut_product_id data \<in> p_id ` set (products db)" "parses (r_product_version row)"
    "r_idempotency_key row = cut_idempotency_key data"
    "r_idempotency_key row = None \<or> (\<forall>r\<in>set (releases db). r_product_id r = cut_product_id data \<longrightarrow>
       r_idempotency_key r \<noteq> r_idempotency_key row)"
    "crr_release result = to_release_response row (map (manifest_entry change) (select_active_components (cut_product_id data) db))"
proof -
  note ok = db_inv_parts(1,3,7)[OF inv]
  let ?rs = "select_active_components (cut_product_id data) db"
  have goal: "r_id row = i \<and> i \<notin> r_id ` set (releases db) \<and> r_product_id row = cut_product_id data \<and>
    cut_product_id data \<in> p_id ` set (products db) \<and> parses (r_product_version row) \<and>
    r_idempotency_key row = cut_idempotency_key data \<and>
    (cut_idempotency_key data = None \<or> (\<forall>r\<in>set (releases db). r_product_id r = cut_product_id data \<longrightarrow>
       r_idempotency_key r \<noteq> cut_idempotency_key data)) \<and>
    crr_release result = to_release_response row (map (manifest_entry change) ?rs)"
    using run ok
  proof (cases rule: cut_release_query_cases)
    case (fresh p)
    have pp: "parses (p_base_version p)" "cut_product_id data \<in> p_id ` set (products db)"
      using fresh(1,2) ok(3) imageI[OF fresh(1), of p_id] by (auto simp: all_parse_def)
    from fresh(4) ok pp show ?thesis
    proof (cases rule: fresh_cut_cases)
      case (cut bump rationale change' version)
      let ?row = "cut_row i now data version bump rationale"
      have same: "row = ?row" "map (pin_row (r_id row) change) ?rs = map (pin_row (r_id ?row) change') ?rs"
        using after_cut_inject[OF full[unfolded cut(6)]] by simp_all
      then have "dict_get change (ar_component_id r) = dict_get change' (ar_component_id r)" if "r \<in> set ?rs" for r
        using that by (auto simp: pin_row_def)
      then have "map (manifest_entry change) ?rs = map (manifest_entry change') ?rs"
        by (simp add: manifest_entry_def)
      with same cut(4,5,7) pp(2) fresh(3) show ?thesis by (simp add: cut_result_def del: map_eq_conv)
    qed simp_all
  qed (use created in simp_all)
  then show "r_id row = i" "i \<notin> r_id ` set (releases db)" "r_product_id row = cut_product_id data"
    "cut_product_id data \<in> p_id ` set (products db)" "parses (r_product_version row)"
    "r_idempotency_key row = cut_idempotency_key data"
    "crr_release result = to_release_response row (map (manifest_entry change) ?rs)" by simp_all
  from goal show "r_idempotency_key row = None \<or> (\<forall>r\<in>set (releases db). r_product_id r = cut_product_id data \<longrightarrow>
       r_idempotency_key r \<noteq> r_idempotency_key row)" by simp
qed

text \<open>What a cut leaves that got as far as the release row and \<open>k\<close> entries.\<close>

lemma cut_begun:
  assumes run: "cut_release_query i now data db = (Inr result, full)" and created: "crr_created result"
    and full: "full = after_cut row change (select_active_components (cut_product_id data) db) db"
    and inv: "db_inv db"
    and begun: "issue_writes (take (Suc k) (cut_writes row change (select_active_components (cut_product_id data) db))) db = Inr db'"
  shows "db' = after_cut row change (take k (select_active_components (cut_product_id data) db)) db"
proof -
  let ?rs = "select_active_components (cut_product_id data) db"
  note p = db_inv_parts[OF inv] and c = cut_in_flight[OF run created full inv]
  have "issue_writes (cut_writes row change (take k ?rs)) db = Inr (after_cut row change (take k ?rs) db)"
    by (rule perform_cut[OF p(1,3) _ _ take_is_prefix]) (use c in simp_all)
  then show ?thesis using begun by (simp add: cut_writes_def take_map)
qed

section \<open>Running all the writes is what the query does\<close>

lemma in_flight_complete:
  assumes "in_flight db ws full" and inv: "db_inv db"
  shows "issue_writes ws db = Inr full"
  using assms(1)
proof cases
  case (publishing i now data bus v bus' a b c)
  have parsed: "parse_core (cv_version data) = Inr (a', b', c') \<Longrightarrow> a' = a \<and> b' = b \<and> c' = c" for a' b' c'
    using publishing(4) by simp
  from publishing(2,3) show ?thesis
  proof (cases rule: create_version_cases)
    case (created a' b' c' comp)
    with parsed[OF created(1)] show ?thesis
      by (simp add: publishing(1) publish_writes_def) (simp add: created_row_def)
  qed simp_all
next
  case (rolling i bus v bus' t p)
  from rolling(2) db_inv_parts(1,4)[OF inv] show ?thesis
  proof (cases rule: rollback_version_cases)
    case (rolled t' p' comp)
    have t: "t' = t"
    proof -
      have "t' \<in> set (select_versions_by_id i db)" using rolled(1,2) by (simp add: select_versions_by_id_def)
      then show ?thesis using rolling(3) by simp
    qed
    have p: "p' = p" using rolled(12) rolling(4) unfolding t select_previous_candidates by simp
    have "rollback_updates (version_fields t) (version_fields p) db =
        db\<lparr>versions := map (\<lambda>v. set_status (rollback_status t p v) v) (versions db)\<rparr>"
      by (rule rollback_updates_versions) (use rolled(4) in \<open>simp_all add: t p version_fields_def prior_candidate_def\<close>)
    then show ?thesis using rolled(6,7)
      by (simp add: rolling(1) rollback_writes_def rollback_updates_def version_fields_def t p)
  qed simp_all
next
  case (cutting i now data result row change)
  note c = cut_in_flight[OF cutting(2,3,4) inv]
  show ?thesis unfolding cutting(1,4)
    by (rule perform_cut[OF db_inv_parts(1,3)[OF inv] _ _ prefix_order.refl]) (use c in simp_all)
next
  case (registering sha env s pin fresh model mailer mailer' ttl)
  from registering(2) show ?thesis
    by (cases rule: register_cases) (use registering(3) in \<open>simp_all add: registering(1) signup_writes_def\<close>)
next
  case (verifying sha now token u row)
  from verifying(2) show ?thesis
    by (cases rule: verify_cases) (use verifying(3) in \<open>simp_all add: verifying(1) verify_writes_def\<close>)
qed

section \<open>Whatever was run, the store stays valid\<close>

text \<open>\<open>torn db db'\<close>: what an interrupted request leaves of the store.\<close>

inductive torn :: "database \<Rightarrow> database \<Rightarrow> bool" where
  torn: "in_flight db ws full \<Longrightarrow> issue_writes (take n ws) db = Inr db' \<Longrightarrow> torn db db'"

lemma keeps_demotion:
  assumes inv: "db_inv db" and db': "db' = db\<lparr>versions := sql_update P (set_status st) (versions db)\<rparr>"
    and st: "st \<noteq> ACTIVE"
  shows "db_inv db' \<and> extends db db'"
proof (rule keeps_versions[OF inv db'])
  note p = db_inv_parts[OF inv]
  show "schema_ok db'" using p(1) by (simp add: db' schema_ok_status)
  have "length (filter (active_of c) (sql_update P (set_status st) vs)) \<le> length (filter (active_of c) vs)" for c vs
    using st by (induction vs) (auto simp: sql_update_def active_of_def)
  then show "one_active (sql_update P (set_status st) (versions db))"
    using p(3) unfolding one_active_def by (meson order_trans)
qed (use db_inv_parts(4)[OF inv] in simp_all)

lemma two_writes:
  assumes "issue_writes (take n [w1, w2]) db = Inr db'" "issue_writes [w1, w2] db = Inr full"
  obtains "db' = db" | "w1 db = Inr db'" | "db' = full"
  using assms by (cases n; cases "n - 1") (auto split: sum.splits)

lemma three_writes:
  assumes "issue_writes (take n [w1, w2, w3]) db = Inr db'" "issue_writes [w1, w2, w3] db = Inr full"
  obtains "db' = db" | "w1 db = Inr db'" | "issue_writes [w1, w2] db = Inr db'" | "db' = full"
  using assms by (cases n; cases "n - 1"; cases "n - 2") (auto split: sum.splits simp: numeral_2_eq_2)

lemma torn_valid:
  assumes "torn db db'" and inv: "db_inv db"
  shows "db_inv db' \<and> extends db db'"
  using assms(1)
proof cases
  case (torn ws full n)
  note complete = in_flight_complete[OF torn(1) inv]
  have idle: "db_inv db \<and> extends db db" using inv by (simp add: extends_refl)
  from torn(1) show ?thesis
  proof cases
    case (publishing i now data bus v bus' a b c)
    show ?thesis
    proof (rule two_writes[OF torn(2)[unfolded publishing(1) publish_writes_def]
          complete[unfolded publishing(1) publish_writes_def]])
      assume "db' = db"
      then show ?thesis using idle by simp
    next
      assume "Inr (supersede_active (v_component_id (created_row i now data a b c)) db) = Inr db'"
      then have "db' = supersede_active (v_component_id (created_row i now data a b c)) db" by simp
      from keeps_demotion[OF inv this[unfolded supersede_active_def]] show ?thesis by simp
    next
      assume "db' = full"
      with keeps_create_version[OF publishing(2,3) inv] show ?thesis by simp
    qed
  next
    case (rolling i bus v bus' t p)
    let ?d1 = "mark_status ROLLED_BACK (v_id t) db"
    let ?d2 = "supersede_active (v_component_id t) ?d1"
    have d1: "db_inv ?d1 \<and> extends db ?d1" by (rule keeps_demotion[OF inv mark_status_def]) simp
    then have "db_inv ?d2 \<and> extends ?d1 ?d2" by (intro keeps_demotion[OF _ supersede_active_def]) simp_all
    with d1 have d2: "db_inv ?d2 \<and> extends db ?d2" using extends_trans by blast
    have full: "db_inv full \<and> extends db full" by (rule keeps_rollback_version[OF rolling(2) inv])
    show ?thesis
      by (rule three_writes[OF torn(2)[unfolded rolling(1) rollback_writes_def]
            complete[unfolded rolling(1) rollback_writes_def]])
         (use idle d1 d2 full in auto)
  next
    case (cutting i now data result row change)
    note c = cut_in_flight[OF cutting(2,3,4) inv]
    let ?rs = "select_active_components (cut_product_id data) db"
    show ?thesis
    proof (cases n)
      case 0
      with torn(2) idle show ?thesis by simp
    next
      case (Suc k)
      have part: "prefix (take k ?rs) ?rs" by (rule take_is_prefix)
      note p = db_inv_parts[OF inv]
      note db' = cut_begun[OF cutting(2,3,4) inv torn(2)[unfolded cutting(1) Suc]]
      have "schema_ok db'" unfolding db' by (rule schema_ok_after_cut[OF p(1,3) _ _ part]) (use c in simp_all)
      moreover have "idem_unique (releases db @ [row])"
        by (rule idem_unique_snoc) (use p(8) c in auto)
      moreover note manifest_ok_after_cut[OF p(9) c(3) part, of change]
      ultimately show ?thesis using p c(1,2,5)
        by (auto simp: db_inv_def releases_ok_def db' after_cut_def all_parse_def extends_def)
    qed
  next
    case (registering sha env s pin fresh model mailer mailer' ttl)
    have first: "db_inv d \<and> extends db d" if "insert_user u db = Inr d" for u d
      by (rule keeps_auth[OF _ inv]) (use that auth_only_inserts(1) schema_ok_insert(7) in blast)
    show ?thesis
      by (rule two_writes[OF torn(2)[unfolded registering(1) signup_writes_def]
            complete[unfolded registering(1) signup_writes_def]])
         (use keeps_auth[OF signup_auth_only[OF registering(2)] inv] first idle in auto)
  next
    case (verifying sha now token u row)
    have first: "db_inv (activate_user q db) \<and> extends db (activate_user q db)" for q
      by (rule keeps_auth[OF _ inv]) (simp add: schema_ok_auth_ops, simp add: activate_user_def)
    show ?thesis
      by (rule two_writes[OF torn(2)[unfolded verifying(1) verify_writes_def]
            complete[unfolded verifying(1) verify_writes_def]])
         (use keeps_auth[OF verify_auth_only[OF verifying(2)] inv] first idle in auto)
  qed
qed

section \<open>Sending the request again\<close>

lemma supersede_again: "supersede_active cid (supersede_active cid db) = supersede_active cid db"
proof -
  have "(if active_of cid (if active_of cid v then set_status SUPERSEDED v else v)
         then set_status SUPERSEDED (if active_of cid v then set_status SUPERSEDED v else v)
         else (if active_of cid v then set_status SUPERSEDED v else v)) =
        (if active_of cid v then set_status SUPERSEDED v else v)" for v
    by (simp add: active_of_def)
  then show ?thesis by (simp add: supersede_active_def sql_update_def o_def)
qed

lemma create_again:
  "create_version_query i now data (supersede_active (cv_component_id data) db) bus =
     (if select_components_by_id (cv_component_id data) db = []
      then (fst (create_version_query i now data db bus), supersede_active (cv_component_id data) db, bus)
      else create_version_query i now data db bus)"
  by (auto simp: create_version_query_def supersede_again select_components_by_id_def split: list.split)

text \<open>
  A rollback met half-way by its repetition: the target may already be rolled back and the
  active versions of its component already superseded, nothing else has changed.
\<close>

lemma rollback_again:
  assumes run: "rollback_version_query i db bus = (Inr v, full, bus')" and inv: "db_inv db"
    and t: "select_versions_by_id i db = [t]"
    and g: "\<forall>x\<in>set (versions db). v_id x \<noteq> i \<longrightarrow>
      g x = v_status x \<or> (active_of (v_component_id t) x \<and> g x = SUPERSEDED)"
    and half: "half = db\<lparr>versions := map (\<lambda>x. set_status (g x) x) (versions db)\<rparr>"
  shows "rollback_version_query i half bus = (Inr v, full, bus')"
proof -
  let ?m = "\<lambda>x. set_status (g x) x"
  note ok = db_inv_parts(1,4)[OF inv]
  have ok': "schema_ok half" "all_nonneg (versions half)" using ok by (simp_all add: half schema_ok_status_map)
  have pk: "pk v_id (versions db)" "pk c_id (components db)" using ok(1) by (simp_all add: schema_ok_def)
  obtain t' p comp where old: "t' \<in> set (versions db)" "v_id t' = i" "p \<in> set (versions db)" "prior_candidate t' p"
    "full = db\<lparr>versions := map (\<lambda>x. set_status (rollback_status t' p x) x) (versions db)\<rparr>"
    "v = version_fields (set_status ACTIVE p)" "comp \<in> set (components db)" "c_id comp = v_component_id t'"
    "bus' = emit (version_rolled_back_event (c_product_id comp) (v_component_id t') i (v_id p)) bus"
    "take 1 (order_by_desc core_of (filter (prior_candidate t') (versions db))) = [p]"
    using run ok
  proof (cases rule: rollback_version_cases)
    case (rolled t p comp)
    have "full = db\<lparr>versions := map (\<lambda>x. set_status (rollback_status t p x) x) (versions db)\<rparr>"
      using rolled(7) unfolding rolled(6) .
    with rolled show thesis by (intro that[of t p comp]) simp_all
  qed simp_all
  have tt: "t' = t" 
  proof -
    have "t' \<in> set (select_versions_by_id i db)" using old(1,2) by (simp add: select_versions_by_id_def)
    then show ?thesis using t by simp
  qed
  have cand: "prior_candidate t (?m x) \<longleftrightarrow> prior_candidate t x" if "x \<in> set (versions db)" for x
    using g that old(2) unfolding tt by (auto simp: prior_candidate_def core_of_def active_of_def)
  have "filter (prior_candidate t) (map ?m xs) = map ?m (filter (prior_candidate t) xs)"
    if "set xs \<subseteq> set (versions db)" for xs using that cand by (induction xs) auto
  then have sel: "take 1 (order_by_desc core_of (filter (prior_candidate t) (versions half))) = [?m p]"
    using old(10) unfolding half tt by (simp add: order_by_desc_map core_of_def take_map)
  obtain r2 full2 bus2 where again: "rollback_version_query i half bus = (r2, full2, bus2)"
    by (cases "rollback_version_query i half bus") auto
  from again ok' show ?thesis
  proof (cases rule: rollback_version_cases)
    case unknown
    with imageI[OF old(1), of v_id] old(2) show ?thesis by (simp add: half image_image)
  next
    case (no_prior t2)
    then have "v_component_id t2 = v_component_id t" "v_id t2 = v_id t" "core_of t2 = core_of t"
      using pkD[OF pk(1) _ old(1)] old(2) by (auto simp: half tt core_of_def)
    then have "prior_candidate t2 = prior_candidate t" by (simp add: prior_candidate_def fun_eq_iff)
    with no_prior(3) cand[OF old(3)] old(3,4) show ?thesis by (auto simp: half tt)
  next
    case (rolled t2 p2 comp2)
    have t2: "v_component_id t2 = v_component_id t" "v_id t2 = v_id t" "core_of t2 = core_of t"
      using rolled(1,2) pkD[OF pk(1) _ old(1)] old(2) by (auto simp: half tt core_of_def)
    then have "prior_candidate t2 = prior_candidate t" by (simp add: prior_candidate_def fun_eq_iff)
    with rolled(12) sel have p2: "p2 = ?m p" by simp
    have comp2: "comp2 = comp" using pkD[OF pk(2) _ old(7)] rolled(9,10) old(8) t2(1) by (simp add: half tt)
    have "set_status (rollback_status t2 p2 (?m x)) (?m x) = set_status (rollback_status t p x) x"
      if "x \<in> set (versions db)" for x
      using g that old(2) t2 unfolding tt p2 by (auto simp: rollback_status_def active_of_def)
    then have "versions full2 = versions full" unfolding rolled(6) old(5) by (simp add: half tt)
    moreover have "full2 = half\<lparr>versions := versions full2\<rparr>" by (rule rolled(7))
    ultimately have "full2 = full" unfolding old(5) by (simp add: half)
    moreover have "version_fields (set_status ACTIVE p2) = v" by (simp add: p2 old(6))
    moreover have "bus2 = bus'" using rolled(11) old(9) t2 by (simp add: comp2 p2 tt)
    ultimately show ?thesis using again rolled(8) by simp
  qed
qed

lemma half_rollback:
  assumes "n < 3" "issue_writes (take n (rollback_writes t p)) db = Inr half"
  obtains g where "half = db\<lparr>versions := map (\<lambda>x. set_status (g x) x) (versions db)\<rparr>"
    "\<forall>x\<in>set (versions db). v_id x \<noteq> v_id t \<longrightarrow>
       g x = v_status x \<or> (active_of (v_component_id t) x \<and> g x = SUPERSEDED)"
proof -
  define g1 where "g1 = (\<lambda>x :: version_row. if v_id x = v_id t then ROLLED_BACK else v_status x)"
  define g2 where "g2 = (\<lambda>x. if v_id x \<noteq> v_id t \<and> active_of (v_component_id t) x then SUPERSEDED else g1 x)"
  have m1: "mark_status ROLLED_BACK (v_id t) db = db\<lparr>versions := map (\<lambda>x. set_status (g1 x) x) (versions db)\<rparr>"
    by (auto simp: mark_status_def sql_update_def g1_def set_status_same)
  have m2: "supersede_active (v_component_id t) (mark_status ROLLED_BACK (v_id t) db) =
      db\<lparr>versions := map (\<lambda>x. set_status (g2 x) x) (versions db)\<rparr>"
    unfolding m1 by (auto simp: supersede_active_def sql_update_def g1_def g2_def active_of_def)
  consider "n = 0" | "n = 1" | "n = 2" using assms(1) by linarith
  then show thesis
  proof cases
    case 1
    with assms(2) show thesis by (intro that[of v_status]) (simp_all add: set_status_same)
  next
    case 2
    with assms(2) m1 show thesis by (intro that[of g1]) (simp_all add: rollback_writes_def g1_def)
  next
    case 3
    with assms(2) m2 show thesis
      by (intro that[of g2]) (simp_all add: rollback_writes_def g1_def g2_def numeral_2_eq_2)
  qed
qed

section \<open>A rollback and a cut to interrupt\<close>

definition released_database :: database where
  "released_database = sample_database\<lparr>releases :=
     [\<lparr>r_id = ''r1'', r_product_id = ''p'', r_product_version = ''0.0.0'', r_label = None, r_notes = None,
       r_idempotency_key = None, r_bump_level = None, r_bump_rationale = None, r_created_at = 0\<rparr>]\<rparr>"

lemma db_inv_released: "db_inv released_database"
proof -
  note p = db_inv_parts[OF db_inv_sample]
  have "insert_release (hd (releases released_database)) sample_database = Inr released_database"
    by (simp add: insert_release_def released_database_def sample_defs)
  from schema_ok_insert(4)[OF p(1) this] have "schema_ok released_database" .
  moreover have "manifest_ok (release_components sample_database) cs vs rs" for cs vs rs
    by (simp add: manifest_ok_def sample_defs)
  moreover have "idem_unique (releases released_database)" by (simp add: released_database_def idem_unique_def)
  ultimately show ?thesis using p parses_default
    by (simp add: db_inv_def releases_ok_def all_parse_def) (simp add: released_database_def)
qed

abbreviation sample_target :: version_row where
  "sample_target \<equiv> sample_version ''a2'' ''a'' 1 1 ACTIVE"

abbreviation sample_prior :: version_row where
  "sample_prior \<equiv> sample_version ''a1'' ''a'' 1 0 SUPERSEDED"

lemma sample_rollback:
  assumes inv: "db_inv db" and same: "versions db = versions sample_database" "components db = components sample_database"
  obtains v full where "rollback_version_query ''a2'' db None = (Inr v, full, None)"
    "select_versions_by_id ''a2'' db = [sample_target]"
    "in_flight db (rollback_writes sample_target sample_prior) full"
    "issue_writes (take 1 (rollback_writes sample_target sample_prior)) db = Inr (mark_status ROLLED_BACK ''a2'' db)"
proof -
  have sel: "select_versions_by_id ''a2'' db = [sample_target]"
    by (simp add: select_versions_by_id_def same sample_database_def sample_version_def)
  have prev: "select_previous ''a'' ''a2'' 1 1 0 db = [sample_prior]"
    by (simp add: select_previous_def same sample_database_def sample_version_def order_by_desc_def)
  obtain res full bus where run: "rollback_version_query ''a2'' db None = (res, full, bus)"
    by (cases "rollback_version_query ''a2'' db None")
  have "\<exists>v. res = Inr v \<and> bus = None"
    using run db_inv_parts(1,4)[OF inv]
  proof (cases rule: rollback_version_cases)
    case (unknown e)
    then show ?thesis by (simp add: same sample_database_def sample_version_def)
  next
    case (no_prior t)
    then have "t = sample_target" using sel by (auto simp: select_versions_by_id_def same sample_database_def sample_version_def)
    moreover have "sample_prior \<in> set (versions db)" by (simp add: same sample_database_def)
    ultimately show ?thesis using no_prior(3) by (auto simp: prior_candidate_def sample_version_def core_of_def)
  next
    case (rolled t p comp)
    then show ?thesis by (simp add: emit_def)
  qed
  then obtain v where v: "rollback_version_query ''a2'' db None = (Inr v, full, None)" using run by blast
  have "in_flight db (rollback_writes sample_target sample_prior) full"
    by (rule in_flight.rolling[OF v sel]) (simp add: prev sample_version_def[of _ _ 1 1])
  then show thesis using that[OF v sel] by (simp add: rollback_writes_def sample_version_def)
qed

section \<open>Properties\<close>

text \<open>C14: Publishing and rolling back can be repeated. When \<open>POST /versions\<close> or a rollback broke off
  before its last write, sending the same request again (with the identifier and the time it had)
  answers, stores and announces exactly what the uninterrupted request would have.\<close>

theorem repeating_completes:
  assumes inv: "db_inv db"
  shows "(create_version_query i now data db bus = (Inr v, full, bus') \<and> v_component_id row = cv_component_id data \<and>
      n < 2 \<and> issue_writes (take n (publish_writes row)) db = Inr half \<longrightarrow>
      create_version_query i now data half bus = (Inr v, full, bus')) \<and>
    (rollback_version_query i db bus = (Inr v, full, bus') \<and> select_versions_by_id i db = [t] \<and>
      n < 3 \<and> issue_writes (take n (rollback_writes t p)) db = Inr half \<longrightarrow>
      rollback_version_query i half bus = (Inr v, full, bus'))"
proof (intro conjI impI; elim conjE)
  assume a: "create_version_query i now data db bus = (Inr v, full, bus')" "v_component_id row = cv_component_id data"
    "n < 2" "issue_writes (take n (publish_writes row)) db = Inr half"
  have "half = db \<or> half = supersede_active (cv_component_id data) db"
    using a(2-4) by (cases n) (auto simp: publish_writes_def)
  moreover have "select_components_by_id (cv_component_id data) db \<noteq> []"
    using a(1) by (auto simp: create_version_query_def)
  ultimately show "create_version_query i now data half bus = (Inr v, full, bus')"
    using a(1) create_again[of i now data db bus] by auto
next
  assume a: "rollback_version_query i db bus = (Inr v, full, bus')" "select_versions_by_id i db = [t]"
    "n < 3" "issue_writes (take n (rollback_writes t p)) db = Inr half"
  have "t \<in> set (select_versions_by_id i db)" using a(2) by simp
  then have i: "v_id t = i" by (simp add: select_versions_by_id_def)
  obtain g where "half = db\<lparr>versions := map (\<lambda>x. set_status (g x) x) (versions db)\<rparr>"
    "\<forall>x\<in>set (versions db). v_id x \<noteq> v_id t \<longrightarrow>
       g x = v_status x \<or> (active_of (v_component_id t) x \<and> g x = SUPERSEDED)"
    by (rule half_rollback[OF a(3,4)])
  with rollback_again[OF a(1) inv a(2)] i show "rollback_version_query i half bus = (Inr v, full, bus')" by blast
qed

theorem repeating_completes_witness:
  "\<exists>v full half. rollback_version_query ''a2'' sample_database None = (Inr v, full, None) \<and>
     issue_writes (take 1 (rollback_writes sample_target sample_prior)) sample_database = Inr half \<and>
     rollback_version_query ''a2'' half None = (Inr v, full, None)"
proof -
  obtain v full where run: "rollback_version_query ''a2'' sample_database None = (Inr v, full, None)"
    "select_versions_by_id ''a2'' sample_database = [sample_target]"
    "issue_writes (take 1 (rollback_writes sample_target sample_prior)) sample_database =
       Inr (mark_status ROLLED_BACK ''a2'' sample_database)"
    by (rule sample_rollback[OF db_inv_sample]) simp_all
  from conjunct2[OF repeating_completes[OF db_inv_sample]] run
  have "rollback_version_query ''a2'' (mark_status ROLLED_BACK ''a2'' sample_database) None = (Inr v, full, None)"
    by (metis one_less_numeral_iff semiring_norm(77))
  with run show ?thesis by blast
qed

text \<open>C13: A cut cannot. When a cut with an idempotency key breaks off after the release row and the
  first \<open>k\<close> entries of its manifest, the store is valid and the release is readable, but it pins
  those \<open>k\<close> components only; and sending the request again with the same key, at any time and
  with any label or notes, answers that short release as the existing one and writes nothing.\<close>

theorem torn_cut_replayed:
  assumes run: "cut_release_query i now data db = (Inr result, full)" and created: "crr_created result"
    and full: "full = after_cut row change (select_active_components (cut_product_id data) db) db"
    and key: "cut_idempotency_key data = Some key" and inv: "db_inv db"
    and half: "issue_writes (take (Suc k) (cut_writes row change (select_active_components (cut_product_id data) db))) db = Inr half"
    and again: "cut_product_id data' = cut_product_id data" "cut_idempotency_key data' = Some key"
  shows "db_inv half \<and>
    cut_release_query j later data' half =
      (Inr \<lparr>crr_release = (crr_release result)\<lparr>rr_components := take k (rr_components (crr_release result))\<rparr>,
            crr_created = False\<rparr>, half)"
proof -
  let ?rs = "select_active_components (cut_product_id data) db"
  note c = cut_in_flight[OF run created full inv] and p = db_inv_parts[OF inv]
  have part: "prefix (take k ?rs) ?rs" by (rule take_is_prefix)
  have "issue_writes (cut_writes row change (take k ?rs)) db = Inr (after_cut row change (take k ?rs) db)"
    by (rule perform_cut[OF p(1,3) _ _ part]) (use c in simp_all)
  then have half': "half = after_cut row change (take k ?rs) db" using half by (simp add: cut_writes_def take_map)
  have "in_flight db (cut_writes row change ?rs) full" by (rule in_flight.cutting[OF run created full])
  from torn_valid[OF torn.torn[OF this half] inv] have valid: "db_inv half" by simp
  have load: "load_release (r_id row) half = Inr (to_release_response row (map (manifest_entry change) (take k ?rs)))"
    by (rule load_after_pins[OF p(1) _ refl part]) (use c half' in \<open>simp_all add: after_cut_def\<close>)
  have "filter (\<lambda>r. r_product_id r = cut_product_id data \<and> r_idempotency_key r = Some key) (releases db) = []"
    using c(6,7) key by (auto simp: filter_empty_conv)
  then have found: "select_release_by_idempotency (cut_product_id data) key half = [row]"
    using c(3,6) key by (simp add: select_release_by_idempotency_def half' after_cut_def)
  obtain prod rest where prod: "select_products_by_id (cut_product_id data) half = prod # rest"
    using c(4) by (cases "select_products_by_id (cut_product_id data) half")
      (auto simp: select_products_by_id_def half' after_cut_def filter_empty_conv)
  have "cut_release_query j later data' half =
      (Inr \<lparr>crr_release = to_release_response row (map (manifest_entry change) (take k ?rs)), crr_created = False\<rparr>, half)"
    by (simp add: cut_release_query_def again prod found load)
  moreover have "to_release_response row (map (manifest_entry change) (take k ?rs)) =
      (crr_release result)\<lparr>rr_components := take k (rr_components (crr_release result))\<rparr>"
    by (simp add: c(8) to_release_response_def take_map)
  ultimately show ?thesis using valid by simp
qed

theorem torn_cut_replayed_witness:
  "\<exists>result full half result'. cut_release_query ''r1'' 5 (cut_request (Some ''k'')) sample_database = (Inr result, full) \<and>
     crr_created result \<and> length (rr_components (crr_release result)) = 2 \<and>
     cut_release_query ''r2'' 9 (cut_request (Some ''k'')) half = (Inr result', half) \<and>
     length (rr_components (crr_release result')) = 1"
proof -
  let ?data = "cut_request (Some ''k'')" and ?rs = "select_active_components ''p'' sample_database"
  note p = db_inv_parts[OF db_inv_sample]
  have pid: "cut_product_id ?data = ''p''" "cut_idempotency_key ?data = Some ''k''" by (simp_all add: cut_request_def)
  obtain result full where run: "cut_release_query ''r1'' 5 ?data sample_database = (Inr result, full)"
    "crr_created result" "releases full \<noteq> []" using sample_cut by blast
  have "full \<noteq> sample_database" using run(3) by (auto simp: sample_defs)
  with cut_release_query_frame[OF run(1) p(1,3,7)] pid(1) obtain row change where
    full: "full = after_cut row change ?rs sample_database" by auto
  note c = cut_in_flight[OF run(1,2) full[folded pid(1)] db_inv_sample]
  have rs: "length ?rs = 2" by (simp add: select_active_components_def sample_defs)
  have part: "prefix (take 1 ?rs) ?rs" by (rule take_is_prefix)
  have half: "issue_writes (take (Suc 1) (cut_writes row change ?rs)) sample_database =
      Inr (after_cut row change (take 1 ?rs) sample_database)"
    using perform_cut[OF p(1,3) _ _ part, of row change] c(1-4) by (simp add: cut_writes_def take_map)
  have len: "length (rr_components (crr_release result)) = 2" using c(8) rs by (simp add: pid to_release_response_def)
  from torn_cut_replayed[OF run(1,2) full[folded pid(1)] pid(2) db_inv_sample half[folded pid(1)] refl pid(2), of "''r2''" 9]
    run(1,2) len show ?thesis
    by (intro exI[of _ result] exI[of _ full] exI[of _ "after_cut row change (take 1 ?rs) sample_database"] exI conjI)
       (auto simp: pid(1))
qed

end
