(* ===== verification/Sign_In.thy ===== *)
theory Sign_In
  imports Guarantees
begin

text \<open>
  Where a signed-in user comes from. A run of the application is watched with the list of the logins that
  still count: those sessions the store already had, and every login answered with a cookie since,
  less those logged out. A request is served as a user only on the strength of one of them.
\<close>

section \<open>Only the account routes touch the sessions\<close>

lemma sessions_create_product: "sessions (snd (create_product_query i now data db)) = sessions db"
  by (auto simp: create_product_query_def dest!: insert_frame(1) split: option.split sum.split)

lemma sessions_create_component: "sessions (snd (create_component_query i data db)) = sessions db"
  by (auto simp: create_component_query_def dest!: insert_frame(2) split: option.split sum.split)

lemma sessions_create_version: "sessions (fst (snd (create_version_query i now data db bus))) = sessions db"
  by (auto simp: create_version_query_def Let_def supersede_active_def dest!: insert_frame(3)
      split: list.split option.split sum.split)

lemma sessions_rollback: "sessions (fst (snd (rollback_version_query i db bus))) = sessions db"
  by (auto simp: rollback_version_query_def rollback_updates_def supersede_active_def mark_status_def Let_def
      split: list.split option.split sum.split)

lemma sessions_add_dependency: "sessions (fst (snd (add_dependency_query i now data db bus))) = sessions db"
proof -
  obtain res db' bus' where run: "add_dependency_query i now data db bus = (res, db', bus')"
    by (cases "add_dependency_query i now data db bus") auto
  then show ?thesis by (cases rule: add_dependency_cases) (auto simp: run)
qed

lemma sessions_remove_dependency: "sessions (fst (snd (remove_dependency_query data db bus))) = sessions db"
  by (auto simp: remove_dependency_query_def delete_edge_def Let_def split: option.split)

lemma sessions_cut:
  assumes "db_inv db"
  shows "sessions (fst (snd (cut_release i now data db bus))) = sessions db"
proof -
  obtain res db' where run: "cut_release_query i now data db = (res, db')" by force
  from cut_release_query_frame[OF run db_inv_parts(1,3,7)[OF assms]] have "sessions db' = sessions db"
    by (auto simp: after_cut_def)
  then show ?thesis by (simp add: cut_release_def run split: sum.split)
qed

lemmas sessions_queries = sessions_create_product sessions_create_component sessions_create_version sessions_rollback
  sessions_add_dependency sessions_remove_dependency sessions_cut

lemma sessions_secured:
  "db_inv (app_db st) \<Longrightarrow> sessions (app_db (snd (serve_secured ce rq p c st))) = sessions (app_db st)"
  by (cases c)
    (simp_all add: sessions_queries read_route_defs read_answer_def stream_product_events_def create_product_def
      create_component_def create_version_def rollback_version_def add_product_dependency_def remove_product_dependency_def
      cut_product_release_def case_prod_unfold Let_def split: option.split json.split)

section \<open>The logins that count\<close>

text \<open>The digest of the token handed out, the user, and when it expires.\<close>

type_synonym grant = "string \<times> ident \<times> timestamp"

definition grant_of :: "session_row \<Rightarrow> grant" where
  "grant_of s = (s_token_hash s, s_user_id s, s_expires_at s)"

text \<open>What a login answered with a cookie grants: the password was checked and the account active at that time.\<close>

definition granted :: "call_env \<Rightarrow> string \<Rightarrow> string \<Rightarrow> app_state \<Rightarrow> grant list" where
  "granted ce email password st =
     (case (get_user_by_email (normalize_login_email email) (app_db st),
            session_ttl_seconds (app_settings st) (ce_environ ce)) of
        (Some u, Inr ttl) \<Rightarrow>
          if may_login (ce_pw_ok ce) password u
          then [(ce_sha ce (ce_token ce), u_id u, ce_now ce + microseconds ttl)] else []
      | _ \<Rightarrow> [])"

definition grants_after :: "call_env \<Rightarrow> http_request \<Rightarrow> api_answer \<Rightarrow> app_state \<Rightarrow> grant list \<Rightarrow> grant list" where
  "grants_after ce rq ans st gs =
     (case (hr_call rq, ans) of
        (Login email password, LoggedIn r cookie) \<Rightarrow> gs @ granted ce email password st
      | (Logout, LoggedOut) \<Rightarrow>
          (case session_cookie_token (auth_request_of rq) of
             None \<Rightarrow> gs
           | Some token \<Rightarrow> filter (\<lambda>(digest, _). digest \<noteq> ce_sha ce token) gs)
      | _ \<Rightarrow> gs)"

definition backed :: "database \<Rightarrow> grant list \<Rightarrow> bool" where
  "backed db gs \<longleftrightarrow> grant_of ` set (sessions db) \<subseteq> set gs"

lemma grants_other:
  "\<forall>email password. hr_call rq \<noteq> Login email password \<Longrightarrow> hr_call rq \<noteq> Logout \<Longrightarrow> grants_after ce rq ans st gs = gs"
  by (cases "hr_call rq") (simp_all add: grants_after_def)

lemma backed_login:
  assumes "hr_call rq = Login email password" "backed (app_db st) gs"
    and "login_account ce email password st = (ans, st')"
  shows "backed (app_db st') (grants_after ce rq ans st gs)"
proof (cases "validate_login email password")
  case None
  with assms show ?thesis by (auto simp: login_account_def grants_after_def unprocessable_def)
next
  case (Some normalized)
  then have norm: "normalized = normalize_login_email email" by (auto simp: validate_login_def split: if_splits)
  obtain r db where run: "login (ce_pw_ok ce) (ce_sha ce) (ce_equaliser ce) (ce_environ ce) (app_settings st)
      (ce_id ce) (ce_token ce) (ce_now ce) normalized password (app_db st) = (r, db)" by force
  have out: "ans = answer_with (\<lambda>(u, cookie). LoggedIn \<lparr>resp_status = 200, resp_headers = [], resp_body = user_json u\<rparr> cookie) r"
    "app_db st' = db" using assms(3) Some run by (auto simp: login_account_def)
  have failed: "grants_after ce rq (answer_error e) st gs = gs" for e
    by (cases e) (simp_all add: grants_after_def answer_error_def assms(1))
  from run show ?thesis
  proof (cases rule: login_cases)
    case denied
    with assms(2) show ?thesis by (simp add: out failed answer_with_def)
  next
    case (failed u e)
    with assms(2) \<open>\<And>e. grants_after ce rq (answer_error e) st gs = gs\<close> show ?thesis by (simp add: out answer_with_def)
  next
    case (opened u ttl)
    have "granted ce email password st = [grant_of (opened_session (ce_sha ce) (ce_id ce) (ce_token ce) (ce_now ce) (u_id u) ttl)]"
      using opened(1-3) by (simp add: granted_def norm grant_of_def opened_session_def)
    moreover have "sessions db = sessions (app_db st) @ [opened_session (ce_sha ce) (ce_id ce) (ce_token ce) (ce_now ce) (u_id u) ttl]"
      using insert_frame(8)[OF opened(5)] by simp
    ultimately show ?thesis
      using assms(2) by (auto simp: backed_def out opened(4) answer_with_def grants_after_def assms(1))
  qed
qed

lemma backed_logout:
  assumes "hr_call rq = Logout" "backed (app_db st) gs"
  shows "backed (logout (ce_sha ce) (auth_request_of rq) (app_db st)) (grants_after ce rq LoggedOut st gs)"
  using assms(2)
  by (auto simp: backed_def logout_def grants_after_def assms(1) delete_session_def sql_delete_def grant_of_def
      split: option.split)

lemma sessions_open:
  assumes "\<forall>email password. hr_call rq \<noteq> Login email password" "hr_call rq \<noteq> Logout" "\<not> secured (hr_call rq)"
  shows "sessions (app_db (snd (serve_open ce rq (hr_call rq) st))) = sessions (app_db st)"
proof -
  have "sessions (app_db (snd (signup ce email password st))) = sessions (app_db st)" for email password
    by (auto simp: signup_def Let_def split: option.split prod.split elim!: register_cases dest!: insert_frame(7,9))
  moreover have "sessions (app_db (snd (verify_account ce token st))) = sessions (app_db st)" for token
    by (auto simp: verify_account_def Let_def consume_token_def activate_user_def split: prod.split elim!: verify_cases)
  ultimately show ?thesis using assms by (cases "hr_call rq") (simp_all add: read_answer_def)
qed

lemma backed_dispatch:
  assumes inv: "db_inv (app_db st)" and ok: "backed (app_db st) gs" and run: "dispatch ce rq st = (ans, st')"
  shows "backed (app_db st') (grants_after ce rq ans st gs)"
proof -
  consider (login) email password where "hr_call rq = Login email password" | (logout) "hr_call rq = Logout"
    | (other) "\<forall>email password. hr_call rq \<noteq> Login email password" "hr_call rq \<noteq> Logout" by blast
  then show ?thesis
  proof cases
    case login
    with run have "login_account ce email password st = (ans, st')" by (simp add: dispatch_def)
    with login ok show ?thesis by (rule backed_login)
  next
    case logout
    with run have "ans = LoggedOut" "app_db st' = logout (ce_sha ce) (auth_request_of rq) (app_db st)"
      by (auto simp: dispatch_def)
    with backed_logout[OF logout ok] show ?thesis by simp
  next
    case other
    have "st' = snd (dispatch ce rq st)" using run by simp
    then have "sessions (app_db st') = sessions (app_db st)"
      using sessions_secured[OF inv] sessions_open[OF other] by (simp add: dispatch_def split: sum.split)
    with ok show ?thesis by (simp add: backed_def grants_other[OF other])
  qed
qed

section \<open>Runs with their grants\<close>

record sign_ins =
  si_clock :: int
  si_app :: app_state
  si_grants :: "grant list"

inductive sign_in_step :: "sign_ins \<Rightarrow> sign_ins \<Rightarrow> bool" where
  served: "si_clock x \<le> ce_clock ce \<Longrightarrow> serve ce rq (si_app x) = (ans, st') \<Longrightarrow>
    sign_in_step x (x\<lparr>si_clock := ce_clock ce, si_app := st', si_grants := grants_after ce rq ans (si_app x) (si_grants x)\<rparr>)"
| delivered: "sign_in_step x (x\<lparr>si_app := poll stream (si_app x)\<rparr>)"
| left: "sign_in_step x (x\<lparr>si_app := disconnect stream (si_app x)\<rparr>)"

definition sign_ins_start :: "int \<Rightarrow> app_state \<Rightarrow> sign_ins" where
  "sign_ins_start clock st = \<lparr>si_clock = clock, si_app = st, si_grants = map grant_of (sessions (app_db st))\<rparr>"

definition sign_ins_inv :: "auth_resolver \<Rightarrow> sign_ins \<Rightarrow> bool" where
  "sign_ins_inv resolver x \<longleftrightarrow>
     app_inv (si_clock x, si_app x) \<and> app_resolver (si_app x) = resolver \<and> backed (app_db (si_app x)) (si_grants x)"

lemma sign_in_is_step: "sign_in_step x y \<Longrightarrow> api_step (si_clock x, si_app x) (si_clock y, si_app y)"
  by (cases rule: sign_in_step.cases) (auto intro: api_step.intros)

lemma backed_serve:
  assumes inv: "db_inv (app_db st)" and ok: "backed (app_db st) gs" and run: "serve ce rq st = (ans, st')"
  shows "backed (app_db st') (grants_after ce rq ans st gs)"
proof -
  have refused: "grants_after ce rq (JsonAnswer r) st gs = gs" "grants_after ce rq (Unhandled e) st gs = gs" for r e st
    by (simp_all add: grants_after_def split: api_call.split)
  have limiter: "grants_after ce rq a (st\<lparr>app_limiter := l\<rparr>) gs = grants_after ce rq a st gs" for a l
    by (simp add: grants_after_def granted_def split: api_call.split api_answer.split)
  show ?thesis
    using run ok backed_dispatch[of "st\<lparr>app_limiter := l\<rparr>" gs ce rq ans st' for l] inv
    by (auto simp: serve_def refused limiter split: option.splits prod.splits forwarding.splits)
qed

lemma sign_in_keeps:
  assumes inv: "sign_ins_inv resolver x" and step: "sign_in_step x y"
  shows "sign_ins_inv resolver y"
proof -
  have x: "app_inv (si_clock x, si_app x)" "app_resolver (si_app x) = resolver" "backed (app_db (si_app x)) (si_grants x)"
    using inv by (simp_all add: sign_ins_inv_def)
  have db: "db_inv (app_db (si_app x))" using x(1) by (simp add: app_inv_def)
  from step have "backed (app_db (si_app y)) (si_grants y)"
  proof cases
    case (served ce rq ans st')
    with backed_serve[OF db x(3) served(3)] show ?thesis by simp
  qed (use x(3) in \<open>simp_all add: poll_def disconnect_def\<close>)
  with api_step_keeps[OF sign_in_is_step[OF step] x(1)] x(2) show ?thesis by (simp add: sign_ins_inv_def)
qed

interpretation signing_in: invariant_system sign_in_step "sign_ins_inv resolver" for resolver
  by unfold_locales (rule sign_in_keeps)

lemma user_presents_session:
  assumes "require_principal (Some (build_resolver s env (Some (app_registry s env [])))) ae rq = Inr p" "prin_kind p = USER"
  obtains u where "presents_session ae rq u" "prin_id p = u_id u"
proof -
  have "try_providers (app_registry s env []) ae rq = Inr (Some p)"
    using assms by (auto simp: require_principal_def resolve_def build_resolver_def anonymous_principal_def
        split: sum.splits option.splits if_splits)
  from try_providers_Some[OF this] obtain q where q: "q \<in> set (app_registry s env [])" "q ae rq = Inr (Some p)" by blast
  then consider "q = api_key_provider (edition s env)" | "q = password_session_provider (edition s env)"
    by (auto simp: app_registry_def build_registry_def split: if_splits)
  then show thesis
  proof cases
    case 1
    with api_key_provider_Some q(2) assms(2) show thesis by (fastforce simp: key_principal_def)
  next
    case 2
    with session_provider_Some q(2) that show thesis by (fastforce simp: user_principal_def)
  qed
qed

section \<open>Properties\<close>

text \<open>C26: Whoever is served as a user has signed in. In any run of an application without plugins, a
  request resolves to a user only when its session cookie carries a token whose digest was granted to
  that very user by a login of the run: a login that was answered with a cookie, for an account that
  was active and whose password check had succeeded then; that has not expired, and was not
  logged out since. (The sessions the store already held count as granted.)\<close>

theorem users_have_signed_in:
  assumes "db_inv stored"
    and "sign_in_step\<^sup>*\<^sup>* (sign_ins_start clock (lifespan_start env [] extensions stored)) x"
    and "require_principal (Some (app_resolver (si_app x))) (auth_env_of ce (si_app x)) (auth_request_of rq) = Inr p"
    and "prin_kind p = USER"
  shows "\<exists>token expiry. session_cookie_token (auth_request_of rq) = Some token \<and>
    (ce_sha ce token, prin_id p, expiry) \<in> set (si_grants x) \<and> ce_now ce < expiry"
proof -
  let ?st = "lifespan_start env [] extensions stored"
  have st: "app_resolver ?st = build_resolver default_auth_settings env (Some (app_registry default_auth_settings env []))"
    by (simp add: lifespan_start_def Let_def)
  have "sign_ins_inv (app_resolver ?st) (sign_ins_start clock ?st)"
    using start_inv[OF assms(1)] by (simp add: sign_ins_inv_def sign_ins_start_def backed_def)
  from signing_in.invariant[OF assms(2) this]
  have inv: "app_resolver (si_app x) = app_resolver ?st" "backed (app_db (si_app x)) (si_grants x)"
    by (simp_all add: sign_ins_inv_def)
  obtain u where u: "presents_session (auth_env_of ce (si_app x)) (auth_request_of rq) u" "prin_id p = u_id u"
    by (rule user_presents_session[OF assms(3)[unfolded inv(1) st] assms(4)])
  then obtain token row where "session_cookie_token (auth_request_of rq) = Some token" "row \<in> set (sessions (app_db (si_app x)))"
    "s_token_hash row = ce_sha ce token" "ce_now ce < s_expires_at row" "prin_id p = s_user_id row"
    by (auto simp: presents_session_def auth_env_of_def)
  moreover from this inv(2) have "grant_of row \<in> set (si_grants x)" by (auto simp: backed_def)
  ultimately show ?thesis by (auto simp: grant_of_def)
qed

definition password_env :: environ where
  "password_env = (\<lambda>name. if name = ''LAVS_AUTH_MODES'' then Some ''password'' else None)"

lemma password_env_settings:
  "password_enabled default_auth_settings password_env" "\<not> apikey_mode_enabled default_auth_settings password_env"
  "\<not> is_authentication_enabled password_env" "session_ttl_seconds default_auth_settings password_env = Inr 604800"
  "\<not> rl_enabled app_rate_settings password_env"
proof -
  have "List.map_filter (\<lambda>w. auth_mode_of (lower w)) (split_csv ''password'') = [PASSWORD]" by code_simp
  then show "password_enabled default_auth_settings password_env" "\<not> apikey_mode_enabled default_auth_settings password_env"
    by (simp_all add: password_enabled_def apikey_mode_enabled_def modes_def default_auth_settings_def env_or_empty_def
        password_env_def recognised_modes_def)
qed (simp_all add: is_authentication_enabled_def get_configured_api_key_def configured_key_def api_settings_def
    api_key_settings_init_def or_default_def password_env_def session_ttl_seconds_def default_auth_settings_def env_int_def
    rl_enabled_def rl_limit_def app_rate_settings_def rate_limit_settings_init_def)

lemma db_inv_one_user: "db_inv one_user_database"
  using schema_ok_one_user
  by (simp add: db_inv_def names_unique_def one_active_def all_nonneg_def graph_ok_def releases_ok_def manifest_ok_def
      all_parse_def idem_unique_def one_user_database_def empty_database_def pk_def
      product_edges_def)

theorem users_have_signed_in_witness:
  "\<exists>(x :: sign_ins) p. prin_kind p = USER \<and> prin_id p = ''u1'' \<and>
     require_principal (Some (app_resolver (si_app x))) (auth_env_of (sample_env password_env ''i'') (si_app x))
       \<lparr>rq_headers = [], rq_cookies = [(SESSION_COOKIE, ''t'')]\<rparr> = Inr p \<and>
     (\<exists>expiry. (''t'', ''u1'', expiry) \<in> set (si_grants x) \<and> 0 < expiry)"
proof -
  let ?st = "lifespan_start password_env [] [] one_user_database"
  let ?ce = "sample_env password_env ''s1''" and ?rq = "bare_request (Login ''a@b.c'' ''pw'')"
  let ?cookie = "\<lparr>hr_headers = [], hr_cookies = [(SESSION_COOKIE, ''t'')], hr_client = None, hr_call = Me\<rparr>"
  let ?u = "\<lparr>u_id = ''u1'', u_email = ''a@b.c'', u_password_hash = ''pw'', u_status = USER_ACTIVE, u_edition = None, u_created_at = 0\<rparr>"
  let ?db = "one_user_database\<lparr>sessions := [opened_session id ''s1'' ''t'' 0 ''u1'' 604800]\<rparr>"
  have norm: "validate_login ''a@b.c'' ''pw'' = Some ''a@b.c''" by code_simp
  have db: "app_db ?st = one_user_database" "app_settings ?st = default_auth_settings"
    by (simp_all add: lifespan_start_def Let_def)
  have login: "login (=) id ''x'' password_env default_auth_settings ''s1'' ''t'' 0 ''a@b.c'' ''pw'' one_user_database =
      (Inr (user_model ?u, make_session_cookie ''t'' 604800), ?db)"
    by (simp add: login_def password_env_settings get_user_by_email_def one_user_database_def empty_database_def fetchone_def
        create_session_def insert_session_def opened_session_def Let_def)
  obtain ans st' where s: "serve ?ce ?rq ?st = (ans, st')" by force
  have "serve ?ce ?rq ?st = login_account ?ce ''a@b.c'' ''pw'' ?st"
    using password_env_settings(5) by (simp add: serve_def middleware_inert sample_env_def dispatch_def bare_request_def)
  with s login norm db have out: "app_db st' = ?db" "\<exists>r ck. ans = LoggedIn r ck"
    by (auto simp: login_account_def sample_env_def answer_with_def)
  define x where "x = (sign_ins_start 0 ?st)\<lparr>si_clock := ce_clock ?ce, si_app := st',
    si_grants := grants_after ?ce ?rq ans (si_app (sign_ins_start 0 ?st)) (si_grants (sign_ins_start 0 ?st))\<rparr>"
  have "sign_in_step (sign_ins_start 0 ?st) x"
    unfolding x_def by (rule sign_in_step.served) (simp_all add: sign_ins_start_def sample_env_def s[unfolded sample_env_def])
  then have run: "sign_in_step\<^sup>*\<^sup>* (sign_ins_start 0 ?st) x" by blast
  have app: "app_resolver (si_app x) = app_resolver ?st" "app_db (si_app x) = ?db"
    using api_step_keeps[OF api_step.request[OF _ s, of 0] start_inv[OF db_inv_one_user]] out(1)
    by (simp_all add: x_def sample_env_def)
  let ?ce2 = "sample_env password_env ''i''" and ?p = "user_principal (edition default_auth_settings password_env) ?u"
  have registry: "app_registry default_auth_settings password_env [] =
      [password_session_provider (edition default_auth_settings password_env)]"
    using password_env_settings by (simp add: app_registry_def build_registry_def)
  have "password_session_provider ed (auth_env_of ?ce2 (si_app x)) (auth_request_of ?cookie) = Inr (Some (user_principal ed ?u))" for ed
    by (simp add: password_session_provider_def auth_env_of_def app(2) auth_request_of_def session_cookie_token_def
        lookup_active_user_id_def sample_env_def opened_session_def microseconds_def fetchone_def get_user_by_id_def
        one_user_database_def empty_database_def user_principal_def)
  then have principal: "require_principal (Some (app_resolver (si_app x))) (auth_env_of ?ce2 (si_app x)) (auth_request_of ?cookie) = Inr ?p"
    by (simp add: app(1) lifespan_start_def Let_def require_principal_def resolve_def build_resolver_def registry)
  have kind: "prin_kind ?p = USER" "prin_id ?p = ''u1''" by (simp_all add: user_principal_def)
  from users_have_signed_in[OF db_inv_one_user run principal kind(1)] obtain expiry where
    "(''t'', ''u1'', expiry) \<in> set (si_grants x)" "0 < expiry"
    by (auto simp: auth_request_of_def session_cookie_token_def sample_env_def kind(2) split: if_splits)
  with principal kind show ?thesis by (intro exI[of _ x] exI[of _ ?p]) (auto simp: auth_request_of_def)
qed

end
