(* ===== verification/Overlap.thy ===== *)
theory Overlap
  imports Refinement Sign_In
begin

text \<open>
  Requests in flight at the same time. The server runs one event loop: the middleware, the principal
  dependency and the handler of a request each run without giving way, but between them the
  request waits (for its body, and for the thread in which the framework calls the synchronous
  dependencies \<open>get_db_connection\<close>, \<open>get_event_bus\<close> and \<open>get_mailer\<close>), and other requests run. So a
  request is a task that passes stages, and a step moves one task by one stage. The atomic
  requests of \<open>System\<close> are the runs in which no task waits; what holds there of every state holds
  here too, and a task reaches its handler only through an authentication that happened
  while it was in flight.
\<close>

section \<open>Tasks and steps\<close>

text \<open>A task is past the middleware, or has its principal and only the handler ahead.\<close>

datatype stage = Admitted | Authorised principal

record overlap =
  ov_clock :: int
  ov_app :: app_state
  ov_tasks :: "nat \<rightharpoonup> http_request \<times> stage"

text \<open>
  Each stage reads the environment, the clocks and the fresh values of its own moment. A task may also
  vanish between two stages, when its client disconnects.
\<close>

inductive overlap_step :: "overlap \<Rightarrow> overlap \<Rightarrow> bool" where
  arrive:
    "ov_clock s \<le> ce_clock (ce :: call_env) \<Longrightarrow> ov_tasks s n = None \<Longrightarrow>
     rate_limit_middleware app_rate_settings (ce_environ ce) (ce_clock ce) (scope_of rq) (app_limiter (ov_app s))
       = Some (Forwarded, l) \<Longrightarrow>
     overlap_step s \<lparr>ov_clock = ce_clock ce, ov_app = (ov_app s)\<lparr>app_limiter := l\<rparr>,
       ov_tasks = (ov_tasks s)(n \<mapsto> (rq, Admitted))\<rparr>"
| throttle:
    "ov_clock s \<le> ce_clock (ce :: call_env) \<Longrightarrow>
     rate_limit_middleware app_rate_settings (ce_environ ce) (ce_clock ce) (scope_of rq) (app_limiter (ov_app s))
       = Some (Refused r, l) \<Longrightarrow>
     overlap_step s (s\<lparr>ov_clock := ce_clock ce, ov_app := (ov_app s)\<lparr>app_limiter := l\<rparr>\<rparr>)"
| authorise:
    "ov_tasks s n = Some (rq, Admitted) \<Longrightarrow> secured (hr_call rq) \<Longrightarrow>
     require_principal (Some (app_resolver (ov_app s))) (auth_env_of ce (ov_app s)) (auth_request_of rq) = Inr p \<Longrightarrow>
     overlap_step s (s\<lparr>ov_tasks := (ov_tasks s)(n \<mapsto> (rq, Authorised p))\<rparr>)"
| deny:
    "ov_tasks s n = Some (rq, Admitted) \<Longrightarrow> secured (hr_call rq) \<Longrightarrow>
     require_principal (Some (app_resolver (ov_app s))) (auth_env_of ce (ov_app s)) (auth_request_of rq) = Inl e \<Longrightarrow>
     overlap_step s (s\<lparr>ov_tasks := (ov_tasks s)(n := None)\<rparr>)"
| handle_secured:
    "ov_tasks s n = Some (rq, Authorised p) \<Longrightarrow> serve_secured ce rq p (hr_call rq) (ov_app s) = (ans, st') \<Longrightarrow>
     overlap_step s (s\<lparr>ov_app := st', ov_tasks := (ov_tasks s)(n := None)\<rparr>)"
| handle_open:
    "ov_tasks s n = Some (rq, Admitted) \<Longrightarrow> \<not> secured (hr_call rq) \<Longrightarrow>
     serve_open ce rq (hr_call rq) (ov_app s) = (ans, st') \<Longrightarrow>
     overlap_step s (s\<lparr>ov_app := st', ov_tasks := (ov_tasks s)(n := None)\<rparr>)"
| abandon:
    "overlap_step s (s\<lparr>ov_tasks := (ov_tasks s)(n := None)\<rparr>)"
| deliver_event:
    "overlap_step s (s\<lparr>ov_app := poll stream (ov_app s)\<rparr>)"
| leave_stream:
    "overlap_step s (s\<lparr>ov_app := disconnect stream (ov_app s)\<rparr>)"

definition overlap_start :: "int \<Rightarrow> app_state \<Rightarrow> overlap" where
  "overlap_start clock st = \<lparr>ov_clock = clock, ov_app = st, ov_tasks = Map.empty\<rparr>"

definition overlapping ::
  "environ \<Rightarrow> provider list \<Rightarrow> meta_extension list \<Rightarrow> database \<Rightarrow> overlap \<Rightarrow> bool" where
  "overlapping env plugins extensions stored s \<longleftrightarrow>
     db_inv stored \<and>
     (\<exists>clock. overlap_step\<^sup>*\<^sup>* (overlap_start clock (lifespan_start env plugins extensions stored)) s)"

section \<open>Atomic requests are the runs in which nothing waits\<close>

lemma dispatch_overlaps:
  assumes task: "ov_tasks s n = Some (rq, Admitted)" and run: "dispatch ce rq (ov_app s) = (ans, st')"
  shows "overlap_step\<^sup>*\<^sup>* s (s\<lparr>ov_app := st', ov_tasks := (ov_tasks s)(n := None)\<rparr>)"
proof (cases "secured (hr_call rq)")
  case False
  with run have "serve_open ce rq (hr_call rq) (ov_app s) = (ans, st')" by (simp add: dispatch_def)
  from overlap_step.handle_open[OF task False this] show ?thesis by (rule r_into_rtranclp)
next
  case True
  show ?thesis
  proof (cases "require_principal (Some (app_resolver (ov_app s))) (auth_env_of ce (ov_app s)) (auth_request_of rq)")
    case (Inl e)
    with run True have "st' = ov_app s" by (simp add: dispatch_def)
    with overlap_step.deny[OF task True Inl] show ?thesis by auto
  next
    case (Inr p)
    let ?t = "s\<lparr>ov_tasks := (ov_tasks s)(n \<mapsto> (rq, Authorised p))\<rparr>"
    from run True Inr have "serve_secured ce rq p (hr_call rq) (ov_app ?t) = (ans, st')" by (simp add: dispatch_def)
    with overlap_step.handle_secured[of ?t n rq p ce ans st']
    have "overlap_step ?t (s\<lparr>ov_app := st', ov_tasks := (ov_tasks s)(n := None)\<rparr>)" by simp
    with overlap_step.authorise[OF task True Inr] show ?thesis by (meson converse_rtranclp_into_rtranclp r_into_rtranclp)
  qed
qed

lemma serve_overlaps:
  assumes clock: "c \<le> ce_clock ce" and ok: "buckets_ok c (app_limiter st)" and run: "serve ce rq st = (ans, st')"
  shows "overlap_step\<^sup>*\<^sup>* (overlap_start c st) (overlap_start (ce_clock ce) st')"
proof -
  let ?s = "overlap_start c st"
  obtain fwd l where mid: "rate_limit_middleware app_rate_settings (ce_environ ce) (ce_clock ce) (scope_of rq)
      (app_limiter (ov_app ?s)) = Some (fwd, l)"
    using middleware_total[OF ok clock, of app_rate_settings "ce_environ ce" "scope_of rq"] by (auto simp: overlap_start_def)
  have c: "ov_clock ?s \<le> ce_clock ce" "ov_tasks ?s 0 = None" using clock by (simp_all add: overlap_start_def)
  show ?thesis
  proof (cases fwd)
    case (Refused r)
    from overlap_step.throttle[OF c(1) mid[unfolded Refused]] run mid Refused show ?thesis
      by (auto simp: overlap_start_def serve_def)
  next
    case Forwarded
    let ?t = "\<lparr>ov_clock = ce_clock ce, ov_app = (ov_app ?s)\<lparr>app_limiter := l\<rparr>,
       ov_tasks = (ov_tasks ?s)(0 \<mapsto> (rq, Admitted))\<rparr>"
    have "dispatch ce rq (ov_app ?t) = (ans, st')" using run mid Forwarded by (simp add: serve_def overlap_start_def)
    with dispatch_overlaps[of ?t 0 rq ce ans st']
    have "overlap_step\<^sup>*\<^sup>* ?t (overlap_start (ce_clock ce) st')" by (simp add: overlap_start_def)
    with overlap_step.arrive[OF c mid[unfolded Forwarded]] show ?thesis by (rule converse_rtranclp_into_rtranclp)
  qed
qed

lemma atomic_overlaps:
  assumes "api_step\<^sup>*\<^sup>* s s'" "app_inv s"
  shows "overlap_step\<^sup>*\<^sup>* (overlap_start (fst s) (snd s)) (overlap_start (fst s') (snd s'))"
  using assms
proof (induction rule: rtranclp_induct)
  case (step t u)
  have "app_inv t" using app.invariant[OF step.hyps(1) step.prems] .
  with step.hyps(2) have "overlap_step\<^sup>*\<^sup>* (overlap_start (fst t) (snd t)) (overlap_start (fst u) (snd u))"
  proof cases
    case (request clock ce rq st ans st')
    with \<open>app_inv t\<close> have "buckets_ok clock (app_limiter st)" by (simp add: app_inv_def)
    from serve_overlaps[OF request(3) this request(4)] request(1,2) show ?thesis by simp
  next
    case (deliver clock st stream)
    with overlap_step.deliver_event[of "overlap_start clock st" stream] show ?thesis by (auto simp: overlap_start_def)
  next
    case (leave clock st stream)
    with overlap_step.leave_stream[of "overlap_start clock st" stream] show ?thesis by (auto simp: overlap_start_def)
  qed
  with step.IH[OF step.prems] show ?case by (rule rtranclp_trans)
qed simp

lemma running_overlapping:
  assumes "running env plugins extensions stored clock st"
  shows "overlapping env plugins extensions stored (overlap_start clock st)"
proof -
  from assms obtain c0 where run: "db_inv stored"
    "api_step\<^sup>*\<^sup>* (c0, lifespan_start env plugins extensions stored) (clock, st)" by (auto simp: running_def)
  from atomic_overlaps[OF run(2) start_inv[OF run(1)]] run(1) show ?thesis by (auto simp: overlapping_def)
qed

section \<open>Every stage keeps the application valid and follows the contract\<close>

definition overlap_inv :: "overlap \<Rightarrow> bool" where
  "overlap_inv s \<longleftrightarrow>
     app_inv (ov_clock s, ov_app s) \<and>
     (\<forall>n rq p. ov_tasks s n = Some (rq, Authorised p) \<longrightarrow> secured (hr_call rq))"

definition overlap_grows :: "overlap \<Rightarrow> overlap \<Rightarrow> bool" where
  "overlap_grows s s' \<longleftrightarrow>
     extends (app_db (ov_app s)) (app_db (ov_app s')) \<and>
     app_settings (ov_app s') = app_settings (ov_app s) \<and> app_resolver (ov_app s') = app_resolver (ov_app s)"

lemma middleware_ordered:
  "rate_limit_middleware cfg env now sc l = Some (fwd, l') \<Longrightarrow> buckets_ok before l \<Longrightarrow> before \<le> now \<Longrightarrow> buckets_ok now l'"
  using middleware_total[of before l now cfg env sc] by auto

lemma moves_overlap:
  assumes "moves (ov_app s) st'" "overlap_inv s" "\<forall>n rq p. ts n = Some (rq, Authorised p) \<longrightarrow> secured (hr_call rq)"
  shows "overlap_inv (s\<lparr>ov_app := st', ov_tasks := ts\<rparr>) \<and> overlap_grows s (s\<lparr>ov_app := st', ov_tasks := ts\<rparr>)"
  using assms by (simp add: moves_def wired_alike_def overlap_inv_def app_inv_def overlap_grows_def)

lemma overlap_step_keeps:
  assumes "overlap_step s s'" and inv: "overlap_inv s"
  shows "overlap_inv s' \<and> overlap_grows s s'"
  using assms(1)
proof cases
  case (arrive ce n rq l)
  with inv middleware_ordered[OF arrive(4)] show ?thesis
    by (auto simp: overlap_inv_def app_inv_def overlap_grows_def extends_refl)
next
  case (throttle ce rq r l)
  with inv middleware_ordered[OF throttle(3)] show ?thesis
    by (auto simp: overlap_inv_def app_inv_def overlap_grows_def extends_refl)
next
  case (authorise n rq ce p)
  then show ?thesis using inv by (simp add: overlap_inv_def overlap_grows_def extends_refl)
next
  case (deny n rq ce e)
  then show ?thesis using inv by (simp add: overlap_inv_def overlap_grows_def extends_refl)
next
  case (handle_secured n rq p ce ans st')
  from moves_overlap[of s st' "(ov_tasks s)(n := None)"] moves_secured[of "ov_app s" ce rq p "hr_call rq"]
    handle_secured(3) inv
  show ?thesis unfolding handle_secured(1) by (simp add: overlap_inv_def)
next
  case (handle_open n rq ce ans st')
  from moves_overlap[of s st' "(ov_tasks s)(n := None)"] moves_open[of "ov_app s" ce rq "hr_call rq"]
    handle_open(4) inv
  show ?thesis unfolding handle_open(1) by (simp add: overlap_inv_def)
next
  case (abandon n)
  then show ?thesis using inv by (simp add: overlap_inv_def overlap_grows_def extends_refl)
next
  case (deliver_event stream)
  then show ?thesis using inv
    by (simp add: overlap_inv_def app_inv_def overlap_grows_def poll_def extends_refl bus_ok_poll)
next
  case (leave_stream stream)
  then show ?thesis using inv
    by (simp add: overlap_inv_def app_inv_def overlap_grows_def disconnect_def extends_refl stream_close_def
        bus_ok_unsubscribe)
qed

interpretation overlapped: growing_system overlap_step overlap_inv overlap_grows
  by unfold_locales
     (use overlap_step_keeps in \<open>auto simp: overlap_grows_def intro: extends_refl extends_trans\<close>)

lemma overlap_simulates:
  assumes inv: "overlap_inv s" and "overlap_step s s'"
  shows "contract_of (app_db (ov_app s')) = contract_of (app_db (ov_app s)) \<or>
    contract_moves (contract_of (app_db (ov_app s))) (contract_of (app_db (ov_app s')))"
  using assms(2)
proof cases
  case (handle_secured n rq p ce ans st')
  from inv have "db_inv (app_db (ov_app s))" by (simp add: overlap_inv_def app_inv_def)
  from honours_secured[OF this, of ce rq p] handle_secured show ?thesis by (simp add: honours_moves del: contract_of_sel)
next
  case (handle_open n rq ce ans st')
  from inv have "db_inv (app_db (ov_app s))" by (simp add: overlap_inv_def app_inv_def)
  from honours_open[OF this handle_open(3), of ce] handle_open show ?thesis by (simp add: honours_moves del: contract_of_sel)
qed (simp_all add: poll_def disconnect_def)

interpretation overlapped_service:
  simulation overlap_step overlap_inv "\<lambda>s. contract_of (app_db (ov_app s))" contract_moves
  by unfold_locales (rule overlap_simulates)

lemma overlap_start_inv: "db_inv stored \<Longrightarrow> overlap_inv (overlap_start clock (lifespan_start env plugins extensions stored))"
  using start_inv by (simp add: overlap_inv_def overlap_start_def)

lemma overlapping_run:
  assumes "overlapping env plugins extensions stored s"
  obtains clock where "db_inv stored"
    "overlap_step\<^sup>*\<^sup>* (overlap_start clock (lifespan_start env plugins extensions stored)) s" "overlap_inv s"
    "overlap_grows (overlap_start clock (lifespan_start env plugins extensions stored)) s"
proof -
  from assms obtain clock where run: "db_inv stored"
    "overlap_step\<^sup>*\<^sup>* (overlap_start clock (lifespan_start env plugins extensions stored)) s"
    by (auto simp: overlapping_def)
  note inv = overlap_start_inv[OF run(1), of clock env plugins extensions]
  show thesis by (rule that[OF run overlapped.invariant[OF run(2) inv] overlapped.run_grows[OF run(2) inv]])
qed

section \<open>No handler without an authentication in flight\<close>

text \<open>When a task got its principal, and what the application was like at that moment.\<close>

definition authorised :: "nat \<Rightarrow> http_request \<Rightarrow> principal \<Rightarrow> overlap \<Rightarrow> overlap" where
  "authorised n rq p t = t\<lparr>ov_tasks := (ov_tasks t)(n \<mapsto> (rq, Authorised p))\<rparr>"

lemma task_was_authorised:
  assumes "overlap_step\<^sup>*\<^sup>* s0 s" "ov_tasks s0 = Map.empty" "ov_tasks s n = Some (rq, Authorised p)"
  shows "\<exists>t ce. overlap_step\<^sup>*\<^sup>* s0 t \<and> ov_tasks t n = Some (rq, Admitted) \<and>
    overlap_step t (authorised n rq p t) \<and> overlap_step\<^sup>*\<^sup>* (authorised n rq p t) s \<and>
    require_principal (Some (app_resolver (ov_app t))) (auth_env_of ce (ov_app t)) (auth_request_of rq) = Inr p"
  using assms
proof (induction rule: rtranclp_induct)
  case (step t u)
  show ?case
  proof (cases "ov_tasks t n = Some (rq, Authorised p)")
    case True
    with step.IH step.prems step.hyps(2) show ?thesis by (meson rtranclp.rtrancl_into_rtrancl)
  next
    case False
    with step.hyps(2) step.prems(2)
    have "\<exists>ce. ov_tasks t n = Some (rq, Admitted) \<and> u = authorised n rq p t \<and>
        require_principal (Some (app_resolver (ov_app t))) (auth_env_of ce (ov_app t)) (auth_request_of rq) = Inr p"
      by cases (auto simp: authorised_def split: if_splits)
    with step.hyps show ?thesis by blast
  qed
qed simp

lemma authorised_presented:
  assumes "overlapping env [] extensions stored s" and "ov_tasks s n = Some (rq, Authorised p)"
    and conf: "modes default_auth_settings env \<noteq> {} \<or> is_authentication_enabled env"
  shows "\<exists>t ce. overlapping env [] extensions stored t \<and> ov_tasks t n = Some (rq, Admitted) \<and>
    overlap_step t (authorised n rq p t) \<and> overlap_step\<^sup>*\<^sup>* (authorised n rq p t) s \<and>
    require_principal (Some (app_resolver (ov_app t))) (auth_env_of ce (ov_app t)) (auth_request_of rq) = Inr p \<and>
    (presents_api_key (ce_environ ce) (auth_request_of rq) \<or>
       (\<exists>u. presents_session (auth_env_of ce (ov_app t)) (auth_request_of rq) u))"
proof -
  from overlapping_run[OF assms(1)] obtain clock where run: "db_inv stored"
    "overlap_step\<^sup>*\<^sup>* (overlap_start clock (lifespan_start env [] extensions stored)) s" by blast
  from task_was_authorised[OF run(2) _ assms(2)] obtain t ce where t:
    "overlap_step\<^sup>*\<^sup>* (overlap_start clock (lifespan_start env [] extensions stored)) t"
    "ov_tasks t n = Some (rq, Admitted)" "overlap_step t (authorised n rq p t)" "overlap_step\<^sup>*\<^sup>* (authorised n rq p t) s"
    "require_principal (Some (app_resolver (ov_app t))) (auth_env_of ce (ov_app t)) (auth_request_of rq) = Inr p"
    by (auto simp: overlap_start_def)
  have over: "overlapping env [] extensions stored t" using run(1) t(1) by (auto simp: overlapping_def)
  have "app_resolver (ov_app t) = build_resolver default_auth_settings env (Some (app_registry default_auth_settings env []))"
    by (rule overlapping_run[OF over]) (simp add: overlap_grows_def overlap_start_def lifespan_start_def Let_def)
  with configured_resolution[OF conf, of "auth_env_of ce (ov_app t)" "auth_request_of rq"] t(5)
  have "presents_api_key (ce_environ ce) (auth_request_of rq) \<or>
      (\<exists>u. presents_session (auth_env_of ce (ov_app t)) (auth_request_of rq) u)"
    by (auto simp: auth_env_of_def)
  with over t(2-5) show ?thesis by blast
qed

section \<open>Properties\<close>

text \<open>C4: Every state the application can reach while requests overlap in any way, streams are served and
  clients disappear, is valid: keys, foreign keys and integer columns hold, product names are
  unique, each component has at most one active version, the dependency graph of each product is
  acyclic and stays inside the product, idempotency keys are unique per product, every manifest
  entry names a version of its component, and no event queue exceeds its bound.\<close>

theorem overlapping_application_valid:
  assumes "overlapping env plugins extensions stored s" and "db = app_db (ov_app s)"
  shows "schema_ok db \<and> distinct (map p_name (products db)) \<and>
    (\<forall>cid. length (filter (active_of cid) (versions db)) \<le> 1) \<and>
    (\<forall>pid. acyclic (set (product_edges pid (dependencies db)))) \<and>
    (\<forall>d. d \<in> set (dependencies db) \<longrightarrow> inside_product (components db) d) \<and>
    idem_unique (releases db) \<and>
    manifest_ok (release_components db) (components db) (versions db) (releases db) \<and>
    (\<forall>q. length (queue_of (app_bus (ov_app s)) q) \<le> 256)"
proof (rule overlapping_run[OF assms(1)])
  assume "overlap_inv s"
  then have "db_inv db" "bus_ok (app_bus (ov_app s))" by (simp_all add: overlap_inv_def app_inv_def assms(2))
  with db_inv_parts[of db] bus_ok_bound show ?thesis
    by (simp add: names_unique_def pk_def one_active_def graph_ok_def QUEUE_MAXSIZE_def)
qed

theorem overlapping_application_valid_witness:
  "\<exists>st :: app_state. length (products (app_db st)) = 2 \<and> distinct (map p_name (products (app_db st)))"
proof -
  let ?c = "CreateProduct ''New'' None" and ?st = "lifespan_start no_env [] [] sample_database"
  have c: "\<not> startswith (call_path ?c) ''/auth/''" "secured ?c" by (simp_all add: call_path_def)
  note run = sample_run_step[OF db_inv_sample c, of "''n''"]
  let ?st' = "snd (serve (sample_env no_env ''n'') (bare_request ?c) ?st)"
  have "length (products (app_db ?st')) = 2"
    unfolding run(1)
    by (simp add: create_product_def validate_create_product_def create_product_query_def lifespan_start_def
        select_products_by_name_def sample_defs sample_env_def fetchone_def insert_product_def new_product_row_def
        select_products_by_id_def)
  with overlapping_application_valid[OF running_overlapping[OF run(2)] refl] show ?thesis
    by (intro exI[of _ ?st']) (simp add: overlap_start_def)
qed

text \<open>C3: Every run of the application is a run of the contract, also when requests overlap. From a valid
  stored database a started application only ever moves along contract steps, whatever requests
  arrive, however their stages interleave, and whoever disconnects. So if every stored release
  has an entry, then in every reachable state the dependency graphs are acyclic, an active version
  is never a retired one, every release has an entry, and nothing published, retired or released
  was taken back.\<close>

theorem overlapping_application_refines_contract:
  assumes "overlapping env plugins extensions stored s"
  shows "contract_moves\<^sup>*\<^sup>* (contract_of stored) (contract_of (app_db (ov_app s))) \<and>
    ((\<forall>r\<in>set (releases stored). \<exists>rc\<in>set (release_components stored). rc_release_id rc = r_id r) \<longrightarrow>
      contract_ok (contract_of (app_db (ov_app s))) \<and>
      contract_grows (contract_of stored) (contract_of (app_db (ov_app s))))"
proof (rule overlapping_run[OF assms])
  fix clock
  assume valid: "db_inv stored"
    and run: "overlap_step\<^sup>*\<^sup>* (overlap_start clock (lifespan_start env plugins extensions stored)) s"
  from overlapped_service.run_simulates[OF run overlap_start_inv[OF valid]]
  have moves: "contract_moves\<^sup>*\<^sup>* (contract_of stored) (contract_of (app_db (ov_app s)))"
    by (simp add: overlap_start_def start_db del: contract_of_sel)
  with obligations.invariant[OF moves] obligations.run_grows[OF moves] contract_ok_of[OF valid] show ?thesis by blast
qed

theorem overlapping_application_refines_contract_witness:
  "\<exists>st :: app_state. contract_moves\<^sup>*\<^sup>* (contract_of sample_database) (contract_of (app_db st)) \<and>
     contract_ok (contract_of (app_db st)) \<and> contract_grows (contract_of sample_database) (contract_of (app_db st)) \<and>
     (''n'', ''New'') \<in> k_products (contract_of (app_db st))"
proof -
  obtain ans st' where st': "running no_env [] [] sample_database 0 st'"
    "(''n'', ''New'') \<in> k_products (contract_of (app_db st'))" by (rule sample_new_product)
  have "releases sample_database = []" by (simp add: sample_defs)
  with overlapping_application_refines_contract[OF running_overlapping[OF st'(1)]]
  have "contract_moves\<^sup>*\<^sup>* (contract_of sample_database) (contract_of (app_db st'))"
    "contract_ok (contract_of (app_db st'))" "contract_grows (contract_of sample_database) (contract_of (app_db st'))"
    by (simp_all add: overlap_start_def del: contract_of_sel)
  with st'(2) show ?thesis by (intro exI[of _ st'] conjI)
qed

text \<open>
  Two requests of one user, with the only session of the store: a read that is past its authentication
  when a logout with the same cookie deletes the session.
\<close>

definition signed_in_database :: database where
  "signed_in_database = one_user_database\<lparr>sessions := [opened_session id ''s1'' ''t'' 0 ''u1'' 604800]\<rparr>"

definition cookied_call :: "api_call \<Rightarrow> http_request" where
  "cookied_call c = \<lparr>hr_headers = [], hr_cookies = [(SESSION_COOKIE, ''t'')], hr_client = None, hr_call = c\<rparr>"

lemma db_inv_signed_in: "db_inv signed_in_database"
proof -
  have "insert_session (opened_session id ''s1'' ''t'' 0 ''u1'' 604800) one_user_database = Inr signed_in_database"
    by (simp add: insert_session_def signed_in_database_def one_user_database_def empty_database_def opened_session_def)
  from keeps_auth_only[OF auth_only_inserts(2)[OF this] schema_ok_insert(8)[OF schema_ok_one_user this] db_inv_one_user]
  show ?thesis by simp
qed

lemma revoked_in_flight:
  obtains s p where "overlapping password_env [] [] signed_in_database s"
    "ov_tasks s 0 = Some (cookied_call ListProducts, Authorised p)" "prin_id p = ''u1''"
    "sessions (app_db (ov_app s)) = []"
proof -
  let ?st = "lifespan_start password_env [] [] signed_in_database" and ?ce = "sample_env password_env ''i''"
  let ?read = "cookied_call ListProducts" and ?out = "cookied_call Logout"
  let ?u = "\<lparr>u_id = ''u1'', u_email = ''a@b.c'', u_password_hash = ''pw'', u_status = USER_ACTIVE, u_edition = None, u_created_at = 0\<rparr>"
  let ?p = "user_principal (edition default_auth_settings password_env) ?u"
  have inert: "rate_limit_middleware app_rate_settings password_env 0 (scope_of rq) l = Some (Forwarded, l)" for rq l
    using password_env_settings(5) by (simp add: middleware_inert)
  have registry: "app_registry default_auth_settings password_env [] =
      [password_session_provider (edition default_auth_settings password_env)]"
    using password_env_settings by (simp add: app_registry_def build_registry_def)
  have "password_session_provider ed (auth_env_of ?ce ?st) (auth_request_of ?read) = Inr (Some (user_principal ed ?u))" for ed
    by (simp add: password_session_provider_def auth_env_of_def start_db auth_request_of_def session_cookie_token_def
        lookup_active_user_id_def sample_env_def opened_session_def microseconds_def fetchone_def get_user_by_id_def
        signed_in_database_def one_user_database_def empty_database_def user_principal_def cookied_call_def)
  then have principal: "require_principal (Some (app_resolver ?st)) (auth_env_of ?ce ?st) (auth_request_of ?read) = Inr ?p"
    by (simp add: lifespan_start_def Let_def require_principal_def resolve_def build_resolver_def registry)
  let ?s0 = "overlap_start 0 ?st"
  let ?s1 = "?s0\<lparr>ov_tasks := Map.empty(0 \<mapsto> (?read, Admitted))\<rparr>"
  let ?s2 = "?s0\<lparr>ov_tasks := Map.empty(0 \<mapsto> (?read, Authorised ?p))\<rparr>"
  let ?s3 = "?s0\<lparr>ov_tasks := [0 \<mapsto> (?read, Authorised ?p), 1 \<mapsto> (?out, Admitted)]\<rparr>"
  let ?s4 = "?s2\<lparr>ov_app := ?st\<lparr>app_db := logout id (auth_request_of ?out) signed_in_database\<rparr>\<rparr>"
  have clock: "ce_clock ?ce = 0" "ce_environ ?ce = password_env" "ce_sha ?ce = id" by (simp_all add: sample_env_def)
  have "overlap_step ?s0 ?s1"
    using overlap_step.arrive[of ?s0 ?ce 0 ?read "app_limiter ?st"] by (simp add: clock inert overlap_start_def)
  moreover have "overlap_step ?s1 ?s2"
    using overlap_step.authorise[of ?s1 0 ?read ?ce ?p] principal by (simp add: overlap_start_def cookied_call_def)
  moreover have "overlap_step ?s2 ?s3"
    using overlap_step.arrive[of ?s2 ?ce 1 ?out "app_limiter ?st"] by (simp add: clock inert overlap_start_def)
  moreover have "overlap_step ?s3 ?s4"
    using overlap_step.handle_open[of ?s3 1 ?out ?ce LoggedOut "ov_app ?s4"]
    by (simp add: clock overlap_start_def cookied_call_def start_db)
  ultimately have "overlap_step\<^sup>*\<^sup>* ?s0 ?s4" by (meson converse_rtranclp_into_rtranclp rtranclp.rtrancl_refl)
  then have "overlapping password_env [] [] signed_in_database ?s4"
    using db_inv_signed_in by (auto simp: overlapping_def)
  moreover have "sessions (app_db (ov_app ?s4)) = []"
    by (simp add: logout_def delete_session_def auth_request_of_def session_cookie_token_def cookied_call_def
        signed_in_database_def opened_session_def sql_delete_def)
  ultimately show thesis by (intro that[of ?s4 ?p]) (simp_all add: user_principal_def)
qed

text \<open>C25: No handler without credentials, however requests overlap. When a mode or an API key is
  configured at start-up and no plugin extends the application, a task of a secured route that is allowed to run its
  handler was authenticated while it was in flight: some earlier step of the run took it from waiting for its
  authentication to having its principal, because the resolver answered that very principal there, and there the request
  presented the API key configured in the environment of that moment, or the cookie of a session that was
  stored and had not expired.
  (The session may be gone when the handler runs: a logout does not stop a request that is past its
  authentication.)\<close>

theorem handlers_run_authenticated:
  assumes "overlapping env [] extensions stored s" and "ov_tasks s n = Some (rq, Authorised p)"
    and "modes default_auth_settings env \<noteq> {} \<or> is_authentication_enabled env"
  shows "secured (hr_call rq) \<and>
    (\<exists>t ce. overlapping env [] extensions stored t \<and> ov_tasks t n = Some (rq, Admitted) \<and>
       overlap_step t (authorised n rq p t) \<and> overlap_step\<^sup>*\<^sup>* (authorised n rq p t) s \<and>
       require_principal (Some (app_resolver (ov_app t))) (auth_env_of ce (ov_app t)) (auth_request_of rq) = Inr p \<and>
       (presents_api_key (ce_environ ce) (auth_request_of rq) \<or>
          (\<exists>u. presents_session (auth_env_of ce (ov_app t)) (auth_request_of rq) u)))"
proof (rule overlapping_run[OF assms(1)])
  assume "overlap_inv s"
  with authorised_presented[OF assms] assms(2) show ?thesis by (auto simp: overlap_inv_def)
qed

theorem handlers_run_authenticated_witness:
  "\<exists>s p t. overlapping password_env [] [] signed_in_database s \<and> sessions (app_db (ov_app s)) = [] \<and>
     ov_tasks s 0 = Some (cookied_call ListProducts, Authorised p) \<and>
     overlap_step\<^sup>*\<^sup>* (authorised 0 (cookied_call ListProducts) p t) s \<and> ov_tasks t 0 = Some (cookied_call ListProducts, Admitted)"
proof (rule revoked_in_flight)
  fix s p
  assume s: "overlapping password_env [] [] signed_in_database s"
    "ov_tasks s 0 = Some (cookied_call ListProducts, Authorised p)" "sessions (app_db (ov_app s)) = []"
  have "modes default_auth_settings password_env \<noteq> {}"
    using password_env_settings(1) by (auto simp: password_enabled_def)
  with handlers_run_authenticated[OF s(1,2)] s show ?thesis by blast
qed

end
