(* ===== verification/Degraded.thy ===== *)
theory Degraded
  imports Interruption Overlap
begin

text \<open>
  What outages can do to the promise. A service whose requests may break off between two statements,
  and whose process may crash and restart, no longer follows \<open>Contract\<close>, but a weaker contract with
  exactly two more moves: a rollback may get no further than retiring its target, and a cut may
  freeze only some of the active versions. Everything else that is torn is again a move of the
  contract: a broken publication is a withdrawal, and broken sign-ups and verifications are
  no moves at all.
\<close>

section \<open>The degraded contract\<close>

inductive degraded_move :: "contract \<Rightarrow> contract \<Rightarrow> bool" where
  lawful: "contract_step k e k' \<Longrightarrow> degraded_move k k'"
| retired_only:
    "(t, c, core) \<in> k_versions k \<Longrightarrow>
     degraded_move k (k\<lparr>k_active := (\<lambda>d. if k_active k d = Some t then None else k_active k d),
       k_retired := insert t (k_retired k)\<rparr>)"
| torn_cut:
    "i \<notin> fst ` k_releases k \<Longrightarrow> pid \<in> fst ` k_products k \<Longrightarrow> \<not> spent k pid key \<Longrightarrow> pins \<subset> active_pins k pid \<Longrightarrow>
     degraded_move k
       (k\<lparr>k_releases := insert (i, pid, version) (k_releases k), k_pins := k_pins k \<union> {i} \<times> pins,
          k_keys := k_keys k \<union> (case key of None \<Rightarrow> {} | Some x \<Rightarrow> {(pid, x, i)})\<rparr>)"

text \<open>
  It keeps all of \<open>contract_ok\<close> but the promise that every release pins something, and it takes nothing
  back either; the pins of an existing release never change.
\<close>

lemma degraded_move_keeps:
  assumes "degraded_move k k'" and ok: "contract_sound k"
  shows "contract_sound k' \<and> contract_grows k k'"
  using assms(1)
proof cases
  case (lawful e)
  with contract_step_sound ok contract_step_grows show ?thesis by blast
next
  case (retired_only t c core)
  note d = contract_soundD[OF ok]
  have "contract_sound k'"
    unfolding retired_only(1)
    by (rule contract_soundI; (simp add: d(5) del: split_paired_Ex split: if_splits)?; metis d(1-4,6,7) retired_only(2))
  then show ?thesis by (auto simp: retired_only(1) contract_grows_def)
next
  case (torn_cut i pid key pins version)
  note d = contract_soundD[OF ok]
  have pins: "\<exists>core. (v, c, core) \<in> k_versions k" if "(c, v) \<in> pins" for c v
    using d(2) that torn_cut(5) by (auto simp: active_pins_def)
  have "contract_sound k'"
    unfolding torn_cut(1)
    by (rule contract_soundI; (simp add: d(5) del: split_paired_Ex)?; metis d(1-4,6,7) pins)
  then show ?thesis using torn_cut(2) by (auto simp: torn_cut(1) contract_grows_def image_iff)
qed

lemma contract_grows_refl: "contract_grows k k"
  by (rule obligations.grows_refl)

lemma contract_grows_trans: "contract_grows a b \<Longrightarrow> contract_grows b c \<Longrightarrow> contract_grows a c"
  by (rule obligations.grows_trans)

interpretation degraded: growing_system degraded_move contract_sound contract_grows
  by unfold_locales (use degraded_move_keeps contract_grows_trans in \<open>auto simp: contract_grows_refl\<close>)

section \<open>What the torn writes mean\<close>

lemma active_after_retiring:
  "filter (active_of c) (sql_update (\<lambda>v. v_id v = i) (set_status ROLLED_BACK) vs) =
     filter (\<lambda>v. active_of c v \<and> v_id v \<noteq> i) vs"
  by (induction vs) (auto simp: sql_update_def active_of_def)

lemma contract_of_retired:
  assumes one: "one_active (versions db)" and t: "t \<in> set (versions db)"
  shows "contract_of (mark_status ROLLED_BACK (v_id t) db) =
    contract_of db\<lparr>k_active := (\<lambda>d. if k_active (contract_of db) d = Some (v_id t) then None else k_active (contract_of db) d),
      k_retired := insert (v_id t) (k_retired (contract_of db))\<rparr>"
proof -
  let ?vs = "sql_update (\<lambda>v. v_id v = v_id t) (set_status ROLLED_BACK) (versions db)"
  have act: "(\<lambda>c. map_option v_id (fetchone (filter (active_of c) ?vs))) =
      (\<lambda>c. if k_active (contract_of db) c = Some (v_id t) then None else k_active (contract_of db) c)"
  proof
    fix c
    have "length (filter (active_of c) (versions db)) \<le> 1" using one by (simp add: one_active_def)
    then consider "filter (active_of c) (versions db) = []" | v where "filter (active_of c) (versions db) = [v]"
      by (cases "filter (active_of c) (versions db)"; cases "tl (filter (active_of c) (versions db))") auto
    then show "map_option v_id (fetchone (filter (active_of c) ?vs)) =
        (if k_active (contract_of db) c = Some (v_id t) then None else k_active (contract_of db) c)"
      unfolding active_after_retiring filter_filter[symmetric] contract_of_sel by cases (simp_all add: fetchone_def)
  qed
  have vers: "(\<lambda>v. (v_id v, v_component_id v, core_of v)) ` set ?vs =
      (\<lambda>v. (v_id v, v_component_id v, core_of v)) ` set (versions db)"
    by (rule image_sql_update) (simp add: core_of_def)
  have ret: "v_id ` {v \<in> set ?vs. v_status v = ROLLED_BACK} =
      insert (v_id t) (v_id ` {v \<in> set (versions db). v_status v = ROLLED_BACK})"
  proof -
    have "v_id ` {v \<in> set ?vs. v_status v = ROLLED_BACK} =
        v_id ` {v \<in> set (versions db). v_id v = v_id t \<or> v_status v = ROLLED_BACK}"
    proof -
      have "{v \<in> set ?vs. v_status v = ROLLED_BACK} = (\<lambda>v. if v_id v = v_id t then set_status ROLLED_BACK v else v) `
          {v \<in> set (versions db). v_id v = v_id t \<or> v_status v = ROLLED_BACK}"
        by (auto simp: sql_update_def)
      then show ?thesis by (simp only: image_image) (rule image_cong, simp_all)
    qed
    then show ?thesis using t by auto
  qed
  show ?thesis unfolding mark_status_def by (simp add: contract_of_def act[unfolded contract_of_sel] vers ret cong: if_cong)
qed

lemma active_pins_strict:
  assumes inv: "db_inv db" and "n < length (select_active_components pid db)"
  shows "(\<lambda>r. (ar_component_id r, ar_version_id r)) ` set (take n (select_active_components pid db))
    \<subset> active_pins (contract_of db) pid"
proof -
  let ?rs = "select_active_components pid db" and ?f = "\<lambda>r. (ar_component_id r, ar_version_id r)"
  have dist: "distinct (map ?f ?rs)"
    using distinct_active_ids[of db pid] db_inv_parts(1,3)[OF inv]
    by (auto simp: active_ids_def schema_ok_def distinct_map inj_on_def)
  have "?f (?rs ! n) \<notin> ?f ` set (take n ?rs)"
  proof
    assume "?f (?rs ! n) \<in> ?f ` set (take n ?rs)"
    then obtain m where "m < n" "map ?f ?rs ! m = map ?f ?rs ! n"
      using assms(2) by (auto simp: in_set_conv_nth)
    with nth_eq_iff_index_eq[OF dist, of m n] assms(2) show False by simp
  qed
  moreover have "?f (?rs ! n) \<in> ?f ` set ?rs" using assms(2) by simp
  ultimately show ?thesis
    unfolding active_pins_of[OF db_inv_parts(3)[OF inv]] using set_take_subset[of n ?rs] by blast
qed

lemma create_version_any_bus:
  "fst (snd (create_version_query i now data db bus)) = fst (snd (create_version_query i now data db bus'))"
  by (simp add: create_version_query_def Let_def split: list.split option.split sum.split)

lemma rollback_any_bus:
  "fst (snd (rollback_version_query i db bus)) = fst (snd (rollback_version_query i db bus'))"
  by (simp add: rollback_version_query_def Let_def split: list.split option.split sum.split)

lemma moves_lawful: "contract_step k e k' \<Longrightarrow> degraded_move\<^sup>*\<^sup>* k k'"
  by (rule r_into_rtranclp) (rule degraded_move.lawful)

lemma torn_rollback:
  assumes inv: "db_inv db" and t: "t \<in> set (versions db)"
  shows "degraded_move (contract_of db) (contract_of (mark_status ROLLED_BACK (v_id t) db))"
    and "v_component_id t \<in> c_id ` set (components db) \<Longrightarrow>
      degraded_move\<^sup>*\<^sup>* (contract_of db) (contract_of (supersede_active (v_component_id t) (mark_status ROLLED_BACK (v_id t) db)))"
proof -
  let ?d1 = "mark_status ROLLED_BACK (v_id t) db"
  have "(v_id t, v_component_id t, core_of t) \<in> k_versions (contract_of db)" using t by simp
  from degraded_move.retired_only[OF this]
  show first: "degraded_move (contract_of db) (contract_of ?d1)"
    by (simp add: contract_of_retired[OF db_inv_parts(3)[OF inv] t] del: contract_of_sel)
  assume "v_component_id t \<in> c_id ` set (components db)"
  then have "v_component_id t \<in> fst ` k_components (contract_of ?d1)" by (simp add: image_image mark_status_def)
  from contract_step.withdrawn[OF this]
  have "degraded_move (contract_of ?d1) (contract_of (supersede_active (v_component_id t) ?d1))"
    unfolding contract_of_superseded by (rule degraded_move.lawful)
  with first show "degraded_move\<^sup>*\<^sup>* (contract_of db) (contract_of (supersede_active (v_component_id t) ?d1))"
    by (meson converse_rtranclp_into_rtranclp r_into_rtranclp)
qed

lemma torn_cut_moves:
  assumes run: "cut_release_query i now data db = (Inr result, full)" and created: "crr_created result"
    and full: "full = after_cut row change (select_active_components (cut_product_id data) db) db"
    and inv: "db_inv db" and n: "n < length (select_active_components (cut_product_id data) db)"
  shows "degraded_move (contract_of db)
    (contract_of (after_cut row change (take n (select_active_components (cut_product_id data) db)) db))"
proof -
  note c = cut_in_flight[OF run created full inv]
  have free: "i \<notin> fst ` k_releases (contract_of db)" "cut_product_id data \<in> fst ` k_products (contract_of db)"
    using c(2,4) by (simp_all add: image_image)
  have unspent: "\<not> spent (contract_of db) (cut_product_id data) (cut_idempotency_key data)"
    using c(6,7) by (auto simp: spent_def)
  note move = degraded_move.torn_cut[OF free unspent active_pins_strict[OF inv n]]
  show ?thesis unfolding contract_of_after_cut c(1,3,6) by (rule move)
qed

lemma torn_degrades:
  assumes "torn db db'" and inv: "db_inv db"
  shows "degraded_move\<^sup>*\<^sup>* (contract_of db) (contract_of db')"
  using assms(1)
proof cases
  case (torn ws full n)
  note complete = in_flight_complete[OF torn(1) inv]
  have idle: "degraded_move\<^sup>*\<^sup>* (contract_of db) (contract_of db)" by simp
  have auth: "degraded_move\<^sup>*\<^sup>* (contract_of db) (contract_of d)" if "auth_only db d" for d
    by (simp add: contract_of_auth_only[OF that] del: contract_of_sel)
  from torn(1) show ?thesis
  proof cases
    case (publishing i now data bus v bus' a b c)
    let ?cid = "cv_component_id data"
    have "?cid \<in> c_id ` set (components db)"
      using publishing(2) select_component_None[of ?cid db]
      by (auto simp: create_version_query_def fetchone_def split: list.splits)
    then have "?cid \<in> fst ` k_components (contract_of db)" by (simp add: image_image)
    from moves_lawful[OF contract_step.withdrawn[OF this]]
    have half: "degraded_move\<^sup>*\<^sup>* (contract_of db) (contract_of (supersede_active ?cid db))"
      by (simp only: contract_of_superseded)
    obtain r b where any: "create_version_query i now data db (Some new_event_bus) = (r, full, b)"
      using create_version_any_bus[of i now data db "Some new_event_bus" bus] publishing(2)
      by (cases "create_version_query i now data db (Some new_event_bus)") auto
    have "degraded_move\<^sup>*\<^sup>* (contract_of db) (contract_of full)"
      using means_create_version[OF any publishing(3)] moves_lawful by (auto simp del: contract_of_sel)
    with half show ?thesis
      by (rule_tac two_writes[OF torn(2)[unfolded publishing(1) publish_writes_def]
            complete[unfolded publishing(1) publish_writes_def]])
         (use idle in \<open>simp_all add: created_row_def del: contract_of_sel\<close>)
  next
    case (rolling i bus v bus' t p)
    have t: "t \<in> set (versions db)" using rolling(3) by (auto simp: select_versions_by_id_def filter_eq_Cons_iff)
    then have comp: "v_component_id t \<in> c_id ` set (components db)"
      using db_inv_parts(1)[OF inv] by (auto simp: schema_ok_def fk_def)
    note half = r_into_rtranclp[of degraded_move, OF torn_rollback(1)[OF inv t]] torn_rollback(2)[OF inv t comp]
    obtain r b where any: "rollback_version_query i db (Some new_event_bus) = (r, full, b)"
      using rollback_any_bus[of i db "Some new_event_bus" bus] rolling(2)
      by (cases "rollback_version_query i db (Some new_event_bus)") auto
    have "degraded_move\<^sup>*\<^sup>* (contract_of db) (contract_of full)"
      using means_rollback[OF any inv] moves_lawful by (auto simp del: contract_of_sel)
    with half show ?thesis
      by (rule_tac three_writes[OF torn(2)[unfolded rolling(1) rollback_writes_def]
            complete[unfolded rolling(1) rollback_writes_def]])
         (use idle in \<open>simp_all del: contract_of_sel\<close>)
  next
    case (cutting i now data result row change)
    let ?rs = "select_active_components (cut_product_id data) db"
    show ?thesis
    proof (cases n)
      case 0
      with torn(2) show ?thesis by simp
    next
      case (Suc k)
      note db' = cut_begun[OF cutting(2,3,4) inv torn(2)[unfolded cutting(1) Suc]]
      show ?thesis
      proof (cases "k < length ?rs")
        case True
        from torn_cut_moves[OF cutting(2,3,4) inv True] show ?thesis unfolding db' by (rule r_into_rtranclp)
      next
        case False
        then have "db' = full" by (simp add: db' cutting(4))
        moreover obtain r b where "cut_release i now data db new_event_bus = (r, full, b)"
          using cutting(2) by (auto simp: cut_release_def split: if_splits)
        from means_cut[OF this inv] have "degraded_move\<^sup>*\<^sup>* (contract_of db) (contract_of full)"
          using moves_lawful by (auto simp del: contract_of_sel)
        ultimately show ?thesis by simp
      qed
    qed
  next
    case (registering sha env s pin fresh model mailer mailer' ttl)
    show ?thesis
      by (rule two_writes[OF torn(2)[unfolded registering(1) signup_writes_def]
            complete[unfolded registering(1) signup_writes_def]])
         (use auth auth_only_inserts(1) signup_auth_only[OF registering(2) db_inv_parts(1)[OF inv]] in auto)
  next
    case (verifying sha now token u row)
    show ?thesis
      by (rule two_writes[OF torn(2)[unfolded verifying(1) verify_writes_def]
            complete[unfolded verifying(1) verify_writes_def]])
         (use auth verify_auth_only[OF verifying(2) db_inv_parts(1)[OF inv]] in \<open>auto simp: activate_user_def\<close>)
  qed
qed

section \<open>Runs with outages\<close>

text \<open>
  Requests overlap as in \<open>Overlap\<close>; in addition the handler of a task may break off and be answered by the
  server's 500 while the process lives on, the process may die with a handler half-way or
  between handlers, and after that the lifespan starts anew over the store that is left (schema initialisation and
  migration have nothing to do there), with any environment, plugins and clock.
\<close>

inductive faulty_step :: "overlap \<Rightarrow> overlap \<Rightarrow> bool" where
  proper: "overlap_step s s' \<Longrightarrow> faulty_step s s'"
| breaks_off:
    "ov_tasks s n \<noteq> None \<Longrightarrow> torn (app_db (ov_app s)) db \<Longrightarrow>
     faulty_step s (s\<lparr>ov_app := (ov_app s)\<lparr>app_db := db\<rparr>, ov_tasks := (ov_tasks s)(n := None)\<rparr>)"
| crashes:
    "ov_tasks s n \<noteq> None \<Longrightarrow> torn (app_db (ov_app s)) db \<Longrightarrow>
     faulty_step s (overlap_start clock (lifespan_start env plugins extensions db))"
| restarts:
    "faulty_step s (overlap_start clock (lifespan_start env plugins extensions (app_db (ov_app s))))"

definition store_grows :: "overlap \<Rightarrow> overlap \<Rightarrow> bool" where
  "store_grows s s' \<longleftrightarrow> extends (app_db (ov_app s)) (app_db (ov_app s'))"

lemma store_of_start [simp]: "app_db (ov_app (overlap_start clock (lifespan_start env plugins extensions db))) = db"
  by (simp add: overlap_start_def start_db)

lemma faulty_step_keeps:
  assumes "faulty_step s s'" and inv: "overlap_inv s"
  shows "overlap_inv s' \<and> store_grows s s'"
proof -
  have db: "db_inv (app_db (ov_app s))" using inv by (simp add: overlap_inv_def app_inv_def)
  show ?thesis
    using assms(1)
  proof cases
    case proper
    with overlap_step_keeps inv show ?thesis by (auto simp: store_grows_def overlap_grows_def)
  next
    case (breaks_off n db')
    with torn_valid[OF breaks_off(3) db] inv show ?thesis by (auto simp: overlap_inv_def app_inv_def store_grows_def)
  next
    case (crashes n db' clock env plugins extensions)
    with torn_valid[OF crashes(3) db] overlap_start_inv show ?thesis by (simp add: store_grows_def)
  next
    case (restarts clock env plugins extensions)
    with overlap_start_inv db show ?thesis by (simp add: store_grows_def extends_refl)
  qed
qed

interpretation outage: growing_system faulty_step overlap_inv store_grows
  by unfold_locales
     (use faulty_step_keeps in \<open>auto simp: store_grows_def intro: extends_refl extends_trans\<close>)

lemma faulty_step_degrades:
  assumes inv: "overlap_inv s" and "faulty_step s s'"
  shows "contract_of (app_db (ov_app s')) = contract_of (app_db (ov_app s)) \<or>
    degraded_move\<^sup>*\<^sup>* (contract_of (app_db (ov_app s))) (contract_of (app_db (ov_app s')))"
proof -
  have db: "db_inv (app_db (ov_app s))" using inv by (simp add: overlap_inv_def app_inv_def)
  show ?thesis
    using assms(2)
  proof cases
    case proper
    from overlap_simulates[OF inv this] moves_lawful show ?thesis unfolding contract_moves_def by blast
  next
    case (breaks_off n db')
    with torn_degrades[OF breaks_off(3) db] show ?thesis by (simp del: contract_of_sel)
  next
    case (crashes n db' clock env plugins extensions)
    with torn_degrades[OF crashes(3) db] show ?thesis by (simp del: contract_of_sel)
  next
    case restarts
    then show ?thesis by simp
  qed
qed

interpretation degraded_service:
  simulation faulty_step overlap_inv "\<lambda>s. contract_of (app_db (ov_app s))" "degraded_move\<^sup>*\<^sup>*"
  by unfold_locales (rule faulty_step_degrades)

lemma overlapping_inv: "overlapping env plugins extensions stored s \<Longrightarrow> overlap_inv s"
  by (erule overlapping_run)

lemma sample_crash:
  obtains half where "torn released_database half" "half \<noteq> released_database"
    "half = mark_status ROLLED_BACK ''a2'' released_database"
proof -
  let ?half = "mark_status ROLLED_BACK ''a2'' released_database"
  obtain full where flight: "in_flight released_database (rollback_writes sample_target sample_prior) full"
    "issue_writes (take 1 (rollback_writes sample_target sample_prior)) released_database = Inr ?half"
    by (rule sample_rollback[OF db_inv_released]) (simp_all add: released_database_def)
  have "versions ?half \<noteq> versions released_database"
    by (simp add: mark_status_def released_database_def sample_defs sql_update_def set_status_def)
  then have "?half \<noteq> released_database" by metis
  with torn.torn[OF flight] show thesis by (intro that[of ?half]) simp_all
qed

text \<open>A request in flight over the sample, and the crash that leaves the store half rolled back.\<close>

lemma sample_outage:
  assumes "torn released_database half"
  obtains s where "overlapping no_env [] [] released_database s" "app_db (ov_app s) = released_database"
    "faulty_step s (overlap_start 0 (lifespan_start no_env [] [] half))"
proof -
  let ?st = "lifespan_start no_env [] [] released_database" and ?rq = "bare_request (RollbackVersion ''a2'')"
  let ?s = "\<lparr>ov_clock = 0, ov_app = ?st, ov_tasks = [0 \<mapsto> (?rq, Admitted)]\<rparr>"
  have "\<not> under_auth (scope_of ?rq)" by (simp add: under_auth_def scope_of_def bare_request_def call_path_def)
  then have "rate_limit_middleware app_rate_settings (ce_environ (sample_env no_env ''i'')) 0 (scope_of ?rq) (app_limiter ?st) =
      Some (Forwarded, app_limiter ?st)"
    by (simp add: middleware_inert)
  with overlap_step.arrive[of "overlap_start 0 ?st" "sample_env no_env ''i''" 0 ?rq "app_limiter ?st"]
  have "overlap_step (overlap_start 0 ?st) ?s" by (simp add: overlap_start_def sample_env_def)
  then have "overlapping no_env [] [] released_database ?s" using db_inv_released by (auto simp: overlapping_def)
  moreover have "faulty_step ?s (overlap_start 0 (lifespan_start no_env [] [] half))"
    by (rule faulty_step.crashes[of _ 0]) (simp_all add: start_db assms)
  ultimately show thesis by (intro that[of ?s]) (simp_all add: start_db)
qed

section \<open>Properties\<close>

text \<open>C7: Releases survive outages. Let requests overlap, break off between any two write statements of
  any query, and let the process crash there and restart with any environment and plugins, as often as it
  likes: the store keeps the invariant of a valid one, no release disappears, and reading a release
  answers 200 with the body it had before.\<close>

theorem releases_survive_outages:
  assumes "overlapping env plugins extensions stored s" and "faulty_step\<^sup>*\<^sup>* s s'"
    and "r \<in> set (releases (app_db (ov_app s)))"
  shows "db_inv (app_db (ov_app s')) \<and> r \<in> set (releases (app_db (ov_app s'))) \<and>
    get_release (r_id r) (ov_app s') =
      (json_response 200 (release_json (release_view r (app_db (ov_app s)))), ov_app s')"
proof -
  note inv = overlapping_inv[OF assms(1)]
  have "extends (app_db (ov_app s)) (app_db (ov_app s'))"
    using outage.run_grows[OF assms(2) inv] by (simp add: store_grows_def)
  moreover have "db_inv (app_db (ov_app s))" "db_inv (app_db (ov_app s'))"
    using inv outage.invariant[OF assms(2) inv] by (auto simp: overlap_inv_def app_inv_def)
  ultimately show ?thesis using release_kept[OF _ _ _ assms(3)] by metis
qed

theorem releases_survive_outages_witness:
  "\<exists>half. torn released_database half \<and> half \<noteq> released_database \<and>
     fst (get_release ''r1'' (lifespan_start no_env [] [] half)) =
       json_response 200 (release_json (release_view (hd (releases released_database)) released_database))"
proof (rule sample_crash)
  fix half assume half: "torn released_database half" "half \<noteq> released_database"
  obtain s where s: "overlapping no_env [] [] released_database s" "app_db (ov_app s) = released_database"
    "faulty_step s (overlap_start 0 (lifespan_start no_env [] [] half))"
    by (rule sample_outage[OF half(1)])
  have r: "hd (releases released_database) \<in> set (releases (app_db (ov_app s)))"
    "r_id (hd (releases released_database)) = ''r1''"
    by (simp_all add: s(2) released_database_def)
  from releases_survive_outages[OF s(1) r_into_rtranclp[of faulty_step, OF s(3)] r(1)] half r(2) s(2) show ?thesis
    by (auto simp: overlap_start_def)
qed

text \<open>C8: What outages can do. However often requests break off between two statements and the process
  crashes and restarts, the application only makes moves of the contract and two more: retiring
  a version without reactivating its predecessor, and freezing only some of the active versions in a release.
  So in every such state the dependency graphs are acyclic, an active version is never a retired one, every pin
  names a release and a version of its component; and nothing published, retired or
  released is taken back, and no release that existed before gains or loses a pin.\<close>

theorem outages_refine_degraded_contract:
  assumes "overlapping env plugins extensions stored s" and "faulty_step\<^sup>*\<^sup>* s s'"
  shows "degraded_move\<^sup>*\<^sup>* (contract_of (app_db (ov_app s))) (contract_of (app_db (ov_app s'))) \<and>
    contract_sound (contract_of (app_db (ov_app s'))) \<and>
    contract_grows (contract_of (app_db (ov_app s))) (contract_of (app_db (ov_app s')))"
proof -
  note inv = overlapping_inv[OF assms(1)]
  then have sound: "contract_sound (contract_of (app_db (ov_app s)))"
    by (simp add: overlap_inv_def app_inv_def contract_sound_of del: contract_of_sel)
  have moves: "degraded_move\<^sup>*\<^sup>* (contract_of (app_db (ov_app s))) (contract_of (app_db (ov_app s')))"
    using degraded_service.run_simulates[OF assms(2) inv] by (simp only: rtranclp_idemp)
  with degraded.invariant[OF moves sound] degraded.run_grows[OF moves sound] show ?thesis by blast
qed

theorem outages_refine_degraded_contract_witness:
  "\<exists>half. torn released_database half \<and>
     degraded_move\<^sup>*\<^sup>* (contract_of released_database) (contract_of half) \<and>
     ''a2'' \<in> k_retired (contract_of half) \<and> k_active (contract_of half) ''a'' = None"
proof (rule sample_crash)
  fix half assume half: "torn released_database half" "half = mark_status ROLLED_BACK ''a2'' released_database"
  obtain s where s: "overlapping no_env [] [] released_database s" "app_db (ov_app s) = released_database"
    "faulty_step s (overlap_start 0 (lifespan_start no_env [] [] half))"
    by (rule sample_outage[OF half(1)])
  from outages_refine_degraded_contract[OF s(1) r_into_rtranclp[of faulty_step, OF s(3)]] s(2)
  have "degraded_move\<^sup>*\<^sup>* (contract_of released_database) (contract_of half)" by (simp del: contract_of_sel)
  moreover have "k_active (contract_of half) ''a'' = None"
    by (simp add: half(2) mark_status_def released_database_def sample_defs sql_update_def set_status_def active_of_def
        fetchone_def)
  moreover have "\<exists>v\<in>set (versions half). v_id v = ''a2'' \<and> v_status v = ROLLED_BACK"
    by (simp add: half(2) mark_status_def released_database_def sample_defs sql_update_def set_status_def)
  then have "''a2'' \<in> k_retired (contract_of half)" by force
  ultimately show ?thesis using half(1) by blast
qed

end
