(* ===== verification/Ledger.thy ===== *)
theory Ledger
  imports Interruption
begin

text \<open>
  The ledger of a product. As long as the database clock does not run backwards past a stored release
  (identifiers deciding within one tick), the versions of a product's releases never go down, and
  two of them are equal only when nothing changed in between.
\<close>

section \<open>The order of the ledger\<close>

text \<open>What \<open>_SELECT_LATEST_RELEASE\<close> sorts by, and the three numbers of a release.\<close>

definition release_key :: "release_row \<Rightarrow> timestamp \<times> ident" where
  "release_key r = (r_created_at r, r_id r)"

definition release_core :: "release_row \<Rightarrow> int \<times> int \<times> int" where
  "release_core r = (case parse_core (r_product_version r) of Inr core \<Rightarrow> core | Inl e \<Rightarrow> (0, 0, 0))"

definition raised :: "release_row \<Rightarrow> bool" where
  "raised r \<longleftrightarrow> r_bump_level r \<noteq> None \<and> r_bump_level r \<noteq> Some (bump_level_value BL_NONE)"

definition ledger_ordered :: "release_row list \<Rightarrow> bool" where
  "ledger_ordered rs \<longleftrightarrow>
     (\<forall>r\<in>set rs. \<forall>r'\<in>set rs. r_product_id r = r_product_id r' \<and> release_key r < release_key r' \<longrightarrow>
        release_core r \<le> release_core r' \<and> (raised r' \<longrightarrow> release_core r < release_core r'))"

lemma ledgerD:
  "ledger_ordered rs \<Longrightarrow> r \<in> set rs \<Longrightarrow> r' \<in> set rs \<Longrightarrow> r_product_id r = r_product_id r' \<Longrightarrow>
     release_key r < release_key r' \<Longrightarrow>
     release_core r \<le> release_core r' \<and> (raised r' \<longrightarrow> release_core r < release_core r')"
  unfolding ledger_ordered_def by blast

lemma ledger_snoc:
  assumes "ledger_ordered rs" "\<forall>r\<in>set rs. release_key r < release_key row"
    and "\<forall>r\<in>set rs. r_product_id r = r_product_id row \<longrightarrow>
      release_core r \<le> release_core row \<and> (raised row \<longrightarrow> release_core r < release_core row)"
  shows "ledger_ordered (rs @ [row])"
  using assms unfolding ledger_ordered_def by (auto dest: less_asym)

section \<open>A cut extends the ledger upwards\<close>

lemma apply_bump_raises:
  assumes "apply_bump v l = Inr w" "parse_core v = Inr old"
  obtains new where "parse_core w = Inr new" "old \<le> new" "l \<noteq> BL_NONE \<Longrightarrow> old < new"
proof -
  obtain a b c where t: "old = (a, b, c)" by (cases old) auto
  note p = assms(2)[unfolded t]
  have "\<exists>new. parse_core w = Inr new \<and> old \<le> new \<and> (l \<noteq> BL_NONE \<longrightarrow> old < new)"
    using p parse_core_InrD(1-3)[OF p] assms(1) parse_fmt_core(1)[of "a + 1" 0 0] parse_fmt_core(1)[of a "b + 1" 0]
      parse_fmt_core(1)[of a b "c + 1"]
    by (cases l) (auto simp: apply_bump_parse[OF p] t)
  with that show thesis by blast
qed

lemma release_core_parse: "parse_core (r_product_version r) = Inr core \<Longrightarrow> release_core r = core"
  by (simp add: release_core_def)

lemma latest_is_highest:
  assumes latest: "select_latest_release pid db = l # rest" and ok: "ledger_ordered (releases db)" "pk r_id (releases db)"
    and r: "r \<in> set (releases db)" "r_product_id r = pid"
  shows "release_core r \<le> release_core l"
proof -
  note l = latest_in[OF latest]
  have le: "release_key r \<le> release_key l"
    using take_order_by_desc_Cons(2)[OF latest[unfolded select_latest_release_def]] r by (simp add: release_key_def)
  show ?thesis
  proof (cases "release_key r = release_key l")
    case True
    then have "r = l" using pkD[OF ok(2) r(1)] l by (simp add: release_key_def)
    then show ?thesis by simp
  next
    case False
    with le l r ok(1) show ?thesis by (force simp: ledger_ordered_def)
  qed
qed

lemma cut_keeps_ledger:
  assumes run: "cut_release_query i now data db = (res, db')" and inv: "db_inv db"
    and ok: "ledger_ordered (releases db)" and timely: "\<forall>r\<in>set (releases db). release_key r < (now, i)"
  shows "ledger_ordered (releases db')"
proof -
  note p = db_inv_parts[OF inv]
  let ?pid = "cut_product_id data"
  from run p(1,3,7) show ?thesis
  proof (cases rule: cut_release_query_cases)
    case (fresh q)
    have pp: "parses (p_base_version q)" "?pid \<in> p_id ` set (products db)"
      using fresh(1,2) p(7) imageI[OF fresh(1), of p_id] by (auto simp: all_parse_def)
    from fresh(4) p(1,3,7) pp show ?thesis
    proof (cases rule: fresh_cut_cases)
      case (cut bump rationale change version)
      let ?row = "cut_row i now data version bump rationale"
      let ?old = "current_version (select_latest_release ?pid db) (p_base_version q)"
      obtain old where old: "parse_core ?old = Inr old"
        using current_parses[OF p(7) pp(1), of ?pid] by (auto simp: parses_def)
      obtain new where new: "parse_core version = Inr new" "old \<le> new" "bump \<noteq> BL_NONE \<Longrightarrow> old < new"
        using apply_bump_raises[OF cut(3) old] by blast
      have "release_core r \<le> release_core ?row \<and> (raised ?row \<longrightarrow> release_core r < release_core ?row)"
        if r: "r \<in> set (releases db)" "r_product_id r = ?pid" for r
      proof -
        have "select_latest_release ?pid db \<noteq> []" using r by (auto simp: select_latest_release_def filter_empty_conv)
        then obtain l rest where l: "select_latest_release ?pid db = l # rest" by (cases "select_latest_release ?pid db") auto
        then have "release_core l = old" using old by (simp add: current_version_def release_core_parse)
        with latest_is_highest[OF l ok _ r] p(1) have "release_core r \<le> old" by (simp add: schema_ok_def)
        moreover have "release_core ?row = new" using new(1) by (simp add: release_core_parse)
        moreover have "raised ?row \<Longrightarrow> bump \<noteq> BL_NONE" by (auto simp: raised_def cut_row_def)
        ultimately show ?thesis using new(2,3) by auto
      qed
      then have "ledger_ordered (releases db @ [?row])"
        by (intro ledger_snoc ok) (use timely in \<open>simp_all add: release_key_def cut_row_def\<close>)
      then show ?thesis by (simp add: cut(6) after_cut_def)
    qed (simp_all add: ok)
  qed (simp_all add: ok)
qed

section \<open>Every other request leaves the ledger alone\<close>

lemma prefix_same_keys:
  assumes "prefix xs ys" "distinct (map k ys)" "k ` set ys \<subseteq> k ` set xs"
  shows "ys = xs"
proof -
  obtain zs where ys: "ys = xs @ zs" using assms(1) by (auto simp: prefix_def)
  have "k ` set xs \<inter> k ` set zs = {}" using assms(2) by (simp add: ys)
  moreover have "k ` set zs \<subseteq> k ` set xs" using assms(3) by (simp add: ys image_Un)
  ultimately have "k ` set zs = {}" by (simp add: Int_absorb1)
  with ys show ?thesis by simp
qed

lemma other_keeps_releases:
  assumes "serve ce rq st = (ans, st')" and other: "\<forall>pid l n. hr_call rq \<noteq> CutRelease pid l n"
    and inv: "db_inv (app_db st)" "db_inv (app_db st')" and grows: "extends (app_db st) (app_db st')"
  shows "releases (app_db st') = releases (app_db st)"
proof -
  have "k_releases (contract_of (app_db st')) = k_releases (contract_of (app_db st))"
    using honours_serve[OF inv(1), of ce rq, unfolded assms(1) honours_def Let_def fst_conv snd_conv]
  proof (elim disjE exE conjE)
    fix e assume e: "asks ce rq e" "contract_step (contract_of (app_db st)) e (contract_of (app_db st'))"
    from e(2) show ?thesis
    proof cases
      case (cut i pid key version)
      with e(1) other show ?thesis by (simp del: contract_of_sel)
    qed (simp_all del: contract_of_sel)
  qed (simp only:)
  moreover have "fst ` k_releases (contract_of db) = r_id ` set (releases db)" for db by (simp add: image_image)
  ultimately have "r_id ` set (releases (app_db st')) = r_id ` set (releases (app_db st))" by metis
  moreover have "distinct (map r_id (releases (app_db st')))"
    using db_inv_parts(1)[OF inv(2)] by (simp add: schema_ok_def pk_def)
  ultimately show ?thesis using grows by (intro prefix_same_keys[of _ _ r_id]) (auto simp: extends_def)
qed

lemma cut_serves:
  assumes "serve ce rq st = (ans, st')" and "hr_call rq = CutRelease pid l n"
  obtains "releases (app_db st') = releases (app_db st)"
  | data res where "cut_release_query (ce_id ce) (ce_now ce) data (app_db st) = (res, app_db st')"
proof -
  have "serve ce rq st = dispatch ce rq st"
    by (rule serve_outside_auth) (simp add: assms(2) call_path_def)
  with assms that show thesis
    by (auto simp: dispatch_def cut_product_release_def cut_release_def split: sum.splits if_splits prod.splits)
qed

section \<open>Runs by a clock that does not run backwards\<close>

text \<open>A request arrives later than every stored release, or in the same tick with a larger identifier.\<close>

definition timely :: "call_env \<Rightarrow> app_state \<Rightarrow> bool" where
  "timely ce st \<longleftrightarrow> (\<forall>r\<in>set (releases (app_db st)). release_key r < (ce_now ce, ce_id ce))"

inductive timely_step :: "int \<times> app_state \<Rightarrow> int \<times> app_state \<Rightarrow> bool" where
  request: "clock \<le> ce_clock ce \<Longrightarrow> timely ce st \<Longrightarrow> serve ce rq st = (ans, st') \<Longrightarrow>
    timely_step (clock, st) (ce_clock ce, st')"
| deliver: "timely_step (clock, st) (clock, poll stream st)"
| leave: "timely_step (clock, st) (clock, disconnect stream st)"

lemma timely_is_step: "timely_step s s' \<Longrightarrow> api_step s s'"
  by (cases rule: timely_step.cases) (auto intro: api_step.intros)

definition ledger_inv :: "int \<times> app_state \<Rightarrow> bool" where
  "ledger_inv s \<longleftrightarrow> app_inv s \<and> ledger_ordered (releases (app_db (snd s)))"

lemma timely_keeps:
  assumes inv: "ledger_inv s" and step: "timely_step s s'"
  shows "ledger_inv s'"
proof -
  have s: "app_inv s" "ledger_ordered (releases (app_db (snd s)))" using inv by (simp_all add: ledger_inv_def)
  note k = api_step_keeps[OF timely_is_step[OF step] s(1)]
  have db: "db_inv (app_db (snd s))" "db_inv (app_db (snd s'))" "extends (app_db (snd s)) (app_db (snd s'))"
    using s(1) k by (simp_all add: app_inv_def history_grows_def)
  from step have "ledger_ordered (releases (app_db (snd s')))"
  proof cases
    case (request clock ce st rq ans st')
    show ?thesis
    proof (cases "\<exists>pid l n. hr_call rq = CutRelease pid l n")
      case True
      then obtain pid l n where cut: "hr_call rq = CutRelease pid l n" by blast
      show ?thesis
      proof (rule cut_serves[OF request(5) cut])
        fix data res assume run: "cut_release_query (ce_id ce) (ce_now ce) data (app_db st) = (res, app_db st')"
        from cut_keeps_ledger[OF run] request s(2) db(1) show ?thesis by (simp add: timely_def)
      qed (use request s(2) in simp)
    next
      case False
      with other_keeps_releases[OF request(5)] request db s(2) show ?thesis by simp
    qed
  qed (use s(2) in \<open>simp_all add: poll_def disconnect_def\<close>)
  with k show ?thesis by (simp add: ledger_inv_def)
qed

interpretation ledger: invariant_system timely_step ledger_inv
  by unfold_locales (rule timely_keeps)

section \<open>Properties\<close>

text \<open>A newer release of the same product, next to an older one, as the API answers them.\<close>

definition above :: "release_response \<Rightarrow> release_response \<Rightarrow> bool" where
  "above newer older \<longleftrightarrow>
     (\<exists>old new. parse_core (rr_product_version older) = Inr old \<and> parse_core (rr_product_version newer) = Inr new \<and>
        old \<le> new \<and> (rr_bump_level newer \<notin> {None, Some ''none''} \<longrightarrow> old < new))"

lemma sorted_strictly:
  fixes k :: "'a \<Rightarrow> 'b::linorder"
  shows "sorted_wrt (\<lambda>a b. k b \<le> k a) xs \<Longrightarrow> distinct xs \<Longrightarrow> inj_on k (set xs) \<Longrightarrow> sorted_wrt (\<lambda>a b. k b < k a) xs"
proof (induction xs)
  case (Cons x xs)
  then have "k y < k x" if "y \<in> set xs" for y
    using that by (auto simp: order_less_le inj_on_def)
  with Cons show ?case by simp
qed simp

lemma rows_above:
  assumes ok: "ledger_ordered (releases db)" "all_parse db"
    and rows: "{r, r'} \<subseteq> set (releases db)" "r_product_id r = r_product_id r'" "release_key r < release_key r'"
  shows "above (release_view r' db) (release_view r db)"
proof -
  obtain old new where p: "parse_core (r_product_version r) = Inr old" "parse_core (r_product_version r') = Inr new"
    using ok(2) rows(1) by (force simp: all_parse_def parses_def)
  with ok(1) rows have "old \<le> new \<and> (raised r' \<longrightarrow> old < new)"
    using ledgerD[OF ok(1)] by (metis insert_subset release_core_parse)
  with p show ?thesis by (auto simp: above_def raised_def release_view_def release_to_model_def)
qed

text \<open>C5: Product versions never go down. Start from a valid database whose stored ledger is already in order
  (each product's releases, by time and identifier, have versions that never decrease and increase with
  every recorded bump; a database without releases is), and let requests arrive later than every stored release
  (or in the same tick with a larger identifier). Then, whatever else happens in between, the ledger
  \<open>GET /products/{id}/releases\<close> answers, newest first, carries versions whose numbers never
  increase from one entry to any later one, and strictly decrease below every entry whose bump
  is not \<open>none\<close>: two releases share their numbers only when nothing changed between them.\<close>

theorem product_versions_never_decrease:
  assumes "db_inv stored" and "ledger_ordered (releases stored)"
    and "timely_step\<^sup>*\<^sup>* (clock0, lifespan_start env plugins extensions stored) (clock, st)"
    and "list_releases_by_product_query pid (app_db st) = Inr rels"
  shows "sorted_wrt above rels"
proof -
  let ?db = "app_db st" and ?rows = "select_releases_of_product pid (app_db st)"
  have "ledger_inv (clock, st)"
    using ledger.invariant[OF assms(3)] start_inv[OF assms(1)] assms(2) by (simp add: ledger_inv_def start_db)
  then have inv: "db_inv ?db" "ledger_ordered (releases ?db)" by (simp_all add: ledger_inv_def app_inv_def)
  have "pid \<in> p_id ` set (products ?db)"
    using assms(4) select_product_None[of pid ?db] by (auto simp: list_releases_by_product_query_def split: if_splits)
  with assms(4) have rels: "rels = map (\<lambda>r. release_view r ?db) ?rows" by (simp add: list_releases_views)
  have rows: "set ?rows = {r \<in> set (releases ?db). r_product_id r = pid}" by (simp add: select_releases_of_product_def)
  have "distinct (map r_id (releases ?db))" using db_inv_parts(1)[OF inv(1)] by (simp add: schema_ok_def pk_def)
  then have "inj_on r_id (set ?rows)" "distinct ?rows"
    unfolding rows by (auto simp: distinct_map inj_on_def select_releases_of_product_def order_by_desc_def)
  moreover have "sorted_wrt (\<lambda>a b. release_key b \<le> release_key a) ?rows"
    using order_by_desc_sorted[of release_key] unfolding select_releases_of_product_def release_key_def[abs_def] .
  moreover have "inj_on release_key (set ?rows)"
    using \<open>inj_on r_id (set ?rows)\<close> by (auto simp: release_key_def inj_on_def)
  ultimately have "sorted_wrt (\<lambda>a b. release_key b < release_key a) ?rows" using sorted_strictly by blast
  then show ?thesis unfolding rels sorted_wrt_map
    by (rule sorted_wrt_mono_rel[rotated]) (use rows in \<open>auto intro!: rows_above inv(2) db_inv_parts(7)[OF inv(1)]\<close>)
qed

lemma second_cut:
  assumes run: "cut_release_query ''r2'' 0 (cut_request None) released_database = (res, db')"
  obtains row result where "releases db' = releases released_database @ [row]" "r_product_id row = ''p''" "res = Inr result"
    "products db' = products released_database"
proof -
  note p = db_inv_parts[OF db_inv_released]
  have active: "select_active_components ''p'' released_database \<noteq> []"
    using sample_active by (simp add: select_active_components_def released_database_def)
  have pid: "cut_product_id (cut_request None) = ''p''" by (simp add: cut_request_def)
  from run p(1,3,7) show thesis
  proof (cases rule: cut_release_query_cases)
    case (unknown e)
    then show thesis by (simp add: released_database_def sample_defs cut_request_def)
  next
    case (replay key r release)
    then show thesis by (simp add: cut_request_def)
  next
    case (fresh q)
    have pp: "parses (p_base_version q)" "cut_product_id (cut_request None) \<in> p_id ` set (products released_database)"
      using fresh(1,2) p(7) imageI[OF fresh(1), of p_id] by (auto simp: all_parse_def)
    from fresh(4) p(1,3,7) pp show thesis
    proof (cases rule: fresh_cut_cases)
      case collision
      then show thesis by (simp add: released_database_def)
    next
      case (cut bump rationale change version)
      with that show thesis by (simp add: after_cut_def pid)
    qed (use active pid in simp)
  qed
qed

theorem product_versions_never_decrease_witness:
  "\<exists>(st :: app_state) rels. list_releases_by_product_query ''p'' (app_db st) = Inr rels \<and> length rels = 2 \<and> sorted_wrt above rels"
proof -
  let ?ce = "sample_env no_env ''r2''" and ?c = "CutRelease ''p'' None None"
  let ?st = "lifespan_start no_env [] [] released_database"
  obtain ans st' where s: "serve ?ce (bare_request ?c) ?st = (ans, st')" by force
  have "serve ?ce (bare_request ?c) ?st = cut_product_release ?ce None ''p'' None None ?st"
    using sample_run_step(1)[OF db_inv_released, of ?c "''r2''"] by (simp add: call_path_def bare_request_def)
  with s obtain res where "cut_release_query ''r2'' 0 (cut_request None) released_database = (res, app_db st')"
    by (auto simp: cut_product_release_def cut_release_def validate_cut_release_def cut_request_def sample_env_def start_db
        split: prod.splits sum.splits if_splits)
  from second_cut[OF this] obtain row where row: "releases (app_db st') = releases released_database @ [row]"
    "r_product_id row = ''p''" "products (app_db st') = products released_database" by metis
  have "release_key (hd (releases released_database)) < (0, ''r2'')"
    by (simp add: released_database_def release_key_def)
  then have "timely ?ce ?st" by (simp add: timely_def start_db sample_env_def released_database_def)
  then have run: "timely_step\<^sup>*\<^sup>* (0, ?st) (0, st')"
    using timely_step.request[OF _ _ s, of 0] by (simp add: sample_env_def r_into_rtranclp)
  have "''p'' \<in> p_id ` set (products (app_db st'))" by (simp add: row(3) released_database_def sample_defs)
  from list_releases_views[OF this] obtain rels where
    rels: "list_releases_by_product_query ''p'' (app_db st') = Inr rels" "length rels = 2"
    by (simp add: select_releases_of_product_def row(1,2)) (simp add: released_database_def)
  have "ledger_ordered (releases released_database)" by (simp add: ledger_ordered_def released_database_def)
  from product_versions_never_decrease[OF db_inv_released this run rels(1)] have "sorted_wrt above rels" .
  with rels show ?thesis by blast
qed

end
