(* ===== verification/Live_Events.thy ===== *)
theory Live_Events
  imports Refinement
begin

text \<open>
  What a browser watching a product sees: the stream of \<open>GET /products/{id}/events\<close> open while the
  application serves other requests, streams are polled and closed in any order. The frames it
  receives tell what the contract says happened to the product since the stream was opened.
\<close>

section \<open>The news of a request\<close>

text \<open>What an accepted request means to those who watch the product \<open>pid\<close>.\<close>

fun heard :: "contract \<Rightarrow> api_call \<Rightarrow> ident \<Rightarrow> event_type option" where
  "heard k (CreateVersion c v pre) pid = (if (c, pid) \<in> k_components k then Some VERSION_CREATED else None)"
| "heard k (RollbackVersion t) pid =
     (if \<exists>c core. (t, c, core) \<in> k_versions k \<and> (c, pid) \<in> k_components k then Some VERSION_ROLLED_BACK else None)"
| "heard k (AddDependency p a b) pid = (if p = pid then Some DEPENDENCY_ADDED else None)"
| "heard k (RemoveDependency p a b) pid = (if p = pid then Some DEPENDENCY_REMOVED else None)"
| "heard k (CutRelease p l n) pid = (if p = pid then Some RELEASE_CUT else None)"
| "heard k _ pid = None"

definition news :: "contract \<Rightarrow> http_request \<Rightarrow> api_answer \<Rightarrow> ident \<Rightarrow> event_type list" where
  "news k rq ans pid =
     (if accepted ans \<and> \<not> replays rq k then (case heard k (hr_call rq) pid of None \<Rightarrow> [] | Some t \<Rightarrow> [t]) else [])"

lemma heard_mutating: "\<not> mutating c \<Longrightarrow> heard k c pid = None"
  by (cases c) simp_all

lemma one_owner:
  assumes "db_inv db" "(c, p) \<in> k_components (contract_of db)" "(c, q) \<in> k_components (contract_of db)"
  shows "p = q"
  using assms(2,3) pkD[of c_id "components db"] db_inv_parts(1)[OF assms(1)] by (auto simp: schema_ok_def)

lemma one_component:
  assumes "db_inv db" "(t, c, core) \<in> k_versions (contract_of db)" "(t, c', core') \<in> k_versions (contract_of db)"
  shows "c = c'"
  using assms(2,3) pkD[of v_id "versions db"] db_inv_parts(1)[OF assms(1)] by (auto simp: schema_ok_def)

text \<open>The bus of a mutating request carries its news: to the watchers of one product, or nothing at all.\<close>

lemma mutating_news:
  assumes hon: "honours ce rq st (ans, st')" and mut: "mutating (hr_call rq)" and inv: "db_inv (app_db st)"
  shows "(app_bus st' = app_bus st \<and> (\<forall>pid. news (contract_of (app_db st)) rq ans pid = [])) \<or>
    (\<exists>ev. app_bus st' = publish ev (app_bus st) \<and> (\<forall>pid. news (contract_of (app_db st)) rq ans pid =
        (if event_product_id ev = pid then [event_type ev] else [])))"
  using hon[unfolded honours_def Let_def fst_conv snd_conv]
proof (elim disjE exE conjE)
  let ?k = "contract_of (app_db st)"
  fix e assume e: "asks ce rq e" "contract_step ?k e (contract_of (app_db st'))" "told ?k e (app_bus st) (app_bus st')"
    "accepted ans = (\<forall>c. e \<noteq> Withdrawn c)"
  note owner = one_owner[OF inv] and comp = one_component[OF inv]
  show ?thesis
  proof (cases e)
    case (ProductAdded i name)
    with e show ?thesis by (auto simp: told_def news_def)
  next
    case (ComponentAdded i pid)
    with e show ?thesis by (auto simp: told_def news_def)
  next
    case (Withdrawn c)
    with e show ?thesis by (auto simp: told_def news_def)
  next
    case (Published i c core)
    then obtain ev where "app_bus st' = publish ev (app_bus st)" "event_type ev = VERSION_CREATED"
      "(c, event_product_id ev) \<in> k_components ?k" using e(3) by (auto simp: told_def simp del: contract_of_sel)
    with e(1,4) Published owner show ?thesis
      by (intro disjI2 exI[of _ ev]) (auto simp: news_def replays_def simp del: contract_of_sel)
  next
    case (RolledBack t p)
    then obtain ev c core where ev: "app_bus st' = publish ev (app_bus st)" "event_type ev = VERSION_ROLLED_BACK"
      "(t, c, core) \<in> k_versions ?k" "(c, event_product_id ev) \<in> k_components ?k"
      using e(3) by (auto simp: told_def simp del: contract_of_sel)
    then have "(\<exists>c core. (t, c, core) \<in> k_versions ?k \<and> (c, pid) \<in> k_components ?k) \<longleftrightarrow> event_product_id ev = pid" for pid
      using owner[OF ev(4), of pid] comp[OF ev(3)] by blast
    with ev(1,2) e(1,4) RolledBack show ?thesis
      by (intro disjI2 exI[of _ ev]) (simp add: news_def replays_def del: contract_of_sel split_paired_Ex)
  next
    case (Linked pid a b)
    with e(1,3,4) show ?thesis by (auto simp: told_def news_def replays_def simp del: contract_of_sel)
  next
    case (Unlinked pid a b)
    with e(1,3,4) show ?thesis by (auto simp: told_def news_def replays_def simp del: contract_of_sel)
  next
    case (Cut i pid key version)
    then have "\<not> replays rq ?k"
      using e(1,2) by (auto simp: replays_def elim!: contract_stepE simp del: contract_of_sel)
    with e(1,3,4) Cut show ?thesis by (auto simp: told_def news_def simp del: contract_of_sel)
  qed
next
  assume "mutating (hr_call rq) \<longrightarrow>
    app_bus st' = app_bus st \<and> (accepted ans \<longrightarrow> replays rq (contract_of (app_db st)))"
  with mut show ?thesis by (cases "accepted ans") (simp_all add: news_def)
qed

text \<open>Any other request leaves the bus alone, but for the one that opens a stream.\<close>

lemma other_bus:
  assumes "\<not> mutating (hr_call rq)" "serve ce rq st = (ans, st')"
  shows "app_bus st' = app_bus st \<or> (\<exists>pid. app_bus st' = snd (subscribe pid (app_bus st)))"
proof -
  have stream: "snd (stream_open pid bus) = snd (subscribe pid bus)" for pid bus
    by (simp add: stream_open_def case_prod_unfold Let_def)
  have sec: "app_bus (snd (serve_secured ce rq p (hr_call rq) s)) = app_bus s \<or>
      (\<exists>pid. app_bus (snd (serve_secured ce rq p (hr_call rq) s)) = snd (subscribe pid (app_bus s)))" for p s
    using assms(1) stream
    by (cases "hr_call rq") (auto simp: read_route_defs read_answer_def stream_product_events_def case_prod_unfold Let_def)
  have opn: "app_bus (snd (serve_open ce rq (hr_call rq) s)) = app_bus s" for s
    by (cases "hr_call rq") (simp_all add: read_answer_def signup_def verify_account_def login_account_def case_prod_unfold
        Let_def split: option.split)
  have disp: "app_bus s' = app_bus s \<or> (\<exists>pid. app_bus s' = snd (subscribe pid (app_bus s)))"
    if "dispatch ce rq s = (a, s')" for s s' a
  proof -
    have "s' = snd (dispatch ce rq s)" using that by simp
    with sec opn show ?thesis by (simp add: dispatch_def split: sum.split)
  qed
  from assms(2) show ?thesis
    by (auto simp: serve_def split: option.splits prod.splits forwarding.splits dest!: disp)
qed

section \<open>Watching\<close>

text \<open>
  A stream being watched: the application, the news of its product since the stream was opened, and
  the frames the client received. Requests are served, this stream and others are polled, others are left.
\<close>

record watch =
  w_clock :: int
  w_app :: app_state
  w_news :: "event_type list"
  w_frames :: "string list"

inductive watch_step :: "sse_stream \<Rightarrow> watch \<Rightarrow> watch \<Rightarrow> bool" for stream where
  served: "w_clock w \<le> ce_clock ce \<Longrightarrow> serve ce rq (w_app w) = (ans, st') \<Longrightarrow>
    watch_step stream w (w\<lparr>w_clock := ce_clock ce, w_app := st', w_news := w_news w @
      news (contract_of (app_db (w_app w))) rq ans (stream_product stream)\<rparr>)"
| polled: "stream_poll stream (app_bus (w_app w)) = (frame, bus) \<Longrightarrow>
    watch_step stream w (w\<lparr>w_app := (w_app w)\<lparr>app_bus := bus\<rparr>, w_frames := w_frames w @ [frame]\<rparr>)"
| other_polled: "stream_queue other \<noteq> stream_queue stream \<Longrightarrow>
    watch_step stream w (w\<lparr>w_app := poll other (w_app w)\<rparr>)"
| other_left: "stream_queue other \<noteq> stream_queue stream \<Longrightarrow>
    watch_step stream w (w\<lparr>w_app := disconnect other (w_app w)\<rparr>)"

text \<open>The session of \<open>Sse\<close> a watch goes through: what was published are the news.\<close>

definition follows :: "sse_stream \<Rightarrow> watch \<Rightarrow> session_state \<Rightarrow> bool" where
  "follows stream w s \<longleftrightarrow>
     stream_inv stream s \<and> ss_bus s = app_bus (w_app w) \<and> map event_type (ss_published s) = w_news w \<and>
     (\<forall>ev\<in>set (ss_published s). event_product_id ev = stream_product stream) \<and>
     filter (\<lambda>f. f \<noteq> keep_alive_frame) (w_frames w) = map format_sse_frame (ss_sent s) \<and>
     (0 < ss_evicted s \<longrightarrow> QUEUE_MAXSIZE < length (ss_published s))"

lemma follows_step:
  "follows stream w s \<Longrightarrow> stream_step stream s s' \<Longrightarrow> ss_published s' = ss_published s \<Longrightarrow> ss_evicted s' = ss_evicted s \<Longrightarrow>
   ss_sent s' = ss_sent s \<Longrightarrow> ss_bus s' = app_bus (w_app w') \<Longrightarrow> w_news w' = w_news w \<Longrightarrow> w_frames w' = w_frames w \<Longrightarrow>
   follows stream w' s'"
  using stream_inv_step by (auto simp: follows_def)

lemma follows_publish:
  assumes "follows stream w s" "event_product_id ev = stream_product stream" "app_bus (w_app w') = publish ev (app_bus (w_app w))"
    and "w_news w' = w_news w @ [event_type ev]" "w_frames w' = w_frames w"
  shows "\<exists>s'. follows stream w' s'"
proof -
  let ?full = "length (queue_of (ss_bus s) (stream_queue stream)) = QUEUE_MAXSIZE"
  let ?s = "s\<lparr>ss_bus := publish ev (ss_bus s), ss_published := ss_published s @ [ev],
    ss_evicted := ss_evicted s + (if ?full then 1 else 0)\<rparr>"
  have inv: "stream_inv stream s" using assms(1) by (simp add: follows_def)
  have "QUEUE_MAXSIZE \<le> length (ss_published s)" if ?full
    using inv that by (auto simp: stream_inv_def dest: suffix_length_le)
  with stream_inv_publish_here[OF inv assms(2)] assms have "follows stream w' ?s" by (auto simp: follows_def)
  then show ?thesis by blast
qed

lemma frame_is_event: "format_sse_frame ev \<noteq> keep_alive_frame"
  by (simp add: format_sse_frame_def keep_alive_frame_def Let_def)

definition watched :: "sse_stream \<Rightarrow> watch \<Rightarrow> bool" where
  "watched stream w \<longleftrightarrow> app_inv (w_clock w, w_app w) \<and> (\<exists>s. follows stream w s)"

lemma watch_follows:
  assumes step: "watch_step stream w w'" and fol: "follows stream w s" and inv: "db_inv (app_db (w_app w))"
  shows "\<exists>s'. follows stream w' s'"
  using step
proof cases
  case (served ce rq ans st')
  have hon: "honours ce rq (w_app w) (ans, st')" using honours_serve[OF inv, of ce rq] served(3) by simp
  have bus: "app_bus (w_app w') = app_bus st'" by (simp add: served(1))
  show ?thesis
  proof (cases "mutating (hr_call rq)")
    case True
    from mutating_news[OF hon True inv] show ?thesis
    proof (elim disjE exE conjE)
      fix ev assume ev: "app_bus st' = publish ev (app_bus (w_app w))"
        "\<forall>pid. news (contract_of (app_db (w_app w))) rq ans pid = (if event_product_id ev = pid then [event_type ev] else [])"
      show ?thesis
      proof (cases "event_product_id ev = stream_product stream")
        case True
        then show ?thesis by (rule follows_publish[OF fol]) (use ev True in \<open>simp_all add: served(1)\<close>)
      next
        case False
        have "follows stream w' (s\<lparr>ss_bus := publish ev (ss_bus s)\<rparr>)"
          by (rule follows_step[OF fol stream_step.publish_elsewhere[OF False]])
            (use fol ev False in \<open>simp_all add: served(1) follows_def\<close>)
        then show ?thesis by blast
      qed
    qed (use fol in \<open>auto simp: follows_def served(1)\<close>)
  next
    case False
    have none: "w_news w' = w_news w" by (simp add: served(1) news_def heard_mutating[OF False])
    from other_bus[OF False served(3)] show ?thesis
    proof (elim disjE exE)
      fix pid assume "app_bus st' = snd (subscribe pid (app_bus (w_app w)))"
      then have "follows stream w' (s\<lparr>ss_bus := snd (subscribe pid (ss_bus s))\<rparr>)"
        by (intro follows_step[OF fol stream_step.other_open]) (use fol none in \<open>simp_all add: served(1) follows_def\<close>)
      then show ?thesis by blast
    qed (use fol none in \<open>auto simp: follows_def served(1)\<close>)
  qed
next
  case (polled frame bus)
  show ?thesis
  proof (cases "take_event (stream_queue stream) (ss_bus s)")
    case None
    with fol polled show ?thesis by (auto simp: follows_def stream_poll_def)
  next
    case (Some a)
    then obtain ev bus' where t: "take_event (stream_queue stream) (ss_bus s) = Some (ev, bus')" by force
    have "stream_inv stream (s\<lparr>ss_bus := bus', ss_sent := ss_sent s @ [ev]\<rparr>)"
      by (rule stream_inv_step[OF stream_step.poll_event[OF t]]) (use fol in \<open>simp add: follows_def\<close>)
    with fol polled t have "follows stream w' (s\<lparr>ss_bus := bus', ss_sent := ss_sent s @ [ev]\<rparr>)"
      by (auto simp: follows_def stream_poll_def frame_is_event)
    then show ?thesis by blast
  qed
next
  case (other_polled other)
  show ?thesis
  proof (cases "take_event (stream_queue other) (ss_bus s)")
    case None
    with fol other_polled show ?thesis by (auto simp: follows_def stream_poll_def poll_def)
  next
    case (Some a)
    then obtain ev bus' where t: "take_event (stream_queue other) (ss_bus s) = Some (ev, bus')" by force
    have "follows stream w' (s\<lparr>ss_bus := bus'\<rparr>)"
      by (rule follows_step[OF fol stream_step.other_take[OF other_polled(2) t]])
        (use fol t in \<open>simp_all add: other_polled(1) follows_def stream_poll_def poll_def\<close>)
    then show ?thesis by blast
  qed
next
  case (other_left other)
  have "follows stream w' (s\<lparr>ss_bus := unsubscribe (stream_product other) (stream_queue other) (ss_bus s)\<rparr>)"
    by (rule follows_step[OF fol stream_step.other_close[OF other_left(2)]])
      (use fol in \<open>simp_all add: other_left(1) follows_def stream_close_def disconnect_def\<close>)
  then show ?thesis by blast
qed

lemma watch_is_step:
  assumes "watch_step stream w w'"
  shows "api_step (w_clock w, w_app w) (w_clock w', w_app w')"
  using assms
proof cases
  case (polled frame bus)
  then have "(w_app w)\<lparr>app_bus := bus\<rparr> = poll stream (w_app w)" by (simp add: poll_def)
  with polled show ?thesis using api_step.deliver[of "w_clock w" "w_app w" stream] by simp
qed (auto intro: api_step.intros)

lemma watch_keeps:
  assumes "watched stream w" "watch_step stream w w'"
  shows "watched stream w'"
proof -
  obtain s where s: "app_inv (w_clock w, w_app w)" "follows stream w s" using assms(1) by (auto simp: watched_def)
  have "app_inv (w_clock w', w_app w')" using api_step_keeps[OF watch_is_step[OF assms(2)] s(1)] by simp
  moreover have "db_inv (app_db (w_app w))" using s(1) by (simp add: app_inv_def)
  ultimately show ?thesis using watch_follows[OF assms(2) s(2)] by (simp add: watched_def)
qed

interpretation watching: invariant_system "watch_step stream" "watched stream" for stream
  by unfold_locales (rule watch_keeps)

definition opened :: "int \<Rightarrow> app_state \<Rightarrow> watch" where
  "opened clock st = \<lparr>w_clock = clock, w_app = st, w_news = [], w_frames = []\<rparr>"

lemma opened_stream:
  assumes "serve ce rq st = (EventStream stream headers, st0)" "hr_call rq = StreamProductEvents pid"
  shows "stream_open pid (app_bus st) = (stream, app_bus st0)" "stream_product stream = pid"
proof -
  have "serve ce rq st = dispatch ce rq st"
    by (rule serve_outside_auth) (simp add: assms(2) call_path_def)
  moreover have "answer_error e \<noteq> EventStream stream headers" for e by (cases e) (simp_all add: answer_error_def)
  ultimately show "stream_open pid (app_bus st) = (stream, app_bus st0)"
    using assms by (auto simp: dispatch_def stream_product_events_def split: sum.splits prod.splits)
  then show "stream_product stream = pid" by (auto simp: stream_open_def Let_def split: prod.splits)
qed

lemma opened_watched:
  assumes "app_inv (clock, st)" "clock \<le> ce_clock ce" "serve ce rq st = (EventStream stream headers, st0)"
    and "hr_call rq = StreamProductEvents pid"
  shows "watched stream (opened (ce_clock ce) st0)"
proof -
  have "app_inv (ce_clock ce, st0)"
    using api_step_keeps[OF api_step.request[OF assms(2,3)] assms(1)] by simp
  moreover have "stream_inv stream (session_start (app_bus st0))"
    by (rule stream_inv_start[OF _ opened_stream(1)[OF assms(3,4)]]) (use assms(1) in \<open>simp add: app_inv_def\<close>)
  then have "follows stream (opened (ce_clock ce) st0) (session_start (app_bus st0))"
    by (simp add: follows_def opened_def session_start_def)
  ultimately show ?thesis by (auto simp: watched_def opened_def)
qed

section \<open>Properties\<close>

text \<open>C6: A stream tells what happened to its product. Once \<open>GET /products/{id}/events\<close> has answered a
  stream in a running application, then however requests, polls and other clients interleave, the
  frames the client received are, keep-alives aside, those of events of this product, and together
  with the events still waiting they announce, in order, accepted requests that changed the product: as
  the oldest may be dropped, a subsequence of them, and as long as there were at most 256, exactly
  all of them. Refused requests and replayed cuts are never announced.\<close>

theorem stream_tells_the_contract:
  assumes "running env plugins extensions stored clock st" and "clock \<le> ce_clock ce"
    and "serve ce rq st = (EventStream stream headers, st0)" and "hr_call rq = StreamProductEvents pid"
    and "(watch_step stream)\<^sup>*\<^sup>* (opened (ce_clock ce) st0) w"
  shows "\<exists>sent. let events = sent @ queue_of (app_bus (w_app w)) (stream_queue stream) in
    filter (\<lambda>f. f \<noteq> keep_alive_frame) (w_frames w) = map format_sse_frame sent \<and>
    (\<forall>ev\<in>set events. event_product_id ev = pid) \<and> subseq (map event_type events) (w_news w) \<and>
    (length (w_news w) \<le> 256 \<longrightarrow> map event_type events = w_news w)"
proof -
  have "app_inv (clock, st)" using running_inv[OF assms(1)] by (simp add: app_inv_def)
  from watching.invariant[OF assms(5) opened_watched[OF this assms(2-4)]]
  obtain s where s: "follows stream w s" by (auto simp: watched_def)
  then have "app_bus (w_app w) = ss_bus s" by (simp add: follows_def)
  let ?events = "ss_sent s @ queue_of (app_bus (w_app w)) (stream_queue stream)"
  have sub: "subseq ?events (ss_published s)" and len: "length (ss_published s) = length ?events + ss_evicted s"
    and news: "w_news w = map event_type (ss_published s)"
    using s unfolding \<open>app_bus (w_app w) = ss_bus s\<close> follows_def stream_inv_def by simp_all
  have "?events = ss_published s" if "length (w_news w) \<le> 256"
    using subseq_same_length[OF sub] len s that by (cases "ss_evicted s") (simp_all add: follows_def QUEUE_MAXSIZE_def news)
  moreover have "set ?events \<subseteq> set (ss_published s)" using sub by (meson subsetI subseq_singleton_left subseq_order.trans)
  ultimately show ?thesis
    using s sub opened_stream(2)[OF assms(3,4)]
    by (intro exI[of _ "ss_sent s"]) (auto simp: follows_def news Let_def simp flip: map_append intro: subseq_map)
qed

theorem stream_tells_the_contract_witness:
  "\<exists>(stream :: sse_stream) (w :: watch) sent. w_news w = [DEPENDENCY_REMOVED] \<and>
     filter (\<lambda>f. f \<noteq> keep_alive_frame) (w_frames w) = map format_sse_frame sent \<and>
     map event_type (sent @ queue_of (app_bus (w_app w)) (stream_queue stream)) = [DEPENDENCY_REMOVED]"
proof -
  let ?ce = "sample_env no_env ''n''" and ?open = "bare_request (StreamProductEvents ''p'')"
  let ?remove = "bare_request (RemoveDependency ''p'' ''a'' ''b'')"
  let ?st = "lifespan_start no_env [] [] sample_database"
  obtain stream st0 where st0: "serve ?ce ?open ?st = (EventStream stream SSE_HEADERS, st0)"
    "app_db st0 = sample_database" "app_resolver st0 = app_resolver ?st"
    using sample_run_step(1)[OF db_inv_sample, of "StreamProductEvents ''p''" "''n''"]
    by (auto simp: call_path_def stream_product_events_def start_db case_prod_unfold Let_def)
  obtain ans st1 where s: "serve ?ce ?remove st0 = (ans, st1)" by force
  have "serve ?ce ?remove st0 = remove_product_dependency ''p'' ''a'' ''b'' st0"
    by (subst serve_outside_auth)
      (simp_all add: bare_request_def call_path_def dispatch_def st0(3) unconfigured_principal)
  with s have "ans = NoContent"
    by (auto simp: remove_product_dependency_def remove_dependency_query_def select_edge_def st0(2) sample_defs fetchone_def
        Let_def answer_with_def)
  then have news: "news (contract_of (app_db st0)) ?remove ans ''p'' = [DEPENDENCY_REMOVED]"
    by (simp add: news_def bare_request_def replays_def)
  have call: "hr_call ?open = StreamProductEvents ''p''" by (simp add: bare_request_def)
  let ?w0 = "opened (ce_clock ?ce) st0"
  define w where "w = ?w0\<lparr>w_clock := ce_clock ?ce, w_app := st1, w_news := w_news ?w0 @
    news (contract_of (app_db (w_app ?w0))) ?remove ans (stream_product stream)\<rparr>"
  have "watch_step stream ?w0 w" unfolding w_def by (rule watch_step.served) (simp_all add: opened_def s)
  then have run: "(watch_step stream)\<^sup>*\<^sup>* ?w0 w" by blast
  have w: "w_news w = [DEPENDENCY_REMOVED]" using news opened_stream(2)[OF st0(1) call] by (simp add: w_def opened_def)
  have "0 \<le> ce_clock ?ce" by (simp add: sample_env_def)
  from stream_tells_the_contract[OF running_start[OF db_inv_sample] this st0(1) call run] obtain sent where
    "filter (\<lambda>f. f \<noteq> keep_alive_frame) (w_frames w) = map format_sse_frame sent"
    "map event_type (sent @ queue_of (app_bus (w_app w)) (stream_queue stream)) = [DEPENDENCY_REMOVED]"
    by (auto simp: w Let_def)
  with w show ?thesis by (intro exI[of _ stream] exI[of _ w] exI[of _ sent] conjI)
qed

end
