(* ===== verification/Auth_Traffic.thy ===== *)
theory Auth_Traffic
  imports Guarantees
begin

text \<open>
  The rate limit of the account routes inside the running application: how often one client can be
  answered by a handler under \<open>/auth\<close> (and so have a password or a token checked) in one window,
  whatever else the application does in between.
\<close>

section \<open>Traffic\<close>

text \<open>
  A run that remembers, for each client, when a request under \<open>/auth\<close> was answered otherwise than with
  429. The environment does not change; the requests come from the clients given.
\<close>

record traffic =
  t_clock :: int
  t_app :: app_state
  t_answered :: admission_log

definition limited :: "api_answer \<Rightarrow> bool" where
  "limited ans \<longleftrightarrow> (\<exists>r. ans = JsonAnswer r \<and> resp_status r = 429)"

definition client_of :: "environ \<Rightarrow> http_request \<Rightarrow> string" where
  "client_of env rq = client_key app_rate_settings env (scope_of rq)"

inductive traffic_step :: "environ \<Rightarrow> string set \<Rightarrow> traffic \<Rightarrow> traffic \<Rightarrow> bool" for env clients where
  served: "t_clock x \<le> ce_clock ce \<Longrightarrow> ce_environ ce = env \<Longrightarrow> client_of env rq \<in> clients \<Longrightarrow>
    serve ce rq (t_app x) = (ans, st') \<Longrightarrow>
    traffic_step env clients x (x\<lparr>t_clock := ce_clock ce, t_app := st',
      t_answered := (if under_auth (scope_of rq) \<and> \<not> limited ans
        then (t_answered x)(client_of env rq := t_answered x (client_of env rq) @ [ce_clock ce])
        else t_answered x)\<rparr>)"
| delivered: "traffic_step env clients x (x\<lparr>t_app := poll stream (t_app x)\<rparr>)"
| left: "traffic_step env clients x (x\<lparr>t_app := disconnect stream (t_app x)\<rparr>)"

text \<open>The limiter refines a log of all admissions, and what was answered is part of that log.\<close>

definition admits :: "environ \<Rightarrow> string set \<Rightarrow> traffic \<Rightarrow> admission_log \<Rightarrow> bool" where
  "admits env clients x log \<longleftrightarrow>
     tracks (rl_window_seconds app_rate_settings env * ticks_per_second) (t_clock x) (app_limiter (t_app x)) log \<and>
     max_keys (app_limiter (t_app x)) = rls_max_tracked_clients app_rate_settings \<and> {k. log k \<noteq> []} \<subseteq> clients \<and>
     (\<forall>k. (\<forall>t\<in>set (log k). t \<le> t_clock x) \<and> subseq (t_answered x k) (log k) \<and>
        window_bounded (rl_limit app_rate_settings env) (rl_window_seconds app_rate_settings env * ticks_per_second) (log k))"

lemma dispatch_keeps_limiter: "dispatch ce rq st = (ans, st') \<Longrightarrow> app_limiter st' = app_limiter st"
  using moves_dispatch[of st ce rq] by (simp add: moves_def wired_alike_def)

lemma admits_idle:
  assumes "admits env clients x log" "t_clock x \<le> t_clock y" "app_limiter (t_app y) = app_limiter (t_app x)"
    and "t_answered y = t_answered x"
  shows "admits env clients y log"
  using assms tracks_mono[of _ "t_clock x" "app_limiter (t_app x)" log "t_clock y"]
  by (fastforce simp: admits_def)

lemma admits_step:
  assumes adm: "admits env clients x log" and step: "traffic_step env clients x y"
    and on: "rl_enabled app_rate_settings env" and few: "finite clients" "int (card clients) < rls_max_tracked_clients app_rate_settings"
  shows "\<exists>log. admits env clients y log"
  using step
proof cases
  case (served ce rq ans st')
  let ?limit = "rl_limit app_rate_settings env" and ?window = "rl_window_seconds app_rate_settings env * ticks_per_second"
  let ?key = "client_of env rq" and ?now = "ce_clock ce"
  have pos: "0 < ?limit" using on by (simp add: rl_enabled_def)
  show ?thesis
  proof (cases "under_auth (scope_of rq)")
    case False
    then have "rate_limit_middleware app_rate_settings (ce_environ ce) ?now (scope_of rq) (app_limiter (t_app x))
        = Some (Forwarded, app_limiter (t_app x))" by (simp add: middleware_inert)
    with served(5) have "app_limiter st' = app_limiter (t_app x)" by (auto simp: serve_def dest: dispatch_keeps_limiter)
    then have "admits env clients y log" by (intro admits_idle[OF adm]) (use served(2) False in \<open>simp_all add: served(1)\<close>)
    then show ?thesis by blast
  next
    case True
    have tr: "tracks ?window (t_clock x) (app_limiter (t_app x)) log" and keys: "{k. log k \<noteq> []} \<subseteq> clients"
      and max: "max_keys (app_limiter (t_app x)) = rls_max_tracked_clients app_rate_settings" using adm by (simp_all add: admits_def)
    have "card (live_clients ?window ?now log) \<le> card clients"
      by (rule card_mono[OF few(1)]) (use live_clients_subset[of ?window ?now log] keys in blast)
    with few(2) max have "int (card (live_clients ?window ?now log)) < max_keys (app_limiter (t_app x))" by simp
    from allow_refines[OF tr served(2) pos this, of ?key] obtain l where
      l: "allow ?key ?limit ?window ?now (app_limiter (t_app x)) = Some (fst (log_allow ?key ?limit ?window ?now log), l)"
      "tracks ?window ?now l (snd (log_allow ?key ?limit ?window ?now log))" "max_keys l = max_keys (app_limiter (t_app x))" .
    let ?log = "snd (log_allow ?key ?limit ?window ?now log)"
    have times: "\<forall>t\<in>set (log k). t \<le> ?now" for k using adm served(2) by (force simp: admits_def)
    have lim: "app_limiter st' = l" and ans: "\<not> fst (log_allow ?key ?limit ?window ?now log) \<Longrightarrow> limited ans"
      using served(3,5) True on l(1)
      by (auto simp: serve_def rate_limit_middleware_def client_of_def limited_def rate_limited_response_def error_defs
          split: if_splits dest: dispatch_keeps_limiter)
    have "admits env clients y ?log"
      unfolding admits_def
    proof (intro conjI allI)
      fix k
      have bound: "window_bounded ?limit ?window (log k)" and sub: "subseq (t_answered x k) (log k)"
        using adm by (simp_all add: admits_def)
      show "window_bounded ?limit ?window (?log k)" by (rule window_bounded_log_allow) (rule bound times pos)+
      show "subseq (t_answered y k) (?log k)"
        using sub ans by (auto simp: served(1) log_allow_def Let_def intro: list_emb_append_mono)
      show "\<forall>t\<in>set (?log k). t \<le> t_clock y" using times by (auto simp: served(1) log_allow_def Let_def)
    qed (use l lim max keys served(4) in \<open>auto simp: served(1) log_allow_def Let_def split: if_splits\<close>)
    then show ?thesis by blast
  qed
qed (intro exI[of _ log] admits_idle[OF adm]; simp add: poll_def disconnect_def)+

definition traffic_start :: "int \<Rightarrow> app_state \<Rightarrow> traffic" where
  "traffic_start clock st = \<lparr>t_clock = clock, t_app = st, t_answered = (\<lambda>k. [])\<rparr>"

lemma admits_start:
  "rl_enabled app_rate_settings env \<Longrightarrow>
     admits env clients (traffic_start clock (lifespan_start env' plugins extensions stored)) (\<lambda>k. [])"
  using tracks_new[of "rl_window_seconds app_rate_settings env * ticks_per_second" clock
    "Some (rls_max_tracked_clients app_rate_settings)"]
  by (simp add: admits_def traffic_start_def lifespan_start_def Let_def middleware_limiter_def window_bounded_def
      rl_enabled_def new_limiter_def app_rate_settings_def[symmetric])

definition admitting :: "environ \<Rightarrow> string set \<Rightarrow> traffic \<Rightarrow> bool" where
  "admitting env clients x \<longleftrightarrow>
     rl_enabled app_rate_settings env \<and> finite clients \<and> int (card clients) < rls_max_tracked_clients app_rate_settings \<and>
     (\<exists>log. admits env clients x log)"

interpretation admitting: invariant_system "traffic_step env clients" "admitting env clients" for env clients
  by unfold_locales (auto simp: admitting_def dest: admits_step)

section \<open>Properties\<close>

text \<open>C22: Guessing is slow. With the rate limit switched on and fewer clients than the limiter tracks, in
  any run of the application no client is answered by a route under \<open>/auth\<close> (sign-up, verification,
  login, logout, the current user) otherwise than with 429 more often than the limit within any window of
  the configured length, whatever other requests are served in between and whatever the answers are.\<close>

theorem account_requests_limited:
  assumes "rl_enabled app_rate_settings env" and "finite clients" and "int (card clients) < 1024"
    and "(traffic_step env clients)\<^sup>*\<^sup>* (traffic_start clock (lifespan_start env' plugins extensions stored)) x"
  shows "int (length (filter (\<lambda>t. T - rl_window_seconds app_rate_settings env * ticks_per_second < t \<and> t \<le> T)
    (t_answered x client))) \<le> rl_limit app_rate_settings env"
proof -
  have "rls_max_tracked_clients app_rate_settings = 1024" by (simp add: app_rate_settings_def rate_limit_settings_init_def)
  then have "admitting env clients (traffic_start clock (lifespan_start env' plugins extensions stored))"
    using assms(1-3) admits_start[OF assms(1)] unfolding admitting_def by (intro conjI exI) simp_all
  from admitting.invariant[OF assms(4) this] obtain log where
    log: "window_bounded (rl_limit app_rate_settings env) (rl_window_seconds app_rate_settings env * ticks_per_second) (log client)"
    "subseq (t_answered x client) (log client)" by (auto simp: admitting_def admits_def)
  let ?in = "\<lambda>t. T - rl_window_seconds app_rate_settings env * ticks_per_second < t \<and> t \<le> T"
  have "length (filter ?in (t_answered x client)) \<le> length (filter ?in (log client))"
    by (rule list_emb_length[OF subseq_filter[OF log(2)]])
  moreover have "int (length (filter ?in (log client))) \<le> rl_limit app_rate_settings env"
    using log(1) by (simp add: window_bounded_def)
  ultimately show ?thesis by linarith
qed

definition one_per_minute :: environ where
  "one_per_minute = (\<lambda>name. if name = ''LAVS_AUTH_RATE_LIMIT'' then Some ''1'' else None)"

lemma one_per_minute_settings:
  "rl_limit app_rate_settings one_per_minute = 1" "rl_window_seconds app_rate_settings one_per_minute = 60"
  "client_of one_per_minute (bare_request c) = ''unknown''"
proof -
  have "py_int ''1'' = Some 1" by code_simp
  moreover have "strip ''1'' = ''1''" by code_simp
  moreover have "\<not> truthy []" by code_simp
  ultimately show "rl_limit app_rate_settings one_per_minute = 1" "rl_window_seconds app_rate_settings one_per_minute = 60"
    "client_of one_per_minute (bare_request c) = ''unknown''"
    by (simp_all add: rl_limit_def rl_window_seconds_def app_rate_settings_def rate_limit_settings_init_def one_per_minute_def
        int_or_default_def client_of_def client_key_def rl_trust_forwarded_for_def scope_of_def bare_request_def)
qed

theorem account_requests_limited_witness:
  "\<exists>(x :: traffic) T. t_answered x ''unknown'' = [0] \<and>
     length (filter (\<lambda>t. T - 60 * ticks_per_second < t \<and> t \<le> T) (t_answered x ''unknown'')) = 1 \<and>
     int (length (filter (\<lambda>t. T - 60 * ticks_per_second < t \<and> t \<le> T) (t_answered x ''unknown''))) \<le> 1"
proof -
  let ?ce = "sample_env one_per_minute ''n''" and ?rq = "bare_request (Verify ''x'')"
  let ?st = "lifespan_start no_env [] [] sample_database"
  note set = one_per_minute_settings
  have on: "rl_enabled app_rate_settings one_per_minute" by (simp add: rl_enabled_def set)
  have auth: "under_auth (scope_of ?rq)" by (simp add: under_auth_def scope_of_def bare_request_def call_path_def)
  have lim: "app_limiter ?st = new_limiter (Some 1024)"
    by (simp add: lifespan_start_def Let_def middleware_limiter_def rate_limit_settings_init_def)
  have "allow ''unknown'' 1 60000000000 0 (new_limiter (Some 1024)) =
      Some (True, \<lparr>max_keys = 1024, admissions = [(''unknown'', [0])]\<rparr>)" by code_simp
  then have fwd: "rate_limit_middleware app_rate_settings (ce_environ ?ce) (ce_clock ?ce) (scope_of ?rq) (app_limiter ?st)
      = Some (Forwarded, \<lparr>max_keys = 1024, admissions = [(''unknown'', [0])]\<rparr>)"
    using auth on set(3)[of "Verify ''x''"]
    by (simp add: rate_limit_middleware_def lim sample_env_def set(1,2) client_of_def ticks_per_second_def)
  obtain ans st' where s: "serve ?ce ?rq ?st = (ans, st')" by force
  have "tokens sample_database = []" by (simp add: sample_defs)
  with s fwd have "\<not> limited ans"
    by (auto simp: serve_def dispatch_def bare_request_def verify_account_def verify_def find_active_token_def fetchone_def
        start_db limited_def answer_with_def answer_error_def invalid_token_error_def handle_domain_error_def envelope_response_def Let_def error_defs
        sample_env_def lifespan_start_def)
  define x where "x = (traffic_start 0 ?st)\<lparr>t_clock := ce_clock ?ce, t_app := st',
      t_answered := (\<lambda>k. [])(client_of one_per_minute ?rq := [] @ [ce_clock ?ce])\<rparr>"
  have "traffic_step one_per_minute {''unknown''} (traffic_start 0 ?st) x"
    using traffic_step.served[of "traffic_start 0 ?st" ?ce one_per_minute ?rq "{''unknown''}" ans st'] s auth \<open>\<not> limited ans\<close>
    by (simp add: x_def traffic_start_def sample_env_def set(3))
  then have run: "(traffic_step one_per_minute {''unknown''})\<^sup>*\<^sup>* (traffic_start 0 ?st) x" by blast
  have "t_answered x ''unknown'' = [0]" by (simp add: x_def set(3) sample_env_def)
  with account_requests_limited[OF on _ _ run, of 0 "''unknown''"] show ?thesis
    by (intro exI[of _ x] exI[of _ 0]) (simp add: set(1,2) ticks_per_second_def)
qed

end
