(* ===== verification/Backend_Class.thy ===== *)
theory Backend_Class
  imports Connections Configuration
begin

text \<open>
  The class \<open>Backend\<close> of \<open>src/app/backends/backend.py\<close> and its four subclasses as records of their
  methods: the abstract class builds the record with the inherited methods, a subclass overrides
  some of them. \<open>connect\<close> is \<open>with_connection\<close> of \<open>Connections\<close>. Scripts are read from the disk of
  \<open>Configuration\<close>, at the place the module's own path gives. Also \<open>DatabaseManager.create_tables_on\<close>, the
  \<open>Configuration\<close> facade and the two entry points of the older connection factory.
\<close>

section \<open>Places on the disk\<close>

text \<open>\<open>os.path.dirname\<close> on POSIX.\<close>

definition dirname :: "string \<Rightarrow> string" where
  "dirname p =
     (let head = rev (dropWhile (\<lambda>c. c \<noteq> CHR ''/'') (rev p))
      in if list_all (\<lambda>c. c = CHR ''/'') head then head else rev (dropWhile (\<lambda>c. c = CHR ''/'') (rev head)))"

text \<open>\<open>configurations/root_dir.py\<close>; \<open>file\<close> is the path of that module.\<close>

definition root_dir :: "string \<Rightarrow> string" where
  "root_dir file = dirname (dirname file)"

definition open_read :: "disk \<Rightarrow> string \<Rightarrow> config_error + string" where
  "open_read disk path = (case disk path of None \<Rightarrow> Inl FileNotFoundError | Some contents \<Rightarrow> Inr contents)"

text \<open>\<open>dialect_ddl\<close> of a backend module; the relative path is the class attribute.\<close>

definition dialect_ddl :: "string \<Rightarrow> string \<Rightarrow> disk \<Rightarrow> config_error + string" where
  "dialect_ddl file relative disk =
     open_read disk (path_join (path_join (dirname (dirname file)) ''database'') relative)"

text \<open>\<open>DatabaseManager._ddl_text\<close>.\<close>

definition ddl_text :: "string \<Rightarrow> disk \<Rightarrow> config_error + string" where
  "ddl_text file disk = open_read disk (path_join (dirname file) ''duckdb/ddl.sql'')"

section \<open>The classes\<close>

text \<open>What running a script comes to: the script is missing, or its statements ran up to the first that raised.\<close>

type_synonym 's schema_run = "(config_error + unit outcome) \<times> 's"

record ('c, 's) backend_class =
  bc_name :: backend_kind
  bc_param_style :: param_style
  bc_dialect_ddl :: "disk \<Rightarrow> config_error + string"
  bc_init_schema :: "disk \<Rightarrow> 'c db_session \<Rightarrow> 's \<Rightarrow> 's schema_run"
  bc_current_schema_expression :: string
  bc_rename_table :: "'c db_session \<Rightarrow> string \<Rightarrow> string \<Rightarrow> 's \<Rightarrow> unit outcome \<times> 's"

definition execute_statement ::
  "('c, 'h, 's) driver \<Rightarrow> 'c db_session \<Rightarrow> string \<Rightarrow> string list option \<Rightarrow> 's \<Rightarrow> unit outcome \<times> 's" where
  "execute_statement drv ses sql params s =
     (case session_execute drv ses sql params s of (Inl e, s1) \<Rightarrow> (Inl e, s1) | (Inr _, s1) \<Rightarrow> (Inr (), s1))"

text \<open>The two ways to run a script: as one statement, and cut into single ones.\<close>

definition init_whole ::
  "('c, 'h, 's) driver \<Rightarrow> (disk \<Rightarrow> config_error + string) \<Rightarrow> disk \<Rightarrow> 'c db_session \<Rightarrow> 's \<Rightarrow> 's schema_run" where
  "init_whole drv ddl disk ses s =
     (case ddl disk of
        Inl e \<Rightarrow> (Inl e, s)
      | Inr script \<Rightarrow> let (r, s1) = execute_statement drv ses script None s in (Inr r, s1))"

definition init_split ::
  "('c, 'h, 's) driver \<Rightarrow> (disk \<Rightarrow> config_error + string) \<Rightarrow> disk \<Rightarrow> 'c db_session \<Rightarrow> 's \<Rightarrow> 's schema_run" where
  "init_split drv ddl disk ses s =
     (case ddl disk of
        Inl e \<Rightarrow> (Inl e, s)
      | Inr script \<Rightarrow> let (r, s1) = execute_all drv ses (ddl_statements script) s in (Inr r, s1))"

definition abstract_backend ::
  "('c, 'h, 's) driver \<Rightarrow> backend_kind \<Rightarrow> param_style \<Rightarrow> (disk \<Rightarrow> config_error + string) \<Rightarrow> ('c, 's) backend_class" where
  "abstract_backend drv kind style ddl =
     \<lparr>bc_name = kind, bc_param_style = style, bc_dialect_ddl = ddl,
      bc_init_schema = init_whole drv ddl,
      bc_current_schema_expression = ''current_schema()'',
      bc_rename_table = (\<lambda>ses old new. execute_statement drv ses (''ALTER TABLE '' @ old @ '' RENAME TO '' @ new) None)\<rparr>"

definition duckdb_backend :: "('c, 'h, 's) driver \<Rightarrow> string \<Rightarrow> ('c, 's) backend_class" where
  "duckdb_backend drv file = abstract_backend drv DUCKDB QMARK (dialect_ddl file ''duckdb/ddl.sql'')"

definition postgres_backend :: "('c, 'h, 's) driver \<Rightarrow> string \<Rightarrow> ('c, 's) backend_class" where
  "postgres_backend drv file =
     (abstract_backend drv POSTGRES PYFORMAT (dialect_ddl file ''postgres/ddl.sql''))
       \<lparr>bc_init_schema := init_split drv (dialect_ddl file ''postgres/ddl.sql'')\<rparr>"

definition mysql_backend :: "('c, 'h, 's) driver \<Rightarrow> string \<Rightarrow> ('c, 's) backend_class" where
  "mysql_backend drv file =
     (abstract_backend drv MYSQL PYFORMAT (dialect_ddl file ''mysql/ddl.sql''))
       \<lparr>bc_init_schema := init_split drv (dialect_ddl file ''mysql/ddl.sql''),
        bc_current_schema_expression := ''DATABASE()''\<rparr>"

definition mssql_backend :: "('c, 'h, 's) driver \<Rightarrow> string \<Rightarrow> ('c, 's) backend_class" where
  "mssql_backend drv file =
     (abstract_backend drv MSSQL PYFORMAT (dialect_ddl file ''mssql/ddl.sql''))
       \<lparr>bc_init_schema := init_split drv (dialect_ddl file ''mssql/ddl.sql''),
        bc_current_schema_expression := ''SCHEMA_NAME()'',
        bc_rename_table := (\<lambda>ses old new. execute_statement drv ses ''EXEC sp_rename ?, ?'' (Some [old, new]))\<rparr>"

text \<open>Each module lies in the package directory \<open>backends\<close>; \<open>package\<close> is the directory of \<open>app\<close>.\<close>

fun backend_file :: "backend_kind \<Rightarrow> string" where
  "backend_file DUCKDB = ''duckdb_backend.py''"
| "backend_file POSTGRES = ''postgres_backend.py''"
| "backend_file MYSQL = ''mysql_backend.py''"
| "backend_file MSSQL = ''mssql_backend.py''"

fun script_file :: "backend_kind \<Rightarrow> string" where
  "script_file DUCKDB = ''duckdb/ddl.sql''"
| "script_file POSTGRES = ''postgres/ddl.sql''"
| "script_file MYSQL = ''mysql/ddl.sql''"
| "script_file MSSQL = ''mssql/ddl.sql''"

fun backend_of :: "('c, 'h, 's) driver \<Rightarrow> string \<Rightarrow> backend_kind \<Rightarrow> ('c, 's) backend_class" where
  "backend_of drv package DUCKDB = duckdb_backend drv (package @ ''/backends/duckdb_backend.py'')"
| "backend_of drv package POSTGRES = postgres_backend drv (package @ ''/backends/postgres_backend.py'')"
| "backend_of drv package MYSQL = mysql_backend drv (package @ ''/backends/mysql_backend.py'')"
| "backend_of drv package MSSQL = mssql_backend drv (package @ ''/backends/mssql_backend.py'')"

section \<open>Other users of sessions and scripts\<close>

text \<open>\<open>DatabaseManager.create_tables_on\<close>.\<close>

definition create_tables_on ::
  "('c, 'h, 's) driver \<Rightarrow> string \<Rightarrow> disk \<Rightarrow> 'c db_session \<Rightarrow> 's \<Rightarrow> 's schema_run" where
  "create_tables_on drv file disk ses s = init_whole drv (ddl_text file) disk ses s"

text \<open>\<open>Configuration.database_name\<close>, \<open>database_path\<close> and \<open>database_config\<close>.\<close>

definition configuration_database_name ::
  "string \<Rightarrow> (string \<Rightarrow> yaml option) \<Rightarrow> disk \<Rightarrow> database_config option \<Rightarrow>
     (config_error + string) \<times> database_config option" where
  "configuration_database_name file safe_load disk cache = get_duckdb_database_name (root_dir file) safe_load disk cache"

definition configuration_database_path ::
  "string \<Rightarrow> (string \<Rightarrow> yaml option) \<Rightarrow> disk \<Rightarrow> database_config option \<Rightarrow>
     (config_error + string) \<times> database_config option" where
  "configuration_database_path file safe_load disk cache = get_database_path (root_dir file) safe_load disk cache"

definition configuration_database_config ::
  "string \<Rightarrow> (string \<Rightarrow> yaml option) \<Rightarrow> disk \<Rightarrow> database_config option \<Rightarrow>
     (config_error + database_config) \<times> database_config option" where
  "configuration_database_config file safe_load disk cache = load_database_config (root_dir file) safe_load disk cache"

text \<open>\<open>ConnectionFactory.connect\<close> and \<open>get_connection\<close> (a plain generator: \<open>body\<close> runs between its two resumptions).\<close>

definition factory_connect ::
  "(string, ('c, 's, 'b) connection_class) dict \<Rightarrow> string option \<Rightarrow> ('c \<Rightarrow> 's \<Rightarrow> 'b outcome \<times> 's) \<Rightarrow> 's \<Rightarrow>
     'b outcome \<times> 's" where
  "factory_connect registry key body s = retrieve registry (case key of None \<Rightarrow> ''duckdb'' | Some k \<Rightarrow> k) body s"

definition get_connection ::
  "(string, ('c, 's, 'b) connection_class) dict \<Rightarrow> string option \<Rightarrow> ('c \<Rightarrow> 's \<Rightarrow> 'b outcome \<times> 's) \<Rightarrow> 's \<Rightarrow>
     'b outcome \<times> 's" where
  "get_connection registry key body s = factory_connect registry key body s"

section \<open>The places\<close>

lemma dirname_file:
  assumes "p \<noteq> []" "last p \<noteq> CHR ''/''" "CHR ''/'' \<notin> set name"
  shows "dirname (p @ ''/'' @ name) = p"
proof -
  have "\<forall>x\<in>set (rev name). x \<noteq> CHR ''/''" using assms(3) by auto
  then have "dropWhile (\<lambda>x. x \<noteq> CHR ''/'') (rev name @ CHR ''/'' # rev p) = CHR ''/'' # rev p"
    using dropWhile_append2[of "rev name" "\<lambda>x. x \<noteq> CHR ''/''" "CHR ''/'' # rev p"] by simp
  moreover obtain q c where p: "p = q @ [c]" using assms(1) by (cases p rule: rev_cases) auto
  then have c: "c \<noteq> CHR ''/''" using assms(2) by simp
  then have "dropWhile (\<lambda>x. x = CHR ''/'') (rev p) = rev p" by (simp only: p rev_append rev.simps append.simps dropWhile.simps) simp
  moreover have "\<not> list_all (\<lambda>x. x = CHR ''/'') p"
    by (simp only: p list_all_append list.pred_inject c simp_thms)
  ultimately show ?thesis by (simp add: dirname_def Let_def)
qed

definition is_directory :: "string \<Rightarrow> bool" where
  "is_directory p \<longleftrightarrow> p \<noteq> [] \<and> last p \<noteq> CHR ''/''"

lemma join_below: "is_directory p \<Longrightarrow> \<not> isabs q \<Longrightarrow> path_join p q = p @ ''/'' @ q"
  by (simp add: path_join_def is_directory_def)

lemma module_script:
  assumes "is_directory package" "CHR ''/'' \<notin> set name" "\<not> isabs relative"
  shows "dialect_ddl (package @ ''/backends/'' @ name) relative disk = open_read disk (package @ ''/database/'' @ relative)"
proof -
  have "dirname ((package @ ''/backends'') @ ''/'' @ name) = package @ ''/backends''"
    by (rule dirname_file) (simp_all add: assms(2))
  moreover have "dirname (package @ ''/'' @ ''backends'') = package"
    by (rule dirname_file) (use assms(1) in \<open>simp_all add: is_directory_def\<close>)
  moreover have "path_join (path_join package ''database'') relative = package @ ''/database/'' @ relative"
    using assms(1,3) by (simp add: join_below isabs_def) (simp add: path_join_def isabs_def)
  ultimately show ?thesis by (simp add: dialect_ddl_def)
qed

text \<open>The startup migration and the DuckDB backend read one and the same script.\<close>

lemma one_duckdb_script:
  assumes "is_directory package"
  shows "create_tables_on drv (package @ ''/database/database_manager.py'') = bc_init_schema (backend_of drv package DUCKDB)"
proof -
  have "dirname ((package @ ''/database'') @ ''/'' @ ''database_manager.py'') = package @ ''/database''"
    by (rule dirname_file) simp_all
  then have "ddl_text (package @ ''/database/database_manager.py'') = dialect_ddl (package @ ''/backends/duckdb_backend.py'') ''duckdb/ddl.sql''"
    using module_script[OF assms, of "''duckdb_backend.py''" "''duckdb/ddl.sql''"]
    by (intro ext) (simp add: ddl_text_def path_join_def isabs_def)
  then show ?thesis by (intro ext) (simp add: create_tables_on_def duckdb_backend_def abstract_backend_def)
qed

text \<open>The classes agree with the per-kind functions of \<open>Backends\<close> and \<open>Connections\<close>.\<close>

lemma backend_of_methods:
  "bc_name (backend_of drv package kind) = kind"
  "bc_param_style (backend_of drv package kind) = backend_param_style kind"
  "bc_current_schema_expression (backend_of drv package kind) = current_schema_expression kind"
  "bc_rename_table (backend_of drv package kind) ses old new =
     (\<lambda>s. execute_statement drv ses (fst (rename_table kind old new)) (snd (rename_table kind old new)) s)"
  by (cases kind; simp add: duckdb_backend_def postgres_backend_def mysql_backend_def mssql_backend_def abstract_backend_def)+

lemma backend_of_ddl:
  assumes "is_directory package"
  shows "bc_dialect_ddl (backend_of drv package kind) disk = open_read disk (package @ ''/database/'' @ script_file kind)"
  using assms module_script[of package "backend_file kind" "script_file kind" disk]
  by (cases kind; simp add: duckdb_backend_def postgres_backend_def mysql_backend_def mssql_backend_def abstract_backend_def isabs_def)

lemma execute_one: "execute_all drv ses [sql] s = execute_statement drv ses sql None s"
  by (simp add: execute_statement_def split: prod.split sum.split)

lemma backend_of_init:
  "bc_init_schema (backend_of drv package kind) disk ses s =
     (case bc_dialect_ddl (backend_of drv package kind) disk of
        Inl e \<Rightarrow> (Inl e, s)
      | Inr script \<Rightarrow> let (r, s1) = init_schema drv kind script ses s in (Inr r, s1))"
  by (cases kind)
     (simp_all add: duckdb_backend_def postgres_backend_def mysql_backend_def mssql_backend_def abstract_backend_def
       init_whole_def init_split_def init_schema_def execute_one[symmetric] split: sum.split del: execute_all.simps)

section \<open>Properties\<close>

text \<open>C37: Every backend runs exactly its own script. On each of the four backends, schema initialisation reads the
  script of that dialect below the package directory, and fails without touching the server when it is not
  there. A script laid out as the four \<open>ddl.sql\<close> files are, as comment lines, blank lines and semicolon-terminated
  statements over one or more lines (within a statement no blank line, no line that begins with a comment marker and no
  other semicolon), reaches DuckDB in one piece and every other server as its statements, each once and
  in order, up to the first the server refuses.\<close>

theorem backends_run_their_scripts:
  assumes "is_directory package" and "list_all item_ok items"
  shows "(disk (package @ ''/database/'' @ script_file kind) = None \<longrightarrow>
      bc_init_schema (backend_of drv package kind) disk ses s = (Inl FileNotFoundError, s)) \<and>
    (disk (package @ ''/database/'' @ script_file kind) = Some (script_of items) \<longrightarrow>
      bc_init_schema (backend_of drv package kind) disk ses s =
        (let (r, s') = execute_all drv ses
            (if kind = DUCKDB then [script_of items] else concat (map statement_text items)) s
         in (Inr r, s')))"
proof -
  note start = backend_of_init[of drv package kind disk ses s, unfolded backend_of_ddl[OF assms(1)] open_read_def]
  show ?thesis
    using start by (cases kind) (simp_all add: init_schema_def ddl_statements_script[OF assms(2)] del: execute_all.simps)
qed

text \<open>Some of the opening comment and the first statement of \<open>mssql/ddl.sql\<close>, and one more.\<close>

definition mssql_products :: "string list" where
  "mssql_products =
     [''IF OBJECT_ID(N'' @ squoted ''products'' @ '', N'' @ squoted ''U'' @ '') IS NULL'',
      ''CREATE TABLE products ('',
      ''    id VARCHAR(255) PRIMARY KEY,'',
      ''    name VARCHAR(255) NOT NULL,'',
      ''    description NVARCHAR(MAX),'',
      ''    base_version VARCHAR(255) NOT NULL DEFAULT '' @ squoted ''0.0.0'' @ '','',
      ''    bump_policy VARCHAR(255) NOT NULL DEFAULT '' @ squoted ''legacy'' @ '','',
      ''    created_at DATETIME2 DEFAULT SYSUTCDATETIME()'',
      '')'']"

definition mssql_excerpt :: "ddl_item list" where
  "mssql_excerpt =
     [Comment [],
      Comment '' pymssql runs one batch at a time, so MssqlBackend.init_schema splits'',
      Comment '' this script and runs each statement individually.'',
      Blank [], Statement mssql_products, Blank [], Statement [''DROP TABLE u'']]"

theorem backends_run_their_scripts_witness:
  "log_sql (snd (bc_init_schema (backend_of logging_driver ''/srv/app'' MSSQL)
     [''/srv/app/database/mssql/ddl.sql'' \<mapsto> script_of mssql_excerpt]
     (session_of MSSQL 1) \<lparr>log_live = [1], log_sql = []\<rparr>)) =
   [join [newline] mssql_products, ''DROP TABLE u'']"
proof -
  let ?disk = "[''/srv/app/database/mssql/ddl.sql'' \<mapsto> script_of mssql_excerpt] :: disk"
  let ?s = "\<lparr>log_live = [1 :: nat], log_sql = []\<rparr>" and ?ses = "session_of MSSQL (1 :: nat)"
  have dir: "is_directory ''/srv/app''" by (simp add: is_directory_def)
  have ok: "list_all item_ok mssql_excerpt" by code_simp
  have rendered: "session_statement PYFORMAT TSQL (join [newline] mssql_products) = join [newline] mssql_products"
    "session_statement PYFORMAT TSQL ''DROP TABLE u'' = ''DROP TABLE u''"
    by code_simp+
  have "concat (map statement_text mssql_excerpt) = [join [newline] mssql_products, ''DROP TABLE u'']"
    by (simp add: mssql_excerpt_def)
  then have run: "execute_all logging_driver ?ses (concat (map statement_text mssql_excerpt)) ?s =
      (Inr (), ?s\<lparr>log_sql := [join [newline] mssql_products, ''DROP TABLE u'']\<rparr>)"
    using rendered by (simp add: session_execute_def session_of_def adapter_execute_def logging_driver_def)
  have "?disk (''/srv/app'' @ ''/database/'' @ script_file MSSQL) = Some (script_of mssql_excerpt)" by simp
  with conjunct2[OF backends_run_their_scripts[OF dir ok, of ?disk MSSQL logging_driver ?ses ?s]] run show ?thesis
    by (simp del: execute_all.simps)
qed

end
