(* ===== verification/Handles.thy ===== *)
theory Handles
  imports Backend_Class Sign_In
begin

text \<open>
  The thin layers over third-party objects: \<open>connections/db_result.py\<close> over a driver's cursor,
  \<open>connections/pymssql_connection.py\<close>, \<open>auth/token_service.py\<close> over SHA-256 and the random
  source, \<open>auth/password_hasher.py\<close> over argon2, \<open>models/types/ulid_id.py\<close>,
  \<open>openapi/app_metadata.py\<close>, and the dependencies that read the application state. The objects are
  parameters; the lemmas connect the layers to the operations of \<open>Auth\<close>.
\<close>

section \<open>The result of a statement\<close>

text \<open>What a cursor's \<open>rowcount\<close> may be: no such attribute, an int, or anything else.\<close>

datatype rowcount_attribute = NoRowcount | IntRowcount int | OtherRowcount

record ('k, 'row) cursor_methods =
  cur_fetchone :: "'k \<Rightarrow> 'row option \<times> 'k"
  cur_fetchall :: "'k \<Rightarrow> 'row list \<times> 'k"
  cur_description :: "'k \<Rightarrow> string list option"
  cur_rowcount :: "'k \<Rightarrow> rowcount_attribute"

definition result_fetchone :: "('k, 'row) cursor_methods \<Rightarrow> 'k \<Rightarrow> 'row option \<times> 'k" where
  "result_fetchone methods cursor = cur_fetchone methods cursor"

definition result_fetchall :: "('k, 'row) cursor_methods \<Rightarrow> 'k \<Rightarrow> 'row list \<times> 'k" where
  "result_fetchall methods cursor = cur_fetchall methods cursor"

definition result_description :: "('k, 'row) cursor_methods \<Rightarrow> 'k \<Rightarrow> string list option" where
  "result_description methods cursor = cur_description methods cursor"

definition result_rowcount :: "('k, 'row) cursor_methods \<Rightarrow> 'k \<Rightarrow> int" where
  "result_rowcount methods cursor =
     (case cur_rowcount methods cursor of IntRowcount n \<Rightarrow> n | NoRowcount \<Rightarrow> -1 | OtherRowcount \<Rightarrow> -1)"

text \<open>\<open>PyMssqlConnection.execute\<close>, line by line the same as PyMySQL's adapter.\<close>

definition pymssql_execute ::
  "('c, 'h, 's) driver \<Rightarrow> 'c \<Rightarrow> string \<Rightarrow> string list option \<Rightarrow> 's \<Rightarrow> 'h outcome \<times> 's" where
  "pymssql_execute drv connection sql params s =
     (let (opened, s1) = drv_cursor drv connection s
      in case opened of
           Inl e \<Rightarrow> (Inl e, s1)
         | Inr cursor \<Rightarrow>
             let (ran, s2) = (case params of
                   None \<Rightarrow> drv_cursor_execute drv cursor sql None s1
                 | Some values \<Rightarrow> drv_cursor_execute drv cursor sql (Some values) s1)
             in (case ran of Inl e \<Rightarrow> (Inl e, s2) | Inr _ \<Rightarrow> (Inr cursor, s2)))"

lemma pymssql_is_adapter: "pymssql_execute = adapter_execute"
  by (intro ext) (simp add: pymssql_execute_def adapter_execute_def split: prod.split sum.split option.split)

section \<open>Tokens\<close>

text \<open>\<open>token_urlsafe\<close> is the random source, \<open>sha256\<close> the hex digest of bytes, \<open>utf8\<close> the encoder.\<close>

record token_service =
  ts_entropy_bytes :: int

definition token_service_init :: "int option \<Rightarrow> token_service" where
  "token_service_init entropy_bytes =
     \<lparr>ts_entropy_bytes = (case entropy_bytes of None \<Rightarrow> 32 | Some n \<Rightarrow> n)\<rparr>"

definition generate_token :: "(int \<Rightarrow> string) \<Rightarrow> token_service \<Rightarrow> string" where
  "generate_token token_urlsafe ts = token_urlsafe (ts_entropy_bytes ts)"

definition hash_token :: "('bytes \<Rightarrow> string) \<Rightarrow> (string \<Rightarrow> 'bytes) \<Rightarrow> string \<Rightarrow> string" where
  "hash_token sha256 utf8 token = sha256 (utf8 token)"

definition compare_token :: "('bytes \<Rightarrow> string) \<Rightarrow> (string \<Rightarrow> 'bytes) \<Rightarrow> string \<Rightarrow> string \<Rightarrow> bool outcome" where
  "compare_token sha256 utf8 token token_hash = compare_digest (hash_token sha256 utf8 token) token_hash"

section \<open>Passwords\<close>

datatype argon_error = VerifyMismatchError | OtherArgonError

text \<open>\<open>argon\<close> is \<open>argon2.PasswordHasher.verify\<close>: it answers or raises.\<close>

definition hash_password :: "(string \<Rightarrow> string) \<Rightarrow> string \<Rightarrow> string" where
  "hash_password argon_hash password = argon_hash password"

definition verify_password ::
  "(string \<Rightarrow> string \<Rightarrow> argon_error + bool) \<Rightarrow> string \<Rightarrow> string \<Rightarrow> argon_error + bool" where
  "verify_password argon password_hash password =
     (case argon password_hash password of
        Inr answer \<Rightarrow> Inr answer
      | Inl VerifyMismatchError \<Rightarrow> Inr False
      | Inl e \<Rightarrow> Inl e)"

section \<open>Identifiers, metadata, dependencies\<close>

definition new_ulid :: "'ulid \<Rightarrow> ('ulid \<Rightarrow> string) \<Rightarrow> string" where
  "new_ulid fresh render = render fresh"

definition validate_ulid :: "(string \<Rightarrow> 'e + 'ulid) \<Rightarrow> string \<Rightarrow> string outcome" where
  "validate_ulid from_str field_value =
     (case from_str field_value of Inl _ \<Rightarrow> Inl ValueError | Inr _ \<Rightarrow> Inr field_value)"

text \<open>\<open>installed\<close> looks a distribution up in the installed packages' metadata.\<close>

definition app_version :: "(string \<Rightarrow> string option) \<Rightarrow> string" where
  "app_version installed = (case installed ''lavs'' of Some v \<Rightarrow> v | None \<Rightarrow> ''0.0.0'')"

definition get_db_connection :: "app_state \<Rightarrow> database" where
  "get_db_connection st = app_db st"

definition get_event_bus :: "app_state \<Rightarrow> event_bus" where
  "get_event_bus st = app_bus st"

section \<open>Enough for the account routes\<close>

text \<open>
  A token's own digest compares equal, another token's only if the digests collide; a hex digest is ASCII,
  so the comparison never raises.
\<close>

lemma compare_token_exact:
  assumes "\<And>b. is_ascii (sha256 b)"
  shows "compare_token sha256 utf8 t (hash_token sha256 utf8 u) = Inr (sha256 (utf8 t) = sha256 (utf8 u))"
  using assms by (simp add: compare_token_def hash_token_def compare_digest_def)

text \<open>The password check of \<open>Auth\<close> is \<open>verify_password\<close> on hashes argon2 can read.\<close>

lemma login_checks_password:
  assumes "\<And>h p. argon h p \<noteq> Inl OtherArgonError" and "pw_ok = (\<lambda>h p. verify_password argon h p = Inr True)"
  shows "verify_password argon h p = Inr (pw_ok h p)"
proof (cases "argon h p")
  case (Inl e)
  with assms(1)[of h p] show ?thesis by (cases e) (simp_all add: verify_password_def assms(2))
next
  case (Inr b)
  then show ?thesis by (simp add: verify_password_def assms(2))
qed

end
