(* ===== verification/Url.thy ===== *)
theory Url
  imports Backends
begin

text \<open>
  The two functions of \<open>urllib.parse\<close> that \<open>_kwargs_from_dsn\<close> of the MySQL and SQL Server backends
  is built on, \<open>urlsplit\<close> with the properties it reads off the result and \<open>unquote\<close>, and what
  the backends make of a DSN: a DSN assembled from quoted credentials is taken apart into exactly
  what it was assembled from. The functions are given for ASCII text without brackets, where
  neither Unicode normalisation nor the address syntax of IPv6 plays a part.
\<close>

section \<open>Splitting a URL\<close>

definition is_url_text :: "string \<Rightarrow> bool" where
  "is_url_text s \<longleftrightarrow> is_ascii s \<and> CHR ''['' \<notin> set s \<and> CHR '']'' \<notin> set s"

text \<open>\<open>s.partition(sep)\<close> and \<open>s.rpartition(sep)\<close>; the separator's place is a boolean.\<close>

definition partition_at :: "char \<Rightarrow> string \<Rightarrow> string \<times> bool \<times> string" where
  "partition_at sep s =
     (takeWhile (\<lambda>c. c \<noteq> sep) s, sep \<in> set s, tl (dropWhile (\<lambda>c. c \<noteq> sep) s))"

definition rpartition_at :: "char \<Rightarrow> string \<Rightarrow> string \<times> bool \<times> string" where
  "rpartition_at sep s =
     (rev (tl (dropWhile (\<lambda>c. c \<noteq> sep) (rev s))), sep \<in> set s, rev (takeWhile (\<lambda>c. c \<noteq> sep) (rev s)))"

definition is_letter :: "char \<Rightarrow> bool" where
  "is_letter c \<longleftrightarrow> (65 \<le> code c \<and> code c \<le> 90) \<or> (97 \<le> code c \<and> code c \<le> 122)"

definition is_scheme_char :: "char \<Rightarrow> bool" where
  "is_scheme_char c \<longleftrightarrow> is_letter c \<or> is_digit c \<or> c \<in> set ''+-.''"

definition url_clean :: "string \<Rightarrow> string" where
  "url_clean s = filter (\<lambda>c. code c \<notin> {9, 10, 13}) (dropWhile (\<lambda>c. code c \<le> 32) s)"

definition without_scheme :: "string \<Rightarrow> string" where
  "without_scheme s =
     (let (before, found, rest) = partition_at (CHR '':'') s
      in if found \<and> before \<noteq> [] \<and> is_letter (hd before) \<and> list_all is_scheme_char before then rest else s)"

definition split_netloc :: "string \<Rightarrow> string \<times> string" where
  "split_netloc s =
     (if take 2 s = ''//''
      then (takeWhile (\<lambda>c. c \<notin> set ''/?#'') (drop 2 s), dropWhile (\<lambda>c. c \<notin> set ''/?#'') (drop 2 s))
      else ([], s))"

definition netloc_username :: "string \<Rightarrow> string option" where
  "netloc_username netloc =
     (let (userinfo, have_info, _) = rpartition_at (CHR ''@'') netloc
      in if have_info then Some (fst (partition_at (CHR '':'') userinfo)) else None)"

definition netloc_password :: "string \<Rightarrow> string option" where
  "netloc_password netloc =
     (let (userinfo, have_info, _) = rpartition_at (CHR ''@'') netloc;
          (_, have_password, password) = partition_at (CHR '':'') userinfo
      in if have_info \<and> have_password then Some password else None)"

definition netloc_hostinfo :: "string \<Rightarrow> string \<times> string" where
  "netloc_hostinfo netloc =
     (let (_, _, hostinfo) = rpartition_at (CHR ''@'') netloc; (hostname, _, port) = partition_at (CHR '':'') hostinfo
      in (hostname, port))"

definition netloc_hostname :: "string \<Rightarrow> string option" where
  "netloc_hostname netloc =
     (let hostname = fst (netloc_hostinfo netloc); (name, zoned, zone) = partition_at (CHR ''%'') hostname
      in if hostname = [] then None else Some (lower name @ (if zoned then CHR ''%'' # zone else [])))"

definition netloc_port :: "string \<Rightarrow> int option outcome" where
  "netloc_port netloc =
     (let port = snd (netloc_hostinfo netloc)
      in if port = [] then Inr None
         else if list_all is_digit port
         then (case parse_nat port of
                 None \<Rightarrow> Inl ValueError
               | Some n \<Rightarrow> if n \<le> 65535 then Inr (Some (int n)) else Inl ValueError)
         else Inl ValueError)"

definition url_split :: "string \<Rightarrow> url_parts" where
  "url_split s =
     (let (netloc, rest) = split_netloc (without_scheme (url_clean s));
          path = fst (partition_at (CHR ''?'') (fst (partition_at (CHR ''#'') rest)))
      in \<lparr>up_hostname = netloc_hostname netloc, up_port = netloc_port netloc,
          up_username = netloc_username netloc, up_password = netloc_password netloc, up_path = path\<rparr>)"

section \<open>Percent escapes\<close>

definition hex_val :: "char \<Rightarrow> nat option" where
  "hex_val c =
     (if is_digit c then Some (digit_val c)
      else if 65 \<le> code c \<and> code c \<le> 70 then Some (code c - 55)
      else if 97 \<le> code c \<and> code c \<le> 102 then Some (code c - 87)
      else None)"

text \<open>\<open>None\<close> where an escape is not ASCII and the bytes would have to be decoded.\<close>

fun unquote_ascii :: "string \<Rightarrow> string option" where
  "unquote_ascii [] = Some []"
| "unquote_ascii (c # s) =
     (case (c = CHR ''%'', s) of
        (True, a # b # s') \<Rightarrow>
          (case (hex_val a, hex_val b) of
             (Some h, Some l) \<Rightarrow>
               if 16 * h + l < 128 then map_option ((#) (char_of (16 * h + l))) (unquote_ascii s') else None
           | _ \<Rightarrow> map_option ((#) c) (unquote_ascii s))
      | _ \<Rightarrow> map_option ((#) c) (unquote_ascii s))"

text \<open>\<open>percent_quote(s, safe='')\<close>, what a deployment applies to a user name or password it puts into a DSN.\<close>

definition is_unreserved :: "char \<Rightarrow> bool" where
  "is_unreserved c \<longleftrightarrow> is_letter c \<or> is_digit c \<or> c \<in> set ''_.-~''"

definition hex_upper :: "nat \<Rightarrow> char" where
  "hex_upper n = ''0123456789ABCDEF'' ! n"

definition quote_char :: "char \<Rightarrow> string" where
  "quote_char c =
     (if is_unreserved c then [c] else [CHR ''%'', hex_upper (code c div 16), hex_upper (code c mod 16)])"

definition percent_quote :: "string \<Rightarrow> string" where
  "percent_quote s = concat (map quote_char s)"

lemma hex_upper_val: "n < 16 \<Longrightarrow> hex_val (hex_upper n) = Some n"
  by (simp add: less_Suc_eq numeral_eq_Suc) (auto simp: hex_upper_def hex_val_def is_digit_def digit_val_def code_def)

lemma unquote_quote: "is_ascii s \<Longrightarrow> unquote_ascii (percent_quote s) = Some s"
proof (induction s)
  case (Cons c s)
  have c: "code c < 128" "is_ascii s" using Cons.prems by (simp_all add: is_ascii_def)
  then have rest: "unquote_ascii (concat (map quote_char s)) = Some s" using Cons.IH by (simp add: percent_quote_def)
  show ?case
  proof (cases "is_unreserved c")
    case True
    then have "c \<noteq> CHR ''%''" by (auto simp: is_unreserved_def is_letter_def is_digit_def code_def)
    with True rest show ?thesis by (simp add: percent_quote_def quote_char_def)
  next
    case False
    have h: "code c div 16 < 16" "code c mod 16 < 16" using c(1) by simp_all
    have "16 * (code c div 16) + code c mod 16 = code c" by simp
    moreover have "char_of (code c) = c" by (simp add: code_def)
    ultimately show ?thesis using False rest c(1) by (simp add: percent_quote_def quote_char_def hex_upper_val[OF h(1)] hex_upper_val[OF h(2)])
  qed
qed (simp add: percent_quote_def)

lemma quote_text: "is_ascii s \<Longrightarrow> c \<in> set (percent_quote s) \<Longrightarrow> is_unreserved c \<or> c = CHR ''%''"
proof -
  have hex: "n < 16 \<Longrightarrow> is_unreserved (hex_upper n)" for n
    by (simp add: less_Suc_eq numeral_eq_Suc) (auto simp: hex_upper_def is_unreserved_def is_letter_def is_digit_def code_def)
  assume "is_ascii s" "c \<in> set (percent_quote s)"
  then show ?thesis
    by (auto simp: percent_quote_def quote_char_def is_ascii_def list_all_iff hex split: if_splits)
qed

section \<open>A DSN taken apart\<close>

lemma partition_at_first [simp]: "sep \<notin> set a \<Longrightarrow> partition_at sep (a @ sep # b) = (a, True, b)"
proof -
  assume "sep \<notin> set a"
  then have "takeWhile (\<lambda>c. c \<noteq> sep) (a @ sep # b) = a \<and> dropWhile (\<lambda>c. c \<noteq> sep) (a @ sep # b) = sep # b"
    by (induction a) auto
  then show ?thesis by (simp add: partition_at_def)
qed

lemma partition_at_none [simp]: "sep \<notin> set a \<Longrightarrow> partition_at sep a = (a, False, [])"
proof -
  assume "sep \<notin> set a"
  then have "takeWhile (\<lambda>c. c \<noteq> sep) a = a" "dropWhile (\<lambda>c. c \<noteq> sep) a = []" by (induction a) auto
  with \<open>sep \<notin> set a\<close> show ?thesis unfolding partition_at_def by (simp only: list.sel)
qed

lemma rpartition_at_last [simp]: "sep \<notin> set b \<Longrightarrow> rpartition_at sep (a @ sep # b) = (a, True, b)"
  using partition_at_first[of sep "rev b" "rev a"] by (simp add: rpartition_at_def partition_at_def)

definition is_host :: "string \<Rightarrow> bool" where
  "is_host s \<longleftrightarrow> s \<noteq> [] \<and> list_all (\<lambda>c. (97 \<le> code c \<and> code c \<le> 122) \<or> is_digit c \<or> c \<in> set ''.-'') s"

definition is_database_name :: "string \<Rightarrow> bool" where
  "is_database_name s \<longleftrightarrow> s \<noteq> [] \<and> hd s \<noteq> CHR ''/'' \<and>
     list_all (\<lambda>c. 32 < code c \<and> code c < 127 \<and> c \<notin> set ''?#[]'') s"

definition dsn_of :: "string \<Rightarrow> string \<Rightarrow> string \<Rightarrow> string \<Rightarrow> nat \<Rightarrow> string \<Rightarrow> string" where
  "dsn_of scheme user password host port database =
     scheme @ ''://'' @ percent_quote user @ '':'' @ percent_quote password @ ''@'' @ host @ '':'' @ str_nat port @ ''/'' @ database"

definition dsn_netloc :: "string \<Rightarrow> string \<Rightarrow> string \<Rightarrow> nat \<Rightarrow> string" where
  "dsn_netloc user password host port = (percent_quote user @ CHR '':'' # percent_quote password) @ CHR ''@'' # host @ CHR '':'' # str_nat port"

lemma plain_chars:
  "is_unreserved c \<Longrightarrow> 32 < code c \<and> code c < 127 \<and> c \<notin> set ''?#[]/:@%''"
  "is_digit c \<Longrightarrow> 32 < code c \<and> code c < 127 \<and> c \<notin> set ''?#[]/:@%''"
  "(97 \<le> code c \<and> code c \<le> 122) \<or> is_digit c \<or> c \<in> set ''.-'' \<Longrightarrow>
     32 < code c \<and> code c < 127 \<and> c \<notin> set ''?#[]/:@%''"
  "is_letter c \<Longrightarrow> 32 < code c \<and> code c < 127 \<and> c \<notin> set ''?#[]/:@%''"
  by (auto simp: is_unreserved_def is_letter_def is_digit_def code_def)

lemma quote_chars: "is_ascii s \<Longrightarrow> c \<in> set (percent_quote s) \<Longrightarrow> 32 < code c \<and> code c < 127 \<and> c \<notin> set ''?#[]/:@''"
  using quote_text[of s c] plain_chars(1)[of c] by (auto simp: code_def)

lemma host_chars: "is_host s \<Longrightarrow> c \<in> set s \<Longrightarrow> 32 < code c \<and> code c < 127 \<and> c \<notin> set ''?#[]/:@%''"
  using plain_chars(3)[of c] by (auto simp: is_host_def list_all_iff)

lemma port_chars: "c \<in> set (str_nat n) \<Longrightarrow> 32 < code c \<and> code c < 127 \<and> c \<notin> set ''?#[]/:@%''"
  using plain_chars(2)[of c] str_nat_digits by blast

lemma netloc_chars:
  assumes "is_ascii user" "is_ascii password" "is_host host" "c \<in> set (dsn_netloc user password host port)"
  shows "32 < code c \<and> code c < 127 \<and> c \<notin> set ''?#[]/''"
proof -
  consider "c \<in> set (percent_quote user)" | "c \<in> set (percent_quote password)" | "c \<in> set host" | "c \<in> set (str_nat port)" | "c \<in> set '':@''"
    using assms(4) by (auto simp: dsn_netloc_def)
  then show ?thesis
    using quote_chars[OF assms(1), of c] quote_chars[OF assms(2), of c] host_chars[OF assms(3), of c] port_chars[of c port]
    by cases (auto simp: code_def)
qed

lemma lower_host: "is_host s \<Longrightarrow> lower s = s"
proof -
  have "lower_char c = c" if "(97 \<le> code c \<and> code c \<le> 122) \<or> is_digit c \<or> c \<in> set ''.-''" for c
    using that by (auto simp: lower_char_def is_digit_def code_def)
  then show "is_host s \<Longrightarrow> lower s = s" by (auto simp: is_host_def lower_def list_all_iff intro: map_idI)
qed

lemma netloc_parts:
  assumes "is_ascii user" "is_ascii password" "is_host host" "port \<le> 65535"
  defines "n \<equiv> dsn_netloc user password host port"
  shows "netloc_username n = Some (percent_quote user)" "netloc_password n = Some (percent_quote password)"
    "netloc_hostname n = Some host" "netloc_port n = Inr (Some (int port))"
proof -
  have no: "CHR ''@'' \<notin> set (host @ CHR '':'' # str_nat port)" "CHR '':'' \<notin> set (percent_quote user)" "CHR '':'' \<notin> set host"
    "CHR ''%'' \<notin> set host"
    using host_chars[OF assms(3)] port_chars quote_chars[OF assms(1)] by fastforce+
  have info: "rpartition_at (CHR ''@'') n = (percent_quote user @ CHR '':'' # percent_quote password, True, host @ CHR '':'' # str_nat port)"
    unfolding n_def dsn_netloc_def by (rule rpartition_at_last[OF no(1)])
  note cred = partition_at_first[OF no(2), of "percent_quote password"] and addr = partition_at_first[OF no(3), of "str_nat port"]
  show "netloc_username n = Some (percent_quote user)" "netloc_password n = Some (percent_quote password)"
    by (simp_all add: netloc_username_def netloc_password_def info cred)
  have h: "netloc_hostinfo n = (host, str_nat port)" by (simp add: netloc_hostinfo_def info addr)
  show "netloc_hostname n = Some host"
    using assms(3) no(4) by (simp add: netloc_hostname_def h lower_host) (simp add: is_host_def)
  show "netloc_port n = Inr (Some (int port))"
    using assms(4) str_nat_digits[of port] by (simp add: netloc_port_def h list_all_iff)
qed

definition is_scheme :: "string \<Rightarrow> bool" where
  "is_scheme s \<longleftrightarrow> s \<noteq> [] \<and> list_all is_letter s"

lemma url_split_dsn:
  assumes "is_scheme scheme" "is_ascii user" "is_ascii password" "is_host host" "port \<le> 65535" "is_database_name db"
  shows "url_split (dsn_of scheme user password host port db) =
    \<lparr>up_hostname = Some host, up_port = Inr (Some (int port)), up_username = Some (percent_quote user),
     up_password = Some (percent_quote password), up_path = CHR ''/'' # db\<rparr>"
    and "is_url_text (dsn_of scheme user password host port db)"
proof -
  let ?n = "dsn_netloc user password host port" and ?d = "dsn_of scheme user password host port db"
  have d: "?d = scheme @ CHR '':'' # ''//'' @ ?n @ CHR ''/'' # db" by (simp add: dsn_of_def dsn_netloc_def)
  have scheme: "\<forall>c\<in>set scheme. is_letter c" "scheme \<noteq> []" using assms(1) by (simp_all add: is_scheme_def list_all_iff)
  have dbs: "\<forall>c\<in>set db. 32 < code c \<and> code c < 127 \<and> c \<notin> set ''?#[]''"
    using assms(6) by (simp add: is_database_name_def list_all_iff)
  note net = netloc_chars[OF assms(2-4), of _ port]
  have chars: "32 < code c \<and> code c < 127 \<and> c \<notin> set ''[]''" if c: "c \<in> set ?d" for c
  proof -
    consider "c \<in> set scheme" | "c \<in> set ?n" | "c \<in> set db" | "c \<in> set '':/''" using c by (auto simp: d)
    then show ?thesis
    proof cases
      case 1
      with scheme(1) plain_chars(4)[of c] show ?thesis by simp
    next
      case 2
      from net[OF this] show ?thesis by simp
    next
      case 3
      with dbs show ?thesis by simp
    next
      case 4
      then show ?thesis by (auto simp: code_def)
    qed
  qed
  show "is_url_text ?d" using chars by (force simp: is_url_text_def is_ascii_def list_all_iff)
  obtain x xs where x: "scheme = x # xs" using scheme(2) by (cases scheme) auto
  then have "\<not> code x \<le> 32" using scheme(1) plain_chars(4)[of x] by simp
  then have "dropWhile (\<lambda>c. code c \<le> 32) ?d = ?d" unfolding d by (simp add: x)
  moreover have "filter (\<lambda>c. code c \<notin> {9, 10, 13}) ?d = ?d" using chars by (fastforce simp: filter_id_conv)
  ultimately have clean: "url_clean ?d = ?d" by (simp add: url_clean_def)
  have "CHR '':'' \<notin> set scheme" using scheme(1) plain_chars(4) by fastforce
  from partition_at_first[OF this, of "''//'' @ ?n @ CHR ''/'' # db"] scheme
  have rest: "without_scheme ?d = ''//'' @ ?n @ CHR ''/'' # db"
    by (simp add: without_scheme_def d list_all_iff is_scheme_char_def)
  have stop: "takeWhile (\<lambda>c. c \<notin> set ''/?#'') (?n @ CHR ''/'' # db) = ?n"
    "dropWhile (\<lambda>c. c \<notin> set ''/?#'') (?n @ CHR ''/'' # db) = CHR ''/'' # db"
    using net by (subst takeWhile_append2 dropWhile_append2; force)+
  have split: "split_netloc (''//'' @ ?n @ CHR ''/'' # db) = (?n, CHR ''/'' # db)"
    using stop by (simp add: split_netloc_def numeral_2_eq_2)
  have "CHR ''#'' \<notin> set (CHR ''/'' # db)" "CHR ''?'' \<notin> set (CHR ''/'' # db)" using dbs by auto
  from partition_at_none[OF this(1)] partition_at_none[OF this(2)]
  have path: "fst (partition_at (CHR ''?'') (fst (partition_at (CHR ''#'') (CHR ''/'' # db)))) = CHR ''/'' # db" by simp
  show "url_split ?d =
    \<lparr>up_hostname = Some host, up_port = Inr (Some (int port)), up_username = Some (percent_quote user),
     up_password = Some (percent_quote password), up_path = CHR ''/'' # db\<rparr>"
    by (simp only: url_split_def clean rest split Let_def prod.case path netloc_parts[OF assms(2-5)])
qed

section \<open>Properties\<close>

text \<open>What the backends rely on of \<open>urllib.parse\<close>.\<close>

definition url_library :: "(string \<Rightarrow> url_parts) \<Rightarrow> (string \<Rightarrow> string) \<Rightarrow> bool" where
  "url_library urlsplit unquote \<longleftrightarrow>
     (\<forall>s. is_url_text s \<longrightarrow> urlsplit s = url_split s) \<and>
     (\<forall>s t. is_ascii s \<longrightarrow> unquote_ascii s = Some t \<longrightarrow> unquote s = t)"



end
