(* ===== verification/Spec2Isabelle.thy ===== *)
theory Spec2Isabelle
  imports Lifespan Schema_Upgrade Completeness Degraded Ledger Live_Events Auth_Traffic Handles Url Introspection
begin

text \<open>
  LAVS core (\<open>src/app\<close>): a service that records products, their components and immutable component
  versions, cuts releases that freeze the active versions of a product, derives the product version
  from the changes and the dependency graph, and streams what happens to browsers. This
  development models the Python core as HOL functions over explicit state and proves what each
  part promises, up to the started application as a whole.

  How the program runs. \<open>main.py\<close> opens one session on the configured backend, runs the
  schema script and the migration of an older flat table, builds the event bus, the mailer, the provider
  registry and the resolver, and lets plugins extend them. A request then meets the rate-limit
  middleware, the principal dependency of its router, the validation of its body, and its handler;
  the handler runs one query object, which executes SQL statement by statement with autocommit, and may
  publish an event. Domain errors are rendered by registered handlers; any other exception is the
  framework's 500.

  The theories, in the order of the layers.

  \<^item> \<open>Prelude\<close>, \<open>Py_Text\<close>, \<open>Json\<close>: Python dictionaries, the SQL statement shapes over row lists,
    \<open>str\<close> and \<open>int\<close>, \<open>json.dumps\<close>; the locales \<open>invariant_system\<close>, \<open>growing_system\<close> and \<open>simulation\<close>.
  \<^item> \<open>Errors\<close>, \<open>Enums\<close>, \<open>Semver\<close>: \<open>errors/\<close>, \<open>models/enums/\<close>, \<open>domain/product_version.py\<close>,
    \<open>domain/change_classifier.py\<close>.
  \<^item> \<open>Dependency_Graph\<close>, \<open>Bump_Propagation\<close>: \<open>domain/dependency_graph.py\<close>, \<open>domain/bump_propagation.py\<close>.
  \<^item> \<open>Database\<close>: the tables of \<open>database/duckdb/ddl.sql\<close>, one record per row; an insert checks primary
    keys, uniqueness, foreign keys and the INTEGER range and answers an error otherwise.
  \<^item> \<open>Responses\<close>, \<open>Catalog\<close>, \<open>Versions\<close>, \<open>Dependencies\<close>, \<open>Releases\<close>, \<open>Release_Reads\<close>, \<open>Timeline\<close>: the
    row mappers and the query objects of \<open>queries/\<close>, each a function from the database (and bus) to an outcome
    and the database (and bus) left behind, also when it raises half-way.
  \<^item> \<open>Ring\<close>, \<open>Event_Bus\<close>, \<open>Sse\<close>, \<open>Mail\<close>: the drop-oldest buffers, \<open>events/event_bus.py\<close> over an explicit store
    of queues, the stream generator of \<open>sse/\<close> as a state machine, the capture mailer.
  \<^item> \<open>Rate_Limiter\<close>, \<open>Security\<close>: \<open>security/\<close>: sliding windows over integer ticks, the middleware, the API key.
  \<^item> \<open>Auth_Store\<close>, \<open>Auth\<close>: users, sessions, tokens; settings, providers, resolver, sign-up, verification, login.
  \<^item> \<open>Routes\<close>: every route of \<open>routers/\<close> and the probes; \<open>api_call\<close> is a parsed request, \<open>serve\<close> one request
    through the middleware, authentication (\<open>dispatch\<close>) and the handlers, \<open>app_state\<close> what \<open>app.state\<close> holds.
  \<^item> \<open>System\<close>, \<open>Guarantees\<close>: the step relation of a started application (requests, stream deliveries and
    disconnections in any order), its invariant, and the theorems about all reachable states.
  \<^item> \<open>Contract\<close>, \<open>Refinement\<close>, \<open>Completeness\<close>: what the service promises as a small state machine over sets,
    the contract state a database stands for, and the two directions of the proof that the application
    implements it. Nothing of the contract occurs in the code; it is the specification.
  \<^item> \<open>Overlap\<close>: several requests in flight, each past the middleware or past its authentication, stepping in any order.
  \<^item> \<open>Interruption\<close>, \<open>Degraded\<close>: the writes of every query that issues more than one, cut off between two of
    them, restarts of the process, and the weaker contract the service keeps under such outages.
  \<^item> \<open>Ledger\<close>, \<open>Live_Events\<close>, \<open>Auth_Traffic\<close>, \<open>Sign_In\<close>: runs of the application watched from one side: the order of a
    product's releases under a clock that does not run backwards, one open stream, how often the account
    routes answer one client, which logins a signed-in user can be traced to.
  \<^item> \<open>Migration\<close>, \<open>Introspection\<close>: \<open>database/migration/\<close> and the boot that runs it; the \<open>information_schema\<close>
    queries behind its gate, over a server of several schemas.
  \<^item> \<open>Configuration\<close>: \<open>configurations/\<close>: the models of \<open>database.yaml\<close> with their validation, the cached load.
  \<^item> \<open>Route_Table\<close>, \<open>Plugins\<close>, \<open>Lifespan\<close>: the declared routes with their dependency trees, \<open>openapi/openapi_customizer.py\<close>,
    \<open>plugins/\<close>, the wiring of the lifespan over what plugins registered, and
    the lifespan as a whole: wiring, migration, serving, clearing.
  \<^item> \<open>Backends\<close>, \<open>Connections\<close>, \<open>Schema_Admin\<close>: \<open>backends/\<close>, \<open>connections/\<close>, \<open>queries/query.py\<close>,
    \<open>database/database_manager.py\<close>: selection, arguments, statement rendering, DDL splitting, sessions over a
    driver parameter, creating and dropping tables. \<open>Backend_Class\<close>: the abstract backend, its four
    subclasses and the scripts they read. \<open>Handles\<close>: the result handle, the token service, the password hasher
    and the dependencies over the application state. \<open>Schema_Upgrade\<close>: \<open>database/duckdb/ddl.sql\<close> as it runs
    on the tables of an earlier version. \<open>Url\<close>: \<open>urlsplit\<close> and \<open>unquote\<close> of the standard library on
    bracket-free ASCII text, for the DSNs of the MySQL and SQL Server backends.

  What the groups of lemmas show.

  \<^item> The contract: every request performs exactly the contract step it asks for and announces it, or
    changes nothing; it is accepted exactly when the contract allows the step; so a run of the application
    is a run of the contract, whose own invariant (acyclic graphs, no retired version active, frozen
    releases) follows without looking at tables.
  \<^item> Overlapping requests: a run in which requests wait between their stages is still a run of the contract over
    valid states, and a handler runs only after an authentication that succeeded while its request was
    in flight.
  \<^item> Outages: cut off between any two writes the store stays valid and no release is lost or changed; the only
    states beyond the contract are a retired version without a successor and a release that pins too
    little; publishing and rolling back can be repeated, a cut with an idempotency key cannot.
  \<^item> The application as a whole: every reachable state keeps the keys, at most one active version
    per component, acyclic graphs inside one product and bounded queues; releases never change; no secured
    route answers without a principal once authentication is configured, and the published
    document marks exactly those routes; handlers of secured routes end in no unexpected exception.
  \<^item> Ledger: product versions never go down, and rise whenever something changed.
  \<^item> Releases: a cut pins exactly the active versions with the documented next version, fails exactly when
    the code means to, replays by key, and reads back as answered.
  \<^item> Propagation: the memoised walk is total on any graph and equals the unique solution of the documented
    rule on acyclic ones; reachability and the cycle guard agree with the transitive closure.
  \<^item> Versions and dependencies: the exact effect of creating, rolling back and linking, with every error.
  \<^item> Limiter: a refinement of the log of all admissions, the memory bound, and the window bound it gives every run
    of the application.
  \<^item> Accounts: fail-closed resolution, no user without a login that checked the password of an active
    account, the life of an account and of a session, uniform login refusals.
  \<^item> Events: a stream announces exactly the accepted changes of its product, in order, with the oldest dropped
    when the client falls 256 behind; frames parse back.
  \<^item> Start-up: the service comes up from a legacy table whatever plugins do and raise (short of a \<open>BaseException\<close>) and never loses a legacy version;
    migration keeps every legacy row or is abandoned; plugins only extend; the schema is created next to what is
    there and dropped in foreign-key order, by the script of the selected backend; an upgrade keeps every row and the
    release rule of products that had no policy; every opened connection is closed.

  Interfaces are locales with an interpretation on the model: \<open>bounded_buffer\<close> (event queues, mailbox),
  \<open>expiring_store\<close> (sessions, verification tokens), \<open>edge_guard\<close> (the cycle check behind adding an edge),
  \<open>level_algebra\<close> (the two level operations behind propagation), \<open>invariant_system\<close> and \<open>growing_system\<close>
  (the bus, a watched stream, the ledger, the traffic of the account routes, the logins, the application with
  atomic and with overlapping requests, the contract and the degraded contract), \<open>simulation\<close> (the application over the
  contract, atomic and overlapping, and with outages over the degraded contract).

  Bounds and fuel. There is no fuel: loops are structural recursions, or functions with a
  termination proof (the reachability stack by the unseen nodes and the stack's length, effective
  levels by the components not yet on the path). Python integers are unbounded \<open>int\<close>; a stored
  version part is checked against 32 bits where the database does it. Queues hold 256 events, the
  mailbox 100 mails, as the code says. Time is a parameter of each call, in integer ticks.

  Parameters, not definitions: argon2, SHA-256, fresh identifiers and tokens, the ULID check, pydantic's
  list of validation errors, the YAML parser and the disk, \<open>urlsplit\<close> and \<open>unquote\<close> (with their documented
  behaviour as the hypothesis \<open>url_library\<close>), the drivers (how they bind parameters is the hypothesis \<open>documented_driver\<close>, which
  states PEP 249's rules), whether the engine alters a table others refer to (\<open>alterable\<close>), plugins (which may return, raise, or
  raise what \<open>except Exception\<close> lets through) and their providers, the OpenAPI
  document the framework generates.

  Not modelled. The web framework beyond the order above (URL matching, content negotiation, the server loop);
  log output; a suspension inside a handler, which the code excludes by running each query without giving way on
  the event loop (requests that overlap between their stages are the subject of \<open>Overlap\<close>, a handler that
  stops half-way that of \<open>Interruption\<close>); a legacy row with a NULL; CPython's limit on the depth of recursion, which the
  propagation over a chain of about a thousand dependencies meets (\<open>effective\<close>); the overflow of \<open>datetime\<close> for a time to live
  of thousands of years; that an event stream subscribes on its first iteration rather than when its handler answers; characters
  beyond the 256 of \<open>char\<close>; the body of the drivers, argon2 and the
  random source behind the wrappers of \<open>Connections\<close> and \<open>Handles\<close>. The TypeScript user interface, the
  Helm chart and the tests are outside the Python core.
\<close>

end
